(* ===== verification/Prelude.thy ===== *)
theory Prelude
  imports Main "HOL-Library.Word"
begin

text \<open>
  What every other theory shares: the machine integers of the C++ code, results that may be
  an error (a C++ \<open>throw\<close>), the loops that stop at the first error, and generic lemmas
  on lists and words.
\<close>

unbundle bit_operations_syntax

section \<open>Machine integers\<close>

type_synonym u8 = "8 word"
type_synonym u16 = "16 word"
type_synonym u32 = "32 word"
type_synonym u64 = "64 word"
type_synonym u128 = "128 word"

named_theorems result_simps \<open>equations of the error-carrying loops\<close>

section \<open>Results\<close>

text \<open>
  A C++ function that may throw returns \<open>'e + 'a\<close>: \<open>Inl\<close> the exception,
  \<open>Inr\<close> the value. \<open>bind_ok\<close> is sequential composition.
\<close>

definition bind_ok :: "'e + 'a \<Rightarrow> ('a \<Rightarrow> 'e + 'b) \<Rightarrow> 'e + 'b" where
  "bind_ok r f = (case r of Inl e \<Rightarrow> Inl e | Inr x \<Rightarrow> f x)"

definition is_ok :: "'e + 'a \<Rightarrow> bool" where
  "is_ok r = (case r of Inl e \<Rightarrow> False | Inr x \<Rightarrow> True)"

definition throw_if :: "bool \<Rightarrow> 'e \<Rightarrow> 'e + unit" where
  "throw_if b e = (if b then Inl e else Inr ())"

lemma bind_ok_Inl [simp]: "bind_ok (Inl e) f = Inl e"
  by (simp add: bind_ok_def)

lemma bind_ok_Inr [simp]: "bind_ok (Inr x) f = f x"
  by (simp add: bind_ok_def)

lemma is_ok_Inl [simp]: "\<not> is_ok (Inl e)"
  by (simp add: is_ok_def)

lemma is_ok_Inr [simp]: "is_ok (Inr x)"
  by (simp add: is_ok_def)

lemma is_okE [elim]:
  assumes "is_ok r"
  obtains x where "r = Inr x"
  using assms by (cases r) auto

lemma bind_ok_eq_Inr_iff: "bind_ok r f = Inr y \<longleftrightarrow> (\<exists>x. r = Inr x \<and> f x = Inr y)"
  by (cases r) auto

lemma bind_ok_eq_InrE:
  assumes "bind_ok r f = Inr y"
  obtains x where "r = Inr x" and "f x = Inr y"
  using assms by (auto simp: bind_ok_eq_Inr_iff)

lemma bind_ok_assoc: "bind_ok (bind_ok r f) g = bind_ok r (\<lambda>x. bind_ok (f x) g)"
  by (cases r) auto

lemma throw_if_True [simp]: "throw_if True e = Inl e"
  by (simp add: throw_if_def)

lemma throw_if_False [simp]: "throw_if False e = Inr ()"
  by (simp add: throw_if_def)

lemma throw_if_eq_Inr_iff [simp]: "throw_if b e = Inr u \<longleftrightarrow> \<not> b"
  by (simp add: throw_if_def)

lemma throw_if_is_ok [simp]: "is_ok (throw_if b e) \<longleftrightarrow> \<not> b"
  by (simp add: throw_if_def)

section \<open>Loops that stop at the first exception\<close>

fun seq_ok :: "('s \<Rightarrow> 'e + 's) list \<Rightarrow> 's \<Rightarrow> 'e + 's" where
  "seq_ok [] s = Inr s"
| "seq_ok (f # fs) s = bind_ok (f s) (seq_ok fs)"

fun fold_ok :: "('a \<Rightarrow> 's \<Rightarrow> 'e + 's) \<Rightarrow> 'a list \<Rightarrow> 's \<Rightarrow> 'e + 's" where
  "fold_ok f [] s = Inr s"
| "fold_ok f (x # xs) s = bind_ok (f x s) (fold_ok f xs)"

fun map_ok :: "('a \<Rightarrow> 'e + 'b) \<Rightarrow> 'a list \<Rightarrow> 'e + 'b list" where
  "map_ok f [] = Inr []"
| "map_ok f (x # xs) = bind_ok (f x) (\<lambda>y. bind_ok (map_ok f xs) (\<lambda>ys. Inr (y # ys)))"

lemma seq_ok_map: "seq_ok (map f xs) s = fold_ok f xs s"
  by (induction xs arbitrary: s) (simp_all add: bind_ok_def split: sum.splits)

lemma fold_ok_append [result_simps]:
  "fold_ok f (xs @ ys) s = bind_ok (fold_ok f xs s) (fold_ok f ys)"
  by (induction xs arbitrary: s) (simp_all add: bind_ok_def split: sum.splits)

lemma fold_ok_invariant:
  assumes "fold_ok f xs s = Inr t" and "P s"
    and "\<And>x s t. x \<in> set xs \<Longrightarrow> P s \<Longrightarrow> f x s = Inr t \<Longrightarrow> P t"
  shows "P t"
  using assms
proof (induction xs arbitrary: s)
  case Nil
  then show ?case by simp
next
  case (Cons x xs)
  from Cons.prems(1) obtain u where u: "f x s = Inr u" "fold_ok f xs u = Inr t"
    by (auto elim: bind_ok_eq_InrE)
  have "P u" using Cons.prems(3) [OF _ Cons.prems(2) u(1)] by simp
  from Cons.IH [OF u(2) this] Cons.prems(3) show ?case by auto
qed

text \<open>Every element of a completed loop was processed, from a state between the first and the last.\<close>

lemma fold_ok_reaches:
  assumes "fold_ok f xs s = Inr t" and "x \<in> set xs"
    and "\<And>s. R s s" and "\<And>s t u. R s t \<Longrightarrow> R t u \<Longrightarrow> R s u"
    and "\<And>x s t. f x s = Inr t \<Longrightarrow> R s t"
  shows "\<exists>s1 s2. R s s1 \<and> f x s1 = Inr s2 \<and> R s2 t"
  using assms(1,2)
proof (induction xs arbitrary: s)
  case Nil
  then show ?case by simp
next
  case (Cons y ys)
  from Cons.prems(1) obtain u where u: "f y s = Inr u" "fold_ok f ys u = Inr t"
    by (auto elim: bind_ok_eq_InrE)
  have step: "R s u" by (rule assms(5) [OF u(1)])
  have rest: "R u t"
    by (rule fold_ok_invariant [OF u(2), of "R u"]) (auto intro: assms(3) assms(4) assms(5))
  show ?case
  proof (cases "x = y")
    case True
    with u rest assms(3) show ?thesis by blast
  next
    case False
    with Cons.prems(2) Cons.IH [OF u(2)] step assms(4) show ?thesis by (metis set_ConsD)
  qed
qed

lemma fold_ok_related:
  assumes "fold_ok f xs s = Inr t"
    and "\<And>s. R s s" and "\<And>s t u. R s t \<Longrightarrow> R t u \<Longrightarrow> R s u"
    and "\<And>x s t. f x s = Inr t \<Longrightarrow> R s t"
  shows "R s t"
  by (rule fold_ok_invariant [OF assms(1), of "R s"]) (auto intro: assms(2-4))

lemma fold_ok_skip:
  "(\<And>x s. x \<in> set xs \<Longrightarrow> f x s = Inr s) \<Longrightarrow> fold_ok f xs s = Inr s"
  by (induction xs) auto

lemma fold_ok_filter:
  "(\<And>x s. x \<in> set xs \<Longrightarrow> \<not> P x \<Longrightarrow> f x s = Inr s) \<Longrightarrow>
   fold_ok f xs s = fold_ok f (filter P xs) s"
proof (induction xs arbitrary: s)
  case Nil
  then show ?case by simp
next
  case (Cons x xs)
  then show ?case by (cases "P x"; cases "f x s") auto
qed

text \<open>The same, when elements are skipped in the states of an invariant only.\<close>

lemma fold_ok_filter_inv:
  assumes "\<And>x s. x \<in> set xs \<Longrightarrow> I s \<Longrightarrow> \<not> P x \<Longrightarrow> f x s = Inr s"
    and "\<And>x s t. I s \<Longrightarrow> f x s = Inr t \<Longrightarrow> I t" and "I s"
  shows "fold_ok f xs s = fold_ok f (filter P xs) s"
  using assms(1,3)
proof (induction xs arbitrary: s)
  case Nil
  then show ?case by simp
next
  case (Cons x xs)
  show ?case
  proof (cases "f x s")
    case (Inl e)
    then have "P x" using Cons.prems by (metis list.set_intros(1) sum.distinct(1))
    then show ?thesis by (simp add: Inl)
  next
    case (Inr t)
    have "fold_ok f xs t = fold_ok f (filter P xs) t"
      using Cons.prems(1) assms(2) [OF Cons.prems(2) Inr] by (intro Cons.IH) auto
    with Inr Cons.prems show ?thesis by (cases "P x") auto
  qed
qed

text \<open>A loop whose every step succeeds under an invariant succeeds.\<close>

lemma fold_ok_total:
  assumes "\<And>x s. x \<in> set xs \<Longrightarrow> I s \<Longrightarrow> \<exists>t. f x s = Inr t \<and> I t" and "I s"
  shows "\<exists>t. fold_ok f xs s = Inr t \<and> I t"
  using assms
proof (induction xs arbitrary: s)
  case Nil
  then show ?case by simp
next
  case (Cons x xs)
  from Cons.prems(1) [of x s] Cons.prems(2) obtain t where "f x s = Inr t" "I t" by auto
  with Cons.IH [of t] Cons.prems(1) show ?case by simp
qed

lemma fold_ok_unit_iff:
  "fold_ok (\<lambda>x u. f x) xs () = Inr v \<longleftrightarrow> (\<forall>x\<in>set xs. is_ok (f x))"
  by (induction xs) (auto simp: bind_ok_def is_ok_def split: sum.splits)

lemma map_ok_eq_Inr_length: "map_ok f xs = Inr ys \<Longrightarrow> length ys = length xs"
  by (induction xs arbitrary: ys) (auto elim!: bind_ok_eq_InrE)

lemma map_ok_eq_Inr_nth:
  "map_ok f xs = Inr ys \<Longrightarrow> i < length xs \<Longrightarrow> f (xs ! i) = Inr (ys ! i)"
proof (induction xs arbitrary: ys i)
  case Nil
  then show ?case by simp
next
  case (Cons x xs)
  then show ?case by (cases i) (auto elim!: bind_ok_eq_InrE)
qed

lemma map_ok_cong_Inr: "(\<And>x. x \<in> set xs \<Longrightarrow> f x = Inr (g x)) \<Longrightarrow> map_ok f xs = Inr (map g xs)"
  by (induction xs) auto

lemma bind_ok_cong_Inr: "(\<And>x. r = Inr x \<Longrightarrow> f x = g x) \<Longrightarrow> bind_ok r f = bind_ok r g"
  by (cases r) auto

section \<open>Runs with fuel\<close>

text \<open>
  Sequencing of runs: no value when the fuel is used up, else an exception or a result.
\<close>

definition run_bind :: "('e + 'a) option \<Rightarrow> ('a \<Rightarrow> ('e + 'b) option) \<Rightarrow> ('e + 'b) option" where
  "run_bind r f = (case r of None \<Rightarrow> None | Some (Inl e) \<Rightarrow> Some (Inl e) | Some (Inr x) \<Rightarrow> f x)"

lemma run_bind_simps [simp]:
  "run_bind None f = None" "run_bind (Some (Inl e)) f = Some (Inl e)" "run_bind (Some (Inr x)) f = f x"
  by (simp_all add: run_bind_def)

lemma run_bind_cong [fundef_cong]:
  "r = r' \<Longrightarrow> (\<And>x. r' = Some (Inr x) \<Longrightarrow> f x = g x) \<Longrightarrow> run_bind r f = run_bind r' g"
  by (auto simp: run_bind_def split: option.splits sum.splits)

lemma run_bind_InrE:
  assumes "run_bind r f = Some (Inr y)"
  obtains x where "r = Some (Inr x)" and "f x = Some (Inr y)"
  using assms by (auto simp: run_bind_def split: option.splits sum.splits)

section \<open>Words\<close>

text \<open>A bit of a word as C++ tests it: \<open>(w >> i) & 1\<close>.\<close>

lemma shift_and_1_iff_bit: "(drop_bit i w AND 1 \<noteq> (0 :: 'a::len word)) \<longleftrightarrow> bit w i"
proof -
  have "drop_bit i w AND 1 = of_bool (bit w i)"
    by (simp add: and_one_eq odd_iff_mod_2_eq_one [symmetric] bit_iff_odd_drop_bit
      mod_2_eq_odd)
  then show ?thesis by simp
qed

lemma unat_u8_less [simp]: "unat (w :: u8) < 256"
  using unsigned_less [of w] by simp

lemma unat_u16_less [simp]: "unat (w :: u16) < 65536"
  using unsigned_less [of w] by simp

lemma unat_u32_less [simp]: "unat (w :: u32) < 4294967296"
  using unsigned_less [of w] by simp

lemma uint_u8_less: "uint (w :: u8) < 256"
  using uint_bounded [of w] by simp

section \<open>Lists\<close>

lemma nth_list_update_if: "i < length xs \<Longrightarrow> xs[i := v] ! j = (if i = j then v else xs ! j)"
  by simp

lemma filter_id_if: "(\<And>x. x \<in> set xs \<Longrightarrow> P x) \<Longrightarrow> filter P xs = xs"
  by (simp add: filter_id_conv)

end
