(* ===== verification/Text_Formats.thy ===== *)
theory Text_Formats
  imports Prelude "HOL-Library.Char_ord" "HOL-Library.List_Lexorder"
begin

text \<open>
  The character classes of \<open>cctype\<close> in the "C" locale and the number formats the tools
  print and read: \<open>std::to_string\<close> (decimal), the stream manipulator \<open>std::hex\<close>
  (lower case, no padding) and padded hexadecimal. A C++ string is a list of characters.
\<close>

section \<open>Characters\<close>

abbreviation (input) newline :: char where "newline \<equiv> CHR 0x0A"

definition is_upper :: "char \<Rightarrow> bool" where
  "is_upper c = (CHR ''A'' \<le> c \<and> c \<le> CHR ''Z'')"

definition is_lower :: "char \<Rightarrow> bool" where
  "is_lower c = (CHR ''a'' \<le> c \<and> c \<le> CHR ''z'')"

definition is_alpha :: "char \<Rightarrow> bool" where
  "is_alpha c = (is_upper c \<or> is_lower c)"

definition is_digit :: "char \<Rightarrow> bool" where
  "is_digit c = (CHR ''0'' \<le> c \<and> c \<le> CHR ''9'')"

definition is_alnum :: "char \<Rightarrow> bool" where
  "is_alnum c = (is_alpha c \<or> is_digit c)"

definition to_lower_char :: "char \<Rightarrow> char" where
  "to_lower_char c = (if is_upper c then char_of (of_char c + 32 :: nat) else c)"

lemmas char_class_defs = is_upper_def is_lower_def is_alpha_def is_digit_def is_alnum_def
  less_eq_char_def

text \<open>The digit value that every reader of the tools computes, -1 for other characters.\<close>

definition digit_value :: "char \<Rightarrow> int" where
  "digit_value c =
     (if CHR ''0'' \<le> c \<and> c \<le> CHR ''9'' then of_char c - 48
      else if CHR ''a'' \<le> c \<and> c \<le> CHR ''f'' then 10 + (of_char c - 97)
      else if CHR ''A'' \<le> c \<and> c \<le> CHR ''F'' then 10 + (of_char c - 65)
      else -1)"

definition digit_char :: "nat \<Rightarrow> char" where
  "digit_char d = (if d < 10 then char_of (48 + d) else char_of (87 + d))"

lemma of_char_less: "of_char (c :: char) < (256 :: nat)"
  by (metis of_char_of char_of_mod_256 mod_less_divisor of_char_mod_256 zero_less_numeral)

lemma of_char_digit_char: "d < 16 \<Longrightarrow> of_char (digit_char d) = (if d < 10 then 48 + d else 87 + d :: nat)"
  by (simp add: digit_char_def)

lemma of_char_int_nat: "(of_char c :: int) = int (of_char c)"
  by (simp add: of_nat_of_char)

lemma digit_value_digit_char [simp]: "d < 16 \<Longrightarrow> digit_value (digit_char d) = int d"
  by (auto simp: digit_value_def less_eq_char_def of_char_int_nat of_char_digit_char)

lemma is_alnum_digit_char [simp]: "d < 16 \<Longrightarrow> is_alnum (digit_char d)"
  by (auto simp: char_class_defs of_char_digit_char)

lemma is_digit_digit_char [simp]: "d < 10 \<Longrightarrow> is_digit (digit_char d)"
  by (auto simp: char_class_defs of_char_digit_char)

section \<open>Numbers\<close>

fun digits_in :: "nat \<Rightarrow> nat \<Rightarrow> string" where
  "digits_in b n =
     (if n < b \<or> b < 2 then [digit_char n] else digits_in b (n div b) @ [digit_char (n mod b)])"

declare digits_in.simps [simp del]

definition decimal :: "nat \<Rightarrow> string" where
  "decimal n = digits_in 10 n"

definition hexadecimal :: "nat \<Rightarrow> string" where
  "hexadecimal n = digits_in 16 n"

definition pad_left :: "nat \<Rightarrow> char \<Rightarrow> string \<Rightarrow> string" where
  "pad_left w c s = replicate (w - length s) c @ s"

lemma digits_in_not_Nil [simp]: "digits_in b n \<noteq> []"
  by (subst digits_in.simps) simp

lemma digits_in_chars:
  assumes "c \<in> set (digits_in b n)" and "2 \<le> b"
  shows "\<exists>d<b. c = digit_char d"
  using assms
proof (induction b n rule: digits_in.induct)
  case (1 b n)
  show ?case
  proof (cases "n < b")
    case True
    with 1 show ?thesis by (subst (asm) (2) digits_in.simps) auto
  next
    case False
    have "n mod b < b" using 1 by simp
    then have last: "c = digit_char (n mod b) \<Longrightarrow> \<exists>d<b. c = digit_char d" by blast
    have "c \<in> set (digits_in b (n div b)) \<or> c = digit_char (n mod b)"
      using 1 False by (subst (asm) (2) digits_in.simps) auto
    then show ?thesis using last 1(1) 1(3) False by auto
  qed
qed

lemma decimal_digits: "c \<in> set (decimal n) \<Longrightarrow> is_digit c"
  using digits_in_chars [of c 10 n] by (auto simp: decimal_def)

lemma hexadecimal_alnum: "c \<in> set (hexadecimal n) \<Longrightarrow> is_alnum c"
  using digits_in_chars [of c 16 n] by (auto simp: hexadecimal_def)

text \<open>
  A reader is a left fold over the digits. \<open>fold_digits\<close> is the value it computes in any
  ring, so it gives the value both of a machine-word accumulator and of an unbounded one.
\<close>

definition fold_digits :: "'a::comm_ring_1 \<Rightarrow> 'a \<Rightarrow> string \<Rightarrow> 'a" where
  "fold_digits b = foldl (\<lambda>a c. a * b + of_int (digit_value c))"

lemma fold_digits_Nil [simp]: "fold_digits b a [] = a"
  by (simp add: fold_digits_def)

lemma fold_digits_Cons [simp]:
  "fold_digits b a (c # s) = fold_digits b (a * b + of_int (digit_value c)) s"
  by (simp add: fold_digits_def)

lemma fold_digits_append: "fold_digits b a (s @ t) = fold_digits b (fold_digits b a s) t"
  by (simp add: fold_digits_def)

lemma fold_digits_digits_in:
  assumes "2 \<le> b" and "b \<le> 16"
  shows "fold_digits (of_nat b) (0 :: 'a::comm_ring_1) (digits_in b n) = of_nat n"
  using assms
proof (induction b n rule: digits_in.induct)
  case (1 b n)
  show ?case
  proof (cases "n < b")
    case True
    with 1 show ?thesis by (subst digits_in.simps) simp
  next
    case False
    with 1 have "fold_digits (of_nat b) (0 :: 'a) (digits_in b (n div b)) = of_nat (n div b)"
      by simp
    moreover have "n mod b < 16" using 1 by (meson mod_less_divisor less_le_trans zero_less_numeral
      less_le_trans [of 0 2 b])
    ultimately have "fold_digits (of_nat b) (0 :: 'a) (digits_in b n) =
        of_nat (n div b) * of_nat b + of_nat (n mod b)"
      using False 1 by (subst digits_in.simps) (simp add: fold_digits_append)
    also have "\<dots> = of_nat (n div b * b + n mod b)" by (simp only: of_nat_add of_nat_mult)
    finally show ?thesis by simp
  qed
qed

section \<open>Lists with separators\<close>

fun join :: "string \<Rightarrow> string list \<Rightarrow> string" where
  "join sep [] = []"
| "join sep [x] = x"
| "join sep (x # xs) = x @ sep @ join sep xs"

section \<open>Associative containers\<close>

text \<open>\<open>emplace\<close> of the map classes keeps the entry that is there.\<close>

definition emplace :: "'k \<Rightarrow> 'v \<Rightarrow> ('k \<times> 'v) list \<Rightarrow> ('k \<times> 'v) list" where
  "emplace k v m = (if map_of m k = None then m @ [(k, v)] else m)"

text \<open>The entries of a \<open>std::map\<close> in the order of its iterators.\<close>

definition ordered :: "('k::linorder \<times> 'v) list \<Rightarrow> ('k \<times> 'v) list" where
  "ordered m = sort_key fst m"

lemma map_of_emplace:
  "map_of (emplace k v m) = (if map_of m k = None then (map_of m)(k \<mapsto> v) else map_of m)"
  by (auto simp: emplace_def map_add_def fun_eq_iff split: option.splits)

lemma distinct_emplace: "distinct (map fst m) \<Longrightarrow> distinct (map fst (emplace k v m))"
  by (auto simp: emplace_def map_of_eq_None_iff)

lemma emplace_new: "k \<notin> fst ` set m \<Longrightarrow> emplace k v m = m @ [(k, v)]"
  by (simp add: emplace_def map_of_eq_None_iff)

lemma set_ordered [simp]: "set (ordered m) = set m"
  by (simp add: ordered_def)

lemma distinct_ordered: "distinct (map fst m) \<Longrightarrow> distinct (map fst (ordered m))"
  by (simp add: ordered_def distinct_map)

lemma map_of_ordered:
  assumes "distinct (map fst m)"
  shows "map_of (ordered m) = map_of m"
  by (rule map_of_eqI) (use assms distinct_ordered [OF assms] in
    \<open>auto simp: map_of_eq_Some_iff fun_eq_iff\<close>)

end
