(* ===== verification/Asm_Lexer.thy ===== *)
theory Asm_Lexer
  imports Text_Formats
begin

text \<open>
  The lexer of the assembler (\<open>assembler/src/lexer.cpp\<close>, \<open>token.h\<close>, \<open>span.h\<close>,
  \<open>error.h\<close>): a cursor over the source with its line and column, one function per
  method. \<open>next_token\<close> and \<open>lex_source\<close> are total; the lemmas give what a run of the lexer
  consumes, where each token's span points and the values of literals.
\<close>

section \<open>Data\<close>

record span =
  span_file :: string
  span_line :: nat
  span_column :: nat
  span_length :: nat

datatype token_kind =
    Identifier | Number | Directive | String_Literal | Comma | Left_Paren | Right_Paren | Colon
  | Hash | Newline | End_Of_File

record token =
  t_kind :: token_kind
  t_text :: string
  t_span :: span
  t_number :: "u32 option"
  t_string :: "string option"

text \<open>An \<open>AssemblerError\<close> carries a span; file access throws a \<open>runtime_error\<close>.\<close>

datatype asm_error = Assembler_Error span string | Runtime_Error string

record lexer =
  source :: string
  filename :: string
  index :: nat
  line :: nat
  column :: nat

definition make_lexer :: "string \<Rightarrow> string \<Rightarrow> lexer" where
  "make_lexer src file = \<lparr>source = src, filename = file, index = 0, line = 1, column = 1\<rparr>"

section \<open>Characters and numbers\<close>

definition to_lower :: "string \<Rightarrow> string" where
  "to_lower text = map to_lower_char text"

definition is_identifier_start :: "char \<Rightarrow> bool" where
  "is_identifier_start c = (is_alpha c \<or> c = CHR ''_'')"

definition is_identifier_char :: "char \<Rightarrow> bool" where
  "is_identifier_char c = (is_alnum c \<or> c = CHR ''_'')"

fun parse_digits :: "int \<Rightarrow> span \<Rightarrow> string \<Rightarrow> u32 \<Rightarrow> asm_error + u32" where
  "parse_digits base sp [] parsed = Inr parsed"
| "parse_digits base sp (c # cs) parsed =
     (let digit = digit_value c in
      if digit < 0 \<or> digit \<ge> base then Inl (Assembler_Error sp ''invalid numeric literal'')
      else parse_digits base sp cs (parsed * of_int base + of_int digit))"

text \<open>The base that a prefix selects, and the digits after it.\<close>

definition split_base :: "string \<Rightarrow> int \<times> string" where
  "split_base value =
     (if value \<noteq> [] \<and> hd value = CHR ''$'' then (16, tl value)
      else if value \<noteq> [] \<and> hd value = CHR ''%'' then (2, tl value)
      else if length value > 2 \<and> value ! 0 = CHR ''0'' \<and> (value ! 1 = CHR ''x'' \<or> value ! 1 = CHR ''X'')
        then (16, drop 2 value)
      else if length value > 2 \<and> value ! 0 = CHR ''0'' \<and> (value ! 1 = CHR ''b'' \<or> value ! 1 = CHR ''B'')
        then (2, drop 2 value)
      else (10, value))"

definition parse_number_literal :: "string \<Rightarrow> span \<Rightarrow> asm_error + u32" where
  "parse_number_literal text sp =
     (let value = (if text \<noteq> [] \<and> hd text = CHR ''#'' then tl text else text);
          (base, digits) = split_base value in
      if digits = [] then Inl (Assembler_Error sp ''invalid numeric literal'')
      else parse_digits base sp digits 0)"

section \<open>The cursor\<close>

definition at_end :: "lexer \<Rightarrow> bool" where
  "at_end lx = (index lx \<ge> length (source lx))"

definition peek :: "lexer \<Rightarrow> char" where
  "peek lx = (if at_end lx then CHR 0x00 else source lx ! index lx)"

definition peek_next :: "lexer \<Rightarrow> char" where
  "peek_next lx =
     (if index lx + 1 \<ge> length (source lx) then CHR 0x00 else source lx ! (index lx + 1))"

text \<open>\<open>Advance\<close> reads the current character; every caller is before the end.\<close>

definition advance :: "lexer \<Rightarrow> lexer" where
  "advance lx =
     (if source lx ! index lx = newline
      then lx\<lparr>index := index lx + 1, line := line lx + 1, column := 1\<rparr>
      else lx\<lparr>index := index lx + 1, column := column lx + 1\<rparr>)"

text \<open>The four loops that advance while the current character satisfies a condition.\<close>

function advance_while :: "(char \<Rightarrow> bool) \<Rightarrow> lexer \<Rightarrow> lexer" where
  "advance_while p lx = (if \<not> at_end lx \<and> p (peek lx) then advance_while p (advance lx) else lx)"
  by pat_completeness auto
termination
  by (relation "measure (\<lambda>(p, lx). length (source lx) - index lx)") (auto simp: at_end_def advance_def)

declare advance_while.simps [simp del]

definition skip_whitespace :: "lexer \<Rightarrow> lexer" where
  "skip_whitespace = advance_while (\<lambda>c. c = CHR '' '' \<or> c = CHR 0x09 \<or> c = CHR 0x0D)"

definition skip_comment :: "lexer \<Rightarrow> lexer" where
  "skip_comment = advance_while (\<lambda>c. c \<noteq> newline)"

definition make_token :: "token_kind \<Rightarrow> nat \<Rightarrow> lexer \<Rightarrow> token" where
  "make_token kind len lx =
     \<lparr>t_kind = kind, t_text = [],
      t_span = \<lparr>span_file = filename lx, span_line = line lx, span_column = column lx,
                span_length = len\<rparr>,
      t_number = None, t_string = None\<rparr>"

text \<open>\<open>source_.substr(start, end - start)\<close>\<close>

definition substring :: "lexer \<Rightarrow> nat \<Rightarrow> nat \<Rightarrow> string" where
  "substring lx start stop = take (stop - start) (drop start (source lx))"

section \<open>Tokens\<close>

definition lex_identifier_or_directive :: "lexer \<Rightarrow> asm_error + token \<times> lexer" where
  "lex_identifier_or_directive lx =
     (let start_column = column lx;
          is_directive = (peek lx = CHR ''.'');
          lx1 = (if is_directive then advance lx else lx);
          start = index lx1 in
      if \<not> is_identifier_start (peek lx1)
      then Inl (Assembler_Error \<lparr>span_file = filename lx1, span_line = line lx1,
                  span_column = start_column, span_length = 1\<rparr> ''expected identifier'')
      else
        let lx2 = advance_while is_identifier_char lx1;
            text = to_lower (substring lx2 start (index lx2));
            len = index lx2 - (if is_directive then start - 1 else start) in
        Inr (\<lparr>t_kind = (if is_directive then Directive else Identifier), t_text = text,
              t_span = \<lparr>span_file = filename lx2, span_line = line lx2,
                        span_column = start_column, span_length = len\<rparr>,
              t_number = None, t_string = None\<rparr>, lx2))"

definition lex_number :: "lexer \<Rightarrow> asm_error + token \<times> lexer" where
  "lex_number lx =
     (let start_column = column lx; start = index lx;
          lx1 = (if peek lx = CHR ''#'' then advance lx else lx);
          lx2 = (if peek lx1 = CHR ''$'' \<or> peek lx1 = CHR ''%'' then advance lx1
                 else if peek lx1 = CHR ''0'' \<and>
                   (peek_next lx1 = CHR ''x'' \<or> peek_next lx1 = CHR ''X'' \<or>
                    peek_next lx1 = CHR ''b'' \<or> peek_next lx1 = CHR ''B'')
                 then advance (advance lx1) else lx1);
          lx3 = advance_while is_alnum lx2;
          text = substring lx3 start (index lx3);
          sp = \<lparr>span_file = filename lx3, span_line = line lx3, span_column = start_column,
                span_length = index lx3 - start\<rparr> in
      bind_ok (parse_number_literal text sp) (\<lambda>value.
        Inr (\<lparr>t_kind = Number, t_text = text, t_span = sp, t_number = Some value,
              t_string = None\<rparr>, lx3)))"

text \<open>
  The loop of \<open>LexString\<close> between the quotes: the characters of the value are collected
  in order, with the start of the literal for the spans of its errors.
\<close>

definition string_error :: "lexer \<Rightarrow> nat \<Rightarrow> nat \<Rightarrow> asm_error" where
  "string_error lx start start_column =
     Assembler_Error \<lparr>span_file = filename lx, span_line = line lx, span_column = start_column,
       span_length = index lx - start\<rparr> ''unterminated string literal''"

function string_loop :: "nat \<Rightarrow> nat \<Rightarrow> string \<Rightarrow> lexer \<Rightarrow> asm_error + string \<times> lexer" where
  "string_loop start start_column value lx =
     (if at_end lx \<or> peek lx = CHR 0x22 then Inr (value, lx)
      else if peek lx = newline then Inl (string_error lx start start_column)
      else if peek lx = CHR 0x5C then
        (let lx1 = advance lx in
         if at_end lx1 then Inl (string_error lx1 start start_column)
         else let escaped = peek lx1 in
           if escaped = CHR 0x22 \<or> escaped = CHR 0x5C
           then string_loop start start_column (value @ [escaped]) (advance lx1)
           else Inl (Assembler_Error \<lparr>span_file = filename lx1, span_line = line lx1,
                       span_column = column lx1, span_length = 1\<rparr> ''invalid escape sequence''))
      else string_loop start start_column (value @ [peek lx]) (advance lx))"
  by pat_completeness auto
termination
  by (relation "measure (\<lambda>(s, c, v, lx). length (source lx) - index lx)")
    (auto simp: at_end_def advance_def split: if_splits)

declare string_loop.simps [simp del]

definition lex_string :: "lexer \<Rightarrow> asm_error + token \<times> lexer" where
  "lex_string lx =
     (let start_column = column lx; start = index lx in
      bind_ok (string_loop start start_column [] (advance lx)) (\<lambda>(value, lx1).
        if at_end lx1 then Inl (string_error lx1 start start_column)
        else
          let lx2 = advance lx1 in
          Inr (\<lparr>t_kind = String_Literal, t_text = substring lx2 start (index lx2),
                t_span = \<lparr>span_file = filename lx2, span_line = line lx2,
                          span_column = start_column, span_length = index lx2 - start\<rparr>,
                t_number = None, t_string = Some value\<rparr>, lx2)))"

section \<open>Progress of the cursor\<close>

text \<open>\<open>later\<close> relates a cursor to one further on in the same source.\<close>

definition later :: "lexer \<Rightarrow> lexer \<Rightarrow> bool" where
  "later lx lx' = (source lx' = source lx \<and> filename lx' = filename lx \<and> index lx \<le> index lx')"

lemma later_refl [simp]: "later lx lx"
  by (simp add: later_def)

lemma later_trans [trans]: "later a b \<Longrightarrow> later b c \<Longrightarrow> later a c"
  by (simp add: later_def)

lemma advance_simps [simp]:
  "source (advance lx) = source lx" "filename (advance lx) = filename lx"
  "index (advance lx) = Suc (index lx)"
  by (simp_all add: advance_def)

lemma later_advance [simp]: "later lx (advance lx)"
  by (simp add: later_def)

lemma later_advance_while [simp]: "later lx (advance_while p lx)"
proof (induction p lx rule: advance_while.induct)
  case (1 p lx)
  show ?case
  proof (cases "\<not> at_end lx \<and> p (peek lx)")
    case True
    with 1 have "later (advance lx) (advance_while p (advance lx))" by simp
    from later_trans [OF later_advance this] True show ?thesis
      by (simp add: advance_while.simps [of p lx])
  next
    case False
    then show ?thesis by (subst advance_while.simps) auto
  qed
qed

lemma later_skip [simp]: "later lx (skip_whitespace lx)" "later lx (skip_comment lx)"
  by (simp_all add: skip_whitespace_def skip_comment_def)

lemma later_index: "later lx lx' \<Longrightarrow> index lx \<le> index lx'"
  and later_source: "later lx lx' \<Longrightarrow> source lx' = source lx"
  by (simp_all add: later_def)

lemma advance_while_starts:
  assumes "\<not> at_end lx" and "p (peek lx)"
  shows "index lx < index (advance_while p lx)"
  using later_index [OF later_advance_while [of "advance lx" p]] assms
  by (simp add: advance_while.simps [of p lx])

section \<open>The token loop\<close>

lemma skip_comment_progress:
  assumes "\<not> at_end lx" and "peek lx = CHR '';''"
  shows "length (source (skip_comment lx)) - index (skip_comment lx) < length (source lx) - index lx"
  using advance_while_starts [of lx "\<lambda>c. c \<noteq> newline"] later_source [OF later_skip(2), of lx] assms
  by (auto simp: skip_comment_def at_end_def)

function next_token :: "lexer \<Rightarrow> asm_error + token \<times> lexer" where
  "next_token lx0 =
     (let lx = skip_whitespace lx0 in
      if at_end lx then Inr (make_token End_Of_File 0 lx, lx)
      else
        let ch = peek lx in
        if ch = newline then
          (let lx1 = advance lx in Inr ((make_token Newline 1 lx1)\<lparr>t_text := [newline]\<rparr>, lx1))
        else if ch = CHR '';'' then next_token (skip_comment lx)
        else if ch = CHR '','' then (let lx1 = advance lx in Inr (make_token Comma 1 lx1, lx1))
        else if ch = CHR ''('' then (let lx1 = advance lx in Inr (make_token Left_Paren 1 lx1, lx1))
        else if ch = CHR '')'' then (let lx1 = advance lx in Inr (make_token Right_Paren 1 lx1, lx1))
        else if ch = CHR '':'' then (let lx1 = advance lx in Inr (make_token Colon 1 lx1, lx1))
        else if ch = CHR 0x22 then lex_string lx
        else if ch = CHR ''.'' then lex_identifier_or_directive lx
        else if is_identifier_start ch then lex_identifier_or_directive lx
        else if ch = CHR ''#'' then
          (if is_identifier_start (peek_next lx)
           then (let lx1 = advance lx in Inr (make_token Hash 1 lx1, lx1))
           else lex_number lx)
        else if ch = CHR ''$'' \<or> ch = CHR ''%'' \<or> is_digit ch then lex_number lx
        else Inl (Assembler_Error \<lparr>span_file = filename lx, span_line = line lx,
               span_column = column lx, span_length = 1\<rparr> ''unexpected character in input''))"
  by pat_completeness auto
termination
proof (relation "measure (\<lambda>lx. length (source lx) - index lx)")
  fix lx0 lx ch
  assume lx: "lx = skip_whitespace lx0" and "\<not> at_end lx" "ch = peek lx" "ch = CHR '';''"
  then have "length (source (skip_comment lx)) - index (skip_comment lx) < length (source lx) - index lx"
    by (intro skip_comment_progress) auto
  moreover have "later lx0 lx" using lx by simp
  then have "length (source lx) - index lx \<le> length (source lx0) - index lx0"
    by (auto simp: later_def)
  ultimately show "(skip_comment lx, lx0) \<in> measure (\<lambda>lx. length (source lx) - index lx)"
    by simp
qed simp

declare next_token.simps [simp del]

text \<open>Every token but the last consumes input, and its cursor is further on in the same source.\<close>

lemma string_loop_cases:
  assumes "string_loop start col v lx = Inr (w, lx')"
  obtains (stop) "at_end lx \<or> peek lx = CHR 0x22" and "w = v" and "lx' = lx"
  | (escape) "\<not> at_end lx" and "peek lx = CHR 0x5C" and "\<not> at_end (advance lx)"
      and "peek (advance lx) = CHR 0x22 \<or> peek (advance lx) = CHR 0x5C"
      and "string_loop start col (v @ [peek (advance lx)]) (advance (advance lx)) = Inr (w, lx')"
  | (plain) "\<not> at_end lx" and "peek lx \<notin> {CHR 0x22, CHR 0x5C, newline}"
      and "string_loop start col (v @ [peek lx]) (advance lx) = Inr (w, lx')"
  using assms
  by (subst (asm) string_loop.simps) (auto simp: Let_def split: if_splits)

lemma string_loop_induct [consumes 1, case_names stop escape plain]:
  assumes "string_loop start col v lx = Inr (w, lx')"
    and "\<And>v lx. at_end lx \<or> peek lx = CHR 0x22 \<Longrightarrow> P v lx v lx"
    and "\<And>v lx w lx'. \<not> at_end lx \<Longrightarrow> peek lx = CHR 0x5C \<Longrightarrow> \<not> at_end (advance lx) \<Longrightarrow>
      peek (advance lx) = CHR 0x22 \<or> peek (advance lx) = CHR 0x5C \<Longrightarrow>
      P (v @ [peek (advance lx)]) (advance (advance lx)) w lx' \<Longrightarrow> P v lx w lx'"
    and "\<And>v lx w lx'. \<not> at_end lx \<Longrightarrow> peek lx \<notin> {CHR 0x22, CHR 0x5C, newline} \<Longrightarrow>
      P (v @ [peek lx]) (advance lx) w lx' \<Longrightarrow> P v lx w lx'"
  shows "P v lx w lx'"
  using assms(1)
proof (induction start col v lx rule: string_loop.induct)
  case (1 start col v lx)
  from "1.prems" show ?case
  proof (cases rule: string_loop_cases)
    case stop
    then show ?thesis using assms(2) by blast
  next
    case escape
    then have "peek lx \<noteq> CHR 0x22" "peek lx \<noteq> newline" by auto
    with escape have "P (v @ [peek (advance lx)]) (advance (advance lx)) w lx'"
      by (intro 1(1)) auto
    with escape assms(3) show ?thesis by blast
  next
    case plain
    then have "P (v @ [peek lx]) (advance lx) w lx'" by (intro 1(2)) auto
    with plain assms(4) show ?thesis by blast
  qed
qed

lemma later_string_loop: "string_loop start col v lx = Inr (w, lx') \<Longrightarrow> later lx lx'"
  by (induction rule: string_loop_induct) (auto simp: later_def)

lemma string_token_later:
  assumes "lex_string lx = Inr (t, lx')"
  shows "later lx lx' \<and> index lx < index lx' \<and> t_kind t = String_Literal"
  using assms
  by (auto simp: lex_string_def Let_def later_def split: if_splits elim!: bind_ok_eq_InrE
    dest!: later_string_loop)

lemma identifier_token_later:
  assumes "lex_identifier_or_directive lx = Inr (t, lx')" and "\<not> at_end lx"
  shows "later lx lx' \<and> index lx < index lx' \<and> t_kind t \<in> {Identifier, Directive}"
proof -
  define lx1 where "lx1 = (if peek lx = CHR ''.'' then advance lx else lx)"
  have lx': "lx' = advance_while is_identifier_char lx1" "t_kind t \<in> {Identifier, Directive}"
      and p: "is_identifier_start (peek lx1)"
    using assms(1) by (auto simp: lex_identifier_or_directive_def lx1_def Let_def split: if_splits)
  have "later lx lx1" by (simp add: lx1_def)
  then have l: "later lx lx'" unfolding lx' by (rule later_trans) simp
  have "\<not> at_end lx1" using p by (auto simp: peek_def is_identifier_start_def char_class_defs
      split: if_splits)
  moreover have "is_identifier_char (peek lx1)"
    using p by (auto simp: is_identifier_start_def is_identifier_char_def is_alnum_def)
  ultimately have "index lx1 < index lx'" unfolding lx' by (rule advance_while_starts)
  with l lx' later_index [OF \<open>later lx lx1\<close>] show ?thesis by simp
qed

lemma number_token_later:
  assumes "lex_number lx = Inr (t, lx')" and "\<not> at_end lx"
    and "peek lx \<in> {CHR ''#'', CHR ''$'', CHR ''%''} \<or> is_digit (peek lx)"
  shows "later lx lx' \<and> index lx < index lx' \<and> t_kind t = Number"
proof -
  define lx1 where "lx1 = (if peek lx = CHR ''#'' then advance lx else lx)"
  define lx2 where "lx2 = (if peek lx1 = CHR ''$'' \<or> peek lx1 = CHR ''%'' then advance lx1
                 else if peek lx1 = CHR ''0'' \<and>
                   (peek_next lx1 = CHR ''x'' \<or> peek_next lx1 = CHR ''X'' \<or>
                    peek_next lx1 = CHR ''b'' \<or> peek_next lx1 = CHR ''B'')
                 then advance (advance lx1) else lx1)"
  have lx': "lx' = advance_while is_alnum lx2" "t_kind t = Number"
    using assms(1)
    unfolding lex_number_def Let_def lx1_def [symmetric] lx2_def [symmetric]
    by (auto elim!: bind_ok_eq_InrE)
  have "later lx lx1" by (simp add: lx1_def)
  moreover have l2: "later lx1 lx2" by (auto simp: lx2_def later_def)
  ultimately have l: "later lx lx2" by (rule later_trans)
  then have "later lx lx'" unfolding lx' by (rule later_trans) simp
  moreover have "index lx < index lx'"
  proof (cases "lx2 = lx")
    case True
    with assms(3) have "is_digit (peek lx)"
      by (auto simp: lx1_def lx2_def dest!: arg_cong [of _ _ index] split: if_splits)
    then have "is_alnum (peek lx2)" by (simp add: True is_alnum_def)
    from advance_while_starts [of lx2 is_alnum, OF _ this] assms(2) True show ?thesis
      by (simp add: lx')
  next
    case False
    then have "index lx < index lx2" by (auto simp: lx1_def lx2_def split: if_splits)
    with later_index [OF later_advance_while [of lx2 is_alnum]] show ?thesis by (simp add: lx')
  qed
  ultimately show ?thesis using lx' by simp
qed

lemma make_token_kind [simp]: "t_kind (make_token k n lx) = k"
  by (simp add: make_token_def)

lemma next_token_later:
  "next_token lx = Inr (t, lx') \<Longrightarrow>
   later lx lx' \<and> (t_kind t \<noteq> End_Of_File \<longrightarrow> index lx < length (source lx) \<and> index lx < index lx')"
proof (induction lx rule: next_token.induct)
  case (1 lx0)
  define lx where "lx = skip_whitespace lx0"
  have l: "later lx0 lx" by (simp add: lx_def)
  show ?case
  proof (cases "at_end lx \<or> peek lx \<noteq> CHR '';''")
    case True
    have "later lx lx' \<and> (t_kind t \<noteq> End_Of_File \<longrightarrow> \<not> at_end lx \<and> index lx < index lx')"
      using True "1.prems"
      by (subst (asm) next_token.simps, fold lx_def)
        (auto simp: Let_def split: if_splits
          dest!: string_token_later identifier_token_later number_token_later)
    with l show ?thesis by (auto simp: later_def at_end_def)
  next
    case False
    then have tok: "next_token (skip_comment lx) = Inr (t, lx')"
      using "1.prems" by (subst (asm) next_token.simps, fold lx_def) (simp add: Let_def)
    with 1(1) [OF lx_def _ refl] False
    have "later (skip_comment lx) lx' \<and> (t_kind t \<noteq> End_Of_File \<longrightarrow>
        index (skip_comment lx) < length (source (skip_comment lx)) \<and> index (skip_comment lx) < index lx')"
      by simp
    moreover have "later lx0 (skip_comment lx)" by (rule later_trans [OF l]) simp
    ultimately show ?thesis by (auto simp: later_def)
  qed
qed

function lex_source :: "lexer \<Rightarrow> asm_error + token list" where
  "lex_source lx =
     (case next_token lx of
        Inl e \<Rightarrow> Inl e
      | Inr (t, lx') \<Rightarrow>
          if t_kind t = End_Of_File then Inr [t]
          else (case lex_source lx' of Inl e \<Rightarrow> Inl e | Inr ts \<Rightarrow> Inr (t # ts)))"
  by pat_completeness auto
termination
proof (relation "measure (\<lambda>lx. length (source lx) - index lx)")
  fix lx p t lx'
  assume "next_token lx = Inr p" "(t, lx') = p" "t_kind t \<noteq> End_Of_File"
  with next_token_later [of lx t lx'] show "(lx', lx) \<in> measure (\<lambda>lx. length (source lx) - index lx)"
    by (auto simp: later_def)
qed simp

declare lex_source.simps [simp del]

section \<open>What the lexer returns\<close>

lemma lex_shape:
  "lex_source lx = Inr ts \<Longrightarrow>
   \<exists>us e. ts = us @ [e] \<and> t_kind e = End_Of_File \<and> (\<forall>u\<in>set us. t_kind u \<noteq> End_Of_File)"
proof (induction lx arbitrary: ts rule: lex_source.induct)
  case (1 lx)
  obtain t lx' where n: "next_token lx = Inr (t, lx')"
    using "1.prems" by (subst (asm) lex_source.simps) (auto split: sum.splits)
  show ?case
  proof (cases "t_kind t = End_Of_File")
    case True
    with "1.prems" n have "ts = [] @ [t]" by (subst (asm) lex_source.simps) simp
    with True show ?thesis by (metis empty_iff list.set(1))
  next
    case False
    with "1.prems" n obtain us where us: "lex_source lx' = Inr us" "ts = t # us"
      by (subst (asm) lex_source.simps) (auto split: sum.splits)
    from 1(1) [OF n refl False us(1)] obtain vs e where
      "us = vs @ [e]" "t_kind e = End_Of_File" "\<forall>u\<in>set vs. t_kind u \<noteq> End_Of_File" by auto
    then have "ts = (t # vs) @ [e]" "\<forall>u\<in>set (t # vs). t_kind u \<noteq> End_Of_File"
      using us False by auto
    with \<open>t_kind e = End_Of_File\<close> show ?thesis by blast
  qed
qed

text \<open>
  A span counts lines and columns from one. \<open>position\<close> is the line and column of an index of
  the source, computed from the text before it; the cursor keeps both incrementally.
\<close>

definition position :: "string \<Rightarrow> nat \<Rightarrow> nat \<times> nat" where
  "position src i = (1 + count_list (take i src) newline,
     1 + length (takeWhile (\<lambda>c. c \<noteq> newline) (rev (take i src))))"

definition placed :: "lexer \<Rightarrow> bool" where
  "placed lx = (index lx \<le> length (source lx) \<and> (line lx, column lx) = position (source lx) (index lx))"

lemma placed_make_lexer [simp]: "placed (make_lexer src file)"
  by (simp add: placed_def make_lexer_def position_def)

lemma peek_eq: "\<not> at_end lx \<Longrightarrow> peek lx = source lx ! index lx"
  by (simp add: peek_def)

lemma placed_advance:
  assumes "placed lx" and "\<not> at_end lx"
  shows "placed (advance lx)"
  using assms
  by (auto simp: placed_def advance_def at_end_def position_def take_Suc_conv_app_nth)

lemma placed_advance_while: "placed lx \<Longrightarrow> placed (advance_while p lx)"
proof (induction p lx rule: advance_while.induct)
  case (1 p lx)
  then show ?case
    by (cases "\<not> at_end lx \<and> p (peek lx)")
      (auto simp: advance_while.simps [of p lx] placed_advance)
qed

lemma placed_string_loop:
  "string_loop start col v lx = Inr (w, lx') \<Longrightarrow> placed lx \<Longrightarrow> placed lx'"
  by (induction rule: string_loop_induct) (auto simp: placed_advance)

lemma placed_skip: "placed lx \<Longrightarrow> placed (skip_whitespace lx)" "placed lx \<Longrightarrow> placed (skip_comment lx)"
  by (simp_all add: skip_whitespace_def skip_comment_def placed_advance_while)

text \<open>The text between two cursors.\<close>

lemma substring_step:
  assumes "\<not> at_end lx" and "later (advance lx) lx'"
  shows "substring lx' (index lx) (index lx') = peek lx # substring lx' (Suc (index lx)) (index lx')"
proof -
  have "index lx < index lx'" "index lx < length (source lx')" "source lx' = source lx"
    using assms by (auto simp: later_def at_end_def)
  then show ?thesis
    using assms(1) by (simp add: substring_def peek_eq Cons_nth_drop_Suc [symmetric] Suc_diff_Suc
      take_Suc_Cons flip: Suc_diff_Suc)
qed

lemma substring_Nil [simp]: "substring lx i i = []"
  by (simp add: substring_def)

lemma advance_while_text:
  assumes "\<not> p newline"
  shows "line (advance_while p lx) = line lx"
    and "\<forall>c\<in>set (substring (advance_while p lx) (index lx) (index (advance_while p lx))). p c"
proof -
  have "line (advance_while p lx) = line lx \<and>
    (\<forall>c\<in>set (substring (advance_while p lx) (index lx) (index (advance_while p lx))). p c)"
    using assms
  proof (induction p lx rule: advance_while.induct)
    case (1 p lx)
    show ?case
    proof (cases "\<not> at_end lx \<and> p (peek lx)")
      case True
      with 1 have l: "line (advance lx) = line lx" by (auto simp: advance_def peek_eq)
      from True 1 l show ?thesis
        by (simp add: advance_while.simps [of p lx] substring_step)
    next
      case False
      then have "advance_while p lx = lx" by (subst advance_while.simps) auto
      then show ?thesis by simp
    qed
  qed
  then show "line (advance_while p lx) = line lx"
    "\<forall>c\<in>set (substring (advance_while p lx) (index lx) (index (advance_while p lx))). p c" by auto
qed

text \<open>A string literal is its value with quotes and backslashes escaped.\<close>

definition escape :: "string \<Rightarrow> string" where
  "escape s = concat (map (\<lambda>c. if c = CHR 0x22 \<or> c = CHR 0x5C then [CHR 0x5C, c] else [c]) s)"

lemma escape_simps [simp]:
  "escape [] = []"
  "escape (c # s) = (if c = CHR 0x22 \<or> c = CHR 0x5C then [CHR 0x5C, c] else [c]) @ escape s"
  by (simp_all add: escape_def)

lemma string_loop_text:
  assumes "string_loop start col v lx = Inr (w, lx')"
  shows "(\<exists>u. w = v @ u \<and> substring lx' (index lx) (index lx') = escape u) \<and>
         line lx' = line lx \<and> later lx lx' \<and> (at_end lx' \<or> peek lx' = CHR 0x22)"
  using assms
proof (induction rule: string_loop_induct)
  case (stop v lx)
  then show ?case by auto
next
  case (escape v lx w lx')
  have l: "line (advance (advance lx)) = line lx"
    using escape by (auto simp: advance_def peek_eq)
  from escape have "later (advance (advance lx)) lx'" "later (advance lx) lx'"
    by (auto simp: later_def)
  with escape l show ?case
    by (auto simp: substring_step [of lx] substring_step [of "advance lx", simplified]
      intro: later_trans [OF later_advance])
next
  case (plain v lx w lx')
  have l: "line (advance lx) = line lx" using plain by (auto simp: advance_def peek_eq)
  with plain show ?case
    by (auto simp: substring_step intro: later_trans [OF later_advance])
qed

subsection \<open>Tokens and the source text they span\<close>

definition token_reads :: "token \<Rightarrow> string \<Rightarrow> bool" where
  "token_reads t s =
     (case t_kind t of
        Identifier \<Rightarrow> s \<noteq> [] \<and> t_text t = to_lower s
      | Directive \<Rightarrow> (\<exists>r. s = CHR ''.'' # r \<and> r \<noteq> [] \<and> t_text t = to_lower r)
      | Number \<Rightarrow> t_text t = s \<and>
          (\<exists>v. t_number t = Some v \<and> parse_number_literal s (t_span t) = Inr v)
      | String_Literal \<Rightarrow> t_text t = s \<and>
          (\<exists>v. t_string t = Some v \<and> s = CHR 0x22 # escape v @ [CHR 0x22])
      | _ \<Rightarrow> True)"

definition token_at :: "string \<Rightarrow> token \<Rightarrow> bool" where
  "token_at src t =
     (\<exists>i. i + span_length (t_span t) \<le> length src \<and>
        (span_line (t_span t), span_column (t_span t)) = position src i \<and>
        token_reads t (take (span_length (t_span t)) (drop i src)))"

lemma placed_index: "placed lx \<Longrightarrow> index lx \<le> length (source lx)"
  by (simp add: placed_def)

lemma identifier_token_at:
  assumes "lex_identifier_or_directive lx = Inr (t, lx')" and "\<not> at_end lx" and "placed lx"
  shows "placed lx' \<and> token_at (source lx) t"
proof -
  define lx1 where "lx1 = (if peek lx = CHR ''.'' then advance lx else lx)"
  have lx': "lx' = advance_while is_identifier_char lx1"
    and p: "is_identifier_start (peek lx1)"
    and t: "t_kind t = (if peek lx = CHR ''.'' then Directive else Identifier)"
      "t_text t = to_lower (substring lx' (index lx1) (index lx'))"
      "span_line (t_span t) = line lx'" "span_column (t_span t) = column lx"
      "span_length (t_span t) = index lx' - index lx"
    using assms(1)
    by (auto simp: lex_identifier_or_directive_def lx1_def Let_def split: if_splits)
  have pl1: "placed lx1" and l1: "later lx lx1" using assms by (auto simp: lx1_def placed_advance)
  have nend: "\<not> at_end lx1" using p by (auto simp: peek_def is_identifier_start_def char_class_defs
      split: if_splits)
  have more: "index lx1 < index lx'" unfolding lx'
    using nend p by (intro advance_while_starts)
      (auto simp: is_identifier_start_def is_identifier_char_def is_alnum_def)
  have pl: "placed lx'" unfolding lx' by (rule placed_advance_while [OF pl1])
  have l1': "later lx1 lx'" unfolding lx' by simp
  have src: "source lx' = source lx" using l1 l1' by (simp add: later_def)
  have "\<not> is_identifier_char newline" by (simp add: is_identifier_char_def char_class_defs)
  then have "line lx' = line lx1" unfolding lx' by (rule advance_while_text)
  moreover have "line lx1 = line lx" using assms(2) by (auto simp: lx1_def advance_def peek_eq)
  ultimately have pos: "(span_line (t_span t), span_column (t_span t)) = position (source lx) (index lx)"
    using t assms(3) by (simp add: placed_def)
  have len: "index lx + span_length (t_span t) \<le> length (source lx)"
    using t placed_index [OF pl] src l1 more by (simp add: later_def)
  have ne: "substring lx' (index lx1) (index lx') \<noteq> []"
    using more placed_index [OF pl] by (simp add: substring_def)
  have "token_reads t (substring lx' (index lx) (index lx'))"
  proof (cases "peek lx = CHR ''.''")
    case True
    then have "substring lx' (index lx) (index lx') = CHR ''.'' # substring lx' (index lx1) (index lx')"
      using substring_step [of lx lx'] assms(2) l1' by (simp add: lx1_def)
    with True ne t show ?thesis by (simp add: token_reads_def)
  next
    case False
    with ne t show ?thesis by (simp add: token_reads_def lx1_def)
  qed
  with pos len t src have "token_at (source lx) t"
    unfolding token_at_def by (intro exI [of _ "index lx"]) (simp add: substring_def)
  with pl show ?thesis by simp
qed

lemma advance_line: "\<not> at_end lx \<Longrightarrow> peek lx \<noteq> newline \<Longrightarrow> line (advance lx) = line lx"
  by (simp add: advance_def peek_eq)

lemma not_at_end_peek: "peek lx \<noteq> CHR 0x00 \<Longrightarrow> \<not> at_end lx"
  by (auto simp: peek_def)

lemma number_token_at:
  assumes "lex_number lx = Inr (t, lx')" and "\<not> at_end lx" and "placed lx"
  shows "placed lx' \<and> token_at (source lx) t"
proof -
  define lx1 where "lx1 = (if peek lx = CHR ''#'' then advance lx else lx)"
  define lx2 where "lx2 = (if peek lx1 = CHR ''$'' \<or> peek lx1 = CHR ''%'' then advance lx1
                 else if peek lx1 = CHR ''0'' \<and>
                   (peek_next lx1 = CHR ''x'' \<or> peek_next lx1 = CHR ''X'' \<or>
                    peek_next lx1 = CHR ''b'' \<or> peek_next lx1 = CHR ''B'')
                 then advance (advance lx1) else lx1)"
  have lx': "lx' = advance_while is_alnum lx2"
    and t: "t_kind t = Number" "t_text t = substring lx' (index lx) (index lx')"
      "span_line (t_span t) = line lx'" "span_column (t_span t) = column lx"
      "span_length (t_span t) = index lx' - index lx"
      "\<exists>v. t_number t = Some v \<and>
         parse_number_literal (substring lx' (index lx) (index lx')) (t_span t) = Inr v"
    using assms(1)
    unfolding lex_number_def Let_def lx1_def [symmetric] lx2_def [symmetric]
    by (auto elim!: bind_ok_eq_InrE)
  have 1: "placed lx1 \<and> later lx lx1 \<and> line lx1 = line lx"
    using assms by (auto simp: lx1_def placed_advance advance_line)
  have next_char: "peek (advance lx1) = peek_next lx1" if "peek lx1 \<noteq> CHR 0x00"
    using not_at_end_peek [OF that] by (auto simp: peek_def peek_next_def at_end_def)
  have 2: "placed lx2 \<and> later lx1 lx2 \<and> line lx2 = line lx1"
  proof (cases "peek lx1 = CHR ''$'' \<or> peek lx1 = CHR ''%''")
    case True
    then show ?thesis using 1
      by (auto simp: lx2_def placed_advance not_at_end_peek advance_line)
  next
    case False
    show ?thesis
    proof (cases "lx2 = lx1")
      case True
      with 1 show ?thesis by simp
    next
      case n: False
      with False have z: "peek lx1 = CHR ''0''" "lx2 = advance (advance lx1)"
          "peek (advance lx1) \<in> {CHR ''x'', CHR ''X'', CHR ''b'', CHR ''B''}"
        by (auto simp: lx2_def next_char split: if_splits)
      then have "\<not> at_end lx1" "\<not> at_end (advance lx1)" by (auto intro!: not_at_end_peek)
      with z 1 show ?thesis by (auto simp: placed_advance advance_line later_def)
    qed
  qed
  have pl: "placed lx'" unfolding lx' using 2 by (simp add: placed_advance_while)
  have l: "later lx lx'" unfolding lx' using 1 2 by (auto intro: later_trans)
  have "\<not> is_alnum newline" by (simp add: char_class_defs)
  then have "line lx' = line lx2" unfolding lx' by (rule advance_while_text)
  with 1 2 t assms(3) have pos: "(span_line (t_span t), span_column (t_span t)) = position (source lx) (index lx)"
    by (simp add: placed_def)
  have len: "index lx + span_length (t_span t) \<le> length (source lx)"
    using t placed_index [OF pl] l by (simp add: later_def)
  have "token_reads t (substring lx' (index lx) (index lx'))" using t by (simp add: token_reads_def)
  with pos len t l have "token_at (source lx) t"
    unfolding token_at_def by (intro exI [of _ "index lx"]) (simp add: substring_def later_def)
  with pl show ?thesis by simp
qed

lemma substring_snoc:
  assumes "later lx lx'" and "\<not> at_end lx'"
  shows "substring (advance lx') (index lx) (Suc (index lx')) =
    substring lx' (index lx) (index lx') @ [peek lx']"
proof -
  have "Suc (index lx') - index lx = Suc (index lx' - index lx)" "index lx' < length (source lx')"
    using assms by (auto simp: later_def at_end_def Suc_diff_le)
  then show ?thesis
    using assms by (simp add: substring_def peek_eq take_Suc_conv_app_nth later_def)
qed

lemma string_token_at:
  assumes "lex_string lx = Inr (t, lx')" and "peek lx = CHR 0x22" and "placed lx"
  shows "placed lx' \<and> token_at (source lx) t"
proof -
  from assms(1) obtain v lx1 where loop: "string_loop (index lx) (column lx) [] (advance lx) = Inr (v, lx1)"
    and e: "\<not> at_end lx1" and lx': "lx' = advance lx1"
    and t: "t_kind t = String_Literal" "t_text t = substring lx' (index lx) (index lx')"
      "span_line (t_span t) = line lx'" "span_column (t_span t) = column lx"
      "span_length (t_span t) = index lx' - index lx" "t_string t = Some v"
    by (auto simp: lex_string_def Let_def split: if_splits elim!: bind_ok_eq_InrE)
  have ne: "\<not> at_end lx" using assms(2) by (simp add: not_at_end_peek)
  from string_loop_text [OF loop] e
  have body: "substring lx1 (Suc (index lx)) (index lx1) = escape v" "later (advance lx) lx1"
    "line lx1 = line (advance lx)" "peek lx1 = CHR 0x22" by auto
  then have same_line: "line lx' = line lx" using ne e assms(2) by (simp add: lx' advance_line)
  have pl: "placed lx'" unfolding lx'
    using placed_string_loop [OF loop] placed_advance [OF assms(3) ne] e by (simp add: placed_advance)
  have l: "later lx lx1" by (rule later_trans [OF later_advance body(2)])
  have "substring lx' (index lx) (index lx') = substring lx1 (index lx) (index lx1) @ [CHR 0x22]"
    using substring_snoc [OF l e] body by (simp add: lx')
  also have sb: "substring lx1 (index lx) (index lx1) = CHR 0x22 # escape v"
    using substring_step [OF ne body(2)] body assms(2) by simp
  finally have whole: "substring lx' (index lx) (index lx') = CHR 0x22 # escape v @ [CHR 0x22]" by simp
  have ll: "later lx lx'" unfolding lx' by (rule later_trans [OF l later_advance])
  have pos: "(span_line (t_span t), span_column (t_span t)) = position (source lx) (index lx)"
    using same_line t assms(3) by (simp add: placed_def)
  have len: "index lx + span_length (t_span t) \<le> length (source lx)"
    using t placed_index [OF pl] ll by (simp add: later_def)
  have "token_reads t (substring lx' (index lx) (index lx'))" using t whole by (simp add: token_reads_def)
  with pos len t ll have "token_at (source lx) t"
    unfolding token_at_def by (intro exI [of _ "index lx"]) (simp add: substring_def later_def)
  with pl show ?thesis by simp
qed

definition text_kinds :: "token_kind set" where
  "text_kinds = {Identifier, Directive, Number, String_Literal}"

lemma next_token_at:
  "next_token lx = Inr (t, lx') \<Longrightarrow> placed lx \<Longrightarrow>
   placed lx' \<and> (t_kind t \<in> text_kinds \<longrightarrow> token_at (source lx) t)"
proof (induction lx rule: next_token.induct)
  case (1 lx0)
  define lx where "lx = skip_whitespace lx0"
  have pl: "placed lx" and src: "source lx0 = source lx"
    using "1.prems"(2) later_source [OF later_skip(1), of lx0] by (simp_all add: lx_def placed_skip)
  show ?case
  proof (cases "at_end lx \<or> peek lx \<noteq> CHR '';''")
    case True
    show ?thesis
      using True "1.prems"(1) pl unfolding src
      by (subst (asm) next_token.simps, fold lx_def)
        (auto simp: Let_def text_kinds_def make_token_def placed_advance split: if_splits
          dest: string_token_at identifier_token_at number_token_at)
  next
    case False
    then have tok: "next_token (skip_comment lx) = Inr (t, lx')"
      using "1.prems" by (subst (asm) next_token.simps, fold lx_def) (simp add: Let_def)
    from 1(1) [OF lx_def _ refl _ _ tok placed_skip(2) [OF pl]] False
    show ?thesis using later_source [OF later_skip(2), of lx] src by auto
  qed
qed

lemma lex_tokens_at:
  "lex_source lx = Inr ts \<Longrightarrow> placed lx \<Longrightarrow> t \<in> set ts \<Longrightarrow> t_kind t \<in> text_kinds \<Longrightarrow> token_at (source lx) t"
proof (induction lx arbitrary: ts rule: lex_source.induct)
  case (1 lx)
  obtain u lx' where n: "next_token lx = Inr (u, lx')"
    using "1.prems"(1) by (subst (asm) lex_source.simps) (auto split: sum.splits)
  have pa: "placed lx'" "t_kind u \<in> text_kinds \<Longrightarrow> token_at (source lx) u"
    using next_token_at [OF n "1.prems"(2)] by auto
  have src: "source lx' = source lx" using next_token_later [OF n] by (simp add: later_def)
  show ?case
  proof (cases "t_kind u = End_Of_File")
    case True
    with "1.prems"(1) n have "ts = [u]" by (subst (asm) lex_source.simps) simp
    with pa "1.prems" show ?thesis by simp
  next
    case False
    with "1.prems"(1) n obtain us where us: "lex_source lx' = Inr us" "ts = u # us"
      by (subst (asm) lex_source.simps) (auto split: sum.splits)
    show ?thesis
    proof (cases "t = u")
      case True
      with pa "1.prems"(4) show ?thesis by simp
    next
      case False
      with us "1.prems"(3) have "t \<in> set us" by simp
      with 1(1) [OF n refl \<open>t_kind u \<noteq> End_Of_File\<close> us(1) pa(1)] "1.prems"(4) src
      show ?thesis by simp
    qed
  qed
qed

text \<open>
  The span of a single-character token is taken after the cursor has moved past it, so it
  points at the following character, and that of a newline at the start of the next line.
\<close>

lemma punctuation_span:
  assumes "\<not> at_end lx" and "placed lx" and "peek lx = CHR '',''"
  shows "\<exists>t. next_token lx = Inr (t, advance lx) \<and> t_kind t = Comma \<and>
    (span_line (t_span t), span_column (t_span t)) = position (source lx) (Suc (index lx))"
proof -
  have "skip_whitespace lx = lx"
    using assms by (subst skip_whitespace_def) (subst advance_while.simps, simp)
  then show ?thesis
    using assms placed_advance [OF assms(2,1)]
    by (subst next_token.simps) (auto simp: make_token_def placed_def Let_def)
qed

section \<open>Number literals\<close>

text \<open>A literal is the value of its digits modulo $2^{32}$: the accumulator wraps silently.\<close>

lemma parse_digits_value:
  "list_all (\<lambda>c. 0 \<le> digit_value c \<and> digit_value c < base) ds \<Longrightarrow>
   parse_digits base sp ds acc = Inr (fold_digits (of_int base) acc ds)"
  by (induction ds arbitrary: acc) (auto simp: Let_def)

lemma parse_digits_Inr_iff:
  "is_ok (parse_digits base sp ds acc) \<longleftrightarrow> list_all (\<lambda>c. 0 \<le> digit_value c \<and> digit_value c < base) ds"
  by (induction ds arbitrary: acc) (auto simp: Let_def)

lemma digits_in_valid:
  assumes "2 \<le> b" and "b \<le> 16"
  shows "list_all (\<lambda>c. 0 \<le> digit_value c \<and> digit_value c < int b) (digits_in b n)"
proof -
  have "0 \<le> digit_value c \<and> digit_value c < int b" if "c \<in> set (digits_in b n)" for c
    using digits_in_chars [OF that] assms by auto
  then show ?thesis by (simp add: list_all_iff)
qed

lemma parse_digits_digits_in:
  assumes "2 \<le> b" and "b \<le> 16"
  shows "parse_digits (int b) sp (digits_in b n) 0 = Inr (of_nat n)"
  using parse_digits_value [OF digits_in_valid [OF assms]] fold_digits_digits_in [OF assms]
  by (metis of_int_of_nat_eq)

lemma hd_digits_in: "2 \<le> b \<Longrightarrow> b \<le> 16 \<Longrightarrow> c \<in> set (digits_in b n) \<Longrightarrow> is_alnum c"
  using digits_in_chars [of c b n] by auto

lemma parse_decimal: "parse_number_literal (decimal n) sp = Inr (of_nat n)"
proof -
  have d: "is_digit c" if "c \<in> set (decimal n)" for c using decimal_digits that .
  have "hd (decimal n) \<in> set (decimal n)" by (simp add: decimal_def)
  then have "is_digit (hd (decimal n))" by (rule d)
  then have h: "hd (decimal n) \<notin> {CHR ''#'', CHR ''$'', CHR ''%''}"
    by (auto simp: char_class_defs)
  have "is_digit (decimal n ! 1)" if "length (decimal n) > 2" using that d by simp
  then have "split_base (decimal n) = (10, decimal n)"
    using h by (auto simp: split_base_def char_class_defs)
  then show ?thesis
    using h parse_digits_digits_in [of 10 sp n]
    by (simp add: parse_number_literal_def decimal_def)
qed

lemma parse_dollar_hex: "parse_number_literal (CHR ''$'' # hexadecimal n) sp = Inr (of_nat n)"
  using parse_digits_digits_in [of 16 sp n]
  by (simp add: parse_number_literal_def split_base_def hexadecimal_def)

lemma parse_hash: "t \<noteq> [] \<Longrightarrow> hd t \<noteq> CHR ''#'' \<Longrightarrow>
  parse_number_literal (CHR ''#'' # t) sp = parse_number_literal t sp"
  by (simp add: parse_number_literal_def)

end
