(* ===== verification/Asm_Parser.thy ===== *)
theory Asm_Parser
  imports Asm_Lexer
begin

text \<open>
  The parser of the assembler (\<open>assembler/src/parser.cpp\<close>, \<open>ast.h\<close>). The parser's
  state is the list of tokens from \<open>index_\<close> on; the lexer always ends it with an
  \<open>EndOfFile\<close> token, on which the parser never advances, so the list never runs out.
\<close>

section \<open>The syntax tree\<close>

datatype operand_kind = Op_Number | Op_Label
datatype index_register = No_Index | Index_X | Index_Y

record operand =
  o_kind :: operand_kind
  o_number :: u32
  o_label :: string
  o_immediate :: bool
  o_indirect :: bool
  o_index :: index_register
  o_span :: span

datatype directive_type = Org | Byte_Data | Include

datatype statement =
    Label_Decl string span
  | Equ_Decl string u32 span
  | Instruction_Stmt string "operand list" span
  | Directive_Stmt directive_type "operand list" string span

section \<open>The token cursor\<close>

definition no_span :: span where
  "no_span = \<lparr>span_file = [], span_line = 1, span_column = 1, span_length = 0\<rparr>"

definition eof_token :: token where
  "eof_token = \<lparr>t_kind = End_Of_File, t_text = [], t_span = no_span, t_number = None, t_string = None\<rparr>"

fun p_peek :: "token list \<Rightarrow> token" where
  "p_peek [] = eof_token"
| "p_peek (t # ts) = t"

fun p_peek_next :: "token list \<Rightarrow> token" where
  "p_peek_next (t # u # ts) = u"
| "p_peek_next [t] = t"
| "p_peek_next [] = eof_token"

definition p_at_end :: "token list \<Rightarrow> bool" where
  "p_at_end ts = (t_kind (p_peek ts) = End_Of_File)"

definition p_advance :: "token list \<Rightarrow> token list" where
  "p_advance ts = (if p_at_end ts then ts else tl ts)"

definition p_check :: "token_kind \<Rightarrow> token list \<Rightarrow> bool" where
  "p_check k ts = (if p_at_end ts then k = End_Of_File else t_kind (p_peek ts) = k)"

definition p_consume :: "token_kind \<Rightarrow> string \<Rightarrow> token list \<Rightarrow> asm_error + token \<times> token list" where
  "p_consume k msg ts =
     (if p_check k ts then Inr (p_peek ts, p_advance ts)
      else Inl (Assembler_Error (t_span (p_peek ts)) msg))"

lemma p_check_iff: "p_check k ts \<longleftrightarrow> t_kind (p_peek ts) = k"
  by (auto simp: p_check_def p_at_end_def)

lemma p_advance_less: "\<not> p_at_end ts \<Longrightarrow> length (p_advance ts) < length ts"
  by (cases ts) (auto simp: p_advance_def p_at_end_def eof_token_def)

lemma p_advance_le: "length (p_advance ts) \<le> length ts"
  by (simp add: p_advance_def)

lemma p_check_advance_less: "p_check k ts \<Longrightarrow> k \<noteq> End_Of_File \<Longrightarrow> length (p_advance ts) < length ts"
  by (rule p_advance_less) (auto simp: p_check_iff p_at_end_def)

lemma p_consume_less:
  "p_consume k msg ts = Inr (t, ts') \<Longrightarrow> k \<noteq> End_Of_File \<Longrightarrow> length ts' < length ts"
  by (auto simp: p_consume_def p_check_advance_less split: if_splits)

function consume_newlines :: "token list \<Rightarrow> token list" where
  "consume_newlines ts = (if p_check Newline ts then consume_newlines (p_advance ts) else ts)"
  by pat_completeness auto
termination by (relation "measure length") (auto intro: p_check_advance_less)

declare consume_newlines.simps [simp del]

lemma consume_newlines_le: "length (consume_newlines ts) \<le> length ts"
proof (induction ts rule: consume_newlines.induct)
  case (1 ts)
  then show ?case
    using p_advance_le [of ts] by (subst consume_newlines.simps) auto
qed

lemma consume_newlines_less: "p_check Newline ts \<Longrightarrow> length (consume_newlines ts) < length ts"
  using consume_newlines_le [of "p_advance ts"] p_check_advance_less [of Newline ts]
  by (subst consume_newlines.simps) simp

section \<open>Operands\<close>

definition number_operand :: "token \<Rightarrow> operand" where
  "number_operand t =
     \<lparr>o_kind = Op_Number, o_number = (case t_number t of None \<Rightarrow> 0 | Some n \<Rightarrow> n), o_label = [],
      o_immediate = (t_text t \<noteq> [] \<and> hd (t_text t) = CHR ''#''), o_indirect = False,
      o_index = No_Index, o_span = t_span t\<rparr>"

definition label_operand :: "bool \<Rightarrow> token \<Rightarrow> operand" where
  "label_operand imm t =
     \<lparr>o_kind = Op_Label, o_number = 0, o_label = t_text t, o_immediate = imm, o_indirect = False,
      o_index = No_Index, o_span = t_span t\<rparr>"

text \<open>The index register named by an identifier, as the parser compares it.\<close>

definition is_x :: "string \<Rightarrow> bool" where "is_x s = (s = ''X'' \<or> s = ''x'')"
definition is_y :: "string \<Rightarrow> bool" where "is_y s = (s = ''Y'' \<or> s = ''y'')"

function parse_operand :: "token list \<Rightarrow> asm_error + operand \<times> token list" where
  "parse_operand ts =
     (if p_check Hash ts then
        (let ts1 = p_advance ts in
         if \<not> p_check Identifier ts1
         then Inl (Assembler_Error (t_span (p_peek ts1)) ''expected identifier after #'')
         else Inr (label_operand True (p_peek ts1), p_advance ts1))
      else if p_check Left_Paren ts then
        (case parse_operand (p_advance ts) of
           Inl e \<Rightarrow> Inl e
         | Inr (opnd, ts1) \<Rightarrow>
             if o_immediate opnd
             then Inl (Assembler_Error (o_span opnd) ''indirect operands cannot be immediate'')
             else
               bind_ok
                 (if p_check Comma ts1
                  then bind_ok (p_consume Identifier ''expected index register after comma'' (p_advance ts1))
                    (\<lambda>(reg, ts2).
                      if is_x (t_text reg) then Inr (opnd\<lparr>o_indirect := True, o_index := Index_X\<rparr>, ts2)
                      else Inl (Assembler_Error (t_span reg) ''expected X index register inside parentheses''))
                  else Inr (opnd\<lparr>o_indirect := True\<rparr>, ts1))
                 (\<lambda>(opnd', ts2).
                   bind_ok (p_consume Right_Paren ''expected ')' after indirect operand'' ts2)
                     (\<lambda>(t, ts3). Inr (opnd', ts3))))
      else if p_check Number ts then Inr (number_operand (p_peek ts), p_advance ts)
      else if p_check Identifier ts then Inr (label_operand False (p_peek ts), p_advance ts)
      else Inl (Assembler_Error (t_span (p_peek ts)) ''expected operand''))"
  by pat_completeness auto
termination by (relation "measure length") (auto intro: p_check_advance_less)

declare parse_operand.simps [simp del]

lemma parse_operand_less: "parse_operand ts = Inr (opnd, ts') \<Longrightarrow> length ts' < length ts"
proof (induction ts arbitrary: opnd ts' rule: parse_operand.induct)
  case (1 ts)
  consider "p_check Hash ts" | "p_check Left_Paren ts" | "p_check Number ts" | "p_check Identifier ts"
    using "1.prems" by (subst (asm) parse_operand.simps) (auto split: if_splits)
  then show ?case
  proof cases
    case 1
    with "1.prems" p_check_advance_less [OF 1] p_advance_le [of "p_advance ts"] show ?thesis
      by (subst (asm) parse_operand.simps) (auto simp: Let_def split: if_splits)
  next
    case 2
    then have h: "\<not> p_check Hash ts" by (simp add: p_check_iff)
    with "1.prems" 2 obtain o1 ts1 where o1: "parse_operand (p_advance ts) = Inr (o1, ts1)"
      by (subst (asm) parse_operand.simps) (auto split: sum.splits)
    from 1(1) [OF h 2 o1] p_check_advance_less [OF 2] have "length ts1 < length ts" by simp
    with "1.prems" h 2 o1 p_advance_le [of ts1] show ?thesis
      by (subst (asm) parse_operand.simps)
        (auto simp: split: if_splits elim!: bind_ok_eq_InrE dest!: p_consume_less)
  next
    case 3
    then have "\<not> p_check Hash ts" "\<not> p_check Left_Paren ts" by (auto simp: p_check_iff)
    with "1.prems" 3 p_check_advance_less [OF 3] show ?thesis
      by (subst (asm) parse_operand.simps) auto
  next
    case 4
    then have "\<not> p_check Hash ts" "\<not> p_check Left_Paren ts" "\<not> p_check Number ts"
      by (auto simp: p_check_iff)
    with "1.prems" 4 p_check_advance_less [OF 4] show ?thesis
      by (subst (asm) parse_operand.simps) auto
  qed
qed

section \<open>Statements\<close>

text \<open>
  The operand loop of an instruction: after a comma the identifiers X and Y are an index
  register of the operand before it, and end the list.
\<close>

function instruction_operands :: "token list \<Rightarrow> asm_error + operand list \<times> token list" where
  "instruction_operands ts =
     (case parse_operand ts of
        Inl e \<Rightarrow> Inl e
      | Inr (opnd, ts1) \<Rightarrow>
          if p_check Comma ts1 then
            (let ts2 = p_advance ts1 in
             if p_check Identifier ts2 \<and> is_x (t_text (p_peek ts2))
             then Inr ([opnd\<lparr>o_index := Index_X\<rparr>], p_advance ts2)
             else if p_check Identifier ts2 \<and> is_y (t_text (p_peek ts2))
             then Inr ([opnd\<lparr>o_index := Index_Y\<rparr>], p_advance ts2)
             else (case instruction_operands ts2 of
                     Inl e \<Rightarrow> Inl e
                   | Inr (opnds, ts3) \<Rightarrow> Inr (opnd # opnds, ts3)))
          else Inr ([opnd], ts1))"
  by pat_completeness auto
termination
  by (relation "measure length") (auto dest!: parse_operand_less intro: le_less_trans [OF p_advance_le])

declare instruction_operands.simps [simp del]

function directive_operands :: "token list \<Rightarrow> asm_error + operand list \<times> token list" where
  "directive_operands ts =
     (case parse_operand ts of
        Inl e \<Rightarrow> Inl e
      | Inr (opnd, ts1) \<Rightarrow>
          if p_check Comma ts1 then
            (case directive_operands (p_advance ts1) of
               Inl e \<Rightarrow> Inl e
             | Inr (opnds, ts2) \<Rightarrow> Inr (opnd # opnds, ts2))
          else Inr ([opnd], ts1))"
  by pat_completeness auto
termination
  by (relation "measure length") (auto dest!: parse_operand_less intro: le_less_trans [OF p_advance_le])

declare directive_operands.simps [simp del]

definition parse_instruction :: "token list \<Rightarrow> asm_error + statement \<times> token list" where
  "parse_instruction ts =
     bind_ok (p_consume Identifier ''expected instruction mnemonic'' ts) (\<lambda>(mnemonic, ts1).
       if p_check Newline ts1 \<or> p_check End_Of_File ts1
       then Inr (Instruction_Stmt (t_text mnemonic) [] (t_span mnemonic), ts1)
       else bind_ok (instruction_operands ts1) (\<lambda>(opnds, ts2).
         Inr (Instruction_Stmt (t_text mnemonic) opnds (t_span mnemonic), ts2)))"

definition parse_directive :: "token list \<Rightarrow> asm_error + statement \<times> token list" where
  "parse_directive ts =
     bind_ok (p_consume Directive ''expected directive'' ts) (\<lambda>(directive, ts1).
       if t_text directive = ''equ'' then
         bind_ok (p_consume Identifier ''expected constant name after .equ'' ts1) (\<lambda>(name, ts2).
         bind_ok (p_consume Comma ''expected comma after constant name'' ts2) (\<lambda>(comma, ts3).
         bind_ok (p_consume Number ''expected numeric value for .equ'' ts3) (\<lambda>(value, ts4).
           Inr (Equ_Decl (t_text name) (case t_number value of None \<Rightarrow> 0 | Some n \<Rightarrow> n)
                  (t_span directive), ts4))))
       else if t_text directive = ''include'' then
         bind_ok (p_consume String_Literal ''expected string literal for include path'' ts1)
           (\<lambda>(path, ts2).
             Inr (Directive_Stmt Include [] (case t_string path of None \<Rightarrow> [] | Some s \<Rightarrow> s)
                    (t_span directive), ts2))
       else if t_text directive = ''org'' \<or> t_text directive = ''byte'' then
         (let type = (if t_text directive = ''org'' then Org else Byte_Data) in
          if p_check Newline ts1 \<or> p_check End_Of_File ts1
          then Inr (Directive_Stmt type [] [] (t_span directive), ts1)
          else bind_ok (directive_operands ts1) (\<lambda>(opnds, ts2).
            Inr (Directive_Stmt type opnds [] (t_span directive), ts2)))
       else Inl (Assembler_Error (t_span directive) ''unknown directive''))"

text \<open>The loop over the labels at the start of a line.\<close>

function parse_labels :: "token list \<Rightarrow> statement list \<times> token list" where
  "parse_labels ts =
     (if p_check Identifier ts \<and> t_kind (p_peek_next ts) = Colon then
        (let ts1 = p_advance ts; ts2 = p_advance ts1;
             label = Label_Decl (t_text (p_peek ts)) (t_span (p_peek ts)) in
         if p_check Newline ts2 then ([label], ts2)
         else (let (labels, ts3) = parse_labels ts2 in (label # labels, ts3)))
      else ([], ts))"
  by pat_completeness auto
termination
  by (relation "measure length")
    (auto dest!: p_check_advance_less intro: le_less_trans [OF p_advance_le])

declare parse_labels.simps [simp del]

text \<open>One iteration of the loop of \<open>Parse\<close>: the statements it adds and the tokens it leaves.\<close>

definition parse_line :: "token list \<Rightarrow> asm_error + statement list \<times> token list" where
  "parse_line ts0 =
     (let ts1 = consume_newlines ts0 in
      if p_at_end ts1 then Inr ([], ts1)
      else
        let (labels, ts2) = parse_labels ts1; parsed_label = (labels \<noteq> []) in
        if p_check Newline ts2 then Inr (labels, p_advance ts2)
        else if p_check Directive ts2 \<or> p_check Identifier ts2 then
          bind_ok (if p_check Directive ts2 then parse_directive ts2 else parse_instruction ts2)
            (\<lambda>(stmt, ts3).
              if p_check Newline ts3 then Inr (labels @ [stmt], p_advance ts3)
              else if \<not> p_at_end ts3
              then Inl (Assembler_Error (t_span (p_peek ts3)) ''expected end of line'')
              else Inr (labels @ [stmt], ts3))
        else if parsed_label then Inr (labels, consume_newlines ts2)
        else Inl (Assembler_Error (t_span (p_peek ts2)) ''expected label, directive, or instruction''))"

lemma instruction_operands_less:
  "instruction_operands ts = Inr (os, ts') \<Longrightarrow> length ts' < length ts"
proof (induction ts arbitrary: os ts' rule: instruction_operands.induct)
  case (1 ts)
  obtain opnd ts1 where o1: "parse_operand ts = Inr (opnd, ts1)"
    using "1.prems" by (subst (asm) instruction_operands.simps) (auto split: sum.splits)
  have l: "length ts1 < length ts" using parse_operand_less [OF o1] .
  show ?case
    using "1.prems" o1 l p_advance_le [of ts1] p_advance_le [of "p_advance ts1"]
    by (subst (asm) instruction_operands.simps)
      (auto simp: Let_def split: if_splits sum.splits dest!: "1.IH" [OF o1 refl])
qed

lemma directive_operands_less:
  "directive_operands ts = Inr (os, ts') \<Longrightarrow> length ts' < length ts"
proof (induction ts arbitrary: os ts' rule: directive_operands.induct)
  case (1 ts)
  obtain opnd ts1 where o1: "parse_operand ts = Inr (opnd, ts1)"
    using "1.prems" by (subst (asm) directive_operands.simps) (auto split: sum.splits)
  have l: "length ts1 < length ts" using parse_operand_less [OF o1] .
  show ?case
    using "1.prems" o1 l p_advance_le [of ts1]
    by (subst (asm) directive_operands.simps)
      (auto split: if_splits sum.splits dest!: "1.IH" [OF o1 refl])
qed

lemma parse_instruction_less: "parse_instruction ts = Inr (s, ts') \<Longrightarrow> length ts' < length ts"
  by (auto simp: parse_instruction_def split: if_splits elim!: bind_ok_eq_InrE
    dest!: p_consume_less instruction_operands_less)

lemma parse_directive_less: "parse_directive ts = Inr (s, ts') \<Longrightarrow> length ts' < length ts"
  by (auto simp: parse_directive_def Let_def split: if_splits elim!: bind_ok_eq_InrE
    dest!: p_consume_less directive_operands_less)

lemma parse_labels_le: "length (snd (parse_labels ts)) \<le> length ts"
proof (induction ts rule: parse_labels.induct)
  case (1 ts)
  show ?case
  proof (cases "p_check Identifier ts \<and> t_kind (p_peek_next ts) = Colon \<and>
      \<not> p_check Newline (p_advance (p_advance ts))")
    case True
    then have "length (snd (parse_labels (p_advance (p_advance ts)))) \<le> length (p_advance (p_advance ts))"
      using 1 [OF _ refl refl refl] by simp
    with True show ?thesis
      using p_advance_le [of ts] p_advance_le [of "p_advance ts"]
      by (subst parse_labels.simps) (auto simp: Let_def split: prod.splits)
  next
    case False
    then show ?thesis
      using p_advance_le [of ts] p_advance_le [of "p_advance ts"]
      by (subst parse_labels.simps) (auto simp: Let_def)
  qed
qed

lemma parse_labels_less:
  assumes "fst (parse_labels ts) \<noteq> []"
  shows "length (snd (parse_labels ts)) < length ts"
proof -
  have c: "p_check Identifier ts \<and> t_kind (p_peek_next ts) = Colon"
    using assms by (subst (asm) parse_labels.simps) (auto split: if_splits)
  then have "length (p_advance ts) < length ts" by (auto intro: p_check_advance_less)
  with c show ?thesis
    using p_advance_le [of "p_advance ts"] parse_labels_le [of "p_advance (p_advance ts)"]
    by (subst parse_labels.simps) (auto simp: Let_def split: prod.splits)
qed

lemma parse_line_less:
  assumes "parse_line ts = Inr (ss, ts')" and "\<not> p_at_end ts"
  shows "length ts' < length ts"
proof -
  define ts1 where "ts1 = consume_newlines ts"
  obtain labels ts2 where lab: "parse_labels ts1 = (labels, ts2)" by fastforce
  have l1: "length ts1 \<le> length ts" by (simp add: ts1_def consume_newlines_le)
  have l2: "length ts2 \<le> length ts1" "labels \<noteq> [] \<Longrightarrow> length ts2 < length ts1"
    using parse_labels_le [of ts1] parse_labels_less [of ts1] lab by auto
  have fin: "p_at_end ts1 \<Longrightarrow> length ts1 < length ts"
  proof (cases "p_check Newline ts")
    case True
    then show ?thesis by (simp add: ts1_def consume_newlines_less)
  next
    case False
    then have "ts1 = ts" by (simp add: ts1_def consume_newlines.simps [of ts])
    moreover assume "p_at_end ts1"
    ultimately show ?thesis using assms(2) by simp
  qed
  show ?thesis
    using assms(1) l1 l2 fin lab consume_newlines_le [of ts2]
    unfolding parse_line_def ts1_def [symmetric]
    by (auto simp: Let_def split: if_splits elim!: bind_ok_eq_InrE
      dest!: p_check_advance_less parse_instruction_less parse_directive_less)
qed

function parse :: "token list \<Rightarrow> asm_error + statement list" where
  "parse ts =
     (if p_at_end ts then Inr []
      else (case parse_line ts of
              Inl e \<Rightarrow> Inl e
            | Inr (ss, ts') \<Rightarrow> (case parse ts' of Inl e \<Rightarrow> Inl e | Inr stmts \<Rightarrow> Inr (ss @ stmts))))"
  by pat_completeness auto
termination by (relation "measure length") (auto dest: parse_line_less)

declare parse.simps [simp del]

section \<open>Printing a program as tokens\<close>

text \<open>
  The reference syntax: the token line of each statement. A token takes the span of the
  operand or statement it stands for.
\<close>

definition tok :: "token_kind \<Rightarrow> string \<Rightarrow> span \<Rightarrow> token" where
  "tok k s sp = \<lparr>t_kind = k, t_text = s, t_span = sp, t_number = None, t_string = None\<rparr>"

definition base_tokens :: "operand \<Rightarrow> token list" where
  "base_tokens opnd =
     (case o_kind opnd of
        Op_Number \<Rightarrow>
          [(tok Number ((if o_immediate opnd then ''#'' else []) @ decimal (unat (o_number opnd))) (o_span opnd))
             \<lparr>t_number := Some (o_number opnd)\<rparr>]
      | Op_Label \<Rightarrow>
          (if o_immediate opnd then [tok Hash [] (o_span opnd)] else []) @
          [tok Identifier (o_label opnd) (o_span opnd)])"

definition operand_tokens :: "operand \<Rightarrow> token list" where
  "operand_tokens opnd =
     (if o_indirect opnd then
        tok Left_Paren [] (o_span opnd) # base_tokens opnd @
        (if o_index opnd = Index_X then [tok Comma [] (o_span opnd), tok Identifier ''x'' (o_span opnd)] else []) @
        [tok Right_Paren [] (o_span opnd)]
      else base_tokens opnd)"

text \<open>The index register that is printed after the operand.\<close>

definition outer_index :: "operand \<Rightarrow> index_register" where
  "outer_index opnd =
     (if o_indirect opnd \<and> o_index opnd = Index_X then No_Index else o_index opnd)"

definition index_tokens :: "operand \<Rightarrow> token list" where
  "index_tokens opnd =
     (case outer_index opnd of
        No_Index \<Rightarrow> []
      | Index_X \<Rightarrow> [tok Comma [] (o_span opnd), tok Identifier ''x'' (o_span opnd)]
      | Index_Y \<Rightarrow> [tok Comma [] (o_span opnd), tok Identifier ''y'' (o_span opnd)])"

fun operands_tokens :: "operand list \<Rightarrow> token list" where
  "operands_tokens [] = []"
| "operands_tokens [opnd] = operand_tokens opnd @ index_tokens opnd"
| "operands_tokens (opnd # os) = operand_tokens opnd @ tok Comma [] (o_span opnd) # operands_tokens os"

fun statement_tokens :: "statement \<Rightarrow> token list" where
  "statement_tokens (Label_Decl name sp) = [tok Identifier name sp, tok Colon [] sp]"
| "statement_tokens (Equ_Decl name value sp) =
     [tok Directive ''equ'' sp, tok Identifier name sp, tok Comma [] sp,
      (tok Number (decimal (unat value)) sp)\<lparr>t_number := Some value\<rparr>]"
| "statement_tokens (Instruction_Stmt mnemonic opnds sp) = tok Identifier mnemonic sp # operands_tokens opnds"
| "statement_tokens (Directive_Stmt Org opnds path sp) = tok Directive ''org'' sp # operands_tokens opnds"
| "statement_tokens (Directive_Stmt Byte_Data opnds path sp) = tok Directive ''byte'' sp # operands_tokens opnds"
| "statement_tokens (Directive_Stmt Include opnds path sp) =
     [tok Directive ''include'' sp, (tok String_Literal path sp)\<lparr>t_string := Some path\<rparr>]"

definition program_tokens :: "statement list \<Rightarrow> token list" where
  "program_tokens ss = concat (map (\<lambda>s. statement_tokens s @ [tok Newline [newline] no_span]) ss) @ [eof_token]"

text \<open>
  What the concrete syntax can express: an indirect operand is not immediate, an operand has
  a number or a label, only the last operand of an instruction has an index register outside
  parentheses, and an operand after a comma is not an identifier that names an index register.
\<close>

definition operand_wf :: "operand \<Rightarrow> bool" where
  "operand_wf opnd = ((o_indirect opnd \<longrightarrow> \<not> o_immediate opnd) \<and>
     (case o_kind opnd of Op_Number \<Rightarrow> o_label opnd = [] | Op_Label \<Rightarrow> o_number opnd = 0))"

definition not_register :: "operand \<Rightarrow> bool" where
  "not_register opnd = (o_kind opnd = Op_Label \<and> \<not> o_indirect opnd \<and> \<not> o_immediate opnd \<longrightarrow>
     \<not> is_x (o_label opnd) \<and> \<not> is_y (o_label opnd))"

fun operands_wf :: "operand list \<Rightarrow> bool" where
  "operands_wf [] = True"
| "operands_wf [opnd] = operand_wf opnd"
| "operands_wf (opnd # p # os) =
     (operand_wf opnd \<and> outer_index opnd = No_Index \<and> not_register p \<and> operands_wf (p # os))"

fun statement_wf :: "statement \<Rightarrow> bool" where
  "statement_wf (Instruction_Stmt mnemonic opnds sp) = operands_wf opnds"
| "statement_wf (Directive_Stmt type opnds path sp) =
     (case type of
        Include \<Rightarrow> opnds = []
      | _ \<Rightarrow> path = [] \<and> list_all (\<lambda>opnd. operand_wf opnd \<and> outer_index opnd = No_Index) opnds)"
| "statement_wf s = True"

lemma tok_simps [simp]:
  "t_kind (tok k s sp) = k" "t_text (tok k s sp) = s" "t_span (tok k s sp) = sp"
  "t_number (tok k s sp) = None" "t_string (tok k s sp) = None"
  by (simp_all add: tok_def)

lemma p_check_Cons [simp]: "p_check k (t # ts) \<longleftrightarrow> t_kind t = k"
  by (simp add: p_check_iff)

lemma p_advance_Cons [simp]: "p_advance (t # ts) = (if t_kind t = End_Of_File then t # ts else ts)"
  by (simp add: p_advance_def p_at_end_def)

lemma p_consume_Cons [simp]:
  "t_kind t = k \<Longrightarrow> k \<noteq> End_Of_File \<Longrightarrow> p_consume k msg (t # ts) = Inr (t, ts)"
  by (simp add: p_consume_def)

lemma p_at_end_Cons [simp]: "p_at_end (t # ts) \<longleftrightarrow> t_kind t = End_Of_File"
  by (simp add: p_at_end_def)

lemma decimal_first: "hd (decimal n) \<noteq> CHR ''#''"
proof -
  have "is_digit (hd (decimal n))" by (rule decimal_digits [of _ n]) (simp add: decimal_def)
  then show ?thesis by (auto simp: char_class_defs)
qed

text \<open>An operand without its registers and parentheses.\<close>

definition bare :: "operand \<Rightarrow> operand" where
  "bare opnd = opnd\<lparr>o_indirect := False, o_index := No_Index\<rparr>"

lemma parse_base:
  "operand_wf opnd \<Longrightarrow> parse_operand (base_tokens opnd @ ts) = Inr (bare opnd, ts)"
  by (subst parse_operand.simps)
    (auto simp: base_tokens_def operand_wf_def bare_def label_operand_def number_operand_def
      decimal_first split: operand_kind.splits)

lemma parse_operand_tokens:
  assumes "operand_wf opnd"
  shows "parse_operand (operand_tokens opnd @ ts) =
    Inr (opnd\<lparr>o_index := (if o_indirect opnd \<and> o_index opnd = Index_X then Index_X else No_Index)\<rparr>, ts)"
proof (cases "o_indirect opnd")
  case False
  with parse_base [OF assms] show ?thesis by (simp add: operand_tokens_def bare_def)
next
  case True
  then have "\<not> o_immediate opnd" using assms by (simp add: operand_wf_def)
  with True parse_base [OF assms] show ?thesis
    by (subst parse_operand.simps) (auto simp: operand_tokens_def bare_def is_x_def)
qed

text \<open>The first token of an operand is an index register only if the operand is that identifier.\<close>

lemma operand_tokens_first:
  obtains t us where "operand_tokens opnd = t # us"
    and "t_kind t = Identifier \<Longrightarrow>
      o_kind opnd = Op_Label \<and> \<not> o_indirect opnd \<and> \<not> o_immediate opnd \<and> t_text t = o_label opnd"
    and "t_kind t \<in> {Left_Paren, Number, Hash, Identifier}"
  by (cases "operand_tokens opnd")
    (auto simp: operand_tokens_def base_tokens_def split: operand_kind.splits if_splits)

text \<open>Operand lists end where no comma follows.\<close>

lemma instruction_operands_tokens:
  "operands_wf opnds \<Longrightarrow> opnds \<noteq> [] \<Longrightarrow> t_kind u \<noteq> Comma \<Longrightarrow>
   instruction_operands (operands_tokens opnds @ u # ts) = Inr (opnds, u # ts)"
proof (induction opnds rule: operands_tokens.induct)
  case (2 opnd)
  then show ?case
    by (subst instruction_operands.simps)
      (auto simp: parse_operand_tokens index_tokens_def outer_index_def is_x_def is_y_def
        split: index_register.splits)
next
  case (3 opnd p os)
  from operand_tokens_first [of p] obtain t us where first: "operand_tokens p = t # us"
    "t_kind t = Identifier \<Longrightarrow>
      o_kind p = Op_Label \<and> \<not> o_indirect p \<and> \<not> o_immediate p \<and> t_text t = o_label p"
    "t_kind t \<in> {Left_Paren, Number, Hash, Identifier}" by blast
  then obtain vs where vs: "operands_tokens (p # os) = t # vs" by (cases os) auto
  have nr: "\<not> (t_kind t = Identifier \<and> (is_x (t_text t) \<or> is_y (t_text t)))"
    using 3 first by (auto simp: not_register_def)
  have idx: "opnd\<lparr>o_index := (if o_indirect opnd \<and> o_index opnd = Index_X then Index_X else No_Index)\<rparr> = opnd"
    using 3 by (cases opnd) (auto simp: outer_index_def split: if_splits)
  have "instruction_operands (operands_tokens (p # os) @ u # ts) = Inr (p # os, u # ts)"
    using 3 by simp
  then show ?case
    using 3 nr idx first
    by (subst instruction_operands.simps) (auto simp: parse_operand_tokens vs)
qed simp

lemma directive_operands_tokens:
  "list_all (\<lambda>opnd. operand_wf opnd \<and> outer_index opnd = No_Index) opnds \<Longrightarrow> opnds \<noteq> [] \<Longrightarrow>
   t_kind u \<noteq> Comma \<Longrightarrow>
   directive_operands (operands_tokens opnds @ u # ts) = Inr (opnds, u # ts)"
proof (induction opnds rule: operands_tokens.induct)
  case (2 opnd)
  then have "opnd\<lparr>o_index := (if o_indirect opnd \<and> o_index opnd = Index_X then Index_X else No_Index)\<rparr> = opnd"
    by (cases opnd) (auto simp: outer_index_def split: if_splits)
  with 2 show ?case
    by (subst directive_operands.simps) (auto simp: parse_operand_tokens index_tokens_def)
next
  case (3 opnd p os)
  then have idx: "opnd\<lparr>o_index := (if o_indirect opnd \<and> o_index opnd = Index_X then Index_X else No_Index)\<rparr> = opnd"
    by (cases opnd) (auto simp: outer_index_def split: if_splits)
  have "directive_operands (operands_tokens (p # os) @ u # ts) = Inr (p # os, u # ts)"
    using 3 by simp
  with 3 idx show ?case
    by (subst directive_operands.simps) (auto simp: parse_operand_tokens)
qed simp

lemma operands_tokens_first:
  assumes "opnds \<noteq> []"
  obtains t us where "operands_tokens opnds = t # us" and "t_kind t \<in> {Left_Paren, Number, Hash, Identifier}"
proof -
  obtain p os where p: "opnds = p # os" using assms by (cases opnds) auto
  from operand_tokens_first [of p] obtain t us where
    "operand_tokens p = t # us" "t_kind t \<in> {Left_Paren, Number, Hash, Identifier}" by blast
  then show ?thesis using that p by (cases os) auto
qed

lemma parse_instruction_tokens:
  assumes "operands_wf opnds" and "t_kind u = Newline"
  shows "parse_instruction (statement_tokens (Instruction_Stmt m opnds sp) @ u # ts) =
    Inr (Instruction_Stmt m opnds sp, u # ts)"
proof (cases "opnds = []")
  case True
  with assms show ?thesis by (simp add: parse_instruction_def)
next
  case False
  from operands_tokens_first [OF this] obtain t us where
    "operands_tokens opnds = t # us" "t_kind t \<in> {Left_Paren, Number, Hash, Identifier}" .
  with instruction_operands_tokens [OF assms(1) False, of u ts] assms(2) show ?thesis
    by (auto simp: parse_instruction_def)
qed

lemma parse_directive_data_tokens:
  assumes "statement_wf (Directive_Stmt type opnds path sp)" and "type \<noteq> Include" and "t_kind u = Newline"
  shows "parse_directive (tok Directive (if type = Org then ''org'' else ''byte'') sp #
      operands_tokens opnds @ u # ts) = Inr (Directive_Stmt type opnds path sp, u # ts)"
proof (cases "opnds = []")
  case True
  with assms show ?thesis by (cases type) (auto simp: parse_directive_def)
next
  case False
  from operands_tokens_first [OF this] obtain t us where
    "operands_tokens opnds = t # us" "t_kind t \<in> {Left_Paren, Number, Hash, Identifier}" .
  moreover have "directive_operands (operands_tokens opnds @ u # ts) = Inr (opnds, u # ts)"
    using assms False by (intro directive_operands_tokens) (auto split: directive_type.splits)
  ultimately show ?thesis
    using assms by (cases type) (auto simp: parse_directive_def Let_def)
qed

lemma parse_directive_tokens:
  assumes "statement_wf (Directive_Stmt type opnds path sp)" and "t_kind u = Newline"
  shows "parse_directive (statement_tokens (Directive_Stmt type opnds path sp) @ u # ts) =
    Inr (Directive_Stmt type opnds path sp, u # ts)"
proof (cases "type = Include")
  case True
  with assms show ?thesis by (simp add: parse_directive_def)
next
  case False
  with parse_directive_data_tokens [OF assms(1) False assms(2), of ts] show ?thesis
    by (cases type) auto
qed

lemma consume_newlines_Cons [simp]: "t_kind t \<noteq> Newline \<Longrightarrow> consume_newlines (t # ts) = t # ts"
  by (subst consume_newlines.simps) simp

lemma statement_tokens_first:
  obtains t us where "statement_tokens s = t # us" and "t_kind t = Identifier \<or> t_kind t = Directive"
  by (cases s rule: statement_tokens.cases) auto

lemma parse_line_tokens:
  assumes "statement_wf s" and "t_kind u = Newline"
  shows "parse_line (statement_tokens s @ u # ts) = Inr ([s], ts)"
proof (cases s)
  case (Label_Decl name sp)
  have "parse_labels (statement_tokens s @ u # ts) = ([s], u # ts)"
    by (subst parse_labels.simps) (simp add: Label_Decl assms)
  with assms show ?thesis by (simp add: Label_Decl parse_line_def Let_def)
next
  case (Equ_Decl name v sp)
  have "parse_labels (statement_tokens s @ u # ts) = ([], statement_tokens s @ u # ts)"
    by (subst parse_labels.simps) (simp add: Equ_Decl)
  with assms show ?thesis by (simp add: Equ_Decl parse_line_def parse_directive_def Let_def)
next
  case (Instruction_Stmt m opnds sp)
  have peek: "t_kind (p_peek_next (tok Identifier m sp # operands_tokens opnds @ u # ts)) \<noteq> Colon"
  proof (cases "opnds = []")
    case False
    from operands_tokens_first [OF this] obtain t us where
      "operands_tokens opnds = t # us" "t_kind t \<in> {Left_Paren, Number, Hash, Identifier}" .
    then show ?thesis by auto
  qed (simp add: assms)
  have "parse_labels (statement_tokens s @ u # ts) = ([], statement_tokens s @ u # ts)"
    using peek by (subst parse_labels.simps) (simp add: Instruction_Stmt)
  moreover have "consume_newlines (statement_tokens s @ u # ts) = statement_tokens s @ u # ts"
    by (subst consume_newlines.simps) (simp add: Instruction_Stmt)
  ultimately show ?thesis
    using parse_instruction_tokens [where opnds = opnds and u = u and m = m and sp = sp and ts = ts] assms
    by (simp add: parse_line_def Instruction_Stmt Let_def)
next
  case (Directive_Stmt type opnds path sp)
  obtain t us where first: "statement_tokens s = t # us" "t_kind t = Directive"
    unfolding Directive_Stmt by (cases type) auto
  have "parse_labels (statement_tokens s @ u # ts) = ([], statement_tokens s @ u # ts)"
    by (subst parse_labels.simps) (simp add: first)
  moreover have "consume_newlines (statement_tokens s @ u # ts) = statement_tokens s @ u # ts"
    by (subst consume_newlines.simps) (simp add: first)
  moreover have "parse_directive (statement_tokens s @ u # ts) = Inr (s, u # ts)"
    using parse_directive_tokens [where type = type and opnds = opnds and path = path and sp = sp and u = u and ts = ts] assms by (simp add: Directive_Stmt)
  ultimately show ?thesis
    using assms first by (simp add: parse_line_def Let_def)
qed

lemma parse_program_tokens:
  "list_all statement_wf ss \<Longrightarrow> parse (program_tokens ss) = Inr ss"
proof (induction ss)
  case Nil
  show ?case by (subst parse.simps) (simp add: program_tokens_def eof_token_def)
next
  case (Cons s ss)
  have split: "program_tokens (s # ss) = statement_tokens s @ tok Newline [newline] no_span # program_tokens ss"
    by (simp add: program_tokens_def)
  have line: "parse_line (program_tokens (s # ss)) = Inr ([s], program_tokens ss)"
    unfolding split using Cons.prems by (intro parse_line_tokens) auto
  have "\<not> p_at_end (program_tokens (s # ss))"
    unfolding split using statement_tokens_first [of s] by fastforce
  with Cons line show ?case by (subst parse.simps) simp
qed

text \<open>A comment or blank line adds no statement: newline tokens between statements are skipped.\<close>

lemma parse_line_blank:
  "t_kind u = Newline \<Longrightarrow> parse_line (u # ts) = parse_line ts"
  by (simp add: parse_line_def consume_newlines.simps [of "u # ts"])

end
