(* ===== verification/Asm_Include.thy ===== *)
theory Asm_Include
  imports Asm_Parser
begin

text \<open>
  The include processor of the assembler (\<open>assembler/src/include_processor.cpp\<close>). The
  file system is a parameter: \<open>fs_canonical\<close> is \<open>std::filesystem::canonical\<close> (no
  value: it throws, the file does not exist) and \<open>fs_read\<close> the contents of a file that can
  be opened. Paths are their native strings. The recursion over nested includes has fuel, one
  unit per open include; no value is a recursion deeper than the fuel.
\<close>

record file_system =
  fs_canonical :: "string \<Rightarrow> string option"
  fs_read :: "string \<Rightarrow> string option"

section \<open>Paths\<close>

text \<open>\<open>operator/\<close> and \<open>parent_path\<close> of \<open>std::filesystem::path\<close> on POSIX names.\<close>

definition path_append :: "string \<Rightarrow> string \<Rightarrow> string" where
  "path_append p q =
     (if q \<noteq> [] \<and> hd q = CHR ''/'' then q
      else if p = [] \<or> last p = CHR ''/'' then p @ q
      else p @ CHR ''/'' # q)"

definition parent_path :: "string \<Rightarrow> string" where
  "parent_path p =
     (let dir = rev (dropWhile (\<lambda>c. c \<noteq> CHR ''/'') (rev p));
          stripped = rev (dropWhile (\<lambda>c. c = CHR ''/'') (rev dir)) in
      if stripped = [] then dir else stripped)"

section \<open>Processing\<close>

definition load_and_parse :: "file_system \<Rightarrow> string \<Rightarrow> asm_error + statement list" where
  "load_and_parse fs path =
     (case fs_read fs path of
        None \<Rightarrow> Inl (Runtime_Error (''failed to open file: '' @ path))
      | Some src \<Rightarrow> bind_ok (lex_source (make_lexer src path)) parse)"

fun include_path :: "statement \<Rightarrow> (string \<times> span) option" where
  "include_path (Directive_Stmt Include opnds path sp) = Some (path, sp)"
| "include_path s = None"

text \<open>
  What happens at an include directive before the included program is processed:
  \<open>include_stack_\<close> gets the path, the file is loaded, and the path is erased again.
\<close>

definition open_include ::
  "file_system \<Rightarrow> string \<Rightarrow> string \<Rightarrow> span \<Rightarrow> string set \<Rightarrow>
   asm_error + string \<times> statement list \<times> string set" where
  "open_include fs dir path sp stack =
     (case fs_canonical fs (path_append dir path) of
        None \<Rightarrow> Inl (Runtime_Error ''filesystem error'')
      | Some p \<Rightarrow>
          if p \<in> stack then Inl (Assembler_Error sp (''circular include detected: '' @ p))
          else
            let stack1 = insert p stack in
            bind_ok (load_and_parse fs p) (\<lambda>included.
              let stack2 = stack1 - {p} in Inr (p, included, stack2)))"

function process_program ::
  "nat \<Rightarrow> file_system \<Rightarrow> string \<Rightarrow> statement list \<Rightarrow> string set \<Rightarrow>
   (asm_error + statement list \<times> string set) option" where
  "process_program fuel fs dir [] stack = Some (Inr ([], stack))"
| "process_program fuel fs dir (s # ss) stack =
     (case include_path s of
        None \<Rightarrow>
          run_bind (process_program fuel fs dir ss stack)
            (\<lambda>(result, stack'). Some (Inr (s # result, stack')))
      | Some (path, sp) \<Rightarrow>
          (case open_include fs dir path sp stack of
             Inl e \<Rightarrow> Some (Inl e)
           | Inr (p, included, stack2) \<Rightarrow>
               (case fuel of
                  0 \<Rightarrow> None
                | Suc fuel' \<Rightarrow>
                    run_bind (process_program fuel' fs (parent_path p) included stack2)
                      (\<lambda>(processed, stack3).
                        run_bind (process_program fuel fs dir ss stack3)
                          (\<lambda>(result, stack4). Some (Inr (processed @ result, stack4)))))))"
  by pat_completeness auto
termination
  by (relation "inv_image (less_than <*lex*> less_than) (\<lambda>(fuel, fs, dir, ss, stack). (fuel, length ss))")
    auto

definition process_includes ::
  "nat \<Rightarrow> file_system \<Rightarrow> statement list \<Rightarrow> string \<Rightarrow> (asm_error + statement list) option" where
  "process_includes fuel fs program base_dir =
     run_bind (process_program fuel fs base_dir program {}) (\<lambda>(stmts, stack). Some (Inr stmts))"

section \<open>What processing yields\<close>

lemma open_include_stack: "open_include fs dir path sp stack = Inr (p, included, stack2) \<Longrightarrow> stack2 = stack"
  by (auto simp: open_include_def Let_def split: option.splits if_splits elim!: bind_ok_eq_InrE)

lemma process_program_stack:
  "process_program fuel fs dir ss stack = Some (Inr (result, stack')) \<Longrightarrow> stack' = stack"
proof (induction fuel arbitrary: dir ss stack result stack')
  case 0
  then show ?case
  proof (induction ss arbitrary: result)
    case (Cons s ss)
    then show ?case
      by (auto split: option.splits sum.splits prod.splits elim!: run_bind_InrE)
  qed simp
next
  case (Suc fuel)
  from Suc.prems show ?case
  proof (induction ss arbitrary: stack result)
    case (Cons s ss)
    show ?case
    proof (cases "include_path s")
      case None
      with Cons show ?thesis by (auto elim!: run_bind_InrE)
    next
      case (Some q)
      with Cons.prems obtain path sp p included stack2 processed stack3 result' where
        "open_include fs dir path sp stack = Inr (p, included, stack2)"
        "process_program fuel fs (parent_path p) included stack2 = Some (Inr (processed, stack3))"
        "process_program (Suc fuel) fs dir ss stack3 = Some (Inr (result', stack'))"
        by (auto split: sum.splits prod.splits elim!: run_bind_InrE)
      with Cons.IH Suc.IH open_include_stack show ?thesis by metis
    qed
  qed simp
qed

text \<open>The code's recursion, without the include stack that is the same at every call.\<close>

lemma process_program_Cons:
  assumes "include_path s = Some (path, sp)" and "stack = {}"
  shows "process_program fuel fs dir (s # ss) stack =
     (case fs_canonical fs (path_append dir path) of
        None \<Rightarrow> Some (Inl (Runtime_Error ''filesystem error''))
      | Some p \<Rightarrow>
          (case load_and_parse fs p of
             Inl e \<Rightarrow> Some (Inl e)
           | Inr included \<Rightarrow>
               (case fuel of
                  0 \<Rightarrow> None
                | Suc fuel' \<Rightarrow>
                    run_bind (process_program fuel' fs (parent_path p) included {})
                      (\<lambda>(processed, st). run_bind (process_program fuel fs dir ss {})
                        (\<lambda>(result, st). Some (Inr (processed @ result, {})))))))"
proof -
  have same: "run_bind (process_program fuel' fs dir' included {})
      (\<lambda>(processed, stack3). run_bind (process_program fuel2 fs dir ss stack3)
        (\<lambda>(result, stack4). Some (Inr (processed @ result, stack4)))) =
    run_bind (process_program fuel' fs dir' included {})
      (\<lambda>(processed, st). run_bind (process_program fuel2 fs dir ss {})
        (\<lambda>(result, st). Some (Inr (processed @ result, {}))))" for fuel' fuel2 dir' included
    by (rule run_bind_cong) (auto dest!: process_program_stack intro!: run_bind_cong)
  show ?thesis
    using assms
    by (cases "fs_canonical fs (path_append dir path)")
      (auto simp: open_include_def same bind_ok_def split: sum.splits nat.splits)
qed

text \<open>No include is left, so the first pass never meets one.\<close>

lemma process_program_no_include:
  "process_program fuel fs dir ss stack = Some (Inr (result, stack')) \<Longrightarrow>
   list_all (\<lambda>s. include_path s = None) result"
proof (induction fuel arbitrary: dir ss stack result stack')
  case 0
  then show ?case
  proof (induction ss arbitrary: result)
    case (Cons s ss)
    then show ?case
      by (auto split: option.splits sum.splits prod.splits elim!: run_bind_InrE)
  qed simp
next
  case (Suc fuel)
  from Suc.prems show ?case
  proof (induction ss arbitrary: stack result)
    case (Cons s ss)
    show ?case
    proof (cases "include_path s")
      case None
      with Cons show ?thesis by (auto elim!: run_bind_InrE)
    next
      case (Some q)
      with Cons.prems obtain path sp p included stack2 processed stack3 result' where
        "process_program fuel fs (parent_path p) included stack2 = Some (Inr (processed, stack3))"
        "process_program (Suc fuel) fs dir ss stack3 = Some (Inr (result', stack'))"
        "result = processed @ result'"
        by (auto split: sum.splits prod.splits elim!: run_bind_InrE)
      with Cons.IH Suc.IH show ?thesis by (metis list_all_append)
    qed
  qed simp
qed

lemma process_program_id:
  "list_all (\<lambda>s. include_path s = None) ss \<Longrightarrow> process_program fuel fs dir ss stack = Some (Inr (ss, stack))"
  by (induction ss) simp_all

section \<open>When processing returns\<close>

text \<open>
  A set of files is \<open>include_cycle\<close> when every one of them starts, before any other include,
  with an include of one of the set. Processing such an include never returns, however deep the
  recursion may go: the check for circular includes always finds the stack empty.
\<close>

definition include_cycle :: "file_system \<Rightarrow> string set \<Rightarrow> bool" where
  "include_cycle fs files =
     (\<forall>p\<in>files. \<exists>pre s post path sp q.
        load_and_parse fs p = Inr (pre @ s # post) \<and> list_all (\<lambda>s. include_path s = None) pre \<and>
        include_path s = Some (path, sp) \<and>
        fs_canonical fs (path_append (parent_path p) path) = Some q \<and> q \<in> files)"

lemma process_program_prefix:
  "list_all (\<lambda>s. include_path s = None) pre \<Longrightarrow>
   process_program fuel fs dir (pre @ ss) stack =
   run_bind (process_program fuel fs dir ss stack) (\<lambda>(result, st). Some (Inr (pre @ result, st)))"
proof (induction pre)
  case Nil
  then show ?case by (auto simp: run_bind_def split: option.splits sum.splits)
next
  case (Cons s pre)
  then show ?case by (auto simp: run_bind_def split: option.splits sum.splits)
qed

lemma include_cycle_diverges:
  assumes "include_cycle fs files" and "include_path s = Some (path, sp)"
    and "fs_canonical fs (path_append dir path) = Some p" and "p \<in> files"
  shows "process_program fuel fs dir (s # ss) {} = None"
  using assms(2-4)
proof (induction fuel arbitrary: s path sp dir p ss)
  case 0
  from assms(1) 0 obtain body where "load_and_parse fs p = Inr body"
    unfolding include_cycle_def by blast
  with 0 show ?case by (subst process_program_Cons [OF 0(1) refl]) simp
next
  case (Suc fuel)
  from assms(1) Suc.prems(3) obtain pre t post path' sp' q where
    t: "load_and_parse fs p = Inr (pre @ t # post)" "list_all (\<lambda>s. include_path s = None) pre"
      "include_path t = Some (path', sp')"
      "fs_canonical fs (path_append (parent_path p) path') = Some q" "q \<in> files"
    unfolding include_cycle_def by blast
  have "process_program fuel fs (parent_path p) (t # post) {} = None"
    by (rule Suc.IH [OF t(3-5)])
  then have "process_program fuel fs (parent_path p) (pre @ t # post) {} = None"
    by (simp only: process_program_prefix [OF t(2)] run_bind_simps)
  with Suc.prems t(1) show ?case by (subst process_program_Cons [OF Suc.prems(1) refl]) simp
qed

text \<open>
  When the includes of every loaded file lead to files of a smaller rank, the fuel of the rank
  of the first file is enough: processing returns a program or an exception.
\<close>

definition includes_below :: "file_system \<Rightarrow> (string \<Rightarrow> nat) \<Rightarrow> string \<Rightarrow> statement list \<Rightarrow> nat \<Rightarrow> bool" where
  "includes_below fs rank dir ss n =
     (\<forall>s\<in>set ss. \<forall>path sp p. include_path s = Some (path, sp) \<longrightarrow>
        fs_canonical fs (path_append dir path) = Some p \<longrightarrow> rank p < n)"

definition ranked :: "file_system \<Rightarrow> (string \<Rightarrow> nat) \<Rightarrow> bool" where
  "ranked fs rank =
     (\<forall>p ss. load_and_parse fs p = Inr ss \<longrightarrow> includes_below fs rank (parent_path p) ss (rank p))"

lemma ranked_includes_return:
  assumes "ranked fs rank" and "includes_below fs rank dir ss n" and "n \<le> fuel"
  shows "process_program fuel fs dir ss {} \<noteq> None"
  using assms(2,3)
proof (induction fuel arbitrary: dir ss n)
  case 0
  then show ?case
  proof (induction ss)
    case (Cons s ss)
    then have rest: "process_program 0 fs dir ss {} \<noteq> None" by (simp add: includes_below_def)
    show ?case
    proof (cases "include_path s")
      case None
      with rest show ?thesis by (auto simp: run_bind_def split: option.splits sum.splits)
    next
      case (Some q)
      obtain path sp where q: "q = (path, sp)" by fastforce
      with Cons.prems Some have "fs_canonical fs (path_append dir path) = None"
        by (cases "fs_canonical fs (path_append dir path)") (auto simp: includes_below_def)
      then show ?thesis by (subst process_program_Cons [OF Some [unfolded q] refl]) simp
    qed
  qed simp
next
  case (Suc fuel)
  from Suc.prems show ?case
  proof (induction ss)
    case (Cons s ss)
    then have rest: "process_program (Suc fuel) fs dir ss {} \<noteq> None" by (simp add: includes_below_def)
    show ?case
    proof (cases "include_path s")
      case None
      with rest show ?thesis by (auto simp: run_bind_def split: option.splits sum.splits)
    next
      case (Some q)
      obtain path sp where q: "q = (path, sp)" by fastforce
      have nested: "process_program fuel fs (parent_path p) included {} \<noteq> None"
        if p: "fs_canonical fs (path_append dir path) = Some p" "load_and_parse fs p = Inr included"
        for p included
      proof (rule Suc.IH)
        show "includes_below fs rank (parent_path p) included (rank p)"
          using assms(1) p(2) by (simp add: ranked_def)
        show "rank p \<le> fuel" using Cons.prems Some q p(1) by (fastforce simp: includes_below_def)
      qed
      show ?thesis
      proof (cases "fs_canonical fs (path_append dir path)")
        case None
        then show ?thesis by (subst process_program_Cons [OF Some [unfolded q] refl]) simp
      next
        case (Some p)
        note p = this
        show ?thesis
        proof (cases "load_and_parse fs p")
          case (Inl e)
          with p show ?thesis
            by (subst process_program_Cons [OF \<open>include_path s = Some q\<close> [unfolded q] refl]) simp
        next
          case (Inr included)
          with p rest nested [OF p Inr] show ?thesis
            by (subst process_program_Cons [OF \<open>include_path s = Some q\<close> [unfolded q] refl])
              (auto simp: run_bind_def split: option.splits sum.splits)
        qed
      qed
    qed
  qed simp
qed

end
