(* ===== verification/Asm_Cartridge.thy ===== *)
theory Asm_Cartridge
  imports Text_Formats
begin

text \<open>
  The cartridge format as the assembler writes it (\<open>assembler/src/cartridge.cpp\<close>,
  \<open>cartridge.h\<close>): the little-endian header of 32 bytes and the JSON document of the debug
  symbols. The C++ streams are strings built from left to right.
\<close>

section \<open>The header\<close>

text \<open>\<open>reserved\<close> is the array of 18 bytes; the magic is the array of four characters.\<close>

record cartridge_header =
  h_magic :: string
  h_version :: u16
  h_header_size :: u16
  h_entry :: u16
  h_rom_size :: u32
  h_reserved :: "u8 list"

definition header_length :: nat where
  "header_length = 32"

definition default_header :: cartridge_header where
  "default_header =
     \<lparr>h_magic = ''IRTA'', h_version = 1, h_header_size = 32, h_entry = 0x8000, h_rom_size = 0,
      h_reserved = replicate 18 0\<rparr>"

definition append_u16 :: "u8 list \<Rightarrow> u16 \<Rightarrow> u8 list" where
  "append_u16 out v = out @ [ucast (v AND 0xFF), ucast (drop_bit 8 v AND 0xFF)]"

definition append_u32 :: "u8 list \<Rightarrow> u32 \<Rightarrow> u8 list" where
  "append_u32 out v =
     out @ [ucast (v AND 0xFF), ucast (drop_bit 8 v AND 0xFF), ucast (drop_bit 16 v AND 0xFF),
            ucast (drop_bit 24 v AND 0xFF)]"

definition byte_of_char :: "char \<Rightarrow> u8" where
  "byte_of_char c = of_nat (of_char c)"

definition encode_header :: "cartridge_header \<Rightarrow> u8 list" where
  "encode_header header =
     (let out = map byte_of_char (h_magic header);
          out = append_u16 out (h_version header);
          out = append_u16 out (h_header_size header);
          out = append_u16 out (h_entry header);
          out = append_u32 out (h_rom_size header);
          out = out @ h_reserved header in
      out @ replicate (header_length - length out) 0)"

section \<open>The debug document\<close>

record debug_record =
  d_address :: u16
  d_rom_offset :: u32
  d_file :: string
  d_line :: nat
  d_column :: nat
  d_text :: string

definition escape_char :: "char \<Rightarrow> string" where
  "escape_char ch =
     (if ch = CHR 0x22 then [CHR 0x5C, CHR 0x22]
      else if ch = CHR 0x5C then [CHR 0x5C, CHR 0x5C]
      else if ch = newline then [CHR 0x5C, CHR ''n'']
      else if ch = CHR 0x0D then [CHR 0x5C, CHR ''r'']
      else if ch = CHR 0x09 then [CHR 0x5C, CHR ''t'']
      else if of_char ch < (0x20 :: nat)
        then [CHR 0x5C, CHR ''u''] @ pad_left 4 CHR ''0'' (hexadecimal (of_char ch))
      else [ch])"

definition escape_json :: "string \<Rightarrow> string" where
  "escape_json s = concat (map escape_char s)"

text \<open>A string and a hexadecimal number between quotes.\<close>

definition quoted :: "string \<Rightarrow> string" where
  "quoted s = CHR 0x22 # escape_json s @ [CHR 0x22]"

definition quoted_hex :: "nat \<Rightarrow> string" where
  "quoted_hex n = CHR 0x22 # ''0x'' @ hexadecimal n @ [CHR 0x22]"

text \<open>\<open>member_key\<close> is a member name with its colon and a space.\<close>

definition member_key :: "string \<Rightarrow> string" where
  "member_key name = CHR 0x22 # name @ [CHR 0x22, CHR '':'', CHR '' '']"

definition location_fields :: "debug_record \<Rightarrow> string" where
  "location_fields r =
     member_key ''file'' @ quoted (d_file r) @ '', '' @
     member_key ''line'' @ decimal (d_line r) @ '', '' @
     member_key ''column'' @ decimal (d_column r) @ '', '' @
     member_key ''text'' @ quoted (d_text r)"

definition encode_pc_entry :: "u16 \<times> debug_record \<Rightarrow> string" where
  "encode_pc_entry e =
     ''    '' @ quoted_hex (unat (fst e)) @ '': {'' @ location_fields (snd e) @ ''}''"

definition encode_record :: "debug_record \<Rightarrow> string" where
  "encode_record r =
     ''    {'' @ member_key ''address'' @ quoted_hex (unat (d_address r)) @ '', '' @
     member_key ''rom_offset'' @ decimal (unat (d_rom_offset r)) @ '', '' @
     location_fields r @ ''}''"

definition encode_symbol :: "string \<times> u16 \<Rightarrow> string" where
  "encode_symbol e = ''    '' @ quoted (fst e) @ '': '' @ quoted_hex (unat (snd e))"

text \<open>Entries one per line, a comma after each but the last.\<close>

definition entry_lines :: "string list \<Rightarrow> string" where
  "entry_lines es = (if es = [] then [] else join ([CHR '','', newline]) es @ [newline])"

definition pc_entries :: "debug_record list \<Rightarrow> (u16 \<times> debug_record) list" where
  "pc_entries records = foldl (\<lambda>m r. emplace (d_address r) r m) [] records"

definition encode_debug_json ::
  "cartridge_header \<Rightarrow> string \<Rightarrow> string \<Rightarrow> string list \<Rightarrow> (string \<times> u16) list \<Rightarrow>
   debug_record list \<Rightarrow> string" where
  "encode_debug_json header schema_version source_root source_files symbols records =
     ''{'' @ [newline] @
     ''  '' @ member_key ''version'' @ quoted schema_version @ [CHR '','', newline] @
     ''  '' @ member_key ''cartridge_version'' @ decimal (unat (h_version header)) @ [CHR '','', newline] @
     ''  '' @ member_key ''entry'' @ quoted_hex (unat (h_entry header)) @ [CHR '','', newline] @
     ''  '' @ member_key ''rom_size'' @ decimal (unat (h_rom_size header)) @ [CHR '','', newline] @
     ''  '' @ member_key ''source_root'' @ quoted source_root @ [CHR '','', newline] @
     ''  '' @ member_key ''source_files'' @ ''['' @ join '', '' (map quoted source_files) @
       [CHR '']'', CHR '','', newline] @
     ''  '' @ member_key ''symbols'' @ ''{'' @
       (if symbols = [] then []
        else [newline] @ entry_lines (map encode_symbol (ordered symbols)) @ ''  '') @
       [CHR ''}'', CHR '','', newline] @
     ''  '' @ member_key ''pc_to_source'' @ ''{'' @ [newline] @
       entry_lines (map encode_pc_entry (ordered (pc_entries records))) @
       ''  }'' @ [CHR '','', newline] @
     ''  '' @ member_key ''records'' @ ''['' @ [newline] @
       entry_lines (map encode_record records) @
       ''  ]'' @ [newline] @ ''}'' @ [newline]"

section \<open>The header's layout\<close>

lemma unat_byte_of_char [simp]: "unat (byte_of_char c) = of_char c"
  using of_char_less [of c] by (simp add: byte_of_char_def unat_of_nat)

lemma length_encode_header:
  assumes "length (h_magic h) = 4" and "length (h_reserved h) = 18"
  shows "length (encode_header h) = header_length"
  using assms by (simp add: encode_header_def append_u16_def append_u32_def header_length_def Let_def)

end
