(* ===== verification/Asm_Assembler.thy ===== *)
theory Asm_Assembler
  imports Asm_Include Asm_Cartridge
begin

text \<open>
  The two passes of the assembler (\<open>assembler/src/assembler.cpp\<close>): the first assigns an
  address to every statement that emits bytes and collects labels and constants, the second
  resolves operands and writes the ROM with its debug records. The instruction set, which the
  build generates, is a parameter.
\<close>

section \<open>The instruction set\<close>

datatype addressing_mode =
    IMP | IMM | ZP | ZPX | ZPY | ABS | ABX | ABY | IND | IZX | IZY | REL

record instruction_info =
  i_mnemonic :: string
  i_mode :: addressing_mode
  i_opcode :: u8

text \<open>\<open>GetInstructions\<close> and \<open>GetAddressingMode\<close> of the generated class \<open>IsaInfo\<close>.\<close>

record isa_info =
  isa_instructions :: "instruction_info list"
  isa_operand_bytes :: "addressing_mode \<Rightarrow> u8 option"

section \<open>Data\<close>

record assembler_options =
  opt_origin :: u16
  opt_rom_size :: u32

definition default_options :: assembler_options where
  "default_options = \<lparr>opt_origin = 0x8000, opt_rom_size = 0x8000\<rparr>"

datatype emittable_kind = Emit_Instruction | Emit_Bytes

record emittable =
  e_address :: u16
  e_span :: span
  e_text :: string
  e_kind :: emittable_kind
  e_mode :: addressing_mode
  e_opcode :: u8
  e_operand_bytes :: u8
  e_operands :: "operand list"

text \<open>
  The result of the first pass with its local cursor. The cursor is 32 bits wide in the code so
  that it can pass 0xFFFF without wrapping; here it is a natural number.
\<close>

record first_pass_state =
  fp_items :: "emittable list"
  fp_symbols :: "(string \<times> u16) list"
  fp_constants :: "(string \<times> u32) list"
  fp_origin :: u16
  fp_max_address :: u16
  fp_cursor :: nat

record assembler_result =
  a_header :: cartridge_header
  a_rom :: "u8 list"
  a_debug_json :: string

section \<open>Printing statements\<close>

definition format_operand :: "operand \<Rightarrow> string" where
  "format_operand opnd =
     (case o_kind opnd of Op_Number \<Rightarrow> decimal (unat (o_number opnd)) | Op_Label \<Rightarrow> o_label opnd)"

definition format_instruction_text :: "string \<Rightarrow> operand list \<Rightarrow> string" where
  "format_instruction_text mnemonic opnds =
     mnemonic @ (if opnds = [] then [] else '' '' @ join '', '' (map format_operand opnds))"

definition format_directive_text :: "directive_type \<Rightarrow> operand list \<Rightarrow> string" where
  "format_directive_text type opnds =
     (if type = Org then ''.org'' else ''.byte'') @
     (if opnds = [] then [] else '' '' @ join '', '' (map format_operand opnds))"

section \<open>Choosing an instruction\<close>

definition find_by_mnemonic :: "isa_info \<Rightarrow> string \<Rightarrow> instruction_info option" where
  "find_by_mnemonic isa mnemonic =
     (let lowered = to_lower mnemonic in
      List.find (\<lambda>inst. to_lower (i_mnemonic inst) = lowered) (isa_instructions isa))"

definition find_by_mnemonic_and_mode ::
  "isa_info \<Rightarrow> string \<Rightarrow> addressing_mode \<Rightarrow> instruction_info option" where
  "find_by_mnemonic_and_mode isa mnemonic mode =
     (let lowered = to_lower mnemonic in
      List.find (\<lambda>inst. to_lower (i_mnemonic inst) = lowered \<and> i_mode inst = mode) (isa_instructions isa))"

definition require_number_operand :: "operand \<Rightarrow> string \<Rightarrow> asm_error + unit" where
  "require_number_operand opnd msg =
     throw_if (o_kind opnd \<noteq> Op_Number) (Assembler_Error (o_span opnd) msg)"

definition is_relative_mnemonic :: "string \<Rightarrow> bool" where
  "is_relative_mnemonic mnemonic =
     (to_lower mnemonic \<in> set [''beq'', ''bne'', ''bcs'', ''bcc'', ''bmi'', ''bpl'', ''bvs'', ''bvc''])"

text \<open>The addressing modes tried for an operand list, in order.\<close>

definition small_number :: "operand \<Rightarrow> bool" where
  "small_number opnd = (o_kind opnd = Op_Number \<and> o_number opnd \<le> 0xFF)"

definition candidate_modes ::
  "string \<Rightarrow> operand list \<Rightarrow> span \<Rightarrow> asm_error + addressing_mode list" where
  "candidate_modes mnemonic opnds sp =
     (case opnds of
        [] \<Rightarrow> Inr [IMP]
      | [opnd] \<Rightarrow>
          if is_relative_mnemonic mnemonic then
            (if o_immediate opnd
             then Inl (Assembler_Error sp ''relative branches do not use immediate operands'')
             else Inr [REL])
          else if o_indirect opnd then
            Inr (case o_index opnd of Index_X \<Rightarrow> [IZX] | Index_Y \<Rightarrow> [IZY] | No_Index \<Rightarrow> [IND])
          else if o_immediate opnd then Inr [IMM]
          else if o_index opnd = Index_X then Inr (if small_number opnd then [ZPX, ABX] else [ABX])
          else if o_index opnd = Index_Y then Inr (if small_number opnd then [ZPY, ABY] else [ABY])
          else if o_kind opnd = Op_Number then
            Inr (if o_number opnd \<le> 0xFF then [ZP, ABS] else [ABS])
          else Inr [ABS, ZP]
      | _ \<Rightarrow> Inl (Assembler_Error sp ''unexpected operand count''))"

fun first_info :: "isa_info \<Rightarrow> string \<Rightarrow> addressing_mode list \<Rightarrow> instruction_info option" where
  "first_info isa mnemonic [] = None"
| "first_info isa mnemonic (mode # modes) =
     (case find_by_mnemonic_and_mode isa mnemonic mode of
        Some info \<Rightarrow> Some info
      | None \<Rightarrow> first_info isa mnemonic modes)"

definition select_instruction ::
  "isa_info \<Rightarrow> string \<Rightarrow> operand list \<Rightarrow> span \<Rightarrow> asm_error + instruction_info" where
  "select_instruction isa mnemonic opnds sp =
     bind_ok (candidate_modes mnemonic opnds sp) (\<lambda>modes.
       case first_info isa mnemonic modes of
         Some info \<Rightarrow> Inr info
       | None \<Rightarrow> Inl (Assembler_Error sp ''unsupported addressing mode''))"

section \<open>The first pass\<close>

definition validate_cursor :: "nat \<Rightarrow> span \<Rightarrow> asm_error + unit" where
  "validate_cursor addr sp = throw_if (addr > 0xFFFF) (Assembler_Error sp ''address overflow'')"

definition update_max_address :: "nat \<Rightarrow> first_pass_state \<Rightarrow> first_pass_state" where
  "update_max_address last_addr st =
     (if last_addr \<le> 0xFFFF \<and> last_addr > unat (fp_max_address st)
      then st\<lparr>fp_max_address := of_nat last_addr\<rparr> else st)"

definition first_pass_init :: "assembler_options \<Rightarrow> first_pass_state" where
  "first_pass_init options =
     \<lparr>fp_items = [], fp_symbols = [], fp_constants = [], fp_origin = opt_origin options,
      fp_max_address = opt_origin options, fp_cursor = unat (opt_origin options)\<rparr>"

text \<open>Placing an item at the cursor: the tail that both kinds of items share.\<close>

definition place_item ::
  "span \<Rightarrow> nat \<Rightarrow> (u16 \<Rightarrow> emittable) \<Rightarrow> first_pass_state \<Rightarrow> asm_error + first_pass_state" where
  "place_item sp n mk st =
     bind_ok (validate_cursor (fp_cursor st) sp) (\<lambda>_.
       let st1 = st\<lparr>fp_items := fp_items st @ [mk (of_nat (fp_cursor st))]\<rparr> in
       bind_ok (validate_cursor (fp_cursor st + n - 1) sp) (\<lambda>_.
         let st2 = update_max_address (fp_cursor st + n - 1) st1 in
         Inr (st2\<lparr>fp_cursor := fp_cursor st + n\<rparr>)))"

fun first_pass_statement ::
  "isa_info \<Rightarrow> assembler_options \<Rightarrow> statement \<Rightarrow> first_pass_state \<Rightarrow> asm_error + first_pass_state" where
  "first_pass_statement isa options (Label_Decl name sp) st =
     (if map_of (fp_symbols st) name \<noteq> None then Inl (Assembler_Error sp ''duplicate label'')
      else bind_ok (validate_cursor (fp_cursor st) sp) (\<lambda>_.
        Inr (st\<lparr>fp_symbols := emplace name (of_nat (fp_cursor st)) (fp_symbols st)\<rparr>)))"
| "first_pass_statement isa options (Equ_Decl name v sp) st =
     (if map_of (fp_constants st) name \<noteq> None then Inl (Assembler_Error sp ''duplicate constant'')
      else if map_of (fp_symbols st) name \<noteq> None
      then Inl (Assembler_Error sp ''constant name conflicts with label'')
      else Inr (st\<lparr>fp_constants := emplace name v (fp_constants st)\<rparr>))"
| "first_pass_statement isa options (Directive_Stmt type opnds path sp) st =
     (case type of
        Org \<Rightarrow>
          (if length opnds \<noteq> 1 then Inl (Assembler_Error sp ''.org requires one operand'')
           else
             let opnd = hd opnds in
             bind_ok (require_number_operand opnd ''.org requires numeric literal'') (\<lambda>_.
               if o_number opnd > 0xFFFF
               then Inl (Assembler_Error (o_span opnd) ''origin out of range'')
               else if unat (o_number opnd) < unat (opt_origin options)
               then Inl (Assembler_Error (o_span opnd) ''origin below entry point'')
               else Inr (st\<lparr>fp_cursor := unat (o_number opnd)\<rparr>)))
      | Byte_Data \<Rightarrow>
          (if opnds = [] then Inl (Assembler_Error sp ''.byte requires at least one operand'')
           else place_item sp (length opnds)
             (\<lambda>address. \<lparr>e_address = address, e_span = sp, e_text = format_directive_text type opnds,
                e_kind = Emit_Bytes, e_mode = IMP, e_opcode = 0, e_operand_bytes = 0,
                e_operands = opnds\<rparr>) st)
      | Include \<Rightarrow> Inr st)"
| "first_pass_statement isa options (Instruction_Stmt mnemonic opnds sp) st =
     bind_ok (select_instruction isa mnemonic opnds sp) (\<lambda>info.
       case isa_operand_bytes isa (i_mode info) of
         None \<Rightarrow> Inl (Assembler_Error sp ''unknown addressing mode'')
       | Some operand_bytes \<Rightarrow>
           place_item sp (1 + unat operand_bytes)
             (\<lambda>address. \<lparr>e_address = address, e_span = sp,
                e_text = format_instruction_text mnemonic opnds, e_kind = Emit_Instruction,
                e_mode = i_mode info, e_opcode = i_opcode info, e_operand_bytes = operand_bytes,
                e_operands = opnds\<rparr>) st)"

definition first_pass ::
  "isa_info \<Rightarrow> assembler_options \<Rightarrow> statement list \<Rightarrow> asm_error + first_pass_state" where
  "first_pass isa options program =
     fold_ok (first_pass_statement isa options) program (first_pass_init options)"

section \<open>Resolving operands\<close>

text \<open>A label operand is looked up among the constants first, then among the labels.\<close>

definition lookup_name ::
  "first_pass_state \<Rightarrow> operand \<Rightarrow> (u32 + u16) option" where
  "lookup_name st opnd =
     (case map_of (fp_constants st) (o_label opnd) of
        Some v \<Rightarrow> Some (Inl v)
      | None \<Rightarrow> map_option Inr (map_of (fp_symbols st) (o_label opnd)))"

definition resolve_byte_operand :: "first_pass_state \<Rightarrow> operand \<Rightarrow> asm_error + u8" where
  "resolve_byte_operand st opnd =
     (if o_kind opnd = Op_Number then
        (if o_number opnd > 0xFF then Inl (Assembler_Error (o_span opnd) ''byte literal out of range'')
         else Inr (ucast (o_number opnd)))
      else (case lookup_name st opnd of
          Some (Inl v) \<Rightarrow>
            if v > 0xFF then Inl (Assembler_Error (o_span opnd) ''constant value out of byte range'')
            else Inr (ucast v)
        | Some (Inr address) \<Rightarrow>
            if address > 0xFF then Inl (Assembler_Error (o_span opnd) ''label out of byte range'')
            else Inr (ucast address)
        | None \<Rightarrow> Inl (Assembler_Error (o_span opnd) ''unknown label or constant'')))"

definition resolve_word_operand :: "first_pass_state \<Rightarrow> operand \<Rightarrow> asm_error + u16" where
  "resolve_word_operand st opnd =
     (if o_kind opnd = Op_Number then
        (if o_number opnd > 0xFFFF then Inl (Assembler_Error (o_span opnd) ''word literal out of range'')
         else Inr (ucast (o_number opnd)))
      else (case lookup_name st opnd of
          Some (Inl v) \<Rightarrow>
            if v > 0xFFFF then Inl (Assembler_Error (o_span opnd) ''constant value out of word range'')
            else Inr (ucast v)
        | Some (Inr address) \<Rightarrow> Inr address
        | None \<Rightarrow> Inl (Assembler_Error (o_span opnd) ''unknown label or constant'')))"

definition branch_target :: "first_pass_state \<Rightarrow> operand \<Rightarrow> asm_error + u32" where
  "branch_target st opnd =
     (if o_kind opnd = Op_Number then
        (if o_number opnd > 0xFFFF
         then Inl (Assembler_Error (o_span opnd) ''relative branch target out of range'')
         else Inr (o_number opnd))
      else (case lookup_name st opnd of
          Some (Inl v) \<Rightarrow>
            if v > 0xFFFF then Inl (Assembler_Error (o_span opnd) ''constant value out of address range'')
            else Inr v
        | Some (Inr address) \<Rightarrow> Inr (ucast address)
        | None \<Rightarrow> Inl (Assembler_Error (o_span opnd) ''unknown label or constant'')))"

definition resolve_relative_operand :: "first_pass_state \<Rightarrow> operand \<Rightarrow> u16 \<Rightarrow> asm_error + u8" where
  "resolve_relative_operand st opnd instruction_address =
     bind_ok (branch_target st opnd) (\<lambda>target.
       let base = uint instruction_address + 2; offset = uint target - base in
       if offset < - 128 \<or> offset > 127
       then Inl (Assembler_Error (o_span opnd) ''relative branch out of range'')
       else Inr (word_of_int offset))"

section \<open>Source files of the debug records\<close>

text \<open>
  The parts of \<open>std::filesystem::path\<close> that the encoder uses, on POSIX names: the elements
  of a path, its last element, and \<open>lexically_relative\<close>.
\<close>

fun split_slashes :: "string \<Rightarrow> string \<Rightarrow> string list" where
  "split_slashes word [] = [word]"
| "split_slashes word (c # cs) =
     (if c = CHR ''/'' then word # split_slashes [] cs else split_slashes (word @ [c]) cs)"

definition path_elements :: "string \<Rightarrow> string list" where
  "path_elements p =
     (let words = split_slashes [] p;
          trailing = (p \<noteq> [] \<and> last p = CHR ''/'' \<and> list_ex (\<lambda>c. c \<noteq> CHR ''/'') p) in
      (if p \<noteq> [] \<and> hd p = CHR ''/'' then [''/''] else []) @ filter (\<lambda>w. w \<noteq> []) words @
      (if trailing then [[]] else []))"

definition is_absolute :: "string \<Rightarrow> bool" where
  "is_absolute p = (p \<noteq> [] \<and> hd p = CHR ''/'')"

definition path_filename :: "string \<Rightarrow> string" where
  "path_filename p = rev (takeWhile (\<lambda>c. c \<noteq> CHR ''/'') (rev p))"

fun strip_common :: "string list \<Rightarrow> string list \<Rightarrow> string list \<times> string list" where
  "strip_common (a # as) (b # bs) = (if a = b then strip_common as bs else (a # as, b # bs))"
| "strip_common as bs = (as, bs)"

definition up_steps :: "string list \<Rightarrow> int" where
  "up_steps bs =
     (\<Sum>b\<leftarrow>bs. if b = [] \<or> b = ''.'' then 0 else if b = ''..'' then -1 else 1)"

definition join_path :: "string list \<Rightarrow> string" where
  "join_path elements = foldl path_append [] elements"

definition lexically_relative :: "string \<Rightarrow> string \<Rightarrow> string" where
  "lexically_relative p base =
     (if is_absolute p \<noteq> is_absolute base then []
      else
        let (a, b) = strip_common (path_elements p) (path_elements base) in
        if a = [] \<and> b = [] then ''.''
        else let n = up_steps b in
          if n < 0 then []
          else if n = 0 \<and> (a = [] \<or> hd a = []) then ''.''
          else join_path (replicate (nat n) ''..'' @ a))"

definition relative_to_root :: "string \<Rightarrow> string \<Rightarrow> string \<Rightarrow> string" where
  "relative_to_root source_path root_path file =
     (let path = (if file = [] then source_path else file) in
      if root_path = [] then path
      else
        let relative = lexically_relative path root_path in
        if relative = [] then path_filename path else relative)"

section \<open>The second pass\<close>

record encode_state =
  en_rom :: "u8 list"
  en_files :: "string list"
  en_records :: "debug_record list"

text \<open>\<open>TrackSourceFile\<close> and \<open>AddRecord\<close>; \<open>relative\<close> is \<open>RelativeToRoot\<close>.\<close>

definition track_source_file :: "(string \<Rightarrow> string) \<Rightarrow> string \<Rightarrow> string list \<Rightarrow> string list" where
  "track_source_file relative file files =
     (if relative file \<in> set files then files else files @ [relative file])"

definition add_record ::
  "(string \<Rightarrow> string) \<Rightarrow> span \<Rightarrow> u16 \<Rightarrow> nat \<Rightarrow> string \<Rightarrow> encode_state \<Rightarrow> encode_state" where
  "add_record relative sp address offset text st =
     st\<lparr>en_files := track_source_file relative (span_file sp) (en_files st),
        en_records := en_records st @
          [\<lparr>d_address = address, d_rom_offset = of_nat offset, d_file = relative (span_file sp),
            d_line = span_line sp, d_column = span_column sp, d_text = text\<rparr>]\<rparr>"

definition set_rom :: "nat \<Rightarrow> u8 \<Rightarrow> encode_state \<Rightarrow> encode_state" where
  "set_rom offset v st = st\<lparr>en_rom := (en_rom st)[offset := v]\<rparr>"

abbreviation (input) "size_error sp \<equiv> Assembler_Error sp ''address exceeds cartridge size''"

definition encode_instruction_item ::
  "first_pass_state \<Rightarrow> (string \<Rightarrow> string) \<Rightarrow> nat \<Rightarrow> emittable \<Rightarrow> encode_state \<Rightarrow> asm_error + encode_state" where
  "encode_instruction_item pass relative offset item st =
     (let sp = e_span item; address = e_address item;
          st1 = add_record relative sp address offset (e_text item)
                  (set_rom offset (e_opcode item) st) in
      if e_operand_bytes item = 1 then
        (if e_operands item = [] then Inl (Assembler_Error sp ''missing operand'')
         else bind_ok
           (if e_mode item = REL
            then resolve_relative_operand pass (hd (e_operands item)) address
            else resolve_byte_operand pass (hd (e_operands item))) (\<lambda>v.
             if offset + 1 \<ge> length (en_rom st1) then Inl (size_error sp)
             else Inr (add_record relative sp (address + 1) (offset + 1) (e_text item)
                         (set_rom (offset + 1) v st1))))
      else if e_operand_bytes item = 2 then
        (if e_operands item = [] then Inl (Assembler_Error sp ''missing operand'')
         else bind_ok (resolve_word_operand pass (hd (e_operands item))) (\<lambda>v.
           if offset + 2 \<ge> length (en_rom st1) then Inl (size_error sp)
           else
             let st2 = set_rom (offset + 2) (ucast (drop_bit 8 v AND 0xFF))
                         (set_rom (offset + 1) (ucast (v AND 0xFF)) st1) in
             Inr (fold (\<lambda>i. add_record relative sp (address + of_nat i) (offset + i) (e_text item))
                    [1, 2] st2)))
      else if e_operand_bytes item \<noteq> 0 then Inl (Assembler_Error sp ''unsupported operand width'')
      else Inr st1)"

definition encode_byte ::
  "first_pass_state \<Rightarrow> (string \<Rightarrow> string) \<Rightarrow> nat \<Rightarrow> emittable \<Rightarrow> nat \<Rightarrow> encode_state \<Rightarrow> asm_error + encode_state" where
  "encode_byte pass relative offset item i st =
     (let target = offset + i in
      if target \<ge> length (en_rom st)
      then Inl (Assembler_Error (e_span item) ''byte write exceeds cartridge size'')
      else bind_ok (resolve_byte_operand pass (e_operands item ! i)) (\<lambda>v.
        Inr (add_record relative (e_span item) (e_address item + of_nat i) target (e_text item)
               (set_rom target v st))))"

definition encode_item ::
  "first_pass_state \<Rightarrow> nat \<Rightarrow> (string \<Rightarrow> string) \<Rightarrow> emittable \<Rightarrow> encode_state \<Rightarrow> asm_error + encode_state" where
  "encode_item pass origin relative item st =
     (let address = unat (e_address item) in
      if address < origin then Inl (Assembler_Error (e_span item) ''address below entry point'')
      else
        let offset = address - origin in
        if offset \<ge> length (en_rom st) then Inl (size_error (e_span item))
        else if e_kind item = Emit_Instruction
        then encode_instruction_item pass relative offset item st
        else fold_ok (encode_byte pass relative offset item) [0..<length (e_operands item)] st)"

definition encode ::
  "first_pass_state \<Rightarrow> assembler_options \<Rightarrow> string \<Rightarrow> asm_error + assembler_result" where
  "encode pass options source_file =
     (let origin = unat (opt_origin options);
          max_address = max (unat (fp_max_address pass)) origin;
          program_size = max_address - origin in
      if program_size > unat (opt_rom_size options)
      then Inl (Assembler_Error no_span ''program exceeds cartridge size'')
      else
        let source_path = (if source_file = [] then ''unknown.asm'' else source_file);
            root_path = parent_path source_path;
            source_root = (if root_path = [] then ''.'' else root_path);
            relative = relative_to_root source_path root_path in
        bind_ok (fold_ok (encode_item pass origin relative) (fp_items pass)
                   \<lparr>en_rom = replicate (unat (opt_rom_size options)) 0xFF, en_files = [],
                    en_records = []\<rparr>) (\<lambda>st.
          let header = default_header\<lparr>h_entry := opt_origin options,
                         h_rom_size := of_nat (length (en_rom st))\<rparr>;
              files = (if en_files st = [] then track_source_file relative source_path []
                       else en_files st) in
          Inr \<lparr>a_header = header, a_rom = en_rom st,
               a_debug_json = encode_debug_json header ''v1'' source_root files (fp_symbols pass)
                 (en_records st)\<rparr>))"

section \<open>Assembling\<close>

text \<open>
  The current directory is a parameter beside the file system; the fuel is that of the nested
  includes.
\<close>

definition assemble ::
  "nat \<Rightarrow> isa_info \<Rightarrow> file_system \<Rightarrow> string \<Rightarrow> string \<Rightarrow> string \<Rightarrow> assembler_options \<Rightarrow>
   (asm_error + assembler_result) option" where
  "assemble fuel isa fs current_path src file options =
     run_bind (Some (bind_ok (lex_source (make_lexer src file)) parse)) (\<lambda>program.
       let parent = parent_path file;
           base_dir = (if parent = [] then current_path else parent) in
       run_bind (process_includes fuel fs program base_dir) (\<lambda>program'.
         Some (bind_ok (first_pass isa options program') (\<lambda>pass. encode pass options file))))"

definition assemble_file ::
  "nat \<Rightarrow> isa_info \<Rightarrow> file_system \<Rightarrow> string \<Rightarrow> string \<Rightarrow> assembler_options \<Rightarrow>
   (asm_error + assembler_result) option" where
  "assemble_file fuel isa fs current_path path options =
     (case fs_read fs path of
        None \<Rightarrow> Some (Inl (Runtime_Error (''failed to open asm file: '' @ path)))
      | Some src \<Rightarrow> assemble fuel isa fs current_path src path options)"

text \<open>The bytes that \<open>WriteCartridge\<close> writes to its file.\<close>

definition write_cartridge :: "assembler_result \<Rightarrow> u8 list" where
  "write_cartridge result = encode_header (a_header result) @ a_rom result"

end
