(* ===== verification/Base_Types.thy ===== *)
theory Base_Types
  imports Prelude
begin

text \<open>
  The module \<open>base\<close>: the strongly typed 8-bit \<open>Byte\<close> and 16-bit \<open>Word\<close> of
  \<open>types.h\<close>, whose C++ operators promote to \<open>int\<close> and truncate back, and the five
  tick phases of \<open>tick_phase.h\<close>.
\<close>

section \<open>Byte\<close>

text \<open>
  A \<open>Byte\<close> is its \<open>uint8_t\<close>. The arithmetic of \<open>8 word\<close> is the C++ arithmetic
  after truncation, so the operators are the word operators; shifts take the \<open>int\<close>
  count as a natural number (a negative count is undefined behaviour in C++).
\<close>

definition byte_add :: "u8 \<Rightarrow> u8 \<Rightarrow> u8" where "byte_add a b = a + b"
definition byte_sub :: "u8 \<Rightarrow> u8 \<Rightarrow> u8" where "byte_sub a b = a - b"
definition byte_shl :: "u8 \<Rightarrow> nat \<Rightarrow> u8" where "byte_shl a n = push_bit n a"
definition byte_shr :: "u8 \<Rightarrow> nat \<Rightarrow> u8" where "byte_shr a n = drop_bit n a"

section \<open>Word\<close>

definition word_of_bytes :: "u8 \<Rightarrow> u8 \<Rightarrow> u16" where
  "word_of_bytes high low = (push_bit 8 (ucast high) OR ucast low)"

definition word_high :: "u16 \<Rightarrow> u8" where
  "word_high w = ucast (drop_bit 8 w)"

definition word_low :: "u16 \<Rightarrow> u8" where
  "word_low w = ucast (w AND 0xFF)"

definition word_add :: "u16 \<Rightarrow> u16 \<Rightarrow> u16" where "word_add a b = a + b"
definition word_sub :: "u16 \<Rightarrow> u16 \<Rightarrow> u16" where "word_sub a b = a - b"

subsection \<open>Taking words apart and putting them together\<close>

lemma bit_word_of_bytes:
  "bit (word_of_bytes h l) n \<longleftrightarrow> n < 16 \<and> (if n < 8 then bit l n else bit h (n - 8))"
  by (auto simp: word_of_bytes_def bit_simps dest: bit_imp_le_length)

lemma bit_word_high: "bit (word_high w) n \<longleftrightarrow> n < 8 \<and> bit w (n + 8)"
  by (auto simp: word_high_def bit_simps add.commute)

lemma bit_0xFF_u16: "bit (0xFF :: u16) n \<longleftrightarrow> n < 8"
proof -
  have "(0xFF :: u16) = mask 8" by (simp add: mask_eq_exp_minus_1)
  then show ?thesis by (simp only: bit_mask_iff) auto
qed

lemma bit_word_low: "bit (word_low w) n \<longleftrightarrow> n < 8 \<and> bit w n"
  unfolding word_low_def bit_ucast_iff bit_and_iff bit_0xFF_u16 by auto

lemma word_high_of_bytes [simp]: "word_high (word_of_bytes h l) = h"
  by (rule bit_word_eqI) (auto simp: bit_word_high bit_word_of_bytes)

lemma word_low_of_bytes [simp]: "word_low (word_of_bytes h l) = l"
  by (rule bit_word_eqI) (auto simp: bit_word_low bit_word_of_bytes)

lemma word_of_bytes_high_low [simp]: "word_of_bytes (word_high w) (word_low w) = w"
proof (rule bit_word_eqI)
  fix n assume "n < LENGTH(16)"
  then show "bit (word_of_bytes (word_high w) (word_low w)) n \<longleftrightarrow> bit w n"
    by (cases "n < 8") (auto simp: bit_word_of_bytes bit_word_high bit_word_low)
qed

lemma word_of_bytes_inject [simp]:
  "word_of_bytes h l = word_of_bytes h' l' \<longleftrightarrow> h = h' \<and> l = l'"
  by (metis word_high_of_bytes word_low_of_bytes)

lemma unat_word_of_bytes: "unat (word_of_bytes h l) = 256 * unat h + unat l"
proof -
  have disj: "push_bit 8 (ucast h :: u16) AND ucast l = 0"
    by (rule bit_word_eqI) (auto simp: bit_simps dest: bit_imp_le_length)
  have "word_of_bytes h l = push_bit 8 (ucast h) + ucast l"
    by (simp add: word_of_bytes_def disj disjunctive_add_eq_or)
  moreover have "unat h * 256 < 65536" "unat h * 256 + unat l < 65536"
    using unat_u8_less [of h] unat_u8_less [of l] by linarith+
  ultimately show ?thesis
    by (simp add: push_bit_eq_mult unat_word_ariths unsigned_ucast_eq take_bit_eq_mod mult.commute)
qed

lemma unat_word_low: "unat (word_low w) = unat w mod 256"
  using unat_word_of_bytes [of "word_high w" "word_low w"] by simp

lemma unat_word_high: "unat (word_high w) = unat w div 256"
  using unat_word_of_bytes [of "word_high w" "word_low w"] by simp

lemma word_of_bytes_0_0 [simp]: "word_of_bytes 0 0 = 0"
  by (simp add: word_of_bytes_def)

section \<open>Tick phases\<close>

datatype tick_phase =
    Phase_None | Phase_Control | Phase_Write | Phase_Read | Phase_Process | Phase_Clear

fun phase_string :: "tick_phase \<Rightarrow> string" where
  "phase_string Phase_None = ''None''"
| "phase_string Phase_Control = ''Control''"
| "phase_string Phase_Write = ''Write''"
| "phase_string Phase_Read = ''Read''"
| "phase_string Phase_Process = ''Process''"
| "phase_string Phase_Clear = ''Clear''"

text \<open>An \<open>enum class\<close> compares by its declaration order, which is the order of a tick.\<close>

fun phase_rank :: "tick_phase \<Rightarrow> nat" where
  "phase_rank Phase_None = 0"
| "phase_rank Phase_Control = 1"
| "phase_rank Phase_Write = 2"
| "phase_rank Phase_Read = 3"
| "phase_rank Phase_Process = 4"
| "phase_rank Phase_Clear = 5"

lemma phase_rank_inject [simp]: "phase_rank p = phase_rank q \<longleftrightarrow> p = q"
  by (cases p; cases q) simp_all

instantiation tick_phase :: linorder
begin

definition less_eq_tick_phase :: "tick_phase \<Rightarrow> tick_phase \<Rightarrow> bool" where
  "p \<le> q \<longleftrightarrow> phase_rank p \<le> phase_rank q"

definition less_tick_phase :: "tick_phase \<Rightarrow> tick_phase \<Rightarrow> bool" where
  "p < q \<longleftrightarrow> phase_rank p < phase_rank q"

instance
  by standard (auto simp: less_eq_tick_phase_def less_tick_phase_def)

end

lemmas phase_order_simps = less_eq_tick_phase_def less_tick_phase_def

lemma phase_none_least [simp]: "Phase_None \<le> p"
  by (cases p) (simp_all add: phase_order_simps)

lemma phase_clear_greatest [simp]: "p \<le> Phase_Clear"
  by (cases p) (simp_all add: phase_order_simps)

lemma phase_string_inject: "phase_string p = phase_string q \<longleftrightarrow> p = q"
  by (cases p; cases q) simp_all

end
