(* ===== verification/Sim_Cartridge.thy ===== *)
theory Sim_Cartridge
  imports Asm_Cartridge Base_Types
begin

text \<open>
  The simulator's reader of cartridges (\<open>sim/src/cartridge.cpp\<close>). The contents of the file
  are a parameter, no value when it cannot be opened. The sum of header and ROM size is taken
  in 32 bits, as in the code; reading past the end of the file's buffer, which C++ leaves
  undefined, is an error of its own. \<open>load_after_encode\<close> is the round trip with the
  assembler's writer.
\<close>

datatype load_error =
    Cannot_Open string | Empty_File string | Header_Too_Small | Header_Truncated | Magic_Mismatch
  | Header_Size_Too_Small | File_Truncated | Read_Out_Of_Bounds

definition read_u16 :: "u8 list \<Rightarrow> nat \<Rightarrow> load_error + u16" where
  "read_u16 data offset =
     (if offset + 1 \<ge> length data then Inl Header_Truncated
      else Inr (ucast (data ! offset) OR push_bit 8 (ucast (data ! (offset + 1)))))"

definition read_u32 :: "u8 list \<Rightarrow> nat \<Rightarrow> load_error + u32" where
  "read_u32 data offset =
     (if offset + 3 \<ge> length data then Inl Header_Truncated
      else Inr (ucast (data ! offset) OR push_bit 8 (ucast (data ! (offset + 1))) OR
        push_bit 16 (ucast (data ! (offset + 2))) OR push_bit 24 (ucast (data ! (offset + 3)))))"

definition read_file :: "string \<Rightarrow> u8 list option \<Rightarrow> load_error + u8 list" where
  "read_file path contents =
     (case contents of
        None \<Rightarrow> Inl (Cannot_Open path)
      | Some data \<Rightarrow> if data = [] then Inl (Empty_File path) else Inr data)"

definition char_of_byte :: "u8 \<Rightarrow> char" where
  "char_of_byte b = char_of (unat b)"

record loaded_cartridge =
  l_header :: cartridge_header
  l_rom :: "u8 list"

definition load_cartridge :: "string \<Rightarrow> u8 list option \<Rightarrow> load_error + loaded_cartridge" where
  "load_cartridge path contents =
     bind_ok (read_file path contents) (\<lambda>data.
       if length data < header_length then Inl Header_Too_Small
       else
         let magic = map (\<lambda>i. char_of_byte (data ! i)) [0, 1, 2, 3] in
         if magic \<noteq> ''IRTA'' then Inl Magic_Mismatch
         else
           bind_ok (read_u16 data 4) (\<lambda>version.
           bind_ok (read_u16 data 6) (\<lambda>hsize.
           bind_ok (read_u16 data 8) (\<lambda>entry.
           bind_ok (read_u32 data 10) (\<lambda>rom_size.
             if unat hsize < header_length then Inl Header_Size_Too_Small
             else if length data < unat (ucast hsize + rom_size) then Inl File_Truncated
             else if length data < unat hsize + unat rom_size then Inl Read_Out_Of_Bounds
             else Inr \<lparr>l_header = default_header\<lparr>h_magic := magic, h_version := version,
                           h_header_size := hsize, h_entry := entry, h_rom_size := rom_size\<rparr>,
                       l_rom = map (\<lambda>i. data ! (unat hsize + i)) [0..<unat rom_size]\<rparr>)))))"

definition load_cartridge_rom :: "string \<Rightarrow> u8 list option \<Rightarrow> load_error + u8 list" where
  "load_cartridge_rom path contents =
     bind_ok (load_cartridge path contents) (\<lambda>c. Inr (l_rom c))"

section \<open>Little-endian numbers\<close>

lemma char_of_byte_of_char [simp]: "char_of_byte (byte_of_char c) = c"
  by (simp add: char_of_byte_def)

lemma ucast_and_FF: "(ucast (v AND 0xFF) :: u8) = ucast (v :: 'a::len word)"
proof -
  have m: "(0xFF :: 'a word) = mask 8" by (simp add: mask_eq_exp_minus_1)
  show ?thesis unfolding m by (rule bit_word_eqI) (auto simp: bit_simps dest: bit_imp_le_length)
qed

lemma bit_u16_bound: "bit (b :: u16) n \<Longrightarrow> n < 16"
  using bit_imp_le_length [of b n] by simp

lemma split_u16:
  "ucast (ucast (v AND 0xFF) :: u8) OR push_bit 8 (ucast (ucast (drop_bit 8 v AND 0xFF) :: u8)) = (v :: u16)"
  unfolding ucast_and_FF
  by (rule bit_word_eqI) (auto simp: bit_simps dest: bit_u16_bound)

lemma split_u32:
  "ucast (ucast (v AND 0xFF) :: u8) OR push_bit 8 (ucast (ucast (drop_bit 8 v AND 0xFF) :: u8)) OR
   push_bit 16 (ucast (ucast (drop_bit 16 v AND 0xFF) :: u8)) OR
   push_bit 24 (ucast (ucast (drop_bit 24 v AND 0xFF) :: u8)) = (v :: u32)"
  unfolding ucast_and_FF
proof (rule bit_word_eqI)
  fix n :: nat assume "n < LENGTH(32)"
  then have "n < 32" by simp
  then consider "n < 8" | "8 \<le> n" "n < 16" | "16 \<le> n" "n < 24" | "24 \<le> n" "n < 32" by linarith
  then show "bit (ucast (ucast v :: u8) OR push_bit 8 (ucast (ucast (drop_bit 8 v) :: u8)) OR
      push_bit 16 (ucast (ucast (drop_bit 16 v) :: u8)) OR
      push_bit 24 (ucast (ucast (drop_bit 24 v) :: u8)) :: u32) n = bit v n"
    by cases (auto simp: bit_simps)
qed

section \<open>Round trip\<close>

text \<open>
  Writing a header and a ROM and reading the file back gives both, for every header of the
  format whose declared sizes are those of the file and do not overflow 32 bits.
\<close>

definition header_ok :: "cartridge_header \<Rightarrow> u8 list \<Rightarrow> bool" where
  "header_ok h rom =
     (h_magic h = ''IRTA'' \<and> h_header_size h = 32 \<and> length (h_reserved h) = 18 \<and>
      unat (h_rom_size h) = length rom \<and> length rom < 2 ^ 32 - 32)"

lemma encode_header_fields:
  assumes "h_magic h = ''IRTA''" and "length (h_reserved h) = 18"
  shows "\<exists>pad. encode_header h =
    append_u32 (append_u16 (append_u16 (append_u16 (map byte_of_char ''IRTA'') (h_version h))
      (h_header_size h)) (h_entry h)) (h_rom_size h) @ pad"
  using assms by (auto simp: encode_header_def Let_def)

lemma encoded_fields:
  assumes "header_ok h rom"
  shows "length (encode_header h) = 32"
    and "read_u16 (encode_header h @ body) 4 = Inr (h_version h)"
    and "read_u16 (encode_header h @ body) 6 = Inr 32"
    and "read_u16 (encode_header h @ body) 8 = Inr (h_entry h)"
    and "read_u32 (encode_header h @ body) 10 = Inr (h_rom_size h)"
    and "map (\<lambda>i. char_of_byte ((encode_header h @ body) ! i)) [0, 1, 2, 3] = ''IRTA''"
proof -
  show len: "length (encode_header h) = 32"
    using length_encode_header [of h] assms by (simp add: header_ok_def header_length_def)
  obtain pad where pad: "encode_header h =
    append_u32 (append_u16 (append_u16 (append_u16 (map byte_of_char ''IRTA'') (h_version h))
      (h_header_size h)) (h_entry h)) (h_rom_size h) @ pad"
    using encode_header_fields [of h] assms by (auto simp: header_ok_def)
  have size: "h_header_size h = 32" using assms by (simp add: header_ok_def)
  show "read_u16 (encode_header h @ body) 4 = Inr (h_version h)"
    "read_u16 (encode_header h @ body) 6 = Inr 32"
    "read_u16 (encode_header h @ body) 8 = Inr (h_entry h)"
    "read_u32 (encode_header h @ body) 10 = Inr (h_rom_size h)"
    "map (\<lambda>i. char_of_byte ((encode_header h @ body) ! i)) [0, 1, 2, 3] = ''IRTA''"
    unfolding pad size [symmetric]
    using split_u16 [of "h_version h"] split_u16 [of "h_header_size h"] split_u16 [of "h_entry h"]
      split_u32 [of "h_rom_size h"]
    by (simp_all add: read_u16_def read_u32_def append_u16_def append_u32_def)
qed

lemma encoded_size:
  assumes "header_ok h rom"
  shows "unat (ucast (32 :: u16) + h_rom_size h) = 32 + length rom"
  using assms by (simp add: header_ok_def unat_word_ariths)

lemma load_after_encode:
  assumes ok: "header_ok h rom"
  shows "load_cartridge path (Some (encode_header h @ rom)) =
    Inr \<lparr>l_header = h\<lparr>h_reserved := replicate 18 0\<rparr>, l_rom = rom\<rparr>"
proof -
  note fields = encoded_fields [OF ok]
  have small: "unat (h_rom_size h) = length rom" using ok by (simp add: header_ok_def)
  have rom: "map (\<lambda>i. (encode_header h @ rom) ! (32 + i)) [0..<length rom] = rom"
    by (rule nth_equalityI) (simp_all add: nth_append fields)
  have hdr: "default_header\<lparr>h_magic := ''IRTA'', h_version := h_version h,
      h_header_size := 32, h_entry := h_entry h, h_rom_size := h_rom_size h\<rparr> =
      h\<lparr>h_reserved := replicate 18 0\<rparr>"
    using ok by (simp add: default_header_def header_ok_def)
  have "encode_header h @ rom \<noteq> []" using fields(1) by auto
  then show ?thesis
    unfolding load_cartridge_def read_file_def
    using fields rom hdr encoded_size [OF ok] small by (simp add: header_length_def)
qed

text \<open>A file cut short in its ROM is rejected.\<close>

lemma load_truncated:
  assumes ok: "header_ok h rom" and "n < length rom"
  shows "load_cartridge path (Some (encode_header h @ take n rom)) = Inl File_Truncated"
proof -
  note fields = encoded_fields [OF ok]
  have "encode_header h @ take n rom \<noteq> []" using fields(1) by auto
  then show ?thesis
    unfolding load_cartridge_def read_file_def
    using fields encoded_size [OF ok] assms(2) by (simp add: header_length_def)
qed

text \<open>
  The sum of the sizes wraps: with a ROM size of $2^{32} - 16$ a file of only a header passes
  the check for truncation, and the copy reads past the end.
\<close>

lemma load_wraps:
  assumes "h_magic h = ''IRTA''" and "h_header_size h = 32" and "length (h_reserved h) = 18"
    and "h_rom_size h = - 16"
  shows "load_cartridge path (Some (encode_header h)) = Inl Read_Out_Of_Bounds"
proof -
  have len: "length (encode_header h) = 32"
    using length_encode_header [of h] assms by (simp add: header_length_def)
  obtain pad where pad: "encode_header h =
    append_u32 (append_u16 (append_u16 (append_u16 (map byte_of_char ''IRTA'') (h_version h))
      (h_header_size h)) (h_entry h)) (h_rom_size h) @ pad"
    using encode_header_fields [of h] assms by auto
  have fields: "read_u16 (encode_header h) 4 = Inr (h_version h)"
    "read_u16 (encode_header h) 6 = Inr 32"
    "read_u16 (encode_header h) 8 = Inr (h_entry h)"
    "read_u32 (encode_header h) 10 = Inr (- 16)"
    "map (\<lambda>i. char_of_byte (encode_header h ! i)) [0, 1, 2, 3] = ''IRTA''"
    unfolding pad assms(2) [symmetric] assms(4) [symmetric]
    using split_u16 [of "h_version h"] split_u16 [of "h_header_size h"] split_u16 [of "h_entry h"]
      split_u32 [of "h_rom_size h"]
    by (simp_all add: read_u16_def read_u32_def append_u16_def append_u32_def)
  have "encode_header h \<noteq> []" using len by auto
  moreover have "unat (ucast (32 :: u16) + (- 16) :: u32) = 16" "unat (- 16 :: u32) = 2 ^ 32 - 16"
    by simp_all
  ultimately show ?thesis
    unfolding load_cartridge_def read_file_def
    using fields len by (simp add: header_length_def)
qed

end
