(* ===== verification/Hdl.thy ===== *)
theory Hdl
  imports Base_Types
begin

text \<open>
  The module \<open>hdl\<close>: the immutable schematic of the CPU. Components form a tree whose
  paths are built by \<open>ComponentBase\<close>; controls are leaves with a phase, an auto-reset bit
  and a path (\<open>ControlInfo\<close>). Every class's \<open>visit_impl\<close> is a list of the nodes it
  visits, in its order. A C++ \<open>const ControlInfo*\<close> is a value of type \<open>ctl\<close>.
\<close>

section \<open>Components and controls\<close>

datatype flag =
    Negative | Overflow | Unused | Brk | Decimal | Interrupt_disable | Zero | Carry

datatype comp =
    Cpu_root | Data_bus | Address_bus
  | Reg_a | Reg_x | Reg_y | Reg_sp | Reg_tmp
  | Alu | Alu_lhs | Alu_rhs | Alu_result
  | Pc | Pc_low | Pc_high | Pc_signed_offset
  | Status | Flag flag | Analyzer
  | Controller | Ir | Sc | Ipc
  | Memory | Mar | Mar_low | Mar_high | Mar_offset

datatype control_op =
    Write | Read | Reset | Increment | Decrement | Set_flag | Clear_flag
  | Opcode_bit_0 | Opcode_bit_1 | Opcode_bit_2 | Opcode_bit_3
  | Add_signed_offset | Add_offset | Stack_page | Interrupt_vector
  | Instruction_start | Latch | Halt | Crash | Irq_line

datatype ctl = Ctl comp control_op

text \<open>A visitor is called on components and on controls; only the latter are \<open>is_control_v\<close>.\<close>

datatype node = Comp_node comp | Control_node ctl

fun node_controls :: "node list \<Rightarrow> ctl list" where
  "node_controls [] = []"
| "node_controls (Comp_node c # ns) = node_controls ns"
| "node_controls (Control_node k # ns) = k # node_controls ns"

lemma node_controls_append: "node_controls (xs @ ys) = node_controls xs @ node_controls ys"
  by (induction xs rule: node_controls.induct) auto

section \<open>Names and paths\<close>

fun flag_name :: "flag \<Rightarrow> string" where
  "flag_name Negative = ''negative''"
| "flag_name Overflow = ''overflow''"
| "flag_name Unused = ''unused''"
| "flag_name Brk = ''break''"
| "flag_name Decimal = ''decimal''"
| "flag_name Interrupt_disable = ''interrupt_disable''"
| "flag_name Zero = ''zero''"
| "flag_name Carry = ''carry''"

fun flag_bit :: "flag \<Rightarrow> nat" where
  "flag_bit Negative = 7"
| "flag_bit Overflow = 6"
| "flag_bit Unused = 5"
| "flag_bit Brk = 4"
| "flag_bit Decimal = 3"
| "flag_bit Interrupt_disable = 2"
| "flag_bit Zero = 1"
| "flag_bit Carry = 0"

definition all_flags :: "flag list" where
  "all_flags =
     [Negative, Overflow, Unused, Brk, Decimal, Interrupt_disable, Zero, Carry]"

lemma flag_bit_less [simp]: "flag_bit f < 8"
  by (cases f) simp_all

lemma flag_bit_inject [simp]: "flag_bit f = flag_bit g \<longleftrightarrow> f = g"
  by (cases f; cases g) simp_all

lemma set_all_flags: "set all_flags = UNIV"
  by (auto simp: all_flags_def intro: flag.exhaust)

lemma flag_bit_surj: "n < 8 \<Longrightarrow> \<exists>f. flag_bit f = n"
proof -
  assume "n < 8"
  then consider "n = 0" | "n = 1" | "n = 2" | "n = 3" | "n = 4" | "n = 5" | "n = 6" | "n = 7"
    by linarith
  then show ?thesis
    by cases (rule exI [of _ Carry], simp, rule exI [of _ Zero], simp,
      rule exI [of _ Interrupt_disable], simp, rule exI [of _ Decimal], simp,
      rule exI [of _ Brk], simp, rule exI [of _ Unused], simp,
      rule exI [of _ Overflow], simp, rule exI [of _ Negative], simp)
qed

fun comp_name :: "comp \<Rightarrow> string" where
  "comp_name Cpu_root = ''cpu''"
| "comp_name Data_bus = ''data_bus''"
| "comp_name Address_bus = ''address_bus''"
| "comp_name Reg_a = ''a''"
| "comp_name Reg_x = ''x''"
| "comp_name Reg_y = ''y''"
| "comp_name Reg_sp = ''sp''"
| "comp_name Reg_tmp = ''tmp''"
| "comp_name Alu = ''alu''"
| "comp_name Alu_lhs = ''lhs''"
| "comp_name Alu_rhs = ''rhs''"
| "comp_name Alu_result = ''result''"
| "comp_name Pc = ''pc''"
| "comp_name Pc_low = ''low''"
| "comp_name Pc_high = ''high''"
| "comp_name Pc_signed_offset = ''signed_offset''"
| "comp_name Status = ''status''"
| "comp_name (Flag f) = flag_name f"
| "comp_name Analyzer = ''analyzer''"
| "comp_name Controller = ''controller''"
| "comp_name Ir = ''ir''"
| "comp_name Sc = ''sc''"
| "comp_name Ipc = ''ipc''"
| "comp_name Memory = ''memory''"
| "comp_name Mar = ''mar''"
| "comp_name Mar_low = ''low''"
| "comp_name Mar_high = ''high''"
| "comp_name Mar_offset = ''offset''"

fun op_name :: "control_op \<Rightarrow> string" where
  "op_name Write = ''write''"
| "op_name Read = ''read''"
| "op_name Reset = ''reset''"
| "op_name Increment = ''increment''"
| "op_name Decrement = ''decrement''"
| "op_name Set_flag = ''set''"
| "op_name Clear_flag = ''clear''"
| "op_name Opcode_bit_0 = ''opcode_bit_0''"
| "op_name Opcode_bit_1 = ''opcode_bit_1''"
| "op_name Opcode_bit_2 = ''opcode_bit_2''"
| "op_name Opcode_bit_3 = ''opcode_bit_3''"
| "op_name Add_signed_offset = ''add_signed_offset''"
| "op_name Add_offset = ''add_offset''"
| "op_name Stack_page = ''stack_page''"
| "op_name Interrupt_vector = ''interrupt_vector''"
| "op_name Instruction_start = ''instruction_start''"
| "op_name Latch = ''latch''"
| "op_name Halt = ''halt''"
| "op_name Crash = ''crash''"
| "op_name Irq_line = ''irq_line''"

fun comp_parent :: "comp \<Rightarrow> comp option" where
  "comp_parent Cpu_root = None"
| "comp_parent Alu_lhs = Some Alu"
| "comp_parent Alu_rhs = Some Alu"
| "comp_parent Alu_result = Some Alu"
| "comp_parent Pc_low = Some Pc"
| "comp_parent Pc_high = Some Pc"
| "comp_parent Pc_signed_offset = Some Pc"
| "comp_parent (Flag f) = Some Status"
| "comp_parent Analyzer = Some Status"
| "comp_parent Ir = Some Controller"
| "comp_parent Sc = Some Controller"
| "comp_parent Ipc = Some Controller"
| "comp_parent Mar = Some Memory"
| "comp_parent Mar_low = Some Mar"
| "comp_parent Mar_high = Some Mar"
| "comp_parent Mar_offset = Some Mar"
| "comp_parent c = Some Cpu_root"

fun comp_depth :: "comp \<Rightarrow> nat" where
  "comp_depth Cpu_root = 0"
| "comp_depth Mar = 2"
| "comp_depth Mar_low = 3"
| "comp_depth Mar_high = 3"
| "comp_depth Mar_offset = 3"
| "comp_depth Alu_lhs = 2"
| "comp_depth Alu_rhs = 2"
| "comp_depth Alu_result = 2"
| "comp_depth Pc_low = 2"
| "comp_depth Pc_high = 2"
| "comp_depth Pc_signed_offset = 2"
| "comp_depth (Flag f) = 2"
| "comp_depth Analyzer = 2"
| "comp_depth Ir = 2"
| "comp_depth Sc = 2"
| "comp_depth Ipc = 2"
| "comp_depth c = 1"

lemma comp_parent_depth: "comp_parent c = Some p \<Longrightarrow> comp_depth p < comp_depth c"
  by (cases c) auto

text \<open>\<open>BuildPath\<close>: the root has the empty path, its children no leading dot.\<close>

definition build_path :: "string option \<Rightarrow> string \<Rightarrow> string" where
  "build_path parent name =
     (case parent of
        None \<Rightarrow> ''''
      | Some parent_path \<Rightarrow>
          (if parent_path = '''' then name else parent_path @ ''.'' @ name))"

function comp_path :: "comp \<Rightarrow> string" where
  "comp_path c =
     (case comp_parent c of
        None \<Rightarrow> build_path None (comp_name c)
      | Some p \<Rightarrow> build_path (Some (comp_path p)) (comp_name c))"
  by pat_completeness auto
termination
  by (relation "measure comp_depth") (auto dest: comp_parent_depth)

declare comp_path.simps [simp del]

fun ctl_path :: "ctl \<Rightarrow> string" where
  "ctl_path (Ctl c k) = build_path (Some (comp_path c)) (op_name k)"

section \<open>Control metadata\<close>

text \<open>
  \<open>WriteControl\<close> and \<open>ReadControl\<close> carry the phases Write and Read; every other
  control of the schematic is a \<open>ProcessControl\<close>, auto-reset but for \<open>irq_line\<close>
  (\<open>LatchedProcessControl\<close>).
\<close>

fun op_phase :: "control_op \<Rightarrow> tick_phase" where
  "op_phase Write = Phase_Write"
| "op_phase Read = Phase_Read"
| "op_phase k = Phase_Process"

fun ctl_phase :: "ctl \<Rightarrow> tick_phase" where
  "ctl_phase (Ctl c k) = op_phase k"

fun ctl_auto_reset :: "ctl \<Rightarrow> bool" where
  "ctl_auto_reset (Ctl c k) = (k \<noteq> Irq_line)"

record control_info =
  info_phase :: tick_phase
  info_auto_reset :: bool
  info_path :: string

definition control_info :: "ctl \<Rightarrow> control_info" where
  "control_info k =
     \<lparr>info_phase = ctl_phase k, info_auto_reset = ctl_auto_reset k, info_path = ctl_path k\<rparr>"

text \<open>
  The \<open>ValueType\<close> of the bus a component is constructed with: the program counter, the
  memory address register and \<open>tmp\<close> sit on the 16-bit address bus.
\<close>

datatype bus_width = Byte_bus | Word_bus

fun comp_bus :: "comp \<Rightarrow> bus_width" where
  "comp_bus Pc = Word_bus"
| "comp_bus Mar = Word_bus"
| "comp_bus Reg_tmp = Word_bus"
| "comp_bus c = Byte_bus"

section \<open>The visitors\<close>

definition visit_component_with_bus :: "comp \<Rightarrow> node list" where
  "visit_component_with_bus c =
     [Comp_node c, Control_node (Ctl c Write), Control_node (Ctl c Read)]"

definition visit_register :: "comp \<Rightarrow> node list" where
  "visit_register c = visit_component_with_bus c @ [Control_node (Ctl c Reset)]"

definition visit_counter :: "comp \<Rightarrow> node list" where
  "visit_counter c =
     visit_register c @ [Control_node (Ctl c Increment), Control_node (Ctl c Decrement)]"

definition visit_local_register :: "comp \<Rightarrow> node list" where
  "visit_local_register c = [Comp_node c, Control_node (Ctl c Reset)]"

definition visit_local_counter :: "comp \<Rightarrow> node list" where
  "visit_local_counter c =
     visit_local_register c @ [Control_node (Ctl c Increment), Control_node (Ctl c Decrement)]"

definition visit_latched_word_register :: "comp \<Rightarrow> node list" where
  "visit_latched_word_register c = [Comp_node c, Control_node (Ctl c Latch)]"

definition visit_alu :: "node list" where
  "visit_alu =
     Comp_node Alu # visit_register Alu_lhs @ visit_register Alu_rhs @ visit_register Alu_result @
     [Control_node (Ctl Alu Opcode_bit_0), Control_node (Ctl Alu Opcode_bit_1),
      Control_node (Ctl Alu Opcode_bit_2), Control_node (Ctl Alu Opcode_bit_3)]"

definition visit_program_counter :: "node list" where
  "visit_program_counter =
     visit_register Pc @ visit_register Pc_low @ visit_register Pc_high @
     visit_register Pc_signed_offset @
     [Control_node (Ctl Pc Increment), Control_node (Ctl Pc Add_signed_offset)]"

definition visit_status :: "flag \<Rightarrow> node list" where
  "visit_status f =
     [Comp_node (Flag f), Control_node (Ctl (Flag f) Set_flag),
      Control_node (Ctl (Flag f) Clear_flag)]"

definition visit_status_analyzer :: "node list" where
  "visit_status_analyzer =
     visit_component_with_bus Analyzer @ [Control_node (Ctl Analyzer Reset)]"

definition visit_status_register :: "node list" where
  "visit_status_register =
     visit_register Status @ concat (map visit_status all_flags) @ visit_status_analyzer"

definition visit_controller :: "node list" where
  "visit_controller =
     Comp_node Controller # visit_register Ir @
     Control_node (Ctl Controller Instruction_start) # visit_local_counter Sc @
     visit_latched_word_register Ipc"

definition visit_memory_address_register :: "node list" where
  "visit_memory_address_register =
     visit_register Mar @ visit_register Mar_low @ visit_register Mar_high @
     visit_register Mar_offset @
     [Control_node (Ctl Mar Add_offset), Control_node (Ctl Mar Increment),
      Control_node (Ctl Mar Stack_page), Control_node (Ctl Mar Interrupt_vector)]"

definition visit_memory :: "node list" where
  "visit_memory = visit_component_with_bus Memory @ visit_memory_address_register"

definition visit_cpu :: "node list" where
  "visit_cpu =
     [Comp_node Cpu_root, Control_node (Ctl Cpu_root Halt), Control_node (Ctl Cpu_root Crash),
      Control_node (Ctl Cpu_root Irq_line), Comp_node Data_bus, Comp_node Address_bus] @
     visit_register Reg_a @ visit_register Reg_x @ visit_register Reg_y @ visit_counter Reg_sp @
     visit_register Reg_tmp @ visit_alu @ visit_program_counter @ visit_status_register @
     visit_controller @ visit_memory"

lemmas visit_defs =
  visit_component_with_bus_def visit_register_def visit_counter_def visit_local_register_def
  visit_local_counter_def visit_latched_word_register_def visit_alu_def
  visit_program_counter_def visit_status_def visit_status_analyzer_def
  visit_status_register_def visit_controller_def visit_memory_address_register_def
  visit_memory_def visit_cpu_def all_flags_def

definition hdl_controls :: "ctl list" where
  "hdl_controls = node_controls visit_cpu"

lemma length_hdl_controls: "length hdl_controls = 95"
  by code_simp

lemma distinct_hdl_control_paths: "distinct (map ctl_path hdl_controls)"
  by code_simp

lemma distinct_hdl_controls: "distinct hdl_controls"
  using distinct_hdl_control_paths by (simp add: distinct_map)

end
