(* ===== verification/Sim_Signals.thy ===== *)
theory Sim_Signals
  imports Hdl
begin

text \<open>
  The signals of the simulator (\<open>sim/control.h\<close>, \<open>sim/bus.h\<close>, \<open>sim/status.cpp\<close>):
  controls that check the tick phase on every access, buses that accept one write per tick,
  and the bit views of the status register.
\<close>

section \<open>Errors of the simulator\<close>

text \<open>Every \<open>throw SimError(...)\<close> is a constructor; the arguments identify the message.\<close>

datatype sim_error =
    Control_phase_error ctl string
  | Bus_write_phase_error string
  | Bus_already_written string
  | Bus_read_phase_error string
  | Bus_read_before_write string
  | Module_size_zero
  | Ram_read_range nat
  | Ram_write_range nat
  | Rom_read_range nat nat
  | Rom_write_forbidden u16
  | Region_size_not_power_of_two nat
  | Region_misaligned u16
  | Region_range u16
  | Regions_overlap nat nat
  | Unmapped_write u16
  | Too_many_controls nat
  | Control_table_size
  | Control_order_mismatch string
  | Control_not_found ctl
  | Control_word_size nat nat
  | Control_index_range nat
  | Too_many_status_bits nat
  | Unknown_status_bit string
  | Status_bit_mismatch string
  | Control_word_overflow
  | No_microcode
  | Duplicate_control_path string
  | Fewer_controls_than_hdl
  | Hdl_control_missing string
  | Hdl_order_mismatch nat
  | Control_path_empty
  | Control_path_not_found string
  | Cartridge_header_truncated
  | Cartridge_header_small
  | Cartridge_magic
  | Cartridge_header_size_small
  | Cartridge_truncated

section \<open>Controls\<close>

text \<open>
  The \<open>asserted_\<close> bits of all controls are one map; the phase and the auto-reset bit of a
  control are those of its class (\<open>ctl_phase\<close>, \<open>ctl_auto_reset\<close>).
\<close>

type_synonym controls = "ctl \<Rightarrow> bool"

definition ensure_phase :: "tick_phase \<Rightarrow> tick_phase \<Rightarrow> ctl \<Rightarrow> string \<Rightarrow> sim_error + unit" where
  "ensure_phase cur expected k action =
     throw_if (cur \<noteq> expected) (Control_phase_error k action)"

definition control_asserted :: "tick_phase \<Rightarrow> ctl \<Rightarrow> controls \<Rightarrow> sim_error + bool" where
  "control_asserted cur k cs =
     bind_ok (ensure_phase cur (ctl_phase k) k ''read'') (\<lambda>_. Inr (cs k))"

definition control_set :: "tick_phase \<Rightarrow> ctl \<Rightarrow> bool \<Rightarrow> controls \<Rightarrow> sim_error + controls" where
  "control_set cur k v cs =
     bind_ok (ensure_phase cur Phase_Control k ''set'') (\<lambda>_. Inr (cs(k := v)))"

definition control_assert :: "tick_phase \<Rightarrow> ctl \<Rightarrow> controls \<Rightarrow> sim_error + controls" where
  "control_assert cur k cs =
     bind_ok (ensure_phase cur Phase_Control k ''assert'') (\<lambda>_. Inr (cs(k := True)))"

definition control_clear :: "tick_phase \<Rightarrow> ctl \<Rightarrow> controls \<Rightarrow> sim_error + controls" where
  "control_clear cur k cs =
     bind_ok (ensure_phase cur Phase_Control k ''clear'') (\<lambda>_. Inr (cs(k := False)))"

text \<open>\<open>AutoResetControl::TickClear\<close>; a \<open>LatchedControl\<close> inherits the empty one.\<close>

definition control_tick_clear :: "ctl \<Rightarrow> controls \<Rightarrow> controls" where
  "control_tick_clear k cs = (if ctl_auto_reset k then cs(k := False) else cs)"

lemmas control_defs =
  ensure_phase_def control_asserted_def control_set_def control_assert_def control_clear_def

lemma control_asserted_eq_Inr:
  "control_asserted cur k cs = Inr b \<longleftrightarrow> cur = ctl_phase k \<and> b = cs k"
  by (auto simp: control_defs throw_if_def)

lemma control_asserted_ok [simp]: "control_asserted (ctl_phase k) k cs = Inr (cs k)"
  by (simp add: control_asserted_eq_Inr)

lemma control_asserted_write [simp]: "control_asserted Phase_Write (Ctl c Write) cs = Inr (cs (Ctl c Write))"
  by (simp add: control_asserted_eq_Inr)

lemma control_asserted_read [simp]: "control_asserted Phase_Read (Ctl c Read) cs = Inr (cs (Ctl c Read))"
  by (simp add: control_asserted_eq_Inr)

lemma control_asserted_process [simp]:
  "op_phase k = Phase_Process \<Longrightarrow> control_asserted Phase_Process (Ctl c k) cs = Inr (cs (Ctl c k))"
  by (simp add: control_asserted_eq_Inr)

lemma control_assert_ok [simp]: "control_assert Phase_Control k cs = Inr (cs(k := True))"
  by (simp add: control_defs)

lemma control_set_ok [simp]: "control_set Phase_Control k v cs = Inr (cs(k := v))"
  by (simp add: control_defs)

lemma control_assert_all:
  "fold_ok (control_assert Phase_Control) ks cs = Inr (\<lambda>k. k \<in> set ks \<or> cs k)"
  by (induction ks arbitrary: cs) (auto simp: fun_eq_iff)

lemma control_tick_clear_all:
  "fold control_tick_clear ks cs = (\<lambda>k. cs k \<and> \<not> (k \<in> set ks \<and> ctl_auto_reset k))"
  by (induction ks arbitrary: cs) (auto simp: control_tick_clear_def fun_eq_iff)

section \<open>Buses\<close>

record 'v bus =
  bus_value :: "'v option"
  bus_writer :: string
  bus_wrote :: bool

definition bus_idle :: "'v bus" where
  "bus_idle = \<lparr>bus_value = None, bus_writer = '''', bus_wrote = False\<rparr>"

definition bus_write :: "tick_phase \<Rightarrow> 'v \<Rightarrow> string \<Rightarrow> 'v bus \<Rightarrow> sim_error + 'v bus" where
  "bus_write cur v writer b =
     (if cur \<noteq> Phase_Write then Inl (Bus_write_phase_error writer)
      else if bus_wrote b then Inl (Bus_already_written writer)
      else Inr (b\<lparr>bus_value := Some v, bus_writer := writer, bus_wrote := True\<rparr>))"

definition bus_read :: "tick_phase \<Rightarrow> string \<Rightarrow> 'v bus \<Rightarrow> sim_error + 'v" where
  "bus_read cur reader b =
     (if cur \<noteq> Phase_Read then Inl (Bus_read_phase_error reader)
      else case bus_value b of
        None \<Rightarrow> Inl (Bus_read_before_write reader)
      | Some v \<Rightarrow> (if bus_wrote b then Inr v else Inl (Bus_read_before_write reader)))"

definition bus_tick_clear :: "'v bus \<Rightarrow> 'v bus" where
  "bus_tick_clear b = b\<lparr>bus_value := None, bus_writer := '''', bus_wrote := False\<rparr>"

lemma bus_tick_clear_idle [simp]: "bus_tick_clear b = bus_idle"
  by (cases b) (simp add: bus_tick_clear_def bus_idle_def)

lemma bus_idle_sel [simp]: "bus_value bus_idle = None" "bus_writer bus_idle = ''''" "bus_wrote bus_idle = False"
  by (simp_all add: bus_idle_def)

lemma bus_write_idle [simp]:
  "bus_write Phase_Write v w bus_idle = Inr \<lparr>bus_value = Some v, bus_writer = w, bus_wrote = True\<rparr>"
  by (simp add: bus_write_def bus_idle_def)

lemma bus_read_written [simp]:
  "bus_read Phase_Read r \<lparr>bus_value = Some v, bus_writer = w, bus_wrote = True\<rparr> = Inr v"
  by (simp add: bus_read_def)

lemma bus_write_twice:
  "bus_write Phase_Write v w b = Inr b' \<Longrightarrow> bus_write Phase_Write v' w' b' = Inl (Bus_already_written w')"
  by (auto simp: bus_write_def split: if_splits)

lemma bus_read_unwritten: "\<not> bus_wrote b \<Longrightarrow> bus_read Phase_Read r b = Inl (Bus_read_before_write r)"
  by (auto simp: bus_read_def split: option.splits)

section \<open>Views of the status register\<close>

definition status_value :: "flag \<Rightarrow> u8 \<Rightarrow> bool" where
  "status_value f st = (drop_bit (flag_bit f) st AND 1 \<noteq> 0)"

definition status_set :: "flag \<Rightarrow> bool \<Rightarrow> u8 \<Rightarrow> u8" where
  "status_set f v st =
     (let mask = push_bit (flag_bit f) 1 in if v then st OR mask else st AND NOT mask)"

lemma status_value_bit: "status_value f st \<longleftrightarrow> bit st (flag_bit f)"
  unfolding status_value_def by (rule shift_and_1_iff_bit)

lemma bit_status_set:
  "bit (status_set f v st) n \<longleftrightarrow> (if n = flag_bit f then v else bit st n)"
  by (auto simp: status_set_def Let_def bit_simps dest: bit_imp_le_length)

lemma status_value_set [simp]:
  "status_value f (status_set g v st) = (if f = g then v else status_value f st)"
  by (simp add: status_value_bit bit_status_set)

lemma status_eqI: "(\<And>f. status_value f s = status_value f t) \<Longrightarrow> s = t"
proof (rule bit_word_eqI)
  fix n assume eq: "\<And>f. status_value f s = status_value f t" and "n < LENGTH(8)"
  then obtain f where "flag_bit f = n" using flag_bit_surj by auto
  with eq [of f] show "bit s n \<longleftrightarrow> bit t n" by (simp add: status_value_bit)
qed

lemma status_set_same [simp]: "status_set f (status_value f st) st = st"
  by (rule status_eqI) simp

lemma status_set_overwrite [simp]: "status_set f v (status_set f w st) = status_set f v st"
  by (rule status_eqI) simp

text \<open>\<open>Status::TickProcess\<close>, with the two controls already read: set wins over clear.\<close>

definition status_tick_process :: "flag \<Rightarrow> bool \<Rightarrow> bool \<Rightarrow> u8 \<Rightarrow> u8" where
  "status_tick_process f want_set want_clear st =
     (if \<not> want_set \<and> \<not> want_clear then st else status_set f want_set st)"

text \<open>What \<open>StatusAnalyzer::TickRead\<close> does to the status register with the byte it reads.\<close>

definition analyze :: "u8 \<Rightarrow> u8 \<Rightarrow> u8" where
  "analyze v st = status_set Negative (v AND 0x80 \<noteq> 0) (status_set Zero (v = 0) st)"

lemma and_0x80_bit: "(v :: u8) AND 0x80 \<noteq> 0 \<longleftrightarrow> bit v 7"
proof -
  have "(0x80 :: u8) = 2 ^ 7" by simp
  then show ?thesis by (simp only: and_exp_eq_0_iff_not_bit) simp
qed

lemma status_value_analyze [simp]:
  "status_value f (analyze v st) =
     (if f = Negative then bit v 7 else if f = Zero then v = 0 else status_value f st)"
  by (auto simp: analyze_def and_0x80_bit)

end
