(* ===== verification/Sim_Alu.thy ===== *)
theory Sim_Alu
  imports Sim_Signals
begin

text \<open>
  The arithmetic unit (\<open>sim/src/alu/alu.cpp\<close>): the opcode is assembled from four control
  bits, the operands are widened to \<open>uint16_t\<close>, and each opcode writes \<open>alu.result\<close> and
  some flags. The lemmas relate every opcode to integer arithmetic.
\<close>

section \<open>The operation selected by the opcode bits\<close>

definition alu_opcode :: "bool \<Rightarrow> bool \<Rightarrow> bool \<Rightarrow> bool \<Rightarrow> u8" where
  "alu_opcode b0 b1 b2 b3 =
     ((((0 OR (if b0 then push_bit 0 1 else 0)) OR (if b1 then push_bit 1 1 else 0))
        OR (if b2 then push_bit 2 1 else 0)) OR (if b3 then push_bit 3 1 else 0))"

definition carry_in :: "u8 \<Rightarrow> bool" where
  "carry_in st = status_value Carry st"

definition set_carry_out :: "bool \<Rightarrow> u8 \<Rightarrow> u8" where
  "set_carry_out v st = status_set Carry v st"

definition narrow :: "u16 \<Rightarrow> u8" where
  "narrow w = ucast (w AND 0xFF)"

text \<open>
  The \<open>switch\<close> of \<open>Alu::TickProcess\<close>: the new \<open>result\<close> register and status register.
  Opcodes 0 and 13 to 15 leave both as they are.
\<close>

definition alu_exec :: "u8 \<Rightarrow> u8 \<Rightarrow> u8 \<Rightarrow> u8 \<times> u8 \<Rightarrow> u8 \<times> u8" where
  "alu_exec opcode lhs_reg rhs_reg s =
     (let (res, st) = s;
          lhs = ucast lhs_reg :: u16;
          rhs = ucast rhs_reg :: u16;
          borrow = (if carry_in st then 0 else 1 :: u16)
      in
      if opcode = 0x1 then
        (let cin = (if carry_in st then 1 else 0 :: u16);
             r = lhs + rhs + cin;
             lhs_sign = (lhs AND 0x80 \<noteq> 0);
             rhs_sign = (rhs AND 0x80 \<noteq> 0);
             result_sign = (r AND 0x80 \<noteq> 0)
         in (narrow r,
             status_set Overflow (lhs_sign = rhs_sign \<and> lhs_sign \<noteq> result_sign)
               (set_carry_out (r > 0xFF) st)))
      else if opcode = 0x2 then
        (let subtrahend = rhs + borrow; r = lhs - subtrahend
         in (narrow r, set_carry_out (lhs \<ge> subtrahend) st))
      else if opcode = 0x3 then (narrow (lhs + 1), st)
      else if opcode = 0x4 then
        (ucast (lhs AND rhs), status_set Overflow False (set_carry_out False st))
      else if opcode = 0x5 then
        (ucast (lhs OR rhs), status_set Overflow False (set_carry_out False st))
      else if opcode = 0x6 then
        (ucast (lhs XOR rhs), status_set Overflow False (set_carry_out False st))
      else if opcode = 0x7 then
        (let b = (ucast lhs :: u8); bit7 = (b AND 0x80 \<noteq> 0)
         in (push_bit 1 b, status_set Overflow False (set_carry_out bit7 st)))
      else if opcode = 0x8 then
        (let b = (ucast lhs :: u8); bit0 = (b AND 0x01 \<noteq> 0)
         in (drop_bit 1 b, status_set Overflow False (set_carry_out bit0 st)))
      else if opcode = 0x9 then
        (let b = (ucast lhs :: u8); bit7 = (b AND 0x80 \<noteq> 0)
         in (push_bit 1 b OR (if carry_in st then 1 else 0),
             status_set Overflow False (set_carry_out bit7 st)))
      else if opcode = 0xA then
        (let b = (ucast lhs :: u8); bit0 = (b AND 0x01 \<noteq> 0)
         in (drop_bit 1 b OR (if carry_in st then 0x80 else 0),
             status_set Overflow False (set_carry_out bit0 st)))
      else if opcode = 0xB then (narrow (lhs - 1), st)
      else if opcode = 0xC then (ucast (lhs AND rhs), st)
      else s)"

section \<open>Bits, widening and narrowing\<close>

lemma alu_opcode_bits:
  "alu_opcode b0 b1 b2 b3 =
     of_bool b0 + 2 * of_bool b1 + 4 * of_bool b2 + 8 * of_bool b3"
  by (cases b0; cases b1; cases b2; cases b3) (simp_all add: alu_opcode_def)

lemma alu_opcode_0_iff: "alu_opcode b0 b1 b2 b3 = 0 \<longleftrightarrow> \<not> b0 \<and> \<not> b1 \<and> \<not> b2 \<and> \<not> b3"
  by (cases b0; cases b1; cases b2; cases b3) (simp_all add: alu_opcode_def)

lemma narrow_alt: "narrow w = word_low w"
  by (simp add: narrow_def word_low_def)

lemma unat_narrow: "unat (narrow w) = unat w mod 256"
  by (simp add: narrow_alt unat_word_low)

lemma unat_widen [simp]: "unat (ucast (b :: u8) :: u16) = unat b"
proof -
  have "unat b < 65536" using unat_u8_less [of b] by linarith
  then show ?thesis by (simp add: unsigned_ucast_eq take_bit_eq_mod)
qed

lemma narrow_widen [simp]: "ucast (ucast (b :: u8) :: u16) = (b :: u8)"
  by (rule bit_word_eqI) (simp add: bit_simps)

lemma widen_and: "(ucast (ucast (a :: u8) AND ucast b :: u16) :: u8) = a AND b"
  by (rule bit_word_eqI) (simp add: bit_simps)

lemma widen_or: "(ucast (ucast (a :: u8) OR ucast b :: u16) :: u8) = a OR b"
  by (rule bit_word_eqI) (simp add: bit_simps)

lemma widen_xor: "(ucast (ucast (a :: u8) XOR ucast b :: u16) :: u8) = a XOR b"
  by (rule bit_word_eqI) (simp add: bit_simps)

lemma and_0x80_bit_u16: "(v :: u16) AND 0x80 \<noteq> 0 \<longleftrightarrow> bit v 7"
proof -
  have "(0x80 :: u16) = 2 ^ 7" by simp
  then show ?thesis by (simp only: and_exp_eq_0_iff_not_bit) simp
qed

lemma bit_7_unat: "bit (v :: u8) 7 \<longleftrightarrow> 128 \<le> unat v"
proof -
  have "bit v 7 \<longleftrightarrow> bit (unat v) 7"
    by (simp add: bit_unsigned_iff)
  also have "\<dots> \<longleftrightarrow> odd (unat v div 128)"
    by (simp add: bit_iff_odd)
  also have "unat v div 128 = (if 128 \<le> unat v then 1 else 0)"
    using unat_u8_less [of v] by (auto simp: div_nat_eqI)
  finally show ?thesis by simp
qed

lemma sint_u8: "sint (v :: u8) = int (unat v) - (if bit v 7 then 256 else 0)"
proof -
  have "int (unat v) < 256" using unat_u8_less [of v] by linarith
  then show ?thesis
    by (simp add: sint_uint signed_take_bit_eq_take_bit_minus [of 7] take_bit_eq_mod
      bit_unsigned_iff)
qed

section \<open>Arithmetic\<close>

definition carry_nat :: "u8 \<Rightarrow> nat" where
  "carry_nat st = (if status_value Carry st then 1 else 0)"

lemma alu_add_eq:
  "alu_exec 1 l r (x, st) =
     (let s = (ucast l :: u16) + ucast r + (if status_value Carry st then 1 else 0) in
      (narrow s,
       status_set Overflow (bit l 7 = bit r 7 \<and> bit l 7 \<noteq> bit (narrow s) 7)
         (status_set Carry (s > 0xFF) st)))"
  by (simp add: alu_exec_def Let_def carry_in_def set_carry_out_def and_0x80_bit_u16
    narrow_alt bit_word_low bit_ucast_iff)

lemma unat_add_widened:
  assumes "c \<le> 1"
  shows "unat ((ucast (l :: u8) :: u16) + ucast (r :: u8) + of_nat c) = unat l + unat r + c"
proof -
  have "unat l + unat r + c < 65536"
    using assms unat_u8_less [of l] unat_u8_less [of r] by linarith
  moreover have "c < 65536" using assms by linarith
  ultimately show ?thesis
    using assms by (simp add: unat_word_ariths unat_of_nat)
qed

lemma alu_add_sum:
  "unat ((ucast (l :: u8) :: u16) + ucast (r :: u8) + (if status_value Carry st then 1 else 0)) =
     unat l + unat r + carry_nat st"
  using unat_add_widened [of 0 l r] unat_add_widened [of 1 l r] by (simp add: carry_nat_def)

lemma alu_add_result:
  "unat (fst (alu_exec 1 l r (x, st))) = (unat l + unat r + carry_nat st) mod 256"
  by (simp add: alu_add_eq Let_def unat_narrow alu_add_sum)

lemma alu_add_carry:
  "status_value Carry (snd (alu_exec 1 l r (x, st))) \<longleftrightarrow> 256 \<le> unat l + unat r + carry_nat st"
  by (simp add: alu_add_eq Let_def word_less_nat_alt alu_add_sum) linarith

lemma signed_overflow_nat:
  fixes a b s :: nat
  assumes "a < 256" and "b < 256" and "c \<le> 1" and "s = (a + b + c) mod 256"
  shows "((128 \<le> a) = (128 \<le> b) \<and> (128 \<le> a) \<noteq> (128 \<le> s)) \<longleftrightarrow>
    (let v = (int a - (if 128 \<le> a then 256 else 0)) + (int b - (if 128 \<le> b then 256 else 0)) + int c
     in v < -128 \<or> 127 < v)"
proof -
  have "s = (if a + b + c < 256 then a + b + c else a + b + c - 256)"
    using assms by (auto simp: mod_if)
  with assms show ?thesis
    by (auto simp: Let_def split: if_splits)
qed

lemma alu_add_overflow:
  "status_value Overflow (snd (alu_exec 1 l r (x, st))) \<longleftrightarrow>
     sint l + sint r + int (carry_nat st) < -128 \<or> 127 < sint l + sint r + int (carry_nat st)"
proof -
  let ?s = "fst (alu_exec 1 l r (x, st))"
  have "status_value Overflow (snd (alu_exec 1 l r (x, st))) \<longleftrightarrow>
      bit l 7 = bit r 7 \<and> bit l 7 \<noteq> bit ?s 7"
    by (simp add: alu_add_eq Let_def)
  moreover have "carry_nat st \<le> 1" by (simp add: carry_nat_def)
  ultimately show ?thesis
    using signed_overflow_nat [OF unat_u8_less [of l] unat_u8_less [of r] _ alu_add_result]
    by (simp add: bit_7_unat sint_u8 Let_def)
qed

lemma alu_sub_eq:
  "alu_exec 2 l r (x, st) =
     (let t = (ucast r :: u16) + (if status_value Carry st then 0 else 1) in
      (narrow (ucast l - t), status_set Carry (ucast l \<ge> t) st))"
  by (simp add: alu_exec_def Let_def carry_in_def set_carry_out_def)

lemma alu_sub_subtrahend:
  "unat ((ucast (r :: u8) :: u16) + (if status_value Carry st then 0 else 1)) =
     unat r + (1 - carry_nat st)"
  using unat_add_widened [of 0 r 0] unat_add_widened [of 1 r 0] by (simp add: carry_nat_def)

lemma alu_sub_result:
  "int (unat (fst (alu_exec 2 l r (x, st)))) =
     (int (unat l) - int (unat r) - (1 - int (carry_nat st))) mod 256"
proof -
  let ?t = "(ucast r :: u16) + (if status_value Carry st then 0 else 1)"
  have "int (unat ((ucast l :: u16) - ?t)) = (int (unat l) - int (unat ?t)) mod 65536"
    by (simp add: uint_word_ariths(2) unat_widen [symmetric] del: unat_widen)
  then have "int (unat ((ucast l :: u16) - ?t)) mod 256 = (int (unat l) - int (unat ?t)) mod 256"
    by (simp add: mod_mod_cancel)
  then show ?thesis
    by (simp add: alu_sub_eq Let_def unat_narrow alu_sub_subtrahend zmod_int carry_nat_def
      algebra_simps split: if_splits)
qed

lemma alu_sub_carry:
  "status_value Carry (snd (alu_exec 2 l r (x, st))) \<longleftrightarrow> unat r + (1 - carry_nat st) \<le> unat l"
  by (simp add: alu_sub_eq Let_def word_le_nat_alt alu_sub_subtrahend)

lemma alu_sub_overflow_kept:
  "status_value Overflow (snd (alu_exec 2 l r (x, st))) = status_value Overflow st"
  by (simp add: alu_sub_eq Let_def)

section \<open>Increments, logic, shifts and rotations\<close>

lemma alu_inc_eq: "alu_exec 3 l r (x, st) = (l + 1, st)"
proof -
  have "narrow ((ucast l :: u16) + 1) = l + 1"
    using unat_add_widened [of 1 l 0]
    by (simp add: word_unat_eq_iff unat_narrow unat_word_ariths)
  then show ?thesis by (simp add: alu_exec_def Let_def)
qed

lemma int_narrow: "int (unat (narrow w)) = uint w mod 256"
  by (simp add: unat_narrow zmod_int)

lemma alu_dec_eq: "alu_exec 0xB l r (x, st) = (l - 1, st)"
proof -
  have "uint (narrow ((ucast l :: u16) - 1)) = (int (unat (ucast l :: u16)) - 1) mod 256"
    using int_narrow [of "(ucast l :: u16) - 1"]
    by (simp add: uint_word_ariths(2) mod_mod_cancel del: unat_widen)
  then have "narrow ((ucast l :: u16) - 1) = l - 1"
    by (simp add: word_uint_eq_iff uint_word_ariths(2) del: uint_nat)
  then show ?thesis by (simp add: alu_exec_def Let_def)
qed

lemma alu_and_eq:
  "alu_exec 4 l r (x, st) = (l AND r, status_set Overflow False (status_set Carry False st))"
  by (simp add: alu_exec_def Let_def set_carry_out_def widen_and)

lemma alu_or_eq:
  "alu_exec 5 l r (x, st) = (l OR r, status_set Overflow False (status_set Carry False st))"
  by (simp add: alu_exec_def Let_def set_carry_out_def widen_or)

lemma alu_xor_eq:
  "alu_exec 6 l r (x, st) = (l XOR r, status_set Overflow False (status_set Carry False st))"
  by (simp add: alu_exec_def Let_def set_carry_out_def widen_xor)

lemma alu_bit_eq: "alu_exec 0xC l r (x, st) = (l AND r, st)"
  by (simp add: alu_exec_def Let_def widen_and)

lemma alu_asl_eq:
  "alu_exec 7 l r (x, st) = (push_bit 1 l, status_set Overflow False (status_set Carry (bit l 7) st))"
  by (simp add: alu_exec_def Let_def set_carry_out_def and_0x80_bit)

lemma and_1_bit: "(v :: u8) AND 1 \<noteq> 0 \<longleftrightarrow> bit v 0"
  using shift_and_1_iff_bit [of 0 v] by simp

lemma alu_lsr_eq:
  "alu_exec 8 l r (x, st) = (drop_bit 1 l, status_set Overflow False (status_set Carry (bit l 0) st))"
  by (simp add: alu_exec_def Let_def set_carry_out_def and_1_bit [simplified])

lemma alu_rol_eq:
  "alu_exec 9 l r (x, st) =
     (push_bit 1 l OR (if status_value Carry st then 1 else 0),
      status_set Overflow False (status_set Carry (bit l 7) st))"
  by (simp add: alu_exec_def Let_def set_carry_out_def carry_in_def and_0x80_bit)

lemma alu_ror_eq:
  "alu_exec 0xA l r (x, st) =
     (drop_bit 1 l OR (if status_value Carry st then 0x80 else 0),
      status_set Overflow False (status_set Carry (bit l 0) st))"
  by (simp add: alu_exec_def Let_def set_carry_out_def carry_in_def and_1_bit [simplified])

lemma alu_none_eq: "opcode = 0 \<or> 13 \<le> opcode \<Longrightarrow> alu_exec opcode l r s = s"
  by (cases s) (auto simp: alu_exec_def Let_def word_le_nat_alt)

lemma bit_0x80_u8: "bit (0x80 :: u8) n \<longleftrightarrow> n = 7"
proof -
  have "(0x80 :: u8) = 2 ^ 7" by simp
  then show ?thesis by (simp only: bit_exp_iff) auto
qed

text \<open>A rotation left followed by one right restores the byte and the carry.\<close>

lemma alu_rol_ror:
  assumes "alu_exec 9 l r (x, st) = (y, st')"
  shows "fst (alu_exec 0xA y r' (x', st')) = l"
    and "status_value Carry (snd (alu_exec 0xA y r' (x', st'))) = status_value Carry st"
proof -
  have y: "y = push_bit 1 l OR (if status_value Carry st then 1 else 0)"
    and c: "status_value Carry st' = bit l 7"
    using assms by (auto simp: alu_rol_eq)
  have y_bit: "bit y (Suc n) \<longleftrightarrow> n < 7 \<and> bit l n" for n
    unfolding y bit_or_iff bit_push_bit_iff by (auto simp: bit_1_iff)
  have y_bit0: "bit y 0 \<longleftrightarrow> status_value Carry st"
    unfolding y bit_or_iff bit_push_bit_iff by (auto simp: bit_1_iff)
  have "bit (drop_bit 1 y OR (if bit l 7 then 0x80 else 0)) n = bit l n" if "n < 8" for n
  proof (cases "n = 7")
    case True
    then show ?thesis by (simp add: bit_or_iff bit_drop_bit_eq y_bit [of 7, simplified] bit_0x80_u8)
  next
    case False
    have "\<not> bit (0x80 :: u8) n" using False bit_0x80_u8 by blast
    with False that show ?thesis by (simp add: bit_or_iff bit_drop_bit_eq y_bit)
  qed
  then have "drop_bit 1 y OR (if bit l 7 then 0x80 else 0) = l"
    by (auto intro: bit_word_eqI)
  then show "fst (alu_exec 0xA y r' (x', st')) = l"
    by (simp add: alu_ror_eq c)
  show "status_value Carry (snd (alu_exec 0xA y r' (x', st'))) = status_value Carry st"
    using y_bit0 by (simp add: alu_ror_eq)
qed

text \<open>Only carry and overflow can change.\<close>

lemma alu_flags_frame:
  assumes "f \<noteq> Carry" and "f \<noteq> Overflow"
  shows "status_value f (snd (alu_exec opcode l r (x, st))) = status_value f st"
  using assms by (simp add: alu_exec_def Let_def set_carry_out_def)

end
