(* ===== verification/Micro_Ir.thy ===== *)
theory Micro_Ir
  imports Hdl
begin

text \<open>
  The intermediate representation of the microcode compiler (\<open>microcode/ir\<close>), its output
  format (\<open>output/program.h\<close>), its errors, and the resolution of control paths. A
  \<open>const hdl::ControlInfo*\<close> is the control itself (\<open>ctl\<close>); \<open>isa::Opcode\<close> is the
  enumeration with an 8-bit underlying type that the build generates.
\<close>

section \<open>Instruction sets\<close>

record step =
  stage :: int
  controls :: "ctl list"

type_synonym status_conditions = "(string \<times> bool) list"

record variant =
  status_conditions :: status_conditions
  steps :: "step list"

record instruction =
  opcode :: u8
  variants :: "variant list"

record instruction_set =
  fetch_preamble :: "step list"
  instructions :: "instruction list"

text \<open>A loop over the variants of every instruction that changes each.\<close>

definition map_variants :: "(variant \<Rightarrow> variant) \<Rightarrow> instruction_set \<Rightarrow> instruction_set" where
  "map_variants f s =
     s\<lparr>instructions := map (\<lambda>i. i\<lparr>variants := map f (variants i)\<rparr>) (instructions s)\<rparr>"

definition all_variants :: "instruction_set \<Rightarrow> variant list" where
  "all_variants s = concat (map variants (instructions s))"

lemma all_variants_map_variants [simp]:
  "all_variants (map_variants f s) = map f (all_variants s)"
  by (simp add: all_variants_def map_variants_def map_concat o_def)

lemma fetch_preamble_map_variants [simp]:
  "fetch_preamble (map_variants f s) = fetch_preamble s"
  by (simp add: map_variants_def)

lemma map_variants_id:
  "(\<And>v. v \<in> set (all_variants s) \<Longrightarrow> f v = v) \<Longrightarrow> map_variants f s = s"
proof -
  assume id: "\<And>v. v \<in> set (all_variants s) \<Longrightarrow> f v = v"
  have "i\<lparr>variants := map f (variants i)\<rparr> = i" if "i \<in> set (instructions s)" for i
  proof -
    have "map f (variants i) = variants i"
      using that id by (intro map_idI) (auto simp: all_variants_def)
    then show ?thesis by simp
  qed
  then have "map (\<lambda>i. i\<lparr>variants := map f (variants i)\<rparr>) (instructions s) = instructions s"
    by (intro map_idI)
  then show ?thesis by (simp add: map_variants_def)
qed

section \<open>Errors\<close>

datatype micro_error =
    Micro_too_many_controls nat
  | Micro_control_not_registered ctl
  | Micro_path_empty
  | Micro_path_not_found string
  | Micro_status_bit_range nat
  | Micro_status_not_configured
  | Micro_unknown_status string
  | Bus_multiple_writers nat
  | Bus_readers_without_writer nat
  | Conflict_read_write string nat
  | Conflict_set_clear string nat
  | Conflict_increment_decrement string nat
  | Fetch_mismatch u8
  | Stage_start int
  | Stage_not_monotonic nat
  | Stage_gap int
  | Status_multiple_bits u8
  | Status_overlap u8 u8
  | Status_incomplete u8
  | Isa_unknown_opcode u8
  | Isa_duplicate_opcode u8
  | Isa_incomplete
  | Sequence_missing u8 nat
  | Step_index_range nat
  | Microcode_conflict u8 nat u8

section \<open>Programs\<close>

record microcode_key =
  key_opcode :: u8
  key_step :: u8
  key_status :: u8

definition encode_key :: "microcode_key \<Rightarrow> u32" where
  "encode_key k =
     ((push_bit 16 (ucast (key_opcode k)) OR push_bit 8 (ucast (key_step k)))
       OR ucast (key_status k))"

text \<open>The \<open>unordered_map\<close> as the list of its entries; \<open>emplace\<close> keeps an existing one.\<close>

type_synonym microcode_table = "(u32 \<times> u128) list"

definition table_emplace :: "u32 \<Rightarrow> u128 \<Rightarrow> microcode_table \<Rightarrow> microcode_table" where
  "table_emplace k w t = (case map_of t k of None \<Rightarrow> t @ [(k, w)] | Some _ \<Rightarrow> t)"

record status_bit_definition =
  bit_name :: string
  bit_index :: u8

record microcode_program =
  table :: microcode_table
  control_paths :: "string list"
  status_bits :: "status_bit_definition list"

lemma map_of_table_emplace:
  "map_of (table_emplace k w t) x =
     (if x = k \<and> map_of t k = None then Some w else map_of t x)"
  by (cases "map_of t k"; cases "map_of t x")
    (auto simp: table_emplace_def map_add_Some_iff map_add_def split: option.splits)

section \<open>Control paths\<close>

record path_resolver =
  controls_by_path :: "(string \<times> ctl) list"
  resolver_paths :: "string list"

text \<open>\<open>IndexControls\<close>: \<open>emplace\<close> keeps the first control of a path; the paths are sorted.\<close>

fun path_less :: "string \<Rightarrow> string \<Rightarrow> bool" where
  "path_less xs [] = False"
| "path_less [] (y # ys) = True"
| "path_less (x # xs) (y # ys) =
     ((of_char x :: nat) < of_char y \<or> (x = y \<and> path_less xs ys))"

fun insert_path :: "string \<Rightarrow> string list \<Rightarrow> string list" where
  "insert_path p [] = [p]"
| "insert_path p (q # qs) = (if path_less q p then q # insert_path p qs else p # q # qs)"

definition sort_paths :: "string list \<Rightarrow> string list" where
  "sort_paths ps = foldr insert_path ps []"

definition make_resolver :: "node list \<Rightarrow> path_resolver" where
  "make_resolver cpu =
     (let ks = node_controls cpu in
      \<lparr>controls_by_path = map (\<lambda>k. (info_path (control_info k), k)) ks,
       resolver_paths = sort_paths (map (\<lambda>k. info_path (control_info k)) ks)\<rparr>)"

definition find_control :: "path_resolver \<Rightarrow> string \<Rightarrow> ctl option" where
  "find_control r path = map_of (controls_by_path r) path"

definition require_control :: "path_resolver \<Rightarrow> string \<Rightarrow> micro_error + ctl" where
  "require_control r path =
     (if path = [] then Inl Micro_path_empty
      else case find_control r path of
        None \<Rightarrow> Inl (Micro_path_not_found path)
      | Some k \<Rightarrow> Inr k)"

definition require_controls :: "path_resolver \<Rightarrow> string list \<Rightarrow> micro_error + ctl list" where
  "require_controls r paths = map_ok (require_control r) paths"

lemma find_control_path:
  "k \<in> set hdl_controls \<Longrightarrow> find_control (make_resolver visit_cpu) (ctl_path k) = Some k"
  using distinct_hdl_control_paths
  by (auto simp: find_control_def make_resolver_def Let_def control_info_def hdl_controls_def
    comp_def intro!: map_of_is_SomeI)

lemma ctl_path_nonempty [simp]: "ctl_path k \<noteq> []"
proof (cases k)
  case (Ctl c op)
  have "op_name op \<noteq> []" by (cases op) simp_all
  then show ?thesis by (simp add: Ctl build_path_def)
qed

lemma require_control_path:
  assumes "k \<in> set hdl_controls"
  shows "require_control (make_resolver visit_cpu) (ctl_path k) = Inr k"
  using assms find_control_path [OF assms] by (simp add: require_control_def ctl_path_nonempty)

lemma require_controls_paths:
  "set ks \<subseteq> set hdl_controls \<Longrightarrow>
   require_controls (make_resolver visit_cpu) (map ctl_path ks) = Inr ks"
  unfolding require_controls_def
  by (induction ks) (auto simp: require_control_path)

end
