(* ===== verification/Micro_Encoders.thy ===== *)
theory Micro_Encoders
  imports Micro_Ir
begin

text \<open>
  The encoders of the microcode compiler (\<open>microcode/src/encoder\<close>): sets of controls to
  128-bit control words, partial status conditions to the status bytes they cover, and
  (opcode, step, status) to the 32-bit key of the table.
\<close>

section \<open>Codecs of control sets\<close>

text \<open>
  What a control encoder promises, whatever its control words are: decoding the word of a
  list of known controls gives those controls, each once, in the order of the universe.
\<close>

locale control_codec =
  fixes universe :: "'k list"
    and encode :: "'k list \<Rightarrow> 'e + 'w"
    and decode :: "'w \<Rightarrow> 'e + 'k list"
  assumes encode_known: "set ks \<subseteq> set universe \<Longrightarrow>
      \<exists>w. encode ks = Inr w \<and> decode w = Inr (filter (\<lambda>k. k \<in> set ks) universe)"
begin

lemma decode_encode_set:
  assumes "set ks \<subseteq> set universe" and "encode ks = Inr w"
  shows "\<exists>ks'. decode w = Inr ks' \<and> set ks' = set ks"
  using encode_known [OF assms(1)] assms by auto

lemma encode_eq_iff:
  assumes "set ks \<subseteq> set universe" and "set ls \<subseteq> set universe"
    and "encode ks = encode ls"
  shows "set ks = set ls"
proof -
  obtain w where w: "encode ks = Inr w" using encode_known [OF assms(1)] by blast
  from decode_encode_set [OF assms(1) w] decode_encode_set [OF assms(2), of w] w assms(3)
  show ?thesis by auto
qed

end

section \<open>Control words\<close>

record control_encoder =
  encoder_paths :: "string list"
  control_index :: "(ctl \<times> nat) list"

definition make_control_encoder :: "node list \<Rightarrow> micro_error + control_encoder" where
  "make_control_encoder cpu =
     (let ks = node_controls cpu in
      if 128 < length ks then Inl (Micro_too_many_controls (length ks))
      else Inr \<lparr>encoder_paths = map (\<lambda>k. info_path (control_info k)) ks,
                control_index = zip ks [0..<length ks]\<rparr>)"

definition control_encode :: "control_encoder \<Rightarrow> ctl list \<Rightarrow> micro_error + u128" where
  "control_encode enc ks =
     fold_ok (\<lambda>k w. case map_of (control_index enc) k of
                      None \<Rightarrow> Inl (Micro_control_not_registered k)
                    | Some i \<Rightarrow> Inr (w OR push_bit i 1)) ks 0"

definition control_decode :: "control_encoder \<Rightarrow> u128 \<Rightarrow> string list" where
  "control_decode enc w =
     map (\<lambda>i. encoder_paths enc ! i)
       (filter (\<lambda>i. drop_bit i w AND 1 \<noteq> 0) [0..<length (encoder_paths enc)])"

definition hdl_encoder :: control_encoder where
  "hdl_encoder =
     \<lparr>encoder_paths = map ctl_path hdl_controls,
      control_index = zip hdl_controls [0..<length hdl_controls]\<rparr>"

lemma make_hdl_encoder: "make_control_encoder visit_cpu = Inr hdl_encoder"
  by (simp add: make_control_encoder_def hdl_encoder_def length_hdl_controls Let_def control_info_def
    hdl_controls_def [symmetric])

lemma hdl_index:
  "i < length hdl_controls \<Longrightarrow> map_of (control_index hdl_encoder) (hdl_controls ! i) = Some i"
  using distinct_hdl_controls
  by (intro map_of_is_SomeI) (auto simp: hdl_encoder_def set_zip map_fst_zip in_set_conv_nth)

lemma hdl_index_eq:
  "map_of (control_index hdl_encoder) k = Some i \<longleftrightarrow> i < length hdl_controls \<and> hdl_controls ! i = k"
proof
  assume "map_of (control_index hdl_encoder) k = Some i"
  then have "(k, i) \<in> set (zip hdl_controls [0..<length hdl_controls])"
    by (auto dest: map_of_SomeD simp: hdl_encoder_def)
  then show "i < length hdl_controls \<and> hdl_controls ! i = k"
    by (auto simp: set_zip)
qed (auto simp: hdl_index)

lemma hdl_index_known: "k \<in> set hdl_controls \<Longrightarrow> \<exists>i. map_of (control_index hdl_encoder) k = Some i"
  by (auto simp: in_set_conv_nth hdl_index)

text \<open>The word of a list of controls has exactly the bits of its members.\<close>

lemma control_encode_fold:
  assumes "set ks \<subseteq> set hdl_controls"
  shows "\<exists>w. fold_ok (\<lambda>k w. case map_of (control_index hdl_encoder) k of
                      None \<Rightarrow> Inl (Micro_control_not_registered k)
                    | Some i \<Rightarrow> Inr (w OR push_bit i 1)) ks (w0 :: u128) = Inr w \<and>
     (\<forall>i. bit w i \<longleftrightarrow> bit w0 i \<or> (i < length hdl_controls \<and> hdl_controls ! i \<in> set ks))"
  using assms
proof (induction ks arbitrary: w0)
  case Nil
  then show ?case by simp
next
  case (Cons k ks)
  then obtain j where j: "map_of (control_index hdl_encoder) k = Some j"
    using hdl_index_known by force
  then have jk: "j < length hdl_controls" "hdl_controls ! j = k" by (simp_all add: hdl_index_eq)
  have len: "length hdl_controls \<le> 128" by (simp add: length_hdl_controls)
  have b: "bit (w0 OR push_bit j 1) i \<longleftrightarrow> bit w0 i \<or> i = j" for i
    using jk len unfolding bit_or_iff bit_push_bit_iff bit_1_iff by auto
  have "i = j \<longleftrightarrow> hdl_controls ! i = k" if "i < length hdl_controls" for i
    using jk that distinct_hdl_controls nth_eq_iff_index_eq by blast
  with Cons.IH [of "w0 OR push_bit j 1"] Cons.prems j jk b show ?case
    by (auto 4 4)
qed

lemma control_encode_bits:
  assumes "set ks \<subseteq> set hdl_controls"
  obtains w where "control_encode hdl_encoder ks = Inr w"
    and "\<And>i. bit w i \<longleftrightarrow> i < length hdl_controls \<and> hdl_controls ! i \<in> set ks"
  using control_encode_fold [OF assms, of 0] that by (auto simp: control_encode_def)

lemma filter_index: "map (\<lambda>i. xs ! i) (filter (\<lambda>i. P (xs ! i)) [0..<length xs]) = filter P xs"
proof -
  have "filter P xs = filter P (map (\<lambda>i. xs ! i) [0..<length xs])" by (simp add: map_nth)
  then show ?thesis by (simp add: filter_map o_def)
qed

lemma control_encode_unknown:
  "k \<notin> set hdl_controls \<Longrightarrow>
   control_encode hdl_encoder (k # ks) = Inl (Micro_control_not_registered k)"
  using hdl_index_eq [of k] by (cases "map_of (control_index hdl_encoder) k")
    (auto simp: control_encode_def in_set_conv_nth)

text \<open>Decoding to paths, and back to the controls they name.\<close>

definition decode_controls :: "u128 \<Rightarrow> micro_error + ctl list" where
  "decode_controls w =
     require_controls (make_resolver visit_cpu) (control_decode hdl_encoder w)"

lemma control_decode_encode:
  assumes "set ks \<subseteq> set hdl_controls" and "control_encode hdl_encoder ks = Inr w"
  shows "control_decode hdl_encoder w = map ctl_path (filter (\<lambda>k. k \<in> set ks) hdl_controls)"
proof -
  have bits: "bit w i \<longleftrightarrow> i < length hdl_controls \<and> hdl_controls ! i \<in> set ks" for i
    using control_encode_bits [OF assms(1)] assms(2) by (metis sum.inject(2))
  have "control_decode hdl_encoder w =
      map (\<lambda>i. map ctl_path hdl_controls ! i)
        (filter (\<lambda>i. hdl_controls ! i \<in> set ks) [0..<length hdl_controls])"
    unfolding control_decode_def shift_and_1_iff_bit bits
    by (intro arg_cong2 [where f = map] filter_cong) (simp_all add: hdl_encoder_def fun_eq_iff)
  also have "\<dots> = map ctl_path (map (\<lambda>i. hdl_controls ! i)
      (filter (\<lambda>i. hdl_controls ! i \<in> set ks) [0..<length hdl_controls]))"
    by simp
  also have "\<dots> = map ctl_path (filter (\<lambda>k. k \<in> set ks) hdl_controls)"
    by (rule arg_cong [OF filter_index [of hdl_controls "\<lambda>k. k \<in> set ks"]])
  finally show ?thesis .
qed

interpretation word_codec: control_codec hdl_controls "control_encode hdl_encoder" decode_controls
proof
  fix ks assume ks: "set ks \<subseteq> set hdl_controls"
  obtain w where w: "control_encode hdl_encoder ks = Inr w"
    using control_encode_bits [OF ks] by blast
  have "decode_controls w = Inr (filter (\<lambda>k. k \<in> set ks) hdl_controls)"
    unfolding decode_controls_def control_decode_encode [OF ks w]
    by (rule require_controls_paths) auto
  with w show "\<exists>w. control_encode hdl_encoder ks = Inr w \<and>
      decode_controls w = Inr (filter (\<lambda>k. k \<in> set ks) hdl_controls)" by blast
qed

section \<open>Keys\<close>

definition make_key :: "u8 \<Rightarrow> u8 \<Rightarrow> u8 \<Rightarrow> microcode_key" where
  "make_key op st status = \<lparr>key_opcode = op, key_step = st, key_status = status\<rparr>"

definition decode_key :: "u32 \<Rightarrow> microcode_key" where
  "decode_key e =
     \<lparr>key_opcode = ucast (drop_bit 16 e AND 0xFF), key_step = ucast (drop_bit 8 e AND 0xFF),
      key_status = ucast (e AND 0xFF)\<rparr>"

lemma bit_0xFF_u32: "bit (0xFF :: u32) n \<longleftrightarrow> n < 8"
proof -
  have "(0xFF :: u32) = mask 8" by (simp add: mask_eq_exp_minus_1)
  then show ?thesis by (simp only: bit_mask_iff) auto
qed

lemma bit_encode_key:
  "bit (encode_key k) n \<longleftrightarrow>
     (if n < 8 then bit (key_status k) n
      else if n < 16 then bit (key_step k) (n - 8)
      else n < 24 \<and> bit (key_opcode k) (n - 16))"
  unfolding encode_key_def bit_or_iff bit_push_bit_iff bit_ucast_iff
  by (auto dest: bit_imp_le_length)

lemma decode_encode_key: "decode_key (encode_key k) = k"
proof -
  have "ucast (drop_bit 16 (encode_key k) AND 0xFF) = key_opcode k"
    by (rule bit_word_eqI, unfold bit_ucast_iff bit_and_iff bit_0xFF_u32 bit_drop_bit_eq
      bit_encode_key) auto
  moreover have "ucast (drop_bit 8 (encode_key k) AND 0xFF) = key_step k"
    by (rule bit_word_eqI, unfold bit_ucast_iff bit_and_iff bit_0xFF_u32 bit_drop_bit_eq
      bit_encode_key) auto
  moreover have "ucast (encode_key k AND 0xFF) = key_status k"
    by (rule bit_word_eqI, unfold bit_ucast_iff bit_and_iff bit_0xFF_u32 bit_encode_key) auto
  ultimately show ?thesis by (simp add: decode_key_def)
qed

lemma encode_key_inject [simp]: "encode_key k = encode_key l \<longleftrightarrow> k = l"
  by (metis decode_encode_key)

lemma make_key_inject [simp]: "make_key a b c = make_key a' b' c' \<longleftrightarrow> a = a' \<and> b = b' \<and> c = c'"
  by (simp add: make_key_def)

section \<open>Status bytes\<close>

record status_encoder =
  encoder_bits :: "status_bit_definition list"
  bit_by_name :: "(string \<times> u8) list"

definition make_status_encoder :: "status_bit_definition list \<Rightarrow> micro_error + status_encoder" where
  "make_status_encoder bits =
     bind_ok (fold_ok (\<lambda>b u. if 8 \<le> unat (bit_index b)
                             then Inl (Micro_status_bit_range (unat (bit_index b))) else Inr u) bits ())
       (\<lambda>_. Inr \<lparr>encoder_bits = bits, bit_by_name = map (\<lambda>b. (bit_name b, bit_index b)) bits\<rparr>)"

text \<open>The loop that sets the bits of \<open>unspecified\<close> chosen by \<open>m\<close> in \<open>base\<close>.\<close>

definition apply_mask :: "nat list \<Rightarrow> nat \<Rightarrow> u8 \<Rightarrow> u8" where
  "apply_mask unspecified m base =
     fold (\<lambda>i v. if drop_bit i m AND 1 \<noteq> 0 then v OR push_bit (unspecified ! i) 1 else v)
       [0..<length unspecified] base"

definition partial_base :: "status_bit_definition list \<Rightarrow> status_conditions \<Rightarrow> u8" where
  "partial_base bits partial =
     fold (\<lambda>b base. case map_of partial (bit_name b) of
             Some True \<Rightarrow> base OR push_bit (unat (bit_index b)) 1
           | _ \<Rightarrow> base) bits 0"

definition unspecified_bits :: "status_bit_definition list \<Rightarrow> status_conditions \<Rightarrow> nat list" where
  "unspecified_bits bits partial =
     map (\<lambda>b. unat (bit_index b)) (filter (\<lambda>b. map_of partial (bit_name b) = None) bits)"

definition expand_partial :: "status_encoder \<Rightarrow> status_conditions \<Rightarrow> micro_error + u8 list" where
  "expand_partial enc partial =
     (if encoder_bits enc = [] then
        (if partial \<noteq> [] then Inl Micro_status_not_configured else Inr [0])
      else
        bind_ok (fold_ok (\<lambda>nv u. if map_of (bit_by_name enc) (fst nv) = None
                                then Inl (Micro_unknown_status (fst nv)) else Inr u) partial ())
          (\<lambda>_. let base = partial_base (encoder_bits enc) partial;
                   unspecified = unspecified_bits (encoder_bits enc) partial
               in Inr (map (\<lambda>m. apply_mask unspecified m base)
                        [0..<2 ^ length unspecified])))"

definition status_decode :: "status_encoder \<Rightarrow> u8 \<Rightarrow> micro_error + status_conditions" where
  "status_decode enc status =
     (if encoder_bits enc = [] then
        (if status \<noteq> 0 then Inl Micro_status_not_configured else Inr [])
      else Inr (map (\<lambda>b. (bit_name b, drop_bit (unat (bit_index b)) status AND 1 \<noteq> 0))
                  (encoder_bits enc)))"

text \<open>\<open>BuildStatusBits\<close>: every flag of the status register, with its bit.\<close>

definition build_status_bits :: "status_bit_definition list" where
  "build_status_bits =
     map (\<lambda>f. \<lparr>bit_name = flag_name f, bit_index = of_nat (flag_bit f)\<rparr>) all_flags"

subsection \<open>What an expansion contains\<close>

definition matches :: "status_bit_definition list \<Rightarrow> status_conditions \<Rightarrow> u8 \<Rightarrow> bool" where
  "matches bits partial st \<longleftrightarrow>
     list_all (\<lambda>b. case map_of partial (bit_name b) of
                     None \<Rightarrow> True
                   | Some v \<Rightarrow> bit st (unat (bit_index b)) = v) bits \<and>
     (\<forall>n<8. bit st n \<longrightarrow> n \<in> (\<lambda>b. unat (bit_index b)) ` set bits)"

lemma bit_apply_mask_upt:
  "k \<le> length us \<Longrightarrow> (\<forall>u\<in>set us. u < 8) \<Longrightarrow>
   bit (fold (\<lambda>i v. if bit (m :: nat) i then v OR push_bit (us ! i) 1 else v) [0..<k] (base :: u8)) n \<longleftrightarrow>
     bit base n \<or> (\<exists>i<k. us ! i = n \<and> bit m i)"
proof (induction k)
  case 0
  then show ?case by simp
next
  case (Suc k)
  have "us ! k < 8" using Suc.prems by simp
  then have "bit (push_bit (us ! k) 1 :: u8) n \<longleftrightarrow> n = us ! k"
    unfolding bit_push_bit_iff bit_1_iff by auto
  with Suc show ?case
    by (auto simp: bit_or_iff less_Suc_eq)
qed

lemma shift_nat_bit: "(drop_bit i (m :: nat) AND 1 \<noteq> 0) \<longleftrightarrow> bit m i"
  by (simp add: and_one_eq bit_iff_odd_drop_bit odd_iff_mod_2_eq_one)

lemma bit_apply_mask:
  "(\<forall>u\<in>set us. u < 8) \<Longrightarrow>
   bit (apply_mask us m base) n \<longleftrightarrow> bit base n \<or> (\<exists>i<length us. us ! i = n \<and> bit m i)"
  unfolding apply_mask_def shift_nat_bit by (rule bit_apply_mask_upt) simp_all

lemma bit_partial_base:
  "(\<forall>b\<in>set bits. unat (bit_index b) < 8) \<Longrightarrow>
   bit (partial_base bits partial) n \<longleftrightarrow>
     (\<exists>b\<in>set bits. unat (bit_index b) = n \<and> map_of partial (bit_name b) = Some True)"
proof -
  have fold: "(\<forall>b\<in>set bits. unat (bit_index b) < 8) \<Longrightarrow>
    bit (fold (\<lambda>b base. case map_of partial (bit_name b) of
             Some True \<Rightarrow> base OR push_bit (unat (bit_index b)) 1
           | _ \<Rightarrow> base) bits w) n \<longleftrightarrow>
     bit w n \<or> (\<exists>b\<in>set bits. unat (bit_index b) = n \<and> map_of partial (bit_name b) = Some True)"
    for w :: u8
  proof (induction bits arbitrary: w)
    case Nil
    then show ?case by simp
  next
    case (Cons b bits)
    have "bit (push_bit (unat (bit_index b)) 1 :: u8) n \<longleftrightarrow> n = unat (bit_index b)"
      using Cons.prems unfolding bit_push_bit_iff bit_1_iff by auto
    with Cons show ?case
      by (auto simp: bit_or_iff split: option.splits bool.splits)
  qed
  assume "\<forall>b\<in>set bits. unat (bit_index b) < 8"
  from fold [OF this, of 0] show ?thesis by (simp add: partial_base_def)
qed

lemma mask_of_bools:
  "\<exists>m < 2 ^ length bs. \<forall>i<length bs. bit (m :: nat) i \<longleftrightarrow> bs ! i"
proof -
  have "horner_sum of_bool 2 bs < (2 :: nat) ^ length bs"
    by (rule horner_sum_of_bool_2_less)
  moreover have "\<forall>i<length bs. bit (horner_sum of_bool 2 bs :: nat) i \<longleftrightarrow> bs ! i"
    by (simp add: bit_horner_sum_bit_iff)
  ultimately show ?thesis by blast
qed

definition status_bits_wf :: "status_bit_definition list \<Rightarrow> bool" where
  "status_bits_wf bits \<longleftrightarrow>
     bits \<noteq> [] \<and> (\<forall>b\<in>set bits. unat (bit_index b) < 8) \<and>
     distinct (map (\<lambda>b. unat (bit_index b)) bits)"

lemma status_bits_index:
  "status_bits_wf bits \<Longrightarrow> b \<in> set bits \<Longrightarrow> c \<in> set bits \<Longrightarrow>
   unat (bit_index b) = unat (bit_index c) \<Longrightarrow> b = c"
  unfolding status_bits_wf_def distinct_map inj_on_def by blast

lemma status_bits_ex:
  "status_bits_wf bits \<Longrightarrow> b \<in> set bits \<Longrightarrow>
   (\<exists>c\<in>set bits. unat (bit_index c) = unat (bit_index b) \<and> P c) \<longleftrightarrow> P b"
  using status_bits_index by blast

lemma unspecified_mem:
  "n \<in> set (unspecified_bits bits partial) \<longleftrightarrow>
     (\<exists>b\<in>set bits. unat (bit_index b) = n \<and> map_of partial (bit_name b) = None)"
  by (auto simp: unspecified_bits_def)

lemma distinct_unspecified: "status_bits_wf bits \<Longrightarrow> distinct (unspecified_bits bits partial)"
  by (auto simp: unspecified_bits_def status_bits_wf_def distinct_map inj_on_def)

lemma bit_expanded:
  assumes "status_bits_wf bits"
  shows "bit (apply_mask (unspecified_bits bits partial) m (partial_base bits partial)) n \<longleftrightarrow>
    (\<exists>b\<in>set bits. unat (bit_index b) = n \<and> map_of partial (bit_name b) = Some True) \<or>
    (\<exists>i<length (unspecified_bits bits partial). unspecified_bits bits partial ! i = n \<and> bit m i)"
proof -
  have "\<forall>u\<in>set (unspecified_bits bits partial). u < 8" "\<forall>b\<in>set bits. unat (bit_index b) < 8"
    using assms by (auto simp: unspecified_bits_def status_bits_wf_def)
  then show ?thesis by (simp add: bit_apply_mask bit_partial_base)
qed

lemma expanded_matches:
  assumes wf: "status_bits_wf bits"
  shows "matches bits partial
    (apply_mask (unspecified_bits bits partial) m (partial_base bits partial))" (is "matches _ _ ?st")
proof -
  have "case map_of partial (bit_name b) of None \<Rightarrow> True | Some v \<Rightarrow> bit ?st (unat (bit_index b)) = v"
    if b: "b \<in> set bits" for b
  proof (cases "map_of partial (bit_name b)")
    case None
    then show ?thesis by simp
  next
    case (Some v)
    have "unspecified_bits bits partial ! i \<noteq> unat (bit_index b)"
      if "i < length (unspecified_bits bits partial)" for i
    proof
      assume "unspecified_bits bits partial ! i = unat (bit_index b)"
      with that have "unat (bit_index b) \<in> set (unspecified_bits bits partial)"
        by (metis nth_mem)
      with b Some status_bits_index [OF wf] show False by (fastforce simp: unspecified_mem)
    qed
    moreover have "(\<exists>c\<in>set bits. unat (bit_index c) = unat (bit_index b) \<and>
        map_of partial (bit_name c) = Some True) \<longleftrightarrow> v"
      unfolding status_bits_ex [OF wf b] by (simp add: Some)
    ultimately have "bit ?st (unat (bit_index b)) = v" by (auto simp: bit_expanded [OF wf])
    with Some show ?thesis by simp
  qed
  moreover have "n \<in> (\<lambda>b. unat (bit_index b)) ` set bits" if "bit ?st n" for n
  proof -
    have "(\<exists>b\<in>set bits. unat (bit_index b) = n) \<or> n \<in> set (unspecified_bits bits partial)"
      using that unfolding bit_expanded [OF wf] by (metis nth_mem)
    then show ?thesis by (auto simp: unspecified_mem)
  qed
  ultimately show ?thesis by (auto simp: matches_def list_all_iff)
qed

lemma matches_expanded:
  assumes wf: "status_bits_wf bits" and st: "matches bits partial st"
  shows "\<exists>m < 2 ^ length (unspecified_bits bits partial).
    st = apply_mask (unspecified_bits bits partial) m (partial_base bits partial)"
proof -
  let ?us = "unspecified_bits bits partial"
  obtain m where m: "m < 2 ^ length ?us" "\<And>i. i < length ?us \<Longrightarrow> bit (m :: nat) i \<longleftrightarrow> bit st (?us ! i)"
    using mask_of_bools [of "map (bit st) ?us"] by auto
  have "bit st n \<longleftrightarrow> bit (apply_mask ?us m (partial_base bits partial)) n" if n: "n < 8" for n
  proof -
    have us: "(\<exists>i<length ?us. ?us ! i = n \<and> bit m i) \<longleftrightarrow> n \<in> set ?us \<and> bit st n"
      using m(2) by (auto simp: in_set_conv_nth)
    have set: "bit st (unat (bit_index b)) = v"
      if "b \<in> set bits" "map_of partial (bit_name b) = Some v" for b v
      using st that by (auto simp: matches_def list_all_iff)
    show ?thesis
    proof (cases "\<exists>b\<in>set bits. unat (bit_index b) = n")
      case True
      then obtain b where b: "b \<in> set bits" "unat (bit_index b) = n" by blast
      show ?thesis
      proof (cases "map_of partial (bit_name b)")
        case None
        then have "n \<in> set ?us"
          unfolding unspecified_mem b(2) [symmetric] status_bits_ex [OF wf b(1)] .
        moreover have "\<not> (\<exists>c\<in>set bits. unat (bit_index c) = n \<and> map_of partial (bit_name c) = Some True)"
          unfolding b(2) [symmetric] status_bits_ex [OF wf b(1)] by (simp add: None)
        ultimately show ?thesis unfolding bit_expanded [OF wf] us by blast
      next
        case (Some v)
        have "n \<notin> set ?us"
          unfolding unspecified_mem b(2) [symmetric] status_bits_ex [OF wf b(1)] by (simp add: Some)
        moreover have "(\<exists>c\<in>set bits. unat (bit_index c) = n \<and> map_of partial (bit_name c) = Some True) \<longleftrightarrow> v"
          unfolding b(2) [symmetric] status_bits_ex [OF wf b(1)] by (simp add: Some)
        ultimately show ?thesis
          unfolding bit_expanded [OF wf] us using set [OF b(1) Some] b(2) by simp
      qed
    next
      case False
      with st n have "\<not> bit st n" by (auto simp: matches_def)
      moreover have "n \<notin> set ?us" using False by (auto simp: unspecified_mem)
      ultimately show ?thesis unfolding bit_expanded [OF wf] us using False by blast
    qed
  qed
  then have "st = apply_mask ?us m (partial_base bits partial)" by (auto intro: bit_word_eqI)
  with m(1) show ?thesis by blast
qed

text \<open>Every matching status byte appears in the expansion, once.\<close>

lemma expand_partial_exact:
  assumes "status_bits_wf (encoder_bits enc)" and "expand_partial enc partial = Inr sts"
  shows "set sts = {st. matches (encoder_bits enc) partial st}" and "distinct sts"
proof -
  let ?bits = "encoder_bits enc" and ?us = "unspecified_bits (encoder_bits enc) partial"
  have ne: "?bits \<noteq> []" using assms(1) by (simp add: status_bits_wf_def)
  have sts: "sts = map (\<lambda>m. apply_mask ?us m (partial_base ?bits partial)) [0..<2 ^ length ?us]"
    using assms(2) ne by (auto simp: expand_partial_def Let_def elim!: bind_ok_eq_InrE)
  show "set sts = {st. matches ?bits partial st}"
  proof
    show "set sts \<subseteq> {st. matches ?bits partial st}"
      using expanded_matches [OF assms(1)] by (auto simp: sts)
    show "{st. matches ?bits partial st} \<subseteq> set sts"
    proof
      fix st assume "st \<in> {st. matches ?bits partial st}"
      then have "matches ?bits partial st" by simp
      from matches_expanded [OF assms(1) this] show "st \<in> set sts" by (auto simp: sts)
    qed
  qed
  have us8: "\<forall>u\<in>set ?us. u < 8"
    using assms(1) by (auto simp: unspecified_bits_def status_bits_wf_def)
  have "m = m'" if lt: "m < 2 ^ length ?us" "m' < 2 ^ length ?us"
    and eq: "apply_mask ?us m (partial_base ?bits partial) = apply_mask ?us m' (partial_base ?bits partial)" for m m'
  proof (rule bit_eqI)
    fix i
    show "bit m i = bit m' i"
    proof (cases "i < length ?us")
      case True
      have not_base: "\<not> bit (partial_base ?bits partial) (?us ! i)"
      proof
        assume "bit (partial_base ?bits partial) (?us ! i)"
        with assms(1) obtain b where "b \<in> set ?bits" "unat (bit_index b) = ?us ! i"
          "map_of partial (bit_name b) = Some True"
          by (auto simp: bit_partial_base status_bits_wf_def)
        moreover have "?us ! i \<in> set ?us" using True by simp
        ultimately show False
          using status_bits_index [OF assms(1)] by (fastforce simp: unspecified_mem)
      qed
      have one: "(\<exists>j<length ?us. ?us ! j = ?us ! i \<and> bit k j) \<longleftrightarrow> bit k i" for k :: nat
        using True distinct_unspecified [OF assms(1), of partial] nth_eq_iff_index_eq by blast
      from eq have "bit (apply_mask ?us m (partial_base ?bits partial)) (?us ! i) =
          bit (apply_mask ?us m' (partial_base ?bits partial)) (?us ! i)" by simp
      then show ?thesis unfolding bit_apply_mask [OF us8] one using not_base by simp
    next
      case False
      have "\<not> bit k i" if "k < 2 ^ length ?us" for k :: nat
      proof
        assume "bit k i"
        then have "2 ^ i \<le> k" by (auto simp: bit_iff_odd dest: div_less intro: leI)
        moreover have "(2 :: nat) ^ length ?us \<le> 2 ^ i" using False by simp
        ultimately show False using that by linarith
      qed
      with lt show ?thesis by blast
    qed
  qed
  then show "distinct sts" by (auto simp: sts distinct_map inj_on_def)
qed

lemma expand_partial_ok:
  assumes "encoder_bits enc \<noteq> []"
  shows "is_ok (expand_partial enc partial) \<longleftrightarrow>
    (\<forall>nv\<in>set partial. map_of (bit_by_name enc) (fst nv) \<noteq> None)"
proof -
  have fold: "is_ok (fold_ok (\<lambda>nv u. if map_of (bit_by_name enc) (fst nv) = None
            then Inl (Micro_unknown_status (fst nv)) else Inr u) ps ()) \<longleftrightarrow>
      (\<forall>nv\<in>set ps. map_of (bit_by_name enc) (fst nv) \<noteq> None)" for ps
    by (induction ps) auto
  have bind: "is_ok (bind_ok r (\<lambda>_. Inr x)) \<longleftrightarrow> is_ok r" for r :: "micro_error + unit" and x :: "u8 list"
    by (cases r) auto
  show ?thesis
    using assms by (simp only: expand_partial_def Let_def if_False bind fold)
qed

subsection \<open>The status register of the processor\<close>

definition cpu_status_encoder :: status_encoder where
  "cpu_status_encoder =
     \<lparr>encoder_bits = build_status_bits,
      bit_by_name = map (\<lambda>b. (bit_name b, bit_index b)) build_status_bits\<rparr>"

lemma make_cpu_status_encoder: "make_status_encoder build_status_bits = Inr cpu_status_encoder"
  by (simp add: make_status_encoder_def cpu_status_encoder_def build_status_bits_def all_flags_def)

lemma build_status_bits_wf: "status_bits_wf build_status_bits"
  by (simp add: status_bits_wf_def build_status_bits_def all_flags_def)

lemma matches_cpu_status:
  "matches build_status_bits partial st \<longleftrightarrow>
     (\<forall>f v. map_of partial (flag_name f) = Some v \<longrightarrow> bit st (flag_bit f) = v)"
proof -
  have bit: "unat (of_nat (flag_bit f) :: u8) = flag_bit f" for f by (cases f) simp_all
  show ?thesis
    unfolding matches_def build_status_bits_def list_all_iff
    using flag_bit_surj by (fastforce simp: set_all_flags bit image_iff split: option.splits)
qed

end
