(* ===== verification/Micro_Passes.thy ===== *)
theory Micro_Passes
  imports Micro_Encoders
begin

text \<open>
  The passes of the microcode compiler (\<open>microcode/src/compiler\<close>): the two transformers,
  the six validators plus the fetch validator, and the three optimizers. A validator returns
  the first error it would throw; a transformer returns the new instruction set.
\<close>

section \<open>Transformers\<close>

definition fetch_transformer :: "instruction_set \<Rightarrow> instruction_set" where
  "fetch_transformer s =
     map_variants
       (\<lambda>v. if fetch_preamble s \<noteq> []
            then v\<lparr>steps := fetch_preamble s @ map (\<lambda>t. t\<lparr>stage := stage t + 1\<rparr>) (steps v)\<rparr>
            else v) s"

definition add_control :: "ctl \<Rightarrow> step \<Rightarrow> step" where
  "add_control k t = (if k \<in> set (controls t) then t else t\<lparr>controls := controls t @ [k]\<rparr>)"

fun sequence_steps :: "ctl \<Rightarrow> ctl \<Rightarrow> step list \<Rightarrow> step list" where
  "sequence_steps inc res [] = []"
| "sequence_steps inc res [t] = [add_control res t]"
| "sequence_steps inc res (t # u # ts) = add_control inc t # sequence_steps inc res (u # ts)"

definition sequence_transformer :: "ctl \<Rightarrow> ctl \<Rightarrow> instruction_set \<Rightarrow> instruction_set" where
  "sequence_transformer inc res s =
     map_variants (\<lambda>v. v\<lparr>steps := sequence_steps inc res (steps v)\<rparr>) s"

section \<open>Validators\<close>

text \<open>A step validator runs over the preamble and then over every variant's steps.\<close>

definition for_each_step ::
  "(step \<Rightarrow> nat \<Rightarrow> micro_error + unit) \<Rightarrow> step list \<Rightarrow> micro_error + unit" where
  "for_each_step check ts =
     fold_ok (\<lambda>i u. check (ts ! i) i) [0..<length ts] ()"

definition for_each_variant ::
  "(instruction \<Rightarrow> variant \<Rightarrow> micro_error + unit) \<Rightarrow> instruction_set \<Rightarrow> micro_error + unit" where
  "for_each_variant check s =
     fold_ok (\<lambda>i u. fold_ok (\<lambda>v u. check i v) (variants i) ()) (instructions s) ()"

definition validate_steps ::
  "(step \<Rightarrow> nat \<Rightarrow> micro_error + unit) \<Rightarrow> instruction_set \<Rightarrow> micro_error + unit" where
  "validate_steps check s =
     bind_ok (for_each_step check (fetch_preamble s)) (\<lambda>_.
       for_each_variant (\<lambda>_ v. for_each_step check (steps v)) s)"

subsection \<open>BusValidator\<close>

datatype bus_type = Data_bus_type | Address_bus_type

datatype bus_operation = Bus_read_op | Bus_write_op

text \<open>
  \<open>BuildBusMap\<close>: the controls with a bus are the \<open>write\<close> and \<open>read\<close> controls; the
  bus is that of the component they belong to.
\<close>

definition bus_info :: "ctl \<Rightarrow> (bus_type \<times> bus_operation) option" where
  "bus_info k =
     (case k of Ctl c op \<Rightarrow>
       (let bus = (case comp_bus c of Byte_bus \<Rightarrow> Data_bus_type | Word_bus \<Rightarrow> Address_bus_type) in
        case op of
          Read \<Rightarrow> Some (bus, Bus_read_op)
        | Write \<Rightarrow> Some (bus, Bus_write_op)
        | _ \<Rightarrow> None))"

definition bus_map :: "node list \<Rightarrow> (ctl \<times> (bus_type \<times> bus_operation)) list" where
  "bus_map cpu =
     List.map_filter (\<lambda>k. map_option (\<lambda>b. (k, b)) (bus_info k)) (node_controls cpu)"

definition bus_users :: "(ctl \<times> (bus_type \<times> bus_operation)) list \<Rightarrow> bus_type \<Rightarrow> bus_operation \<Rightarrow> step \<Rightarrow> ctl list" where
  "bus_users m bus op t = filter (\<lambda>k. map_of m k = Some (bus, op)) (controls t)"

definition bus_validate_step ::
  "(ctl \<times> (bus_type \<times> bus_operation)) list \<Rightarrow> step \<Rightarrow> nat \<Rightarrow> micro_error + unit" where
  "bus_validate_step m t i =
     bind_ok (fold_ok (\<lambda>bus u. throw_if (1 < length (bus_users m bus Bus_write_op t))
                                 (Bus_multiple_writers i)) [Data_bus_type, Address_bus_type] ())
       (\<lambda>_. fold_ok (\<lambda>bus u. throw_if (bus_users m bus Bus_read_op t \<noteq> [] \<and>
                                         bus_users m bus Bus_write_op t = [])
                                 (Bus_readers_without_writer i)) [Data_bus_type, Address_bus_type] ())"

definition bus_validator :: "instruction_set \<Rightarrow> micro_error + unit" where
  "bus_validator s = validate_steps (bus_validate_step (bus_map visit_cpu)) s"

subsection \<open>ControlConflictValidator\<close>

text \<open>\<open>GetComponentPath\<close> and \<open>GetOperation\<close>: the parts around the last dot.\<close>

definition has_dot :: "string \<Rightarrow> bool" where
  "has_dot p \<longleftrightarrow> CHR ''.'' \<in> set p"

definition get_component_path :: "string \<Rightarrow> string" where
  "get_component_path p =
     (if has_dot p then rev (tl (dropWhile (\<lambda>c. c \<noteq> CHR ''.'') (rev p))) else p)"

definition get_operation :: "string \<Rightarrow> string" where
  "get_operation p =
     (if has_dot p then rev (takeWhile (\<lambda>c. c \<noteq> CHR ''.'') (rev p)) else '''')"

definition component_operations :: "step \<Rightarrow> string \<Rightarrow> string list" where
  "component_operations t component =
     map get_operation
       (filter (\<lambda>p. get_component_path p = component) (map (\<lambda>k. info_path (control_info k)) (controls t)))"

definition conflict_validate_step :: "step \<Rightarrow> nat \<Rightarrow> micro_error + unit" where
  "conflict_validate_step t i =
     fold_ok (\<lambda>component u.
       let ops = component_operations t component in
       if ''read'' \<in> set ops \<and> ''write'' \<in> set ops then Inl (Conflict_read_write component i)
       else if ''set'' \<in> set ops \<and> ''clear'' \<in> set ops then Inl (Conflict_set_clear component i)
       else if ''increment'' \<in> set ops \<and> ''decrement'' \<in> set ops
         then Inl (Conflict_increment_decrement component i)
       else Inr ())
     (sort_paths (remdups (map (\<lambda>k. get_component_path (info_path (control_info k))) (controls t)))) ()"

definition control_conflict_validator :: "instruction_set \<Rightarrow> micro_error + unit" where
  "control_conflict_validator s = validate_steps conflict_validate_step s"

subsection \<open>FetchValidator\<close>

definition controls_equal :: "step \<Rightarrow> step \<Rightarrow> bool" where
  "controls_equal l r \<longleftrightarrow> controls l = controls r"

definition fetch_validator :: "instruction_set \<Rightarrow> micro_error + unit" where
  "fetch_validator s =
     (if fetch_preamble s = [] then Inr ()
      else for_each_variant (\<lambda>i v.
        let stage_zero = filter (\<lambda>t. stage t = 0) (steps v) in
        if length stage_zero \<noteq> length (fetch_preamble s) then Inl (Fetch_mismatch (opcode i))
        else fold_ok (\<lambda>j u. if \<not> controls_equal (stage_zero ! j) (fetch_preamble s ! j)
                            then Inl (Fetch_mismatch (opcode i)) else Inr ())
               [0..<length stage_zero] ()) s)"

subsection \<open>StageValidator\<close>

fun stages_monotonic :: "int \<Rightarrow> nat \<Rightarrow> step list \<Rightarrow> micro_error + unit" where
  "stages_monotonic prev i [] = Inr ()"
| "stages_monotonic prev i (t # ts) =
     (if stage t < prev then Inl (Stage_not_monotonic i) else stages_monotonic (stage t) (i + 1) ts)"

fun stages_contiguous :: "int \<Rightarrow> int list \<Rightarrow> micro_error + unit" where
  "stages_contiguous expected [] = Inr ()"
| "stages_contiguous expected (s # ss) =
     (if s \<noteq> expected then Inl (Stage_gap s) else stages_contiguous (expected + 1) ss)"

definition validate_stages :: "step list \<Rightarrow> micro_error + unit" where
  "validate_stages ts =
     (case ts of
        [] \<Rightarrow> Inr ()
      | t # _ \<Rightarrow>
          (if stage t \<noteq> 0 then Inl (Stage_start (stage t))
           else bind_ok (stages_monotonic (-1) 0 ts)
                  (\<lambda>_. stages_contiguous 0 (sort (remdups (map stage ts))))))"

definition stage_validator :: "instruction_set \<Rightarrow> micro_error + unit" where
  "stage_validator s =
     bind_ok (validate_stages (fetch_preamble s)) (\<lambda>_.
       for_each_variant (\<lambda>_ v. validate_stages (steps v)) s)"

subsection \<open>StatusValidator\<close>

fun cover_statuses :: "u8 \<Rightarrow> u8 list \<Rightarrow> u8 list \<Rightarrow> micro_error + u8 list" where
  "cover_statuses op [] covered = Inr covered"
| "cover_statuses op (st # sts) covered =
     (if st \<in> set covered then Inl (Status_overlap op st)
      else cover_statuses op sts (st # covered))"

definition cover_variant :: "status_encoder \<Rightarrow> u8 \<Rightarrow> variant \<Rightarrow> u8 list \<Rightarrow> micro_error + u8 list" where
  "cover_variant enc op v covered =
     (if 1 < length (status_conditions v) then Inl (Status_multiple_bits op)
      else bind_ok (expand_partial enc (status_conditions v)) (\<lambda>sts.
        cover_statuses op sts covered))"

definition validate_status :: "status_encoder \<Rightarrow> instruction \<Rightarrow> micro_error + unit" where
  "validate_status enc i =
     (if length (variants i) = 1 \<and> status_conditions (variants i ! 0) = [] then Inr ()
      else if variants i = [] then Inr ()
      else bind_ok (fold_ok (cover_variant enc (opcode i)) (variants i) []) (\<lambda>covered.
        if length covered \<noteq> 2 ^ length (encoder_bits enc) then Inl (Status_incomplete (opcode i))
        else Inr ()))"

definition status_validator :: "status_encoder \<Rightarrow> instruction_set \<Rightarrow> micro_error + unit" where
  "status_validator enc s = fold_ok (\<lambda>i u. validate_status enc i) (instructions s) ()"

subsection \<open>IsaCoverageValidator\<close>

text \<open>The generated list of ISA opcodes is the parameter \<open>isa\<close>.\<close>

fun isa_seen :: "u8 list \<Rightarrow> instruction list \<Rightarrow> u8 list \<Rightarrow> micro_error + u8 list" where
  "isa_seen isa [] seen = Inr seen"
| "isa_seen isa (i # is) seen =
     (if opcode i \<notin> set isa then Inl (Isa_unknown_opcode (opcode i))
      else if opcode i \<in> set seen then Inl (Isa_duplicate_opcode (opcode i))
      else isa_seen isa is (opcode i # seen))"

definition isa_coverage_validator :: "u8 list \<Rightarrow> instruction_set \<Rightarrow> micro_error + unit" where
  "isa_coverage_validator isa s =
     bind_ok (isa_seen isa (instructions s) []) (\<lambda>seen.
       if length seen \<noteq> length (remdups isa) then Inl Isa_incomplete else Inr ())"

subsection \<open>SequenceValidator\<close>

fun sequenced_from :: "ctl \<Rightarrow> ctl \<Rightarrow> u8 \<Rightarrow> nat \<Rightarrow> step list \<Rightarrow> micro_error + unit" where
  "sequenced_from inc res op i [] = Inr ()"
| "sequenced_from inc res op i (t # ts) =
     (if (if ts = [] then res else inc) \<notin> set (controls t) then Inl (Sequence_missing op i)
      else sequenced_from inc res op (i + 1) ts)"

definition sequence_validator :: "ctl \<Rightarrow> ctl \<Rightarrow> instruction_set \<Rightarrow> micro_error + unit" where
  "sequence_validator inc res s =
     for_each_variant (\<lambda>i v. sequenced_from inc res (opcode i) 0 (steps v)) s"

section \<open>Optimizers\<close>

definition optimize_all :: "(step list \<Rightarrow> step list) \<Rightarrow> instruction_set \<Rightarrow> instruction_set" where
  "optimize_all f s =
     map_variants (\<lambda>v. v\<lparr>steps := f (steps v)\<rparr>) (s\<lparr>fetch_preamble := f (fetch_preamble s)\<rparr>)"

definition remove_empty_steps :: "step list \<Rightarrow> step list" where
  "remove_empty_steps ts = filter (\<lambda>t. controls t \<noteq> []) ts"

definition empty_step_optimizer :: "instruction_set \<Rightarrow> instruction_set" where
  "empty_step_optimizer s = optimize_all remove_empty_steps s"

definition steps_are_identical :: "step \<Rightarrow> step \<Rightarrow> bool" where
  "steps_are_identical a b \<longleftrightarrow> stage a = stage b \<and> controls a = controls b"

text \<open>The loop with \<open>deduplicated.back()\<close> as the accumulator's last element.\<close>

fun dedup_from :: "step \<Rightarrow> step list \<Rightarrow> step list" where
  "dedup_from t [] = [t]"
| "dedup_from t (u # ts) =
     (if steps_are_identical t u then dedup_from t ts else t # dedup_from u ts)"

definition dedup_steps :: "step list \<Rightarrow> step list" where
  "dedup_steps ts = (case ts of [] \<Rightarrow> [] | t # ts' \<Rightarrow> dedup_from t ts')"

definition duplicate_step_optimizer :: "instruction_set \<Rightarrow> instruction_set" where
  "duplicate_step_optimizer s = optimize_all dedup_steps s"

definition max_phase :: "step \<Rightarrow> tick_phase" where
  "max_phase t = fold (\<lambda>k p. if info_phase (control_info k) > p then info_phase (control_info k) else p)
                   (controls t) Phase_None"

definition min_phase :: "step \<Rightarrow> tick_phase" where
  "min_phase t = fold (\<lambda>k p. if info_phase (control_info k) < p then info_phase (control_info k) else p)
                   (controls t) Phase_Clear"

definition step_strictly_precedes :: "step \<Rightarrow> step \<Rightarrow> bool" where
  "step_strictly_precedes a b =
     (if controls a = [] then True
      else if controls b = [] then False
      else max_phase a < min_phase b)"

definition can_merge :: "step \<Rightarrow> step \<Rightarrow> bool" where
  "can_merge a b \<longleftrightarrow> stage a = stage b \<and> step_strictly_precedes a b"

definition merge_steps :: "step \<Rightarrow> step \<Rightarrow> step" where
  "merge_steps a b = fold (\<lambda>k a. if k \<in> set (controls a) then a
                                  else a\<lparr>controls := controls a @ [k]\<rparr>) (controls b) a"

fun merge_from :: "step \<Rightarrow> step list \<Rightarrow> step list" where
  "merge_from t [] = [t]"
| "merge_from t (u # ts) =
     (if can_merge t u then merge_from (merge_steps t u) ts else t # merge_from u ts)"

definition merge_all_steps :: "step list \<Rightarrow> step list" where
  "merge_all_steps ts = (case ts of [] \<Rightarrow> [] | t # ts' \<Rightarrow> merge_from t ts')"

definition step_merging_optimizer :: "instruction_set \<Rightarrow> instruction_set" where
  "step_merging_optimizer s = optimize_all merge_all_steps s"

section \<open>What the validators accept\<close>

lemma fold_ok_unit_is_ok: "is_ok (fold_ok (\<lambda>x u. f x) xs ()) \<longleftrightarrow> (\<forall>x\<in>set xs. is_ok (f x))"
  for f :: "'a \<Rightarrow> 'e + unit"
  by (induction xs) (auto simp: bind_ok_def is_ok_def split: sum.splits)

lemma is_ok_bind_unit: "is_ok (bind_ok r (\<lambda>_. q)) \<longleftrightarrow> is_ok r \<and> is_ok q"
  by (cases r) auto

lemma is_ok_iff_Inr_unit: "is_ok (r :: 'e + unit) \<longleftrightarrow> r = Inr ()"
  by (cases r) auto

lemma for_each_step_ok:
  "is_ok (for_each_step check ts) \<longleftrightarrow> (\<forall>i<length ts. is_ok (check (ts ! i) i))"
  by (simp add: for_each_step_def fold_ok_unit_is_ok Ball_def)

lemma for_each_variant_ok:
  "is_ok (for_each_variant check s) \<longleftrightarrow>
     (\<forall>i\<in>set (instructions s). \<forall>v\<in>set (variants i). is_ok (check i v))"
  unfolding for_each_variant_def fold_ok_unit_is_ok by (rule refl)

lemma validate_steps_ok:
  "is_ok (validate_steps check s) \<longleftrightarrow>
     is_ok (for_each_step check (fetch_preamble s)) \<and>
     (\<forall>v\<in>set (all_variants s). is_ok (for_each_step check (steps v)))"
  by (auto simp: validate_steps_def is_ok_bind_unit for_each_variant_ok all_variants_def)

subsection \<open>Buses\<close>

definition bus_disciplined :: "ctl list \<Rightarrow> bool" where
  "bus_disciplined ks \<longleftrightarrow>
     (\<forall>bus. length (filter (\<lambda>k. bus_info k = Some (bus, Bus_write_op)) ks) \<le> 1 \<and>
        ((\<exists>k\<in>set ks. bus_info k = Some (bus, Bus_read_op)) \<longrightarrow>
         (\<exists>k\<in>set ks. bus_info k = Some (bus, Bus_write_op))))"

lemma map_of_bus_map:
  "map_of (List.map_filter (\<lambda>k. map_option (\<lambda>b. (k, b)) (bus_info k)) ks) k =
     (if k \<in> set ks then bus_info k else None)"
  by (induction ks) (auto simp: map_filter_simps split: option.splits)

lemma bus_users_hdl:
  "set (controls t) \<subseteq> set hdl_controls \<Longrightarrow>
   bus_users (bus_map visit_cpu) bus op t = filter (\<lambda>k. bus_info k = Some (bus, op)) (controls t)"
  unfolding bus_users_def bus_map_def map_of_bus_map hdl_controls_def [symmetric]
  by (auto intro!: filter_cong)

lemma bus_type_all: "(\<forall>b. P b) \<longleftrightarrow> P Data_bus_type \<and> P Address_bus_type"
  by (metis bus_type.exhaust)

lemma bus_validate_step_ok:
  assumes "set (controls t) \<subseteq> set hdl_controls"
  shows "is_ok (bus_validate_step (bus_map visit_cpu) t i) \<longleftrightarrow> bus_disciplined (controls t)"
  unfolding bus_validate_step_def is_ok_bind_unit fold_ok_unit_is_ok bus_users_hdl [OF assms]
    bus_disciplined_def bus_type_all
  by (auto simp: filter_empty_conv not_less)

lemma bus_validator_steps:
  assumes "is_ok (bus_validator s)" and "v \<in> set (all_variants s)" and "t \<in> set (steps v)"
    and "set (controls t) \<subseteq> set hdl_controls"
  shows "bus_disciplined (controls t)"
proof -
  obtain i where i: "i < length (steps v)" "t = steps v ! i"
    using assms(3) by (auto simp: in_set_conv_nth)
  with assms(1,2) have "is_ok (bus_validate_step (bus_map visit_cpu) t i)"
    by (auto simp: bus_validator_def validate_steps_ok for_each_step_ok)
  then show ?thesis by (simp add: bus_validate_step_ok [OF assms(4)])
qed

subsection \<open>Stages\<close>

lemma stages_monotonic_ok:
  "is_ok (stages_monotonic prev i ts) \<longleftrightarrow> sorted (prev # map stage ts)"
  by (induction ts arbitrary: prev i) auto

subsection \<open>Sequencing\<close>

lemma sequence_steps_Nil_iff [simp]: "sequence_steps inc res ts = [] \<longleftrightarrow> ts = []"
  by (induction inc res ts rule: sequence_steps.induct) auto

lemma length_sequence_steps [simp]: "length (sequence_steps inc res ts) = length ts"
  by (induction inc res ts rule: sequence_steps.induct) auto

lemma in_add_control [simp]: "set (controls (add_control k t)) = insert k (set (controls t))"
  by (auto simp: add_control_def)

lemma stage_add_control [simp]: "stage (add_control k t) = stage t"
  by (simp add: add_control_def)

lemma sequence_steps_nth:
  "i < length ts \<Longrightarrow>
   sequence_steps inc res ts ! i = add_control (if Suc i = length ts then res else inc) (ts ! i)"
  by (induction inc res ts arbitrary: i rule: sequence_steps.induct)
    (auto simp: nth_Cons split: nat.splits)

lemma sequenced_from_sequence_steps:
  "sequenced_from inc res op i (sequence_steps inc res ts) = Inr ()"
  by (induction inc res ts arbitrary: i rule: sequence_steps.induct) auto

lemma sequence_transformer_validates:
  "sequence_validator inc res (sequence_transformer inc res s) = Inr ()"
proof -
  have "is_ok (sequence_validator inc res (sequence_transformer inc res s))"
    by (auto simp: sequence_validator_def for_each_variant_ok sequence_transformer_def
      map_variants_def sequenced_from_sequence_steps)
  then show ?thesis by (simp add: is_ok_iff_Inr_unit)
qed

lemma sequenced_from_nth:
  "sequenced_from inc res op i ts = Inr () \<Longrightarrow> j < length ts \<Longrightarrow>
   (if Suc j = length ts then res else inc) \<in> set (controls (ts ! j))"
proof (induction ts arbitrary: i j)
  case Nil
  then show ?case by simp
next
  case (Cons t ts)
  show ?case
  proof (cases j)
    case 0
    with Cons.prems show ?thesis by (auto split: if_splits)
  next
    case (Suc j')
    with Cons.prems Cons.IH [of "i + 1" j'] show ?thesis by (auto split: if_splits)
  qed
qed

lemma sequence_validator_steps:
  assumes "sequence_validator inc res s = Inr ()" and "v \<in> set (all_variants s)"
    and "j < length (steps v)"
  shows "(if Suc j = length (steps v) then res else inc) \<in> set (controls (steps v ! j))"
proof -
  from assms(2) obtain i where i: "i \<in> set (instructions s)" "v \<in> set (variants i)"
    by (auto simp: all_variants_def)
  have "is_ok (sequence_validator inc res s)" using assms(1) by simp
  with i have "is_ok (sequenced_from inc res (opcode i) 0 (steps v))"
    by (auto simp: sequence_validator_def for_each_variant_ok)
  then have "sequenced_from inc res (opcode i) 0 (steps v) = Inr ()"
    by (simp add: is_ok_iff_Inr_unit)
  from sequenced_from_nth [OF this assms(3)] show ?thesis .
qed

section \<open>What the optimizers do\<close>

lemma fetch_preamble_optimize_all [simp]: "fetch_preamble (optimize_all f s) = f (fetch_preamble s)"
  by (simp add: optimize_all_def map_variants_def)

lemma instructions_optimize_all:
  "instructions (optimize_all f s) =
     map (\<lambda>i. i\<lparr>variants := map (\<lambda>v. v\<lparr>steps := f (steps v)\<rparr>) (variants i)\<rparr>) (instructions s)"
  by (simp add: optimize_all_def map_variants_def)

lemma all_variants_optimize_all:
  "all_variants (optimize_all f s) = map (\<lambda>v. v\<lparr>steps := f (steps v)\<rparr>) (all_variants s)"
  by (simp add: all_variants_def instructions_optimize_all map_concat o_def)

lemma optimize_all_id_on:
  assumes "\<And>v. v \<in> set (all_variants s) \<Longrightarrow> f (steps v) = steps v"
  shows "instructions (optimize_all f s) = instructions s"
proof -
  have "map (\<lambda>v. v\<lparr>steps := f (steps v)\<rparr>) (variants i) = variants i" if "i \<in> set (instructions s)" for i
  proof (rule map_idI)
    fix v assume "v \<in> set (variants i)"
    with that have "f (steps v) = steps v" by (intro assms) (auto simp: all_variants_def)
    then show "v\<lparr>steps := f (steps v)\<rparr> = v" by simp
  qed
  then show ?thesis unfolding instructions_optimize_all by (intro map_idI) simp
qed

subsection \<open>Phases\<close>

lemma max_phase_fold:
  "p \<le> fold (\<lambda>k p. if info_phase (control_info k) > p then info_phase (control_info k) else p) ks p \<and>
   (\<forall>k\<in>set ks. ctl_phase k \<le>
      fold (\<lambda>k p. if info_phase (control_info k) > p then info_phase (control_info k) else p) ks p)"
proof (induction ks arbitrary: p)
  case Nil
  then show ?case by simp
next
  case (Cons k ks)
  let ?q = "if info_phase (control_info k) > p then info_phase (control_info k) else p"
  have "p \<le> ?q" "ctl_phase k \<le> ?q" by (auto simp: control_info_def not_less)
  with Cons.IH [of ?q] show ?case by (auto intro: order_trans)
qed

lemma min_phase_fold:
  "fold (\<lambda>k p. if info_phase (control_info k) < p then info_phase (control_info k) else p) ks p \<le> p \<and>
   (\<forall>k\<in>set ks.
      fold (\<lambda>k p. if info_phase (control_info k) < p then info_phase (control_info k) else p) ks p \<le> ctl_phase k)"
proof (induction ks arbitrary: p)
  case Nil
  then show ?case by simp
next
  case (Cons k ks)
  let ?q = "if info_phase (control_info k) < p then info_phase (control_info k) else p"
  have "?q \<le> p" "?q \<le> ctl_phase k" by (auto simp: control_info_def not_less)
  with Cons.IH [of ?q] show ?case by (auto intro: order_trans)
qed

lemma max_phase_ge: "k \<in> set (controls t) \<Longrightarrow> ctl_phase k \<le> max_phase t"
  using max_phase_fold [of Phase_None "controls t"] by (auto simp: max_phase_def)

lemma min_phase_le: "k \<in> set (controls t) \<Longrightarrow> min_phase t \<le> ctl_phase k"
  using min_phase_fold [of "controls t" Phase_Clear] by (auto simp: min_phase_def)

text \<open>Two steps that both hold a Process control never merge.\<close>

lemma not_can_merge:
  assumes "k \<in> set (controls a)" and "l \<in> set (controls b)" and "ctl_phase l \<le> ctl_phase k"
  shows "\<not> can_merge a b"
proof -
  have "min_phase b \<le> max_phase a"
    using min_phase_le [OF assms(2)] max_phase_ge [OF assms(1)] assms(3) by order
  then show ?thesis using assms(1,2) by (auto simp: can_merge_def step_strictly_precedes_def not_less)
qed

lemma merge_from_id:
  "list_all (\<lambda>t. \<exists>k\<in>set (controls t). ctl_phase k = Phase_Process) (t # ts) \<Longrightarrow> merge_from t ts = t # ts"
proof (induction t ts rule: merge_from.induct)
  case (1 t)
  then show ?case by simp
next
  case (2 t u ts)
  then have "\<not> can_merge t u" using not_can_merge by (force simp: list_all_iff)
  with 2 show ?case by simp
qed

lemma merge_all_steps_id:
  "list_all (\<lambda>t. \<exists>k\<in>set (controls t). ctl_phase k = Phase_Process) ts \<Longrightarrow> merge_all_steps ts = ts"
  by (cases ts) (simp_all add: merge_all_steps_def merge_from_id)

lemma sequenced_nonempty:
  assumes "sequence_validator inc res s = Inr ()" and "v \<in> set (all_variants s)"
    and "ctl_phase inc = Phase_Process" and "ctl_phase res = Phase_Process"
  shows "list_all (\<lambda>t. \<exists>k\<in>set (controls t). ctl_phase k = Phase_Process) (steps v)"
proof -
  have "\<exists>k\<in>set (controls t). ctl_phase k = Phase_Process" if "t \<in> set (steps v)" for t
  proof -
    from that obtain j where "j < length (steps v)" "t = steps v ! j" by (auto simp: in_set_conv_nth)
    with sequence_validator_steps [OF assms(1,2), of j] assms(3,4) show ?thesis
      by (metis (full_types))
  qed
  then show ?thesis by (auto simp: list_all_iff)
qed

lemma empty_step_optimizer_sequenced:
  assumes "sequence_validator inc res s = Inr ()"
    and "ctl_phase inc = Phase_Process" and "ctl_phase res = Phase_Process"
  shows "instructions (empty_step_optimizer s) = instructions s"
  unfolding empty_step_optimizer_def
  by (rule optimize_all_id_on, unfold remove_empty_steps_def, rule filter_id_if)
    (use sequenced_nonempty [OF assms(1) _ assms(2,3)] in \<open>force simp: list_all_iff\<close>)

lemma step_merging_optimizer_sequenced:
  assumes "sequence_validator inc res s = Inr ()"
    and "ctl_phase inc = Phase_Process" and "ctl_phase res = Phase_Process"
  shows "instructions (step_merging_optimizer s) = instructions s"
  unfolding step_merging_optimizer_def
  by (rule optimize_all_id_on, rule merge_all_steps_id)
    (rule sequenced_nonempty [OF assms(1) _ assms(2,3)])

subsection \<open>Duplicates\<close>

fun adjacent_distinct :: "step list \<Rightarrow> bool" where
  "adjacent_distinct (t # u # ts) \<longleftrightarrow> t \<noteq> u \<and> adjacent_distinct (u # ts)"
| "adjacent_distinct ts \<longleftrightarrow> True"

lemma steps_are_identical_iff: "steps_are_identical t u \<longleftrightarrow> t = (u :: step)"
  by (auto simp: steps_are_identical_def intro: step.equality)

lemma dedup_from_hd: "\<exists>us. dedup_from t ts = t # us"
  by (induction t ts rule: dedup_from.induct) (auto simp: steps_are_identical_iff)

lemma dedup_from_adjacent: "adjacent_distinct (dedup_from t ts)"
proof (induction t ts rule: dedup_from.induct)
  case (1 t)
  then show ?case by simp
next
  case (2 t u ts)
  then show ?case using dedup_from_hd [of u ts] by (auto simp: steps_are_identical_iff)
qed

lemma dedup_from_id: "adjacent_distinct (t # ts) \<Longrightarrow> dedup_from t ts = t # ts"
  by (induction t ts rule: dedup_from.induct) (auto simp: steps_are_identical_iff)

lemma set_dedup_from: "set (dedup_from t ts) = set (t # ts)"
  by (induction t ts rule: dedup_from.induct) (auto simp: steps_are_identical_iff)

lemma last_dedup_from: "last (dedup_from t ts) = last (t # ts)"
  by (induction t ts rule: dedup_from.induct)
    (use dedup_from_hd in \<open>auto simp: steps_are_identical_iff\<close>, metis list.distinct(1))

lemma dedup_steps_idem: "dedup_steps (dedup_steps ts) = dedup_steps ts"
proof (cases ts)
  case Nil
  then show ?thesis by (simp add: dedup_steps_def)
next
  case (Cons t ts')
  obtain us where us: "dedup_from t ts' = t # us" using dedup_from_hd by blast
  have "dedup_from t us = t # us" by (rule dedup_from_id) (metis us dedup_from_adjacent)
  then show ?thesis by (simp add: Cons dedup_steps_def us)
qed

lemma set_dedup_steps [simp]: "set (dedup_steps ts) = set ts"
  by (cases ts) (simp_all add: dedup_steps_def set_dedup_from)

section \<open>Status coverage\<close>

lemma cover_statuses_ok:
  "cover_statuses op sts cov = Inr c \<Longrightarrow> distinct cov \<Longrightarrow>
   distinct c \<and> set c = set sts \<union> set cov \<and> set sts \<inter> set cov = {}"
  by (induction op sts cov arbitrary: c rule: cover_statuses.induct) (auto split: if_splits)

lemma cover_variant_ok:
  assumes "cover_variant enc op v cov = Inr c" and "distinct cov" and "status_bits_wf (encoder_bits enc)"
  shows "distinct c \<and> set c = {st. matches (encoder_bits enc) (status_conditions v) st} \<union> set cov \<and>
    {st. matches (encoder_bits enc) (status_conditions v) st} \<inter> set cov = {}"
proof -
  from assms(1) obtain sts where "expand_partial enc (status_conditions v) = Inr sts"
    "cover_statuses op sts cov = Inr c"
    by (auto simp: cover_variant_def split: if_splits elim!: bind_ok_eq_InrE)
  with cover_statuses_ok [OF this(2) assms(2)] expand_partial_exact(1) [OF assms(3) this(1)]
  show ?thesis by simp
qed

definition variant_matches :: "status_encoder \<Rightarrow> variant \<Rightarrow> u8 \<Rightarrow> bool" where
  "variant_matches enc v st = matches (encoder_bits enc) (status_conditions v) st"

lemma cover_variants_ok:
  assumes "status_bits_wf (encoder_bits enc)"
  shows "fold_ok (cover_variant enc op) vs cov = Inr c \<Longrightarrow> distinct cov \<Longrightarrow>
    distinct c \<and> set c = set cov \<union> {st. \<exists>v\<in>set vs. variant_matches enc v st} \<and>
    (\<forall>i<length vs. \<forall>st. variant_matches enc (vs ! i) st \<longrightarrow>
       st \<notin> set cov \<and> (\<forall>j<length vs. variant_matches enc (vs ! j) st \<longrightarrow> i = j))"
proof (induction vs arbitrary: cov)
  case Nil
  then show ?case by simp
next
  case (Cons v vs)
  from Cons.prems(1) obtain cov' where c: "cover_variant enc op v cov = Inr cov'"
    "fold_ok (cover_variant enc op) vs cov' = Inr c"
    by (auto elim: bind_ok_eq_InrE)
  note v = cover_variant_ok [OF c(1) Cons.prems(2) assms, folded variant_matches_def]
  with Cons.IH [OF c(2)] have ih: "distinct c"
    "set c = set cov' \<union> {st. \<exists>v\<in>set vs. variant_matches enc v st}"
    "\<And>i j st. i < length vs \<Longrightarrow> j < length vs \<Longrightarrow> variant_matches enc (vs ! i) st \<Longrightarrow>
       variant_matches enc (vs ! j) st \<Longrightarrow> i = j"
    "\<And>i st. i < length vs \<Longrightarrow> variant_matches enc (vs ! i) st \<Longrightarrow> st \<notin> set cov'"
    by blast+
  have set: "set c = set cov \<union> {st. \<exists>v'\<in>set (v # vs). variant_matches enc v' st}"
    using ih(2) v by auto
  have "st \<notin> set cov \<and> (\<forall>j<length (v # vs). variant_matches enc ((v # vs) ! j) st \<longrightarrow> i = j)"
    if i: "i < length (v # vs)" "variant_matches enc ((v # vs) ! i) st" for i st
  proof (cases i)
    case 0
    with i have m: "variant_matches enc v st" by simp
    with v have "st \<in> set cov'" "st \<notin> set cov" by auto
    with ih(4) 0 show ?thesis by (auto simp: nth_Cons split: nat.splits)
  next
    case (Suc i')
    with i have m: "i' < length vs" "variant_matches enc (vs ! i') st" by simp_all
    from ih(4) [OF this] v have "st \<notin> set cov" "\<not> variant_matches enc v st" by auto
    with ih(3) [OF m(1) _ m(2)] Suc show ?thesis by (auto simp: nth_Cons split: nat.splits)
  qed
  with ih(1) set show ?case by blast
qed

lemma matches_unconditional: "matches build_status_bits [] st"
  by (simp add: matches_cpu_status)

text \<open>
  An accepted instruction with variants has exactly one variant for every value of the
  status register.
\<close>

lemma validate_status_unique:
  assumes "is_ok (validate_status cpu_status_encoder i)" and "variants i \<noteq> []"
  shows "\<exists>!k. k < length (variants i) \<and> variant_matches cpu_status_encoder (variants i ! k) st"
proof (cases "length (variants i) = 1 \<and> status_conditions (variants i ! 0) = []")
  case True
  then have "variant_matches cpu_status_encoder (variants i ! 0) st"
    by (simp add: variant_matches_def cpu_status_encoder_def matches_unconditional)
  with True show ?thesis by (intro ex1I [of _ 0]) auto
next
  case False
  with assms obtain c where
    c: "fold_ok (cover_variant cpu_status_encoder (opcode i)) (variants i) [] = Inr c"
      "length c = 2 ^ length (encoder_bits cpu_status_encoder)"
    by (auto simp: validate_status_def bind_ok_def is_ok_def split: sum.splits if_splits)
  have wf: "status_bits_wf (encoder_bits cpu_status_encoder)"
    by (simp add: cpu_status_encoder_def build_status_bits_wf)
  from cover_variants_ok [OF wf c(1)] have c': "distinct c"
    "set c = {st. \<exists>v\<in>set (variants i). variant_matches cpu_status_encoder v st}"
    "\<And>k j. k < length (variants i) \<Longrightarrow> j < length (variants i) \<Longrightarrow>
       variant_matches cpu_status_encoder (variants i ! k) st \<Longrightarrow>
       variant_matches cpu_status_encoder (variants i ! j) st \<Longrightarrow> k = j"
    by auto
  have "length c = 256"
    using c(2) by (simp add: cpu_status_encoder_def build_status_bits_def all_flags_def)
  with c'(1) have "card (set c) = card (UNIV :: u8 set)"
    by (simp add: distinct_card card_word)
  then have "set c = UNIV" by (intro card_subset_eq) auto
  then have "st \<in> set c" by simp
  then obtain k where "k < length (variants i)"
    "variant_matches cpu_status_encoder (variants i ! k) st"
    unfolding c'(2) by (auto simp: in_set_conv_nth)
  with c'(3) show ?thesis by blast
qed

section \<open>Conflicting controls\<close>

lemma no_dot_op_name: "CHR ''.'' \<notin> set (op_name op)"
  by (cases op) simp_all

lemma get_parts_dotted:
  assumes "CHR ''.'' \<notin> set name"
  shows "get_component_path (p @ ''.'' @ name) = p" and "get_operation (p @ ''.'' @ name) = name"
proof -
  let ?P = "\<lambda>c. c \<noteq> CHR ''.''"
  have rev: "rev (p @ ''.'' @ name) = rev name @ CHR ''.'' # rev p" by simp
  have all: "\<forall>x\<in>set (rev name). ?P x" using assms by auto
  have "dropWhile ?P (rev name @ CHR ''.'' # rev p) = CHR ''.'' # rev p"
    by (subst dropWhile_append2) (use all in simp_all)
  then show "get_component_path (p @ ''.'' @ name) = p"
    unfolding get_component_path_def rev by (simp add: has_dot_def)
  have "takeWhile ?P (rev name @ CHR ''.'' # rev p) = rev name"
    by (subst takeWhile_append2) (use all in simp_all)
  then show "get_operation (p @ ''.'' @ name) = name"
    unfolding get_operation_def rev by (simp add: has_dot_def)
qed

lemma comp_name_nonempty [simp]: "comp_name c \<noteq> []"
proof (cases c)
  case (Flag f)
  then show ?thesis by (cases f) simp_all
qed simp_all

lemma comp_path_empty_iff: "comp_path c = [] \<longleftrightarrow> c = Cpu_root"
  using comp_name_nonempty [of c]
  by (subst comp_path.simps) (cases c, simp_all add: build_path_def)

lemma get_parts_ctl:
  assumes "c \<noteq> Cpu_root"
  shows "get_component_path (ctl_path (Ctl c op)) = comp_path c"
    and "get_operation (ctl_path (Ctl c op)) = op_name op"
  using get_parts_dotted [OF no_dot_op_name, of "comp_path c" op] comp_path_empty_iff [of c] assms
  by (simp_all add: build_path_def)

lemma conflict_step_operations:
  assumes "is_ok (conflict_validate_step t i)" and "Ctl c op \<in> set (controls t)" and "c \<noteq> Cpu_root"
  shows "\<not> (''read'' \<in> set (component_operations t (comp_path c)) \<and>
      ''write'' \<in> set (component_operations t (comp_path c)))"
    and "\<not> (''set'' \<in> set (component_operations t (comp_path c)) \<and>
      ''clear'' \<in> set (component_operations t (comp_path c)))"
    and "\<not> (''increment'' \<in> set (component_operations t (comp_path c)) \<and>
      ''decrement'' \<in> set (component_operations t (comp_path c)))"
proof -
  have set_insert: "set (insert_path p ps) = insert p (set ps)" for p ps
    by (induction ps) auto
  have "set (sort_paths ps) = set ps" for ps
    unfolding sort_paths_def by (induction ps) (simp_all add: set_insert)
  moreover have "comp_path c \<in> (\<lambda>k. get_component_path (info_path (control_info k))) ` set (controls t)"
    by (rule image_eqI [OF _ assms(2)]) (simp add: control_info_def get_parts_ctl(1) [OF assms(3)] del: ctl_path.simps)
  ultimately have "comp_path c \<in> set (sort_paths (remdups
      (map (\<lambda>k. get_component_path (info_path (control_info k))) (controls t))))"
    by simp
  with assms(1) have ok: "is_ok (let ops = component_operations t (comp_path c) in
       if ''read'' \<in> set ops \<and> ''write'' \<in> set ops then Inl (Conflict_read_write (comp_path c) i)
       else if ''set'' \<in> set ops \<and> ''clear'' \<in> set ops then Inl (Conflict_set_clear (comp_path c) i)
       else if ''increment'' \<in> set ops \<and> ''decrement'' \<in> set ops
         then Inl (Conflict_increment_decrement (comp_path c) i)
       else Inr () :: micro_error + unit)"
    unfolding conflict_validate_step_def fold_ok_unit_is_ok by blast
  show "\<not> (''read'' \<in> set (component_operations t (comp_path c)) \<and>
      ''write'' \<in> set (component_operations t (comp_path c)))"
    "\<not> (''set'' \<in> set (component_operations t (comp_path c)) \<and>
      ''clear'' \<in> set (component_operations t (comp_path c)))"
    "\<not> (''increment'' \<in> set (component_operations t (comp_path c)) \<and>
      ''decrement'' \<in> set (component_operations t (comp_path c)))"
    using ok by (auto simp: Let_def split: if_splits)
qed

lemma component_operations_mem:
  "Ctl c op \<in> set (controls t) \<Longrightarrow> c \<noteq> Cpu_root \<Longrightarrow>
   op_name op \<in> set (component_operations t (comp_path c))"
  unfolding component_operations_def
  by (force simp: control_info_def get_parts_ctl simp del: ctl_path.simps)

lemma conflict_step_controls:
  assumes "is_ok (conflict_validate_step t i)" and "c \<noteq> Cpu_root"
  shows "\<not> (Ctl c Read \<in> set (controls t) \<and> Ctl c Write \<in> set (controls t))"
    and "\<not> (Ctl c Set_flag \<in> set (controls t) \<and> Ctl c Clear_flag \<in> set (controls t))"
    and "\<not> (Ctl c Increment \<in> set (controls t) \<and> Ctl c Decrement \<in> set (controls t))"
  using conflict_step_operations [OF assms(1) _ assms(2)]
    component_operations_mem [OF _ assms(2), of _ t]
  by (metis op_name.simps(1,2), metis op_name.simps(6,7), metis op_name.simps(4,5))

end
