(* ===== verification/Micro_Compiler.thy ===== *)
theory Micro_Compiler
  imports Micro_Passes
begin

text \<open>
  The driver of the microcode compiler (\<open>microcode/src/compiler/compiler.cpp\<close>): the passes
  in their order, all validators after every transformation, and the encoding of the final
  instruction set into the table of control words.
\<close>

section \<open>The compiler\<close>

record compiler =
  compiler_controls :: control_encoder
  compiler_status :: status_encoder
  increment_control :: ctl
  reset_control :: ctl
  isa_opcodes :: "u8 list"

definition run_all_validators :: "compiler \<Rightarrow> instruction_set \<Rightarrow> micro_error + unit" where
  "run_all_validators c s =
     bind_ok (bus_validator s) (\<lambda>_.
     bind_ok (control_conflict_validator s) (\<lambda>_.
     bind_ok (stage_validator s) (\<lambda>_.
     bind_ok (status_validator (compiler_status c) s) (\<lambda>_.
     bind_ok (isa_coverage_validator (isa_opcodes c) s) (\<lambda>_.
     sequence_validator (increment_control c) (reset_control c) s)))))"

definition emplace_entry :: "u8 \<Rightarrow> nat \<Rightarrow> u8 \<Rightarrow> u128 \<Rightarrow> microcode_table \<Rightarrow> micro_error + microcode_table" where
  "emplace_entry op i status w t =
     (let key = encode_key (make_key op (of_nat i) status) in
      case map_of t key of
        None \<Rightarrow> Inr (table_emplace key w t)
      | Some w' \<Rightarrow> (if w' \<noteq> w then Inl (Microcode_conflict op i status) else Inr t))"

definition encode_step ::
  "compiler \<Rightarrow> u8 \<Rightarrow> u8 list \<Rightarrow> step list \<Rightarrow> nat \<Rightarrow> microcode_table \<Rightarrow> micro_error + microcode_table" where
  "encode_step c op statuses ts i t =
     (if 0xFF < i then Inl (Step_index_range i)
      else bind_ok (control_encode (compiler_controls c) (controls (ts ! i))) (\<lambda>w.
        fold_ok (\<lambda>status. emplace_entry op i status w) statuses t))"

definition encode_variant ::
  "compiler \<Rightarrow> u8 \<Rightarrow> variant \<Rightarrow> microcode_table \<Rightarrow> micro_error + microcode_table" where
  "encode_variant c op v t =
     bind_ok (expand_partial (compiler_status c) (status_conditions v)) (\<lambda>statuses.
       fold_ok (encode_step c op statuses (steps v)) [0..<length (steps v)] t)"

definition encode_instruction ::
  "compiler \<Rightarrow> instruction \<Rightarrow> microcode_table \<Rightarrow> micro_error + microcode_table" where
  "encode_instruction c i t = fold_ok (encode_variant c (opcode i)) (variants i) t"

definition encode_program :: "compiler \<Rightarrow> instruction_set \<Rightarrow> micro_error + microcode_program" where
  "encode_program c s =
     bind_ok (fold_ok (encode_instruction c) (instructions s) []) (\<lambda>t.
       Inr \<lparr>table = t, control_paths = encoder_paths (compiler_controls c),
            status_bits = encoder_bits (compiler_status c)\<rparr>)"

definition compile :: "compiler \<Rightarrow> instruction_set \<Rightarrow> micro_error + microcode_program" where
  "compile c s0 =
     (let s1 = fetch_transformer s0 in
      bind_ok (fetch_validator s1) (\<lambda>_.
      let s2 = sequence_transformer (increment_control c) (reset_control c) s1 in
      bind_ok (run_all_validators c s2) (\<lambda>_.
      let s3 = empty_step_optimizer s2 in
      bind_ok (run_all_validators c s3) (\<lambda>_.
      let s4 = duplicate_step_optimizer s3 in
      bind_ok (run_all_validators c s4) (\<lambda>_.
      let s5 = step_merging_optimizer s4 in
      bind_ok (run_all_validators c s5) (\<lambda>_.
      encode_program c s5))))))"

text \<open>The compiler of the processor (\<open>BuildMicrocodeProgram\<close> in \<open>sim/src/cpu.cpp\<close>).\<close>

definition cpu_compiler :: "u8 list \<Rightarrow> compiler" where
  "cpu_compiler isa =
     \<lparr>compiler_controls = hdl_encoder, compiler_status = cpu_status_encoder,
      increment_control = Ctl Sc Increment, reset_control = Ctl Sc Reset, isa_opcodes = isa\<rparr>"

section \<open>The encoded table\<close>

definition table_extends :: "microcode_table \<Rightarrow> microcode_table \<Rightarrow> bool" where
  "table_extends t t' \<longleftrightarrow> (\<forall>k w. map_of t k = Some w \<longrightarrow> map_of t' k = Some w)"

lemma table_extends_refl: "table_extends t t"
  by (simp add: table_extends_def)

lemma table_extends_trans: "table_extends t u \<Longrightarrow> table_extends u v \<Longrightarrow> table_extends t v"
  by (simp add: table_extends_def)

lemma table_extendsD: "table_extends t t' \<Longrightarrow> map_of t k = Some w \<Longrightarrow> map_of t' k = Some w"
  by (simp add: table_extends_def)

lemmas table_extends_rules = table_extends_refl table_extends_trans

lemma emplace_entry_extends: "emplace_entry op i st w t = Inr t' \<Longrightarrow> table_extends t t'"
  by (auto simp: emplace_entry_def table_extends_def map_of_table_emplace Let_def
    split: option.splits if_splits)

lemma emplace_entry_present:
  "emplace_entry op i st w t = Inr t' \<Longrightarrow>
   map_of t' (encode_key (make_key op (of_nat i) st)) = Some w"
  by (auto simp: emplace_entry_def map_of_table_emplace Let_def split: option.splits if_splits)

lemma encode_step_extends: "encode_step c op sts ts i t = Inr t' \<Longrightarrow> table_extends t t'"
  by (auto simp: encode_step_def split: if_splits elim!: bind_ok_eq_InrE
    intro: fold_ok_related table_extends_rules emplace_entry_extends)

lemma encode_step_present:
  assumes "encode_step c op sts ts i t = Inr t'" and "st \<in> set sts"
  obtains w where "control_encode (compiler_controls c) (controls (ts ! i)) = Inr w"
    and "map_of t' (encode_key (make_key op (of_nat i) st)) = Some w" and "i \<le> 0xFF"
proof -
  from assms(1) obtain w where w: "control_encode (compiler_controls c) (controls (ts ! i)) = Inr w"
    "fold_ok (\<lambda>status. emplace_entry op i status w) sts t = Inr t'" "i \<le> 0xFF"
    by (auto simp: encode_step_def not_less split: if_splits elim!: bind_ok_eq_InrE)
  from fold_ok_reaches [OF w(2) assms(2), of table_extends] obtain t1 t2 where
    "emplace_entry op i st w t1 = Inr t2" "table_extends t2 t'"
    by (blast intro: table_extends_rules emplace_entry_extends)
  with emplace_entry_present that w(1,3) show ?thesis by (blast dest: table_extendsD)
qed

lemma encode_variant_extends: "encode_variant c op v t = Inr t' \<Longrightarrow> table_extends t t'"
  by (auto simp: encode_variant_def elim!: bind_ok_eq_InrE
    intro: fold_ok_related table_extends_rules encode_step_extends)

lemma encode_variant_present:
  assumes "encode_variant c op v t = Inr t'" and "j < length (steps v)"
    and "expand_partial (compiler_status c) (status_conditions v) = Inr sts" and "st \<in> set sts"
  obtains w where "control_encode (compiler_controls c) (controls (steps v ! j)) = Inr w"
    and "map_of t' (encode_key (make_key op (of_nat j) st)) = Some w" and "j \<le> 0xFF"
proof -
  from assms(1,3) have "fold_ok (encode_step c op sts (steps v)) [0..<length (steps v)] t = Inr t'"
    by (simp add: encode_variant_def)
  from fold_ok_reaches [OF this, of j table_extends] assms(2) obtain t1 t2 where
    "encode_step c op sts (steps v) j t1 = Inr t2" "table_extends t2 t'"
    by (auto intro: table_extends_rules encode_step_extends)
  with encode_step_present [OF this(1) assms(4)] that show ?thesis by (metis table_extendsD)
qed

lemma encode_instruction_extends: "encode_instruction c i t = Inr t' \<Longrightarrow> table_extends t t'"
  by (auto simp: encode_instruction_def
    intro: fold_ok_related table_extends_rules encode_variant_extends)

lemma encode_program_present:
  assumes "encode_program c s = Inr p" and "i \<in> set (instructions s)" and "v \<in> set (variants i)"
    and "j < length (steps v)"
    and "expand_partial (compiler_status c) (status_conditions v) = Inr sts" and "st \<in> set sts"
  obtains w where "control_encode (compiler_controls c) (controls (steps v ! j)) = Inr w"
    and "map_of (table p) (encode_key (make_key (opcode i) (of_nat j) st)) = Some w"
    and "j \<le> 0xFF"
proof -
  from assms(1) have "fold_ok (encode_instruction c) (instructions s) [] = Inr (table p)"
    by (auto simp: encode_program_def elim!: bind_ok_eq_InrE)
  from fold_ok_reaches [OF this assms(2), of table_extends] obtain t1 t2 where
    i: "encode_instruction c i t1 = Inr t2" "table_extends t2 (table p)"
    by (blast intro: table_extends_rules encode_instruction_extends)
  from i(1) have "fold_ok (encode_variant c (opcode i)) (variants i) t1 = Inr t2"
    by (simp add: encode_instruction_def)
  from fold_ok_reaches [OF this assms(3), of table_extends] obtain t3 t4 where
    v: "encode_variant c (opcode i) v t3 = Inr t4" "table_extends t4 t2"
    by (blast intro: table_extends_rules encode_variant_extends)
  from encode_variant_present [OF v(1) assms(4-6)] obtain w where
    "control_encode (compiler_controls c) (controls (steps v ! j)) = Inr w"
    "map_of t4 (encode_key (make_key (opcode i) (of_nat j) st)) = Some w" "j \<le> 0xFF" .
  with v(2) i(2) that show ?thesis by (blast dest: table_extendsD)
qed

text \<open>Conversely, the table has no other entries.\<close>

definition table_sound :: "compiler \<Rightarrow> instruction_set \<Rightarrow> microcode_table \<Rightarrow> bool" where
  "table_sound c s t \<longleftrightarrow>
     (\<forall>k w. map_of t k = Some w \<longrightarrow>
       (\<exists>i\<in>set (instructions s). \<exists>v\<in>set (variants i). \<exists>j<length (steps v). \<exists>sts st.
          expand_partial (compiler_status c) (status_conditions v) = Inr sts \<and> st \<in> set sts \<and>
          k = encode_key (make_key (opcode i) (of_nat j) st) \<and> j \<le> 0xFF \<and>
          control_encode (compiler_controls c) (controls (steps v ! j)) = Inr w))"

lemma emplace_entry_sound:
  assumes "table_sound c s t" and "emplace_entry (opcode i) j st w t = Inr t'"
    and "i \<in> set (instructions s)" and "v \<in> set (variants i)" and "j < length (steps v)" and "j \<le> 0xFF"
    and "expand_partial (compiler_status c) (status_conditions v) = Inr sts" and "st \<in> set sts"
    and "control_encode (compiler_controls c) (controls (steps v ! j)) = Inr w"
  shows "table_sound c s t'"
  using assms
  by (auto simp: emplace_entry_def table_sound_def map_of_table_emplace Let_def
    split: option.splits if_splits) blast+

lemma encode_program_sound:
  assumes "encode_program c s = Inr p"
  shows "table_sound c s (table p)"
proof -
  from assms have fold: "fold_ok (encode_instruction c) (instructions s) [] = Inr (table p)"
    by (auto simp: encode_program_def elim!: bind_ok_eq_InrE)
  show ?thesis
  proof (rule fold_ok_invariant [OF fold, of "table_sound c s"])
    show "table_sound c s []" by (simp add: table_sound_def)
    fix i t t'
    assume i: "i \<in> set (instructions s)" "table_sound c s t" "encode_instruction c i t = Inr t'"
    show "table_sound c s t'"
    proof (rule fold_ok_invariant [OF i(3) [unfolded encode_instruction_def], of "table_sound c s", OF i(2)])
      fix v u u'
      assume v: "v \<in> set (variants i)" "table_sound c s u" "encode_variant c (opcode i) v u = Inr u'"
      from v(3) obtain sts where sts:
        "expand_partial (compiler_status c) (status_conditions v) = Inr sts"
        "fold_ok (encode_step c (opcode i) sts (steps v)) [0..<length (steps v)] u = Inr u'"
        by (auto simp: encode_variant_def elim: bind_ok_eq_InrE)
      show "table_sound c s u'"
      proof (rule fold_ok_invariant [OF sts(2), of "table_sound c s", OF v(2)])
        fix j x x'
        assume j: "j \<in> set [0..<length (steps v)]" "table_sound c s x"
          "encode_step c (opcode i) sts (steps v) j x = Inr x'"
        from j(3) obtain w where w:
          "control_encode (compiler_controls c) (controls (steps v ! j)) = Inr w" "j \<le> 0xFF"
          "fold_ok (\<lambda>status. emplace_entry (opcode i) j status w) sts x = Inr x'"
          by (auto simp: encode_step_def not_less split: if_splits elim!: bind_ok_eq_InrE)
        show "table_sound c s x'"
        proof (rule fold_ok_invariant [OF w(3), of "table_sound c s", OF j(2)])
          fix st y y'
          assume "st \<in> set sts" "table_sound c s y" "emplace_entry (opcode i) j st w y = Inr y'"
          then show "table_sound c s y'"
            using emplace_entry_sound [OF _ _ i(1) v(1) _ w(2) sts(1) _ w(1)] j(1) by auto
        qed
      qed
    qed
  qed
qed

text \<open>No key occurs twice, and the table has the paths and bits of the encoders.\<close>

lemma emplace_entry_distinct:
  "emplace_entry op i st w t = Inr t' \<Longrightarrow> distinct (map fst t) \<Longrightarrow> distinct (map fst t')"
  by (auto simp: emplace_entry_def table_emplace_def Let_def map_of_eq_None_iff
    split: option.splits if_splits)

lemma encode_variant_distinct:
  assumes "encode_variant c op v t = Inr t'" and "distinct (map fst t)"
  shows "distinct (map fst t')"
proof -
  from assms(1) obtain sts where "fold_ok (encode_step c op sts (steps v)) [0..<length (steps v)] t = Inr t'"
    by (auto simp: encode_variant_def elim: bind_ok_eq_InrE)
  then show ?thesis
    by (rule fold_ok_invariant [of _ _ _ _ "\<lambda>t. distinct (map fst t)"])
      (use assms(2) in \<open>auto simp: encode_step_def split: if_splits elim!: bind_ok_eq_InrE
        intro: fold_ok_invariant [of _ _ _ _ "\<lambda>t. distinct (map fst t)"] emplace_entry_distinct\<close>)
qed

lemma encode_program_distinct:
  assumes "encode_program c s = Inr p"
  shows "distinct (map fst (table p))"
proof -
  from assms have "fold_ok (encode_instruction c) (instructions s) [] = Inr (table p)"
    by (auto simp: encode_program_def elim!: bind_ok_eq_InrE)
  then show ?thesis
    by (rule fold_ok_invariant [of _ _ _ _ "\<lambda>t. distinct (map fst t)"])
      (auto simp: encode_instruction_def
        intro: fold_ok_invariant [of _ _ _ _ "\<lambda>t. distinct (map fst t)"] encode_variant_distinct)
qed

lemma encode_program_tables:
  "encode_program c s = Inr p \<Longrightarrow>
   control_paths p = encoder_paths (compiler_controls c) \<and>
   status_bits p = encoder_bits (compiler_status c)"
  by (auto simp: encode_program_def elim!: bind_ok_eq_InrE)

section \<open>What a successful compilation guarantees\<close>

text \<open>
  The instruction set that is encoded: the preamble prefixed, the sequencing controls added,
  adjacent duplicates removed. The other two optimizers do not change it.
\<close>

definition final_steps :: "compiler \<Rightarrow> instruction_set \<Rightarrow> variant \<Rightarrow> step list" where
  "final_steps c s v =
     dedup_steps (sequence_steps (increment_control c) (reset_control c)
       (fetch_preamble s @
        map (\<lambda>t. if fetch_preamble s \<noteq> [] then t\<lparr>stage := stage t + 1\<rparr> else t) (steps v)))"

definition final_instructions :: "compiler \<Rightarrow> instruction_set \<Rightarrow> instruction list" where
  "final_instructions c s =
     map (\<lambda>i. i\<lparr>variants := map (\<lambda>v. v\<lparr>steps := final_steps c s v\<rparr>) (variants i)\<rparr>) (instructions s)"

definition sequencing_ok :: "compiler \<Rightarrow> bool" where
  "sequencing_ok c \<longleftrightarrow>
     ctl_phase (increment_control c) = Phase_Process \<and> ctl_phase (reset_control c) = Phase_Process"

lemma run_all_validators_ok:
  assumes "run_all_validators c s = Inr u"
  shows "is_ok (bus_validator s)" and "is_ok (control_conflict_validator s)"
    and "is_ok (stage_validator s)" and "is_ok (status_validator (compiler_status c) s)"
    and "is_ok (isa_coverage_validator (isa_opcodes c) s)"
    and "sequence_validator (increment_control c) (reset_control c) s = Inr ()"
  using assms by (auto simp: run_all_validators_def elim!: bind_ok_eq_InrE)

lemma instructions_sequenced:
  "instructions (sequence_transformer inc res (fetch_transformer s)) =
     map (\<lambda>i. i\<lparr>variants := map (\<lambda>v. v\<lparr>steps := sequence_steps inc res (fetch_preamble s @
        map (\<lambda>t. if fetch_preamble s \<noteq> [] then t\<lparr>stage := stage t + 1\<rparr> else t) (steps v))\<rparr>)
        (variants i)\<rparr>) (instructions s)"
  by (auto simp: sequence_transformer_def fetch_transformer_def map_variants_def o_def)

lemma instructions_optimize_cong:
  "instructions s = instructions s' \<Longrightarrow>
   instructions (optimize_all f s) = instructions (optimize_all f s')"
  by (simp add: instructions_optimize_all)

text \<open>A compilation that succeeds encodes a validated set with the final instructions.\<close>

lemma compile_final:
  assumes "compile c s = Inr p" and "sequencing_ok c"
  obtains s' u where "instructions s' = final_instructions c s"
    and "run_all_validators c s' = Inr u" and "encode_program c s' = Inr p"
proof -
  let ?inc = "increment_control c" and ?res = "reset_control c"
  let ?s2 = "sequence_transformer ?inc ?res (fetch_transformer s)"
  let ?s3 = "empty_step_optimizer ?s2"
  let ?s4 = "duplicate_step_optimizer ?s3"
  let ?s5 = "step_merging_optimizer ?s4"
  obtain u2 u3 u4 u5 where v: "run_all_validators c ?s2 = Inr u2" "run_all_validators c ?s3 = Inr u3"
    "run_all_validators c ?s4 = Inr u4" "run_all_validators c ?s5 = Inr u5"
    and e: "encode_program c ?s5 = Inr p"
    using assms(1) by (auto simp: compile_def Let_def elim!: bind_ok_eq_InrE)
  have ph: "ctl_phase ?inc = Phase_Process" "ctl_phase ?res = Phase_Process"
    using assms(2) by (simp_all add: sequencing_ok_def)
  have "instructions ?s5 = instructions ?s4"
    by (rule step_merging_optimizer_sequenced [OF run_all_validators_ok(6) [OF v(3)] ph])
  also have "\<dots> = instructions (duplicate_step_optimizer ?s2)"
    unfolding duplicate_step_optimizer_def
    by (rule instructions_optimize_cong,
        rule empty_step_optimizer_sequenced [OF run_all_validators_ok(6) [OF v(1)] ph])
  also have "\<dots> = final_instructions c s"
    by (simp add: duplicate_step_optimizer_def instructions_optimize_all instructions_sequenced
      final_instructions_def final_steps_def o_def)
  finally show ?thesis using that v(4) e by blast
qed

lemma final_instructionsI:
  "i \<in> set (instructions s) \<Longrightarrow> v \<in> set (variants i) \<Longrightarrow>
   \<exists>i'\<in>set (final_instructions c s). opcode i' = opcode i \<and>
     v\<lparr>steps := final_steps c s v\<rparr> \<in> set (variants i')"
  by (force simp: final_instructions_def)

lemma control_encode_known:
  assumes "control_encode hdl_encoder ks = Inr w"
  shows "set ks \<subseteq> set hdl_controls"
proof
  fix k assume "k \<in> set ks"
  from fold_ok_reaches [OF assms [unfolded control_encode_def] this, of "\<lambda>_ _. True"] obtain i
    where "map_of (control_index hdl_encoder) k = Some i"
    by (auto split: option.splits)
  then show "k \<in> set hdl_controls" by (auto simp: hdl_index_eq)
qed

text \<open>
  The main property of the compiler of the processor: at every step of every variant, and at
  every status the variant covers, the table holds the word of the step's controls; these
  are controls of the schematic, use the buses as the buses allow, and sequence the step
  counter.
\<close>

lemma compile_table:
  assumes "compile (cpu_compiler isa) s = Inr p"
    and "i \<in> set (instructions s)" and "v \<in> set (variants i)"
    and "variant_matches cpu_status_encoder v st"
    and "j < length (final_steps (cpu_compiler isa) s v)"
  obtains w ks where "ks = controls (final_steps (cpu_compiler isa) s v ! j)"
    and "map_of (table p) (encode_key (make_key (opcode i) (of_nat j) st)) = Some w"
    and "control_encode hdl_encoder ks = Inr w" and "j \<le> 0xFF"
    and "set ks \<subseteq> set hdl_controls" and "bus_disciplined ks"
    and "(if Suc j = length (final_steps (cpu_compiler isa) s v)
          then Ctl Sc Reset else Ctl Sc Increment) \<in> set ks"
proof -
  let ?c = "cpu_compiler isa"
  have "sequencing_ok ?c" by (simp add: sequencing_ok_def cpu_compiler_def)
  with assms(1) obtain s' u where s': "instructions s' = final_instructions ?c s"
    "run_all_validators ?c s' = Inr u" "encode_program ?c s' = Inr p"
    by (rule compile_final)
  from final_instructionsI [OF assms(2,3), of ?c] s'(1) obtain i' where
    i': "i' \<in> set (instructions s')" "opcode i' = opcode i"
      "v\<lparr>steps := final_steps ?c s v\<rparr> \<in> set (variants i')" (is "?v \<in> _") by auto
  have inc: "increment_control ?c = Ctl Sc Increment" "reset_control ?c = Ctl Sc Reset"
    by (simp_all add: cpu_compiler_def)
  have status: "compiler_status ?c = cpu_status_encoder" by (simp add: cpu_compiler_def)
  obtain sts where sts: "expand_partial cpu_status_encoder (status_conditions v) = Inr sts"
  proof -
    from s'(3) have "fold_ok (encode_instruction ?c) (instructions s') [] = Inr (table p)"
      by (auto simp: encode_program_def elim!: bind_ok_eq_InrE)
    from fold_ok_reaches [OF this i'(1), of "\<lambda>_ _. True"] obtain t1 t2
      where "encode_instruction ?c i' t1 = Inr t2" by blast
    then have "fold_ok (encode_variant ?c (opcode i')) (variants i') t1 = Inr t2"
      by (simp add: encode_instruction_def)
    from fold_ok_reaches [OF this i'(3), of "\<lambda>_ _. True"] obtain t3 t4
      where "encode_variant ?c (opcode i') ?v t3 = Inr t4" by blast
    then show ?thesis using that by (auto simp: encode_variant_def status elim: bind_ok_eq_InrE)
  qed
  have "status_bits_wf (encoder_bits cpu_status_encoder)"
    by (simp add: cpu_status_encoder_def build_status_bits_wf)
  from expand_partial_exact(1) [OF this sts] assms(4) have st: "st \<in> set sts"
    by (simp add: variant_matches_def)
  obtain w where w: "control_encode hdl_encoder (controls (final_steps ?c s v ! j)) = Inr w"
    "map_of (table p) (encode_key (make_key (opcode i) (of_nat j) st)) = Some w" "j \<le> 0xFF"
    using encode_program_present [OF s'(3) i'(1,3) _ _ st, of j] assms(5) sts
    by (auto simp: i'(2) status cpu_compiler_def)
  have known: "set (controls (final_steps ?c s v ! j)) \<subseteq> set hdl_controls"
    by (rule control_encode_known [OF w(1)])
  have mem: "?v \<in> set (all_variants s')" using i' by (auto simp: all_variants_def)
  have disc: "bus_disciplined (controls (final_steps ?c s v ! j))"
    using bus_validator_steps [OF run_all_validators_ok(1) [OF s'(2)] mem _ known] assms(5) by simp
  have seq: "(if Suc j = length (final_steps ?c s v) then Ctl Sc Reset else Ctl Sc Increment)
      \<in> set (controls (final_steps ?c s v ! j))"
    using sequence_validator_steps [OF run_all_validators_ok(6) [OF s'(2)] mem, of j] assms(5)
    unfolding inc by simp
  show ?thesis by (rule that [OF refl w(2,1,3) known disc seq])
qed

lemma compile_encoded:
  assumes "compile c s = Inr p"
  obtains s' where "encode_program c s' = Inr p"
  using assms by (auto simp: compile_def Let_def elim!: bind_ok_eq_InrE)

section \<open>Validated instruction sets encode\<close>

lemma isa_seen_distinct:
  "isa_seen isa is seen = Inr r \<Longrightarrow> distinct (map opcode is) \<and> opcode ` set is \<inter> set seen = {}"
  by (induction isa "is" seen rule: isa_seen.induct) (auto split: if_splits)

definition encodable :: "compiler \<Rightarrow> instruction_set \<Rightarrow> bool" where
  "encodable c s \<longleftrightarrow>
     compiler_controls c = hdl_encoder \<and> compiler_status c = cpu_status_encoder \<and>
     distinct (map opcode (instructions s)) \<and>
     (\<forall>i\<in>set (instructions s). is_ok (validate_status cpu_status_encoder i)) \<and>
     (\<forall>v\<in>set (all_variants s). length (steps v) \<le> 256 \<and>
        (\<forall>t\<in>set (steps v). set (controls t) \<subseteq> set hdl_controls))"

lemma variant_determined:
  assumes "is_ok (validate_status cpu_status_encoder i)" and "v \<in> set (variants i)" and "v' \<in> set (variants i)"
    and "variant_matches cpu_status_encoder v st" and "variant_matches cpu_status_encoder v' st"
  shows "v = v'"
proof -
  from assms(2) have "variants i \<noteq> []" by auto
  from validate_status_unique [OF assms(1) this, of st] assms(2-5) show ?thesis
    by (metis in_set_conv_nth)
qed

lemma validated_expands:
  assumes "is_ok (validate_status cpu_status_encoder i)" and "v \<in> set (variants i)"
  shows "\<exists>sts. expand_partial cpu_status_encoder (status_conditions v) = Inr sts"
proof (cases "length (variants i) = 1 \<and> status_conditions (variants i ! 0) = []")
  case True
  with assms(2) have "status_conditions v = []" by (cases "variants i") auto
  then have "is_ok (expand_partial cpu_status_encoder (status_conditions v))"
    by (subst expand_partial_ok) (simp_all add: cpu_status_encoder_def build_status_bits_def all_flags_def)
  then show ?thesis by blast
next
  case False
  with assms obtain c where
    c: "fold_ok (cover_variant cpu_status_encoder (opcode i)) (variants i) [] = Inr c"
    by (auto simp: validate_status_def bind_ok_def is_ok_def split: sum.splits if_splits)
  from fold_ok_reaches [OF c assms(2), of "\<lambda>_ _. True"] show ?thesis
    by (auto simp: cover_variant_def split: if_splits elim!: bind_ok_eq_InrE)
qed

lemma expand_matches:
  assumes "expand_partial cpu_status_encoder (status_conditions v) = Inr sts"
  shows "st \<in> set sts \<longleftrightarrow> variant_matches cpu_status_encoder v st"
  using expand_partial_exact(1) [OF _ assms] build_status_bits_wf
  by (simp add: cpu_status_encoder_def variant_matches_def)

lemma of_nat_u8_inject:
  assumes "j < 256" and "j' < 256" and "(of_nat j :: u8) = of_nat j'"
  shows "j = j'"
  using arg_cong [OF assms(3), of unat] assms(1,2) by (simp add: unsigned_of_nat take_bit_eq_mod)

text \<open>The key of an entry determines the step it encodes.\<close>

lemma entry_determined:
  assumes e: "encodable c s" and t: "table_sound c s t"
    and i: "i \<in> set (instructions s)" "v \<in> set (variants i)" "j < length (steps v)"
    and st: "variant_matches cpu_status_encoder v st"
    and k: "map_of t (encode_key (make_key (opcode i) (of_nat j) st)) = Some w"
  shows "control_encode hdl_encoder (controls (steps v ! j)) = Inr w"
proof -
  note ed = e [unfolded encodable_def]
  from t k obtain i' v' j' sts st' where
    i': "i' \<in> set (instructions s)" "v' \<in> set (variants i')" "j' < length (steps v')" "j' \<le> 0xFF" and
    x: "expand_partial cpu_status_encoder (status_conditions v') = Inr sts" "st' \<in> set sts" and
    key: "make_key (opcode i) (of_nat j) st = make_key (opcode i') (of_nat j') st'" and
    w: "control_encode hdl_encoder (controls (steps v' ! j')) = Inr w"
    using ed unfolding table_sound_def by (metis decode_encode_key)
  have same: "opcode i = opcode i'" "(of_nat j :: u8) = of_nat j'" "st = st'"
    using key by (simp_all add: make_key_def)
  have "i = i'" using ed i(1) i'(1) same(1) by (metis distinct_map inj_onD)
  moreover from this have "v = v'"
    using variant_determined [of i v v' st] ed i i' expand_matches [OF x(1)] x(2) st same(3) by auto
  moreover have "j < 256"
    using ed i by (auto simp: all_variants_def dest!: bspec)
  then have "j = j'" using of_nat_u8_inject [of j j'] same(2) i'(4) by simp
  ultimately show ?thesis using w by simp
qed

lemma emplace_entry_accepts:
  assumes e: "encodable c s" and t: "table_sound c s t"
    and i: "i \<in> set (instructions s)" "v \<in> set (variants i)" "j < length (steps v)"
    and sts: "expand_partial (compiler_status c) (status_conditions v) = Inr sts" "st \<in> set sts"
    and w: "control_encode (compiler_controls c) (controls (steps v ! j)) = Inr w"
  shows "\<exists>t'. emplace_entry (opcode i) j st w t = Inr t' \<and> table_sound c s t'"
proof -
  have ce: "compiler_controls c = hdl_encoder" "compiler_status c = cpu_status_encoder"
    using e by (simp_all add: encodable_def)
  have "variant_matches cpu_status_encoder v st" using expand_matches sts unfolding ce by blast
  then have "w' = w" if "map_of t (encode_key (make_key (opcode i) (of_nat j) st)) = Some w'" for w'
    using entry_determined [OF e t i _ that] w by (simp add: ce)
  then have "is_ok (emplace_entry (opcode i) j st w t)"
    by (simp add: emplace_entry_def Let_def split: option.split)
  then obtain t' where t': "emplace_entry (opcode i) j st w t = Inr t'" by blast
  have "j \<le> 0xFF" using e i by (force simp: encodable_def all_variants_def)
  with emplace_entry_sound [OF t t' i _ sts w] t' show ?thesis by blast
qed

lemma encode_variant_accepts:
  assumes e: "encodable c s" and t: "table_sound c s t"
    and i: "i \<in> set (instructions s)" "v \<in> set (variants i)"
  shows "\<exists>t'. encode_variant c (opcode i) v t = Inr t' \<and> table_sound c s t'"
proof -
  have ce: "compiler_controls c = hdl_encoder" "compiler_status c = cpu_status_encoder"
    and vi: "is_ok (validate_status cpu_status_encoder i)"
    and sv: "length (steps v) \<le> 256" "\<And>u. u \<in> set (steps v) \<Longrightarrow> set (controls u) \<subseteq> set hdl_controls"
    using e i by (auto simp: encodable_def all_variants_def)
  obtain sts where sts: "expand_partial (compiler_status c) (status_conditions v) = Inr sts"
    using validated_expands [OF vi i(2)] by (auto simp: ce)
  have "\<exists>t'. encode_step c (opcode i) sts (steps v) j u = Inr t' \<and> table_sound c s t'"
    if j: "j \<in> set [0..<length (steps v)]" and u: "table_sound c s u" for j u
  proof -
    have j': "j < length (steps v)" "j \<le> 0xFF" using j sv(1) by auto
    obtain w where w: "control_encode (compiler_controls c) (controls (steps v ! j)) = Inr w"
      using control_encode_bits [OF sv(2) [OF nth_mem [OF j'(1)]]] by (auto simp: ce)
    show ?thesis
      unfolding encode_step_def w bind_ok_Inr
      using fold_ok_total [of sts "table_sound c s" "\<lambda>status. emplace_entry (opcode i) j status w" u]
        emplace_entry_accepts [OF e _ i j'(1) sts _ w] u j'(2) by auto
  qed
  from fold_ok_total [of "[0..<length (steps v)]" "table_sound c s", OF this t]
  show ?thesis by (simp add: encode_variant_def sts)
qed

lemma encode_program_accepts:
  assumes e: "encodable c s"
  shows "\<exists>p. encode_program c s = Inr p"
proof -
  have "\<exists>t'. encode_instruction c i t = Inr t' \<and> table_sound c s t'"
    if "i \<in> set (instructions s)" "table_sound c s t" for i t
    unfolding encode_instruction_def
    by (rule fold_ok_total) (use encode_variant_accepts [OF e] that in auto)
  then have "\<exists>t. fold_ok (encode_instruction c) (instructions s) [] = Inr t \<and> table_sound c s t"
    by (intro fold_ok_total) (auto simp: table_sound_def)
  then show ?thesis by (auto simp: encode_program_def)
qed

text \<open>
  What the validators accept is encoded: the conflict of two entries cannot arise, an index
  out of range is the only error left.
\<close>

lemma validated_encodes:
  assumes "run_all_validators (cpu_compiler isa) s = Inr u"
    and "\<And>v. v \<in> set (all_variants s) \<Longrightarrow> length (steps v) \<le> 256"
    and "\<And>v t. v \<in> set (all_variants s) \<Longrightarrow> t \<in> set (steps v) \<Longrightarrow> set (controls t) \<subseteq> set hdl_controls"
  shows "\<exists>p. encode_program (cpu_compiler isa) s = Inr p"
proof (rule encode_program_accepts)
  from assms(1) obtain seen where
    st: "fold_ok (\<lambda>i u. validate_status cpu_status_encoder i) (instructions s) () = Inr ()"
    and seen: "isa_seen isa (instructions s) [] = Inr seen"
    by (auto simp: run_all_validators_def cpu_compiler_def status_validator_def
      isa_coverage_validator_def elim!: bind_ok_eq_InrE)
  have "\<forall>i\<in>set (instructions s). is_ok (validate_status cpu_status_encoder i)"
    using st by (simp add: fold_ok_unit_iff)
  then show "encodable (cpu_compiler isa) s"
    using assms(2,3) isa_seen_distinct [OF seen] by (simp add: encodable_def cpu_compiler_def)
qed

end
