(* ===== verification/Sim_Input_Device.thy ===== *)
theory Sim_Input_Device
  imports Sim_Signals
begin

text \<open>
  The keyboard device (\<open>sim/io/input_device.h\<close>, \<open>input_device.cpp\<close>): a ring buffer of 16
  bytes behind memory-mapped registers. The queue is specified by the locale \<open>byte_fifo\<close>
  and the ring buffer is an instance of it.
\<close>

section \<open>Bounded queues of bytes\<close>

text \<open>
  The contract of a bounded queue that drops what does not fit: \<open>content\<close> is the abstract
  queue, oldest byte first.
\<close>

locale byte_fifo =
  fixes content :: "'d \<Rightarrow> u8 list"
    and good :: "'d \<Rightarrow> bool"
    and capacity :: nat
    and enq :: "u8 \<Rightarrow> 'd \<Rightarrow> 'd"
    and deq :: "'d \<Rightarrow> u8 \<times> 'd"
  assumes good_enq: "good d \<Longrightarrow> good (enq k d)"
    and good_deq: "good d \<Longrightarrow> good (snd (deq d))"
    and content_enq: "good d \<Longrightarrow>
      content (enq k d) = (if length (content d) < capacity then content d @ [k] else content d)"
    and deq_empty: "good d \<Longrightarrow> content d = [] \<Longrightarrow> deq d = (0, d)"
    and deq_head: "good d \<Longrightarrow> content d = k # ks \<Longrightarrow> fst (deq d) = k \<and> content (snd (deq d)) = ks"
begin

fun drain :: "nat \<Rightarrow> 'd \<Rightarrow> u8 list \<times> 'd" where
  "drain 0 d = ([], d)"
| "drain (Suc n) d = (let (k, d') = deq d; (ks, d'') = drain n d' in (k # ks, d''))"

lemma good_fold_enq: "good d \<Longrightarrow> good (fold enq ks d)"
  by (induction ks arbitrary: d) (simp_all add: good_enq)

lemma content_fold_enq:
  "good d \<Longrightarrow> length (content d) \<le> capacity \<Longrightarrow>
   content (fold enq ks d) = take capacity (content d @ ks)"
proof (induction ks arbitrary: d)
  case Nil
  then show ?case by simp
next
  case (Cons k ks)
  show ?case
  proof (cases "length (content d) < capacity")
    case True
    with Cons.IH [OF good_enq [OF Cons.prems(1)]] show ?thesis
      by (simp add: content_enq [OF Cons.prems(1)])
  next
    case False
    with Cons.IH [OF good_enq [OF Cons.prems(1)]] Cons.prems(2) show ?thesis
      by (simp add: content_enq [OF Cons.prems(1)])
  qed
qed

lemma drain_content:
  "good d \<Longrightarrow> n \<le> length (content d) \<Longrightarrow>
   fst (drain n d) = take n (content d) \<and> content (snd (drain n d)) = drop n (content d)"
proof (induction n arbitrary: d)
  case 0
  then show ?case by simp
next
  case (Suc n)
  from Suc.prems(2) obtain k ks where c: "content d = k # ks"
    by (cases "content d") auto
  obtain k' d' where d': "deq d = (k', d')" by fastforce
  with deq_head [OF Suc.prems(1) c] have "k' = k" "content d' = ks" by simp_all
  with Suc.IH [of d'] good_deq [OF Suc.prems(1)] Suc.prems(2) c d' show ?case
    by (auto simp: Let_def split: prod.splits)
qed

lemma fifo_order:
  assumes "good d" and "content d = []" and "length ks \<le> capacity"
  shows "fst (drain (length ks) (fold enq ks d)) = ks"
  using drain_content [OF good_fold_enq [OF assms(1)], of "length ks" ks]
    content_fold_enq [OF assms(1), of ks] assms(2,3) by simp

end

section \<open>The device\<close>

record input_device =
  queue :: "u8 list"
  read_idx :: nat
  write_idx :: nat
  count :: nat
  irq_enabled :: bool
  key_state :: u8

definition queue_size :: nat where "queue_size = 16"
definition input_mmio_size :: nat where "input_mmio_size = 16"

definition input_device_init :: input_device where
  "input_device_init =
     \<lparr>queue = replicate queue_size 0, read_idx = 0, write_idx = 0, count = 0,
      irq_enabled = False, key_state = 0\<rparr>"

definition input_empty :: "input_device \<Rightarrow> bool" where
  "input_empty d = (count d = 0)"

definition input_full :: "input_device \<Rightarrow> bool" where
  "input_full d = (count d = queue_size)"

definition irq_pending :: "input_device \<Rightarrow> bool" where
  "irq_pending d = (irq_enabled d \<and> \<not> input_empty d)"

definition inject_key :: "u8 \<Rightarrow> input_device \<Rightarrow> input_device" where
  "inject_key key_code d =
     (if input_full d then d
      else d\<lparr>queue := (queue d)[write_idx d := key_code],
             write_idx := (write_idx d + 1) mod queue_size,
             count := count d + 1\<rparr>)"

definition input_pop :: "input_device \<Rightarrow> u8 \<times> input_device" where
  "input_pop d =
     (if input_empty d then (0x00, d)
      else (queue d ! read_idx d,
            d\<lparr>read_idx := (read_idx d + 1) mod queue_size, count := count d - 1\<rparr>))"

definition input_peek :: "input_device \<Rightarrow> u8" where
  "input_peek d = (if input_empty d then 0x00 else queue d ! read_idx d)"

definition set_key_down :: "u8 \<Rightarrow> input_device \<Rightarrow> input_device" where
  "set_key_down b d = d\<lparr>key_state := key_state d OR b\<rparr>"

definition set_key_up :: "u8 \<Rightarrow> input_device \<Rightarrow> input_device" where
  "set_key_up b d = d\<lparr>key_state := key_state d AND NOT b\<rparr>"

definition input_status :: "input_device \<Rightarrow> u8" where
  "input_status d =
     (((0 OR (if \<not> input_empty d then 0x01 else 0)) OR (if input_full d then 0x02 else 0))
       OR (if irq_pending d then 0x80 else 0))"

text \<open>A read of \<open>DATA\<close> pops, although \<open>Read\<close> is \<open>const\<close>: the state is returned too.\<close>

definition input_read :: "u16 \<Rightarrow> input_device \<Rightarrow> u8 \<times> input_device" where
  "input_read offset d =
     (if offset = 0x00 then (input_status d, d)
      else if offset = 0x02 then input_pop d
      else if offset = 0x03 then (input_peek d, d)
      else if offset = 0x04 then (of_nat (count d), d)
      else if offset = 0x05 then (key_state d, d)
      else (0, d))"

definition input_write :: "u16 \<Rightarrow> u8 \<Rightarrow> input_device \<Rightarrow> input_device" where
  "input_write offset v d =
     (if offset = 0x01 then d\<lparr>irq_enabled := (v AND 0x01 \<noteq> 0)\<rparr> else d)"

text \<open>\<open>InputDevice::TickControl\<close> sets the line it was constructed with, set or not.\<close>

definition input_tick_control :: "tick_phase \<Rightarrow> input_device \<Rightarrow> controls \<Rightarrow> sim_error + controls" where
  "input_tick_control cur d cs =
     control_set cur (Ctl Cpu_root Irq_line) (irq_enabled d \<and> \<not> input_empty d) cs"

section \<open>The ring buffer is a bounded queue\<close>

definition input_wf :: "input_device \<Rightarrow> bool" where
  "input_wf d \<longleftrightarrow>
     length (queue d) = queue_size \<and> read_idx d < queue_size \<and> write_idx d < queue_size \<and>
     count d \<le> queue_size \<and> write_idx d = (read_idx d + count d) mod queue_size"

definition input_content :: "input_device \<Rightarrow> u8 list" where
  "input_content d = map (\<lambda>i. queue d ! ((read_idx d + i) mod queue_size)) [0..<count d]"

lemma input_init_wf: "input_wf input_device_init"
  by (simp add: input_wf_def input_device_init_def queue_size_def)

lemma input_init_content: "input_content input_device_init = []"
  by (simp add: input_content_def input_device_init_def)

lemma length_input_content [simp]: "length (input_content d) = count d"
  by (simp add: input_content_def)

lemma input_empty_content: "input_empty d \<longleftrightarrow> input_content d = []"
  by (simp add: input_empty_def input_content_def)

lemma inject_key_wf: "input_wf d \<Longrightarrow> input_wf (inject_key k d)"
  by (auto simp: input_wf_def inject_key_def input_full_def queue_size_def mod_Suc_eq)

lemma input_pop_wf: "input_wf d \<Longrightarrow> input_wf (snd (input_pop d))"
proof -
  assume wf: "input_wf d"
  show "input_wf (snd (input_pop d))"
  proof (cases "count d")
    case 0
    with wf show ?thesis by (simp add: input_pop_def input_empty_def)
  next
    case (Suc n)
    with wf show ?thesis
      by (auto simp: input_wf_def input_pop_def input_empty_def queue_size_def mod_add_left_eq)
  qed
qed

lemma add_mod_cancel_less:
  assumes "(r + i) mod n = (r + j) mod n" and "i < j" and "j < (n :: nat)"
  shows False
proof -
  have "n dvd (r + j) - (r + i)"
    using assms mod_eq_dvd_iff_nat [of "r + i" "r + j" n] by simp
  then have "n dvd j - i" by simp
  with assms(2,3) show False by (auto dest!: dvd_imp_le)
qed

lemma inject_key_content:
  assumes "input_wf d"
  shows "input_content (inject_key k d) =
    (if length (input_content d) < queue_size then input_content d @ [k] else input_content d)"
proof (cases "input_full d")
  case True
  with assms show ?thesis by (simp add: inject_key_def input_full_def)
next
  case False
  with assms have lt: "count d < queue_size" by (simp add: input_wf_def input_full_def)
  have "(read_idx d + i) mod queue_size \<noteq> write_idx d" if "i < count d" for i
  proof
    assume "(read_idx d + i) mod queue_size = write_idx d"
    with assms have "(read_idx d + i) mod queue_size = (read_idx d + count d) mod queue_size"
      by (simp add: input_wf_def)
    with that lt show False using add_mod_cancel_less [of "read_idx d" i queue_size "count d"] by simp
  qed
  note other = this
  let ?q = "(queue d)[write_idx d := k]"
  have "write_idx d < length (queue d)" using assms by (simp add: input_wf_def)
  then have last: "?q ! ((read_idx d + count d) mod queue_size) = k"
    using assms by (simp add: input_wf_def)
  have rest: "?q ! ((read_idx d + i) mod queue_size) = queue d ! ((read_idx d + i) mod queue_size)"
    if "i < count d" for i
    using other [OF that] by simp
  have "input_content (inject_key k d) =
      map (\<lambda>i. ?q ! ((read_idx d + i) mod queue_size)) ([0..<count d] @ [count d])"
    using False by (simp add: input_content_def inject_key_def)
  also have "\<dots> = input_content d @ [k]"
    using last rest by (simp add: input_content_def)
  finally show ?thesis using lt by simp
qed

lemma input_pop_content:
  assumes "input_wf d" and "input_content d = k # ks"
  shows "fst (input_pop d) = k \<and> input_content (snd (input_pop d)) = ks"
proof -
  have c: "count d = Suc (length ks)"
    using assms(2) length_input_content [of d] by simp
  have ups: "[0..<count d] = 0 # map Suc [0..<length ks]"
    unfolding c by (simp add: upt_conv_Cons map_Suc_upt del: upt_Suc)
  from assms(2) have "k = queue d ! (read_idx d mod queue_size)"
    and "ks = map (\<lambda>i. queue d ! ((read_idx d + Suc i) mod queue_size)) [0..<length ks]"
    by (auto simp: input_content_def ups o_def)
  moreover have "read_idx d mod queue_size = read_idx d"
    using assms(1) by (simp add: input_wf_def)
  ultimately show ?thesis
    using c by (simp add: input_pop_def input_empty_def input_content_def mod_add_left_eq)
qed

lemma input_pop_empty: "input_content d = [] \<Longrightarrow> input_pop d = (0, d)"
  by (simp add: input_pop_def input_empty_content)

interpretation keyboard: byte_fifo input_content input_wf queue_size inject_key input_pop
  by unfold_locales
    (simp_all only: inject_key_wf input_pop_wf inject_key_content input_pop_content input_pop_empty
      simp_thms)

section \<open>Registers and the interrupt line\<close>

lemma input_read_wf: "input_wf d \<Longrightarrow> input_wf (snd (input_read a d))"
  by (simp add: input_read_def input_pop_wf)

lemma input_write_wf: "input_wf d \<Longrightarrow> input_wf (input_write a v d)"
  by (simp add: input_write_def input_wf_def)

lemma set_key_wf:
  "input_wf d \<Longrightarrow> input_wf (set_key_down b d)"
  "input_wf d \<Longrightarrow> input_wf (set_key_up b d)"
  by (simp_all add: set_key_down_def set_key_up_def input_wf_def)

lemma input_write_content [simp]: "input_content (input_write a v d) = input_content d"
  by (simp add: input_write_def input_content_def)

lemma input_status_bits:
  "bit (input_status d) 0 \<longleftrightarrow> input_content d \<noteq> []"
  "bit (input_status d) 1 \<longleftrightarrow> length (input_content d) = queue_size"
  "bit (input_status d) 7 \<longleftrightarrow> irq_pending d"
  by (auto simp: input_status_def input_empty_content [symmetric] input_full_def)

lemma input_read_data:
  "input_wf d \<Longrightarrow> input_content d = k # ks \<Longrightarrow>
   fst (input_read 2 d) = k \<and> input_content (snd (input_read 2 d)) = ks"
  by (simp add: input_read_def input_pop_content)

lemma input_read_peek:
  "input_wf d \<Longrightarrow> input_read 3 d = (case input_content d of [] \<Rightarrow> 0 | k # _ \<Rightarrow> k, d)"
  using input_pop_content [of d]
  by (auto simp: input_read_def input_peek_def input_pop_def input_empty_content
    split: list.splits)

lemma input_read_count: "input_wf d \<Longrightarrow> unat (fst (input_read 4 d)) = length (input_content d)"
  by (simp add: input_read_def unat_of_nat input_wf_def queue_size_def)

lemma input_line_follows_queue:
  "input_tick_control Phase_Control d cs =
     Inr (cs(Ctl Cpu_root Irq_line := irq_enabled d \<and> input_content d \<noteq> []))"
  by (simp add: input_tick_control_def input_empty_content)

end
