(* ===== verification/Sim_Vgc.thy ===== *)
theory Sim_Vgc
  imports Prelude
begin

text \<open>
  The vector graphics coprocessor (\<open>sim/src/io/vector_graphics_coprocessor.cpp\<close>) and the
  frame buffer backend (\<open>vgc_backend.cpp\<close>). The virtual calls the coprocessor makes on its
  backend are recorded in order; \<open>ImageBackend\<close> interprets them. Its line drawing is a
  \<open>while (true)\<close>: it is shown to end, and to plot the two end points and only points
  within half a step of the ideal line.
\<close>

section \<open>Framebuffer\<close>

type_synonym framebuffer = "u8 list"

definition image_width :: nat where "image_width = 256"
definition image_height :: nat where "image_height = 256"

definition image_init :: framebuffer where
  "image_init = replicate (image_width * image_height) 0"

definition image_clear :: "u8 \<Rightarrow> framebuffer \<Rightarrow> framebuffer" where
  "image_clear intensity fb = replicate (length fb) intensity"

definition draw_point :: "u8 \<Rightarrow> u8 \<Rightarrow> u8 \<Rightarrow> framebuffer \<Rightarrow> framebuffer" where
  "draw_point x y intensity fb =
     (let px = unat x; py = unat y in
      if image_width \<le> px \<or> image_height \<le> py then fb
      else fb[py * image_width + px := intensity])"

text \<open>
  The loop of \<open>draw_line\<close>. C++ \<open>int\<close> is \<open>int\<close>: \<open>line_error_bound\<close> shows that no
  value of the loop leaves the range of an \<open>int\<close>.
\<close>

record line_state =
  line_x :: int
  line_y :: int
  line_error :: int

definition line_step :: "int \<Rightarrow> int \<Rightarrow> int \<Rightarrow> int \<Rightarrow> line_state \<Rightarrow> line_state" where
  "line_step dx dy step_x step_y s =
     (let error2 = 2 * line_error s;
          s1 = (if error2 \<ge> dy
                then s\<lparr>line_error := line_error s + dy, line_x := line_x s + step_x\<rparr> else s);
          s2 = (if error2 \<le> dx
                then s1\<lparr>line_error := line_error s1 + dx, line_y := line_y s1 + step_y\<rparr> else s1)
      in s2)"

partial_function (option) line_loop ::
  "int \<Rightarrow> int \<Rightarrow> int \<Rightarrow> int \<Rightarrow> int \<Rightarrow> int \<Rightarrow> u8 \<Rightarrow> line_state \<Rightarrow> framebuffer \<Rightarrow> framebuffer option"
where
  [code]: "line_loop target_x target_y dx dy step_x step_y intensity s fb =
     (let fb' = draw_point (of_int (line_x s)) (of_int (line_y s)) intensity fb in
      if line_x s = target_x \<and> line_y s = target_y then Some fb'
      else line_loop target_x target_y dx dy step_x step_y intensity
             (line_step dx dy step_x step_y s) fb')"

definition draw_line :: "u8 \<Rightarrow> u8 \<Rightarrow> u8 \<Rightarrow> u8 \<Rightarrow> u8 \<Rightarrow> framebuffer \<Rightarrow> framebuffer option" where
  "draw_line x0 y0 x1 y1 intensity fb =
     (let x = uint x0; y = uint y0;
          target_x = uint x1; target_y = uint y1;
          dx = \<bar>target_x - x\<bar>; dy = - \<bar>target_y - y\<bar>;
          step_x = (if x < target_x then 1 else -1);
          step_y = (if y < target_y then 1 else -1)
      in line_loop target_x target_y dx dy step_x step_y intensity
           \<lparr>line_x = x, line_y = y, line_error = dx + dy\<rparr> fb)"

section \<open>The coprocessor\<close>

datatype backend_call =
    Call_clear u8
  | Call_point u8 u8 u8
  | Call_line u8 u8 u8 u8 u8
  | Call_present

record vgc =
  vgc_cmd :: u8
  vgc_x0 :: u8
  vgc_y0 :: u8
  vgc_x1 :: u8
  vgc_y1 :: u8
  vgc_color :: u8
  vgc_irq_enabled :: bool
  backend_calls :: "backend_call list"

definition vgc_mmio_size :: nat where "vgc_mmio_size = 16"

definition vgc_init :: vgc where
  "vgc_init =
     \<lparr>vgc_cmd = 0, vgc_x0 = 0, vgc_y0 = 0, vgc_x1 = 0, vgc_y1 = 0, vgc_color = 0,
      vgc_irq_enabled = False, backend_calls = []\<rparr>"

definition backend_call :: "backend_call \<Rightarrow> vgc \<Rightarrow> vgc" where
  "backend_call c v = v\<lparr>backend_calls := backend_calls v @ [c]\<rparr>"

definition vgc_intensity :: "vgc \<Rightarrow> u8" where
  "vgc_intensity v = vgc_color v AND 0x03"

definition execute_command :: "vgc \<Rightarrow> vgc" where
  "execute_command v =
     (if vgc_cmd v = 0x01 then backend_call (Call_clear (vgc_intensity v)) v
      else if vgc_cmd v = 0x02 then
        backend_call (Call_point (vgc_x0 v) (vgc_y0 v) (vgc_intensity v)) v
      else if vgc_cmd v = 0x03 then
        backend_call (Call_line (vgc_x0 v) (vgc_y0 v) (vgc_x1 v) (vgc_y1 v) (vgc_intensity v)) v
      else v)"

definition apply_control :: "u8 \<Rightarrow> vgc \<Rightarrow> vgc" where
  "apply_control ctrl v =
     (let v1 = v\<lparr>vgc_irq_enabled := (ctrl AND 0x80 \<noteq> 0)\<rparr>;
          v2 = (if ctrl AND 0x01 \<noteq> 0 then backend_call (Call_clear (vgc_intensity v1)) v1 else v1)
      in if ctrl AND 0x02 \<noteq> 0 then backend_call Call_present v2 else v2)"

definition vgc_read :: "u16 \<Rightarrow> vgc \<Rightarrow> u8" where
  "vgc_read offset v = 0"

definition vgc_write :: "u16 \<Rightarrow> u8 \<Rightarrow> vgc \<Rightarrow> vgc" where
  "vgc_write offset raw v =
     (if offset = 0x00 then v\<lparr>vgc_cmd := raw\<rparr>
      else if offset = 0x01 then v\<lparr>vgc_x0 := raw\<rparr>
      else if offset = 0x02 then v\<lparr>vgc_y0 := raw\<rparr>
      else if offset = 0x03 then v\<lparr>vgc_x1 := raw\<rparr>
      else if offset = 0x04 then v\<lparr>vgc_y1 := raw\<rparr>
      else if offset = 0x05 then v\<lparr>vgc_color := raw\<rparr>
      else if offset = 0x06 then (if raw = 0x01 then execute_command v else v)
      else if offset = 0x07 then apply_control raw v
      else v)"

text \<open>\<open>ImageBackend\<close> as the interpreter of the recorded calls; \<open>present\<close> does nothing.\<close>

fun image_call :: "backend_call \<Rightarrow> framebuffer \<Rightarrow> framebuffer option" where
  "image_call (Call_clear i) fb = Some (image_clear i fb)"
| "image_call (Call_point x y i) fb = Some (draw_point x y i fb)"
| "image_call (Call_line x0 y0 x1 y1 i) fb = draw_line x0 y0 x1 y1 i fb"
| "image_call Call_present fb = Some fb"

fun image_calls :: "backend_call list \<Rightarrow> framebuffer \<Rightarrow> framebuffer option" where
  "image_calls [] fb = Some fb"
| "image_calls (c # cs) fb = Option.bind (image_call c fb) (image_calls cs)"

section \<open>Line drawing ends\<close>

text \<open>
  In steps: \<open>a\<close> and \<open>b\<close> count the steps taken in x and in y, and the loop's \<open>error\<close> is
  determined by them.
\<close>

definition line_at :: "int \<Rightarrow> int \<Rightarrow> int \<Rightarrow> int \<Rightarrow> int \<Rightarrow> int \<Rightarrow> int \<Rightarrow> int \<Rightarrow> line_state" where
  "line_at x0 y0 dx d step_x step_y a b =
     \<lparr>line_x = x0 + a * step_x, line_y = y0 + b * step_y,
      line_error = (b + 1) * dx - (a + 1) * d\<rparr>"

text \<open>The deviation from the ideal line, scaled by the larger distance.\<close>

definition line_dev :: "int \<Rightarrow> int \<Rightarrow> int \<Rightarrow> int \<Rightarrow> int" where
  "line_dev dx d a b = b * dx - a * d"

definition next_a :: "int \<Rightarrow> int \<Rightarrow> int \<Rightarrow> int \<Rightarrow> int" where
  "next_a dx d a b = (if 2 * line_dev dx d a b \<ge> d - 2 * dx then a + 1 else a)"

definition next_b :: "int \<Rightarrow> int \<Rightarrow> int \<Rightarrow> int \<Rightarrow> int" where
  "next_b dx d a b = (if 2 * line_dev dx d a b \<le> 2 * d - dx then b + 1 else b)"

lemma line_step_at:
  "line_step dx (- d) step_x step_y (line_at x0 y0 dx d step_x step_y a b) =
     line_at x0 y0 dx d step_x step_y (next_a dx d a b) (next_b dx d a b)"
  by (auto simp: line_step_def line_at_def next_a_def next_b_def line_dev_def Let_def algebra_simps)

lemma line_no_overshoot:
  assumes "0 \<le> a" "a \<le> dx" "0 \<le> b" "b \<le> d" "\<not> (a = dx \<and> b = d)"
  shows "next_a dx d a b \<le> dx" and "next_b dx d a b \<le> d"
proof -
  show "next_a dx d a b \<le> dx"
  proof (cases "a = dx")
    case True
    with assms have "b + 1 \<le> d" by auto
    then have "(b + 1) * dx \<le> d * dx" using assms(1,2) by (intro mult_right_mono) auto
    then have "2 * line_dev dx d a b < d - 2 * dx"
      using True \<open>b + 1 \<le> d\<close> assms(3) by (simp add: line_dev_def algebra_simps)
    then show ?thesis using assms by (simp add: next_a_def)
  next
    case False
    with assms show ?thesis by (simp add: next_a_def)
  qed
  show "next_b dx d a b \<le> d"
  proof (cases "b = d")
    case True
    with assms have "a + 1 \<le> dx" by auto
    then have "(a + 1) * d \<le> dx * d" using assms(3,4) by (intro mult_right_mono) auto
    then have "2 * line_dev dx d a b > 2 * d - dx"
      using True \<open>a + 1 \<le> dx\<close> assms(1) by (simp add: line_dev_def algebra_simps)
    then show ?thesis using assms by (simp add: next_b_def)
  next
    case False
    with assms show ?thesis by (simp add: next_b_def)
  qed
qed

lemma line_next_ge: "a \<le> next_a dx d a b" "b \<le> next_b dx d a b"
  by (simp_all add: next_a_def next_b_def)

lemma line_progress:
  "0 \<le> dx \<Longrightarrow> 0 \<le> d \<Longrightarrow> a + b < next_a dx d a b + next_b dx d a b"
  by (auto simp: next_a_def next_b_def)

lemma line_next_adjacent: "next_a dx d a b \<le> a + 1" "next_b dx d a b \<le> b + 1"
  by (simp_all add: next_a_def next_b_def)

lemma line_dev_next:
  assumes "0 \<le> dx" "0 \<le> d" "2 * \<bar>line_dev dx d a b\<bar> \<le> max dx d"
  shows "2 * \<bar>line_dev dx d (next_a dx d a b) (next_b dx d a b)\<bar> \<le> max dx d"
proof -
  define f where "f = line_dev dx d a b"
  have "line_dev dx d (next_a dx d a b) (next_b dx d a b) =
      f - (if 2 * f \<ge> d - 2 * dx then d else 0) + (if 2 * f \<le> 2 * d - dx then dx else 0)"
    by (simp add: next_a_def next_b_def f_def line_dev_def algebra_simps)
  moreover have "2 * \<bar>f\<bar> \<le> max dx d" using assms(3) by (simp add: f_def)
  ultimately show ?thesis using assms(1,2)
    unfolding max_def abs_if by (auto split: if_splits)
qed

lemma line_error_bound:
  assumes "0 \<le> dx" "dx \<le> 255" "0 \<le> d" "d \<le> 255" "2 * \<bar>line_dev dx d a b\<bar> \<le> max dx d"
  shows "\<bar>line_error (line_at x0 y0 dx d step_x step_y a b)\<bar> \<le> 382"
proof -
  have "line_error (line_at x0 y0 dx d step_x step_y a b) = line_dev dx d a b + dx - d"
    by (simp add: line_at_def line_dev_def algebra_simps)
  with assms show ?thesis unfolding max_def abs_if by (auto split: if_splits)
qed

text \<open>The steps a run visits, as pairs of step counts.\<close>

definition plot :: "int \<Rightarrow> int \<Rightarrow> int \<Rightarrow> int \<Rightarrow> int \<times> int \<Rightarrow> u8 \<times> u8" where
  "plot x0 y0 step_x step_y p =
     (of_int (x0 + fst p * step_x), of_int (y0 + snd p * step_y))"

definition draw_points :: "u8 \<Rightarrow> (u8 \<times> u8) list \<Rightarrow> framebuffer \<Rightarrow> framebuffer" where
  "draw_points intensity ps fb = fold (\<lambda>p. draw_point (fst p) (snd p) intensity) ps fb"

definition step_ok :: "int \<Rightarrow> int \<Rightarrow> int \<times> int \<Rightarrow> bool" where
  "step_ok dx d p \<longleftrightarrow>
     0 \<le> fst p \<and> fst p \<le> dx \<and> 0 \<le> snd p \<and> snd p \<le> d \<and>
     2 * \<bar>line_dev dx d (fst p) (snd p)\<bar> \<le> max dx d"

lemma step_ok_next:
  assumes "step_ok dx d (a, b)" and "\<not> (a = dx \<and> b = d)"
  shows "step_ok dx d (next_a dx d a b, next_b dx d a b)"
proof -
  have "0 \<le> dx" "0 \<le> d" using assms(1) by (simp_all add: step_ok_def)
  with assms line_no_overshoot [of a dx b d] line_next_ge [of a dx d b] line_next_ge [of b dx d a]
    line_dev_next [of dx d a b] show ?thesis
    by (auto simp: step_ok_def next_a_def next_b_def split: if_splits)
qed

lemma line_loop_ends:
  assumes "step_ok dx d (a, b)" and "step_x \<noteq> 0" and "step_y \<noteq> 0"
  shows "\<exists>ps. line_loop (x0 + dx * step_x) (y0 + d * step_y) dx (- d) step_x step_y i
        (line_at x0 y0 dx d step_x step_y a b) fb =
      Some (draw_points i (map (plot x0 y0 step_x step_y) ((a, b) # ps)) fb) \<and>
    last ((a, b) # ps) = (dx, d) \<and> list_all (step_ok dx d) ps"
  using assms(1)
proof (induction "nat (dx + d - a - b)" arbitrary: a b fb rule: less_induct)
  case less
  let ?s = "line_at x0 y0 dx d step_x step_y a b"
  let ?fb = "draw_point (of_int (line_x ?s)) (of_int (line_y ?s)) i fb"
  have at_end: "line_x ?s = x0 + dx * step_x \<and> line_y ?s = y0 + d * step_y \<longleftrightarrow> a = dx \<and> b = d"
    using assms(2,3) by (simp add: line_at_def)
  have plotted: "?fb = draw_points i [plot x0 y0 step_x step_y (a, b)] fb"
    by (simp add: draw_points_def plot_def line_at_def)
  show ?case
  proof (cases "a = dx \<and> b = d")
    case True
    then have "line_loop (x0 + dx * step_x) (y0 + d * step_y) dx (- d) step_x step_y i ?s fb = Some ?fb"
      using at_end by (subst line_loop.simps) (simp add: Let_def)
    with True plotted show ?thesis by (intro exI [of _ "[]"]) simp
  next
    case False
    let ?a = "next_a dx d a b" and ?b = "next_b dx d a b"
    have unfold: "line_loop (x0 + dx * step_x) (y0 + d * step_y) dx (- d) step_x step_y i ?s fb =
        line_loop (x0 + dx * step_x) (y0 + d * step_y) dx (- d) step_x step_y i
          (line_at x0 y0 dx d step_x step_y ?a ?b) ?fb"
      using at_end False by (subst line_loop.simps) (simp only: Let_def line_step_at if_False)
    have ok: "step_ok dx d (?a, ?b)" by (rule step_ok_next [OF less.prems False])
    have "a + b < ?a + ?b" using less.prems by (intro line_progress) (auto simp: step_ok_def)
    moreover have "?a + ?b \<le> dx + d" using ok by (simp add: step_ok_def)
    ultimately have "nat (dx + d - ?a - ?b) < nat (dx + d - a - b)" by linarith
    from less.hyps [OF this ok, of ?fb] obtain ps where ps:
      "line_loop (x0 + dx * step_x) (y0 + d * step_y) dx (- d) step_x step_y i
         (line_at x0 y0 dx d step_x step_y ?a ?b) ?fb =
       Some (draw_points i (map (plot x0 y0 step_x step_y) ((?a, ?b) # ps)) ?fb)"
      "last ((?a, ?b) # ps) = (dx, d)" "list_all (step_ok dx d) ps"
      by blast
    with ok unfold plotted show ?thesis
      by (intro exI [of _ "(?a, ?b) # ps"]) (simp add: draw_points_def)
  qed
qed

section \<open>What a line is\<close>

text \<open>
  A pixel is on the line when it lies in the box of the end points and its deviation from the
  ideal line, measured along the shorter axis, is at most half a pixel.
\<close>

definition on_line :: "u8 \<Rightarrow> u8 \<Rightarrow> u8 \<Rightarrow> u8 \<Rightarrow> u8 \<times> u8 \<Rightarrow> bool" where
  "on_line x0 y0 x1 y1 p =
     (let ax = uint x0; ay = uint y0; bx = uint x1; by' = uint y1;
          px = uint (fst p); py = uint (snd p)
      in min ax bx \<le> px \<and> px \<le> max ax bx \<and> min ay by' \<le> py \<and> py \<le> max ay by' \<and>
         2 * \<bar>(py - ay) * (bx - ax) - (px - ax) * (by' - ay)\<bar> \<le> max \<bar>bx - ax\<bar> \<bar>by' - ay\<bar>)"

lemma uint_of_int_byte: "0 \<le> k \<Longrightarrow> k < 256 \<Longrightarrow> uint (of_int k :: u8) = k"
  by (simp add: unsigned_of_int take_bit_int_eq_self)

lemma plot_on_line:
  assumes "step_ok dx d p"
    and "dx = \<bar>uint x1 - uint x0\<bar>" and "d = \<bar>uint y1 - uint y0\<bar>"
    and "step_x = (if uint x0 < uint x1 then 1 else -1)"
    and "step_y = (if uint y0 < uint y1 then 1 else -1)"
  shows "on_line x0 y0 x1 y1 (plot (uint x0) (uint y0) step_x step_y p)"
proof -
  have lx: "uint x0 < 256" "uint x1 < 256" "uint y0 < 256" "uint y1 < 256"
    by (rule uint_u8_less)+
  let ?x = "uint x0 + fst p * step_x" and ?y = "uint y0 + snd p * step_y"
  note lower = uint_ge_0 [of x0] uint_ge_0 [of x1] uint_ge_0 [of y0] uint_ge_0 [of y1]
  have p: "0 \<le> fst p" "fst p \<le> dx" "0 \<le> snd p" "snd p \<le> d"
    using assms(1) by (simp_all add: step_ok_def)
  have "step_x = 1 \<and> dx = uint x1 - uint x0 \<or> step_x = - 1 \<and> dx = uint x0 - uint x1"
    using assms(2,4) by auto
  then have "0 \<le> ?x" "?x < 256" using p lx lower by (elim disjE conjE; hypsubst; linarith)+
  then have x: "uint (fst (plot (uint x0) (uint y0) step_x step_y p)) = ?x"
    unfolding plot_def fst_conv by (intro uint_of_int_byte) auto
  have "step_y = 1 \<and> d = uint y1 - uint y0 \<or> step_y = - 1 \<and> d = uint y0 - uint y1"
    using assms(3,5) by auto
  then have "0 \<le> ?y" "?y < 256" using p lx lower by (elim disjE conjE; hypsubst; linarith)+
  then have y: "uint (snd (plot (uint x0) (uint y0) step_x step_y p)) = ?y"
    unfolding plot_def snd_conv by (intro uint_of_int_byte) auto
  have bx: "uint x1 - uint x0 = dx * step_x"
    and by': "uint y1 - uint y0 = d * step_y"
    using assms(2-5) by auto
  have "\<bar>(?y - uint y0) * (dx * step_x) - (?x - uint x0) * (d * step_y)\<bar> =
      \<bar>step_x * step_y * line_dev dx d (fst p) (snd p)\<bar>"
    by (simp add: line_dev_def algebra_simps)
  also have "\<dots> = \<bar>line_dev dx d (fst p) (snd p)\<bar>"
    using assms(4,5) by (simp add: abs_mult)
  finally have dev: "2 * \<bar>(?y - uint y0) * (dx * step_x) - (?x - uint x0) * (d * step_y)\<bar> \<le>
      max dx d"
    using assms(1) by (simp add: step_ok_def)
  have box: "min (uint x0) (uint x1) \<le> ?x" "?x \<le> max (uint x0) (uint x1)"
    "min (uint y0) (uint y1) \<le> ?y" "?y \<le> max (uint y0) (uint y1)"
    using assms by (auto simp: step_ok_def split: if_splits)
  have "max \<bar>dx * step_x\<bar> \<bar>d * step_y\<bar> = max dx d"
    using assms(2-5) by (simp add: abs_mult)
  with dev box show ?thesis
    unfolding on_line_def Let_def x y bx by' by simp
qed

lemma draw_line_points:
  "\<exists>ps. draw_line x0 y0 x1 y1 i fb = Some (draw_points i ps fb) \<and>
     ps \<noteq> [] \<and> hd ps = (x0, y0) \<and> last ps = (x1, y1) \<and> list_all (on_line x0 y0 x1 y1) ps"
proof -
  define dx where "dx = \<bar>uint x1 - uint x0\<bar>"
  define d where "d = \<bar>uint y1 - uint y0\<bar>"
  define step_x :: int where "step_x = (if uint x0 < uint x1 then 1 else -1)"
  define step_y :: int where "step_y = (if uint y0 < uint y1 then 1 else -1)"
  let ?plot = "plot (uint x0) (uint y0) step_x step_y"
  have nonzero: "step_x \<noteq> 0" "step_y \<noteq> 0" by (simp_all add: step_x_def step_y_def)
  have ok: "step_ok dx d (0, 0)" by (simp add: step_ok_def line_dev_def dx_def d_def)
  have tx: "uint x1 = uint x0 + dx * step_x"
    and ty: "uint y1 = uint y0 + d * step_y"
    by (simp_all add: dx_def d_def step_x_def step_y_def)
  have "draw_line x0 y0 x1 y1 i fb =
      line_loop (uint x0 + dx * step_x) (uint y0 + d * step_y) dx (- d) step_x step_y i
        (line_at (uint x0) (uint y0) dx d step_x step_y 0 0) fb"
    unfolding draw_line_def Let_def line_at_def
    by (simp only: dx_def [symmetric] d_def [symmetric] step_x_def [symmetric]
      step_y_def [symmetric] tx [symmetric] ty [symmetric]) simp
  with line_loop_ends [OF ok, of step_x step_y "uint x0" "uint y0" i fb]
  obtain ps where ps: "draw_line x0 y0 x1 y1 i fb = Some (draw_points i (map ?plot ((0, 0) # ps)) fb)"
    "last ((0, 0) # ps) = (dx, d)" "list_all (step_ok dx d) ps"
    using nonzero by auto
  have "last (map ?plot ((0, 0) # ps)) = ?plot (dx, d)"
    using ps(2) by (metis last_map list.distinct(1))
  also have "\<dots> = (x1, y1)"
    by (simp add: plot_def tx [symmetric] ty [symmetric])
  finally have "last (map ?plot ((0, 0) # ps)) = (x1, y1)" .
  moreover have "list_all (on_line x0 y0 x1 y1) (map ?plot ((0, 0) # ps))"
    using ok ps(3) plot_on_line [OF _ dx_def d_def step_x_def step_y_def]
    by (auto simp: list_all_iff)
  moreover have "hd (map ?plot ((0, 0) # ps)) = (x0, y0)"
    by (simp add: plot_def)
  ultimately show ?thesis using ps(1) by blast
qed

section \<open>Backends as rasters\<close>

text \<open>
  What a client may rely on of a backend: clearing sets every pixel, a point sets its own
  pixel only. Everything drawn from points follows.
\<close>

locale raster =
  fixes good :: "'b \<Rightarrow> bool"
    and pixel :: "'b \<Rightarrow> u8 \<Rightarrow> u8 \<Rightarrow> u8"
    and clear_all :: "u8 \<Rightarrow> 'b \<Rightarrow> 'b"
    and set_point :: "u8 \<Rightarrow> u8 \<Rightarrow> u8 \<Rightarrow> 'b \<Rightarrow> 'b"
  assumes good_clear: "good b \<Longrightarrow> good (clear_all i b)"
    and good_point: "good b \<Longrightarrow> good (set_point x y i b)"
    and pixel_clear: "good b \<Longrightarrow> pixel (clear_all i b) x y = i"
    and pixel_point: "good b \<Longrightarrow>
      pixel (set_point x y i b) u v = (if u = x \<and> v = y then i else pixel b u v)"
begin

definition points :: "u8 \<Rightarrow> (u8 \<times> u8) list \<Rightarrow> 'b \<Rightarrow> 'b" where
  "points i ps b = fold (\<lambda>p. set_point (fst p) (snd p) i) ps b"

lemma good_points: "good b \<Longrightarrow> good (points i ps b)"
  unfolding points_def by (induction ps arbitrary: b) (simp_all add: good_point)

lemma pixel_points:
  "good b \<Longrightarrow> pixel (points i ps b) u v = (if (u, v) \<in> set ps then i else pixel b u v)"
  unfolding points_def
  by (induction ps arbitrary: b) (auto simp: good_point pixel_point)

lemma pixel_clear_points:
  "good b \<Longrightarrow> pixel (points i ps (clear_all j b)) u v = (if (u, v) \<in> set ps then i else j)"
  by (simp add: pixel_points good_clear pixel_clear)

end

definition framebuffer_wf :: "framebuffer \<Rightarrow> bool" where
  "framebuffer_wf fb \<longleftrightarrow> length fb = image_width * image_height"

definition pixel :: "framebuffer \<Rightarrow> u8 \<Rightarrow> u8 \<Rightarrow> u8" where
  "pixel fb x y = fb ! (unat y * image_width + unat x)"

lemma pixel_index_less: "unat (y :: u8) * 256 + unat (x :: u8) < 65536"
  using unat_u8_less [of x] unat_u8_less [of y] by linarith

lemma pixel_index_inject:
  "unat (y :: u8) * 256 + unat (x :: u8) = unat v * 256 + unat (u :: u8) \<longleftrightarrow> x = u \<and> y = v"
proof
  assume eq: "unat y * 256 + unat x = unat v * 256 + unat u"
  have "(unat y * 256 + unat x) div 256 = unat y" "(unat y * 256 + unat x) mod 256 = unat x"
    "(unat v * 256 + unat u) div 256 = unat v" "(unat v * 256 + unat u) mod 256 = unat u"
    by simp_all
  with eq have "unat y = unat v" "unat x = unat u" by metis+
  then show "x = u \<and> y = v" by (simp add: word_unat_eq_iff)
qed simp

lemma draw_point_eq: "draw_point x y i fb = fb[unat y * 256 + unat x := i]"
proof -
  have "\<not> 256 \<le> unat x" "\<not> 256 \<le> unat y" by (simp_all add: not_le)
  then show ?thesis by (simp add: draw_point_def image_width_def image_height_def Let_def)
qed

lemma pixel_draw_point:
  assumes "framebuffer_wf fb"
  shows "pixel (draw_point x y i fb) u v = (if u = x \<and> v = y then i else pixel fb u v)"
proof -
  have "unat v * 256 + unat u < length fb"
    using assms pixel_index_less [of v u]
    by (simp add: framebuffer_wf_def image_width_def image_height_def)
  moreover have "unat y * 256 + unat x < length fb"
    using assms pixel_index_less [of y x]
    by (simp add: framebuffer_wf_def image_width_def image_height_def)
  ultimately show ?thesis
    using pixel_index_inject [of y x v u]
    by (auto simp: pixel_def draw_point_eq image_width_def nth_list_update)
qed

lemma pixel_image_clear: "framebuffer_wf fb \<Longrightarrow> pixel (image_clear i fb) x y = i"
  using pixel_index_less [of y x]
  by (simp add: framebuffer_wf_def image_width_def image_height_def pixel_def image_clear_def)

lemma framebuffer_wf_ops:
  "framebuffer_wf fb \<Longrightarrow> framebuffer_wf (image_clear i fb)"
  "framebuffer_wf fb \<Longrightarrow> framebuffer_wf (draw_point x y i fb)"
  by (simp_all add: framebuffer_wf_def image_clear_def draw_point_eq)

interpretation image: raster framebuffer_wf pixel image_clear draw_point
  by unfold_locales
    (simp_all only: framebuffer_wf_ops pixel_image_clear pixel_draw_point)

lemma image_points [simp]: "image.points = draw_points"
  by (simp add: fun_eq_iff image.points_def draw_points_def)

lemma image_init_wf: "framebuffer_wf image_init"
  by (simp add: framebuffer_wf_def image_init_def)

lemma draw_line_pixels:
  assumes "framebuffer_wf fb"
  obtains fb' where "draw_line x0 y0 x1 y1 i fb = Some fb'" and "framebuffer_wf fb'"
    and "pixel fb' x0 y0 = i" and "pixel fb' x1 y1 = i"
    and "\<And>x y. \<not> on_line x0 y0 x1 y1 (x, y) \<Longrightarrow> pixel fb' x y = pixel fb x y"
    and "\<And>x y. pixel fb' x y = i \<or> pixel fb' x y = pixel fb x y"
proof -
  from draw_line_points [of x0 y0 x1 y1 i fb] obtain ps where
    ps: "draw_line x0 y0 x1 y1 i fb = Some (draw_points i ps fb)" "ps \<noteq> []"
      "hd ps = (x0, y0)" "last ps = (x1, y1)" "list_all (on_line x0 y0 x1 y1) ps"
    by blast
  have mem: "(x0, y0) \<in> set ps" "(x1, y1) \<in> set ps"
    using ps(2-4) hd_in_set [of ps] last_in_set [of ps] by simp_all
  note px = image.pixel_points [OF assms, of i ps, unfolded image_points]
  show ?thesis
  proof (rule that [OF ps(1)])
    show "framebuffer_wf (draw_points i ps fb)"
      using image.good_points [OF assms, of i ps] by simp
    show "pixel (draw_points i ps fb) x0 y0 = i" "pixel (draw_points i ps fb) x1 y1 = i"
      using mem by (simp_all add: px)
    show "pixel (draw_points i ps fb) x y = pixel fb x y" if "\<not> on_line x0 y0 x1 y1 (x, y)" for x y
      using that ps(5) by (auto simp: px list_all_iff)
    show "pixel (draw_points i ps fb) x y = i \<or> pixel (draw_points i ps fb) x y = pixel fb x y" for x y
      by (simp add: px)
  qed
qed

lemma image_call_total:
  assumes "framebuffer_wf fb"
  obtains fb' where "image_call c fb = Some fb'" and "framebuffer_wf fb'"
proof (cases c)
  case (Call_line x0 y0 x1 y1 i)
  with draw_line_pixels [OF assms] that show ?thesis by (metis image_call.simps(3))
qed (use assms image.good_clear image.good_point that in auto)

lemma image_calls_total:
  "framebuffer_wf fb \<Longrightarrow> \<exists>fb'. image_calls cs fb = Some fb' \<and> framebuffer_wf fb'"
proof (induction cs arbitrary: fb)
  case Nil
  then show ?case by simp
next
  case (Cons c cs)
  obtain fb1 where "image_call c fb = Some fb1" "framebuffer_wf fb1"
    using image_call_total [OF Cons.prems] by blast
  with Cons.IH [of fb1] show ?case by simp
qed

lemma image_calls_append:
  "image_calls (cs @ ds) fb = Option.bind (image_calls cs fb) (image_calls ds)"
  by (induction cs arbitrary: fb) (auto split: Option.bind_splits)

text \<open>A line after other calls: the image has its end points, whatever was drawn before.\<close>

lemma image_calls_line:
  assumes "framebuffer_wf fb"
  shows "\<exists>fb0 fb'. image_calls cs fb = Some fb0 \<and> framebuffer_wf fb0 \<and>
    draw_line x0 y0 x1 y1 i fb0 = Some fb' \<and> framebuffer_wf fb' \<and>
    image_calls (cs @ [Call_line x0 y0 x1 y1 i]) fb = Some fb' \<and>
    pixel fb' x0 y0 = i \<and> pixel fb' x1 y1 = i"
proof -
  obtain fb0 where fb0: "image_calls cs fb = Some fb0" "framebuffer_wf fb0"
    using image_calls_total [OF assms] by blast
  obtain fb' where "draw_line x0 y0 x1 y1 i fb0 = Some fb'" "framebuffer_wf fb'"
    "pixel fb' x0 y0 = i" "pixel fb' x1 y1 = i"
    using draw_line_pixels [OF fb0(2)] by metis
  with fb0 show ?thesis by (simp add: image_calls_append)
qed

section \<open>Commands\<close>

text \<open>Registers hold what was written until the command runs; \<open>EXEC\<close> issues exactly one call.\<close>

lemma vgc_exec_line:
  "backend_calls (fold (\<lambda>(r, b). vgc_write r b)
      [(0, 3), (1, x0), (2, y0), (3, x1), (4, y1), (5, c), (6, 1)] v) =
     backend_calls v @ [Call_line x0 y0 x1 y1 (c AND 3)]"
  by (simp add: vgc_write_def execute_command_def backend_call_def vgc_intensity_def)

lemma vgc_write_calls:
  "\<exists>cs. backend_calls (vgc_write a b v) = backend_calls v @ cs \<and> length cs \<le> 2"
  by (auto simp: vgc_write_def execute_command_def apply_control_def backend_call_def Let_def)

end
