(* ===== verification/Sim_Memory.thy ===== *)
theory Sim_Memory
  imports Sim_Input_Device Sim_Vgc
begin

text \<open>
  The memory of the simulator (\<open>sim/memory\<close>, \<open>sim/rom_storage.h\<close>): modules that store
  data, regions that map a module at an offset, and the memory that finds the region of an
  address. A read returns the new state, because a read of a device register can change it.
\<close>

section \<open>Readable and writable storage\<close>

text \<open>
  What a client may rely on of storage at its \<open>plain\<close> addresses: accesses succeed, a read
  changes nothing and returns the value written last.
\<close>

locale byte_store =
  fixes good :: "'s \<Rightarrow> bool"
    and plain :: "'s \<Rightarrow> u16 \<Rightarrow> bool"
    and rd :: "u16 \<Rightarrow> 's \<Rightarrow> sim_error + (u8 \<times> 's)"
    and wr :: "u16 \<Rightarrow> u8 \<Rightarrow> 's \<Rightarrow> sim_error + 's"
    and peek :: "'s \<Rightarrow> u16 \<Rightarrow> u8"
  assumes rd_plain: "good s \<Longrightarrow> plain s a \<Longrightarrow> rd a s = Inr (peek s a, s)"
    and wr_plain: "good s \<Longrightarrow> plain s a \<Longrightarrow> \<exists>s'. wr a v s = Inr s' \<and> good s'"
    and plain_wr: "good s \<Longrightarrow> plain s a \<Longrightarrow> wr a v s = Inr s' \<Longrightarrow> plain s' b = plain s b"
    and peek_wr: "good s \<Longrightarrow> plain s a \<Longrightarrow> plain s b \<Longrightarrow> wr a v s = Inr s' \<Longrightarrow>
      peek s' b = (if b = a then v else peek s b)"
begin

lemma rd_after_wr:
  assumes "good s" and "plain s a" and "wr a v s = Inr s'"
  shows "rd a s' = Inr (v, s')"
proof -
  have "good s'" using wr_plain [OF assms(1,2), of v] assms(3) by auto
  moreover have "plain s' a" using plain_wr [OF assms] assms(2) by simp
  ultimately show ?thesis using rd_plain peek_wr [OF assms(1,2,2,3)] by simp
qed

fun wr_all :: "(u16 \<times> u8) list \<Rightarrow> 's \<Rightarrow> sim_error + 's" where
  "wr_all [] s = Inr s"
| "wr_all ((a, v) # ws) s = bind_ok (wr a v s) (wr_all ws)"

lemma wr_all_peek:
  "good s \<Longrightarrow> list_all (\<lambda>w. plain s (fst w)) ws \<Longrightarrow> plain s b \<Longrightarrow>
   \<exists>s'. wr_all ws s = Inr s' \<and> good s' \<and> plain s' b \<and>
     peek s' b = (case map_of (rev ws) b of None \<Rightarrow> peek s b | Some v \<Rightarrow> v)"
proof (induction ws arbitrary: s)
  case Nil
  then show ?case by simp
next
  case (Cons w ws)
  obtain a v where w: "w = (a, v)" by (cases w)
  with Cons.prems have pa: "plain s a" by simp
  obtain s1 where s1: "wr a v s = Inr s1" "good s1"
    using wr_plain [OF Cons.prems(1) pa] by blast
  have pl: "plain s1 c = plain s c" for c using plain_wr [OF Cons.prems(1) pa s1(1)] .
  have pk: "peek s1 b = (if b = a then v else peek s b)"
    using peek_wr [OF Cons.prems(1) pa Cons.prems(3) s1(1)] .
  have "list_all (\<lambda>w. plain s1 (fst w)) ws" "plain s1 b"
    using Cons.prems(2,3) by (simp_all add: pl)
  from Cons.IH [OF s1(2) this] obtain s' where
    "wr_all ws s1 = Inr s'" "good s'" "plain s' b"
    "peek s' b = (case map_of (rev ws) b of None \<Rightarrow> peek s1 b | Some v \<Rightarrow> v)"
    by blast
  with s1(1) show ?case
    by (auto simp: w pk map_add_def split: option.splits)
qed

end

section \<open>Modules\<close>

datatype mem_module =
    Ram "u8 list"
  | Rom "u8 list"
  | Input input_device
  | Vgc vgc

definition validate_size :: "nat \<Rightarrow> sim_error + unit" where
  "validate_size n = throw_if (n = 0) Module_size_zero"

definition make_ram :: "nat \<Rightarrow> u8 \<Rightarrow> sim_error + mem_module" where
  "make_ram n fill = bind_ok (validate_size n) (\<lambda>_. Inr (Ram (replicate n fill)))"

definition make_rom_fill :: "nat \<Rightarrow> u8 \<Rightarrow> sim_error + mem_module" where
  "make_rom_fill n fill = bind_ok (validate_size n) (\<lambda>_. Inr (Rom (replicate n fill)))"

definition make_rom :: "u8 list \<Rightarrow> sim_error + mem_module" where
  "make_rom data = bind_ok (validate_size (length data)) (\<lambda>_. Inr (Rom data))"

definition ram_read :: "u16 \<Rightarrow> u8 list \<Rightarrow> sim_error + u8" where
  "ram_read a data =
     (if length data \<le> unat a then Inl (Ram_read_range (unat a)) else Inr (data ! unat a))"

definition ram_write :: "u16 \<Rightarrow> u8 \<Rightarrow> u8 list \<Rightarrow> sim_error + u8 list" where
  "ram_write a v data =
     (if length data \<le> unat a then Inl (Ram_write_range (unat a)) else Inr (data[unat a := v]))"

text \<open>\<open>RomStorage::Read\<close>, for any element type, indexed by a \<open>size_t\<close>.\<close>

definition rom_storage_read :: "nat \<Rightarrow> 'd list \<Rightarrow> sim_error + 'd" where
  "rom_storage_read i data =
     (if length data \<le> i then Inl (Rom_read_range i (length data)) else Inr (data ! i))"

fun module_size :: "mem_module \<Rightarrow> nat" where
  "module_size (Ram data) = length data"
| "module_size (Rom data) = length data"
| "module_size (Input d) = input_mmio_size"
| "module_size (Vgc v) = vgc_mmio_size"

fun module_read :: "u16 \<Rightarrow> mem_module \<Rightarrow> sim_error + (u8 \<times> mem_module)" where
  "module_read a (Ram data) = bind_ok (ram_read a data) (\<lambda>v. Inr (v, Ram data))"
| "module_read a (Rom data) = bind_ok (rom_storage_read (unat a) data) (\<lambda>v. Inr (v, Rom data))"
| "module_read a (Input d) = (let (v, d') = input_read a d in Inr (v, Input d'))"
| "module_read a (Vgc g) = Inr (vgc_read a g, Vgc g)"

fun module_write :: "u16 \<Rightarrow> u8 \<Rightarrow> mem_module \<Rightarrow> sim_error + mem_module" where
  "module_write a v (Ram data) = bind_ok (ram_write a v data) (\<lambda>data'. Inr (Ram data'))"
| "module_write a v (Rom data) = Inl (Rom_write_forbidden a)"
| "module_write a v (Input d) = Inr (Input (input_write a v d))"
| "module_write a v (Vgc g) = Inr (Vgc (vgc_write a v g))"

fun module_tick_control :: "tick_phase \<Rightarrow> mem_module \<Rightarrow> controls \<Rightarrow> sim_error + controls" where
  "module_tick_control cur (Input d) cs = input_tick_control cur d cs"
| "module_tick_control cur m cs = Inr cs"

lemma module_write_size: "module_write a v m = Inr m' \<Longrightarrow> module_size m' = module_size m"
  by (cases m) (auto simp: ram_write_def split: if_splits elim!: bind_ok_eq_InrE)

lemma module_read_size: "module_read a m = Inr (v, m') \<Longrightarrow> module_size m' = module_size m"
  by (cases m) (auto elim!: bind_ok_eq_InrE split: prod.splits)

text \<open>Within its size every module can be read, and every one but a ROM written.\<close>

lemma module_read_in_range: "unat a < module_size m \<Longrightarrow> is_ok (module_read a m)"
  by (cases m) (auto simp: ram_read_def rom_storage_read_def split: prod.splits)

lemma module_write_in_range:
  "unat a < module_size m \<Longrightarrow> is_ok (module_write a v m) \<longleftrightarrow> (\<nexists>data. m = Rom data)"
  by (cases m) (auto simp: ram_write_def)

definition ram_plain :: "mem_module \<Rightarrow> u16 \<Rightarrow> bool" where
  "ram_plain m a = (case m of Ram data \<Rightarrow> unat a < length data | _ \<Rightarrow> False)"

definition ram_peek :: "mem_module \<Rightarrow> u16 \<Rightarrow> u8" where
  "ram_peek m a = (case m of Ram data \<Rightarrow> data ! unat a | _ \<Rightarrow> 0)"

interpretation ram: byte_store "\<lambda>_. True" ram_plain module_read module_write ram_peek
  by unfold_locales
    (auto simp: ram_plain_def ram_peek_def ram_read_def ram_write_def nth_list_update
      word_unat_eq_iff split: mem_module.splits if_splits)

section \<open>Regions\<close>

record region =
  region_offset :: u16
  region_module :: mem_module

definition is_power_of_two :: "nat \<Rightarrow> bool" where
  "is_power_of_two n \<longleftrightarrow> n \<noteq> 0 \<and> n AND (n - 1) = 0"

definition make_region :: "u16 \<Rightarrow> mem_module \<Rightarrow> sim_error + region" where
  "make_region offset m =
     (let size = module_size m in
      if \<not> is_power_of_two size then Inl (Region_size_not_power_of_two size)
      else if unat offset mod size \<noteq> 0 then Inl (Region_misaligned offset)
      else Inr \<lparr>region_offset = offset, region_module = m\<rparr>)"

definition region_size :: "region \<Rightarrow> nat" where
  "region_size r = module_size (region_module r)"

definition region_lower :: "region \<Rightarrow> u32" where
  "region_lower r = ucast (region_offset r)"

definition region_upper :: "region \<Rightarrow> u32" where
  "region_upper r = region_lower r + of_nat (region_size r)"

definition region_contains :: "region \<Rightarrow> u16 \<Rightarrow> bool" where
  "region_contains r a = (ucast a \<ge> region_lower r \<and> ucast a < region_upper r)"

definition region_overlaps :: "region \<Rightarrow> region \<Rightarrow> bool" where
  "region_overlaps r r' = (region_lower r < region_upper r' \<and> region_lower r' < region_upper r)"

definition region_translate :: "region \<Rightarrow> u16 \<Rightarrow> u16" where
  "region_translate r a = a - region_offset r"

definition region_read :: "u16 \<Rightarrow> region \<Rightarrow> sim_error + (u8 \<times> region)" where
  "region_read a r =
     (if \<not> region_contains r a then Inl (Region_range a)
      else bind_ok (module_read (region_translate r a) (region_module r))
             (\<lambda>(v, m). Inr (v, r\<lparr>region_module := m\<rparr>)))"

definition region_write :: "u16 \<Rightarrow> u8 \<Rightarrow> region \<Rightarrow> sim_error + region" where
  "region_write a v r =
     (if \<not> region_contains r a then Inl (Region_range a)
      else bind_ok (module_write (region_translate r a) v (region_module r))
             (\<lambda>m. Inr (r\<lparr>region_module := m\<rparr>)))"

text \<open>
  A region whose size fits the address space contains the addresses from its offset on, and
  translates them to indices of its module.
\<close>

lemma unat_widen_u32 [simp]: "unat (ucast (a :: u16) :: u32) = unat a"
proof -
  have "unat a < 4294967296" using unat_u16_less [of a] by linarith
  then show ?thesis by (simp add: unsigned_ucast_eq take_bit_eq_mod)
qed

lemma unat_region_upper:
  "region_size r \<le> 65536 \<Longrightarrow> unat (region_upper r) = unat (region_offset r) + region_size r"
proof -
  assume "region_size r \<le> 65536"
  then have "unat (region_offset r) + region_size r < 4294967296" "region_size r < 4294967296"
    using unat_u16_less [of "region_offset r"] by linarith+
  then show ?thesis by (simp add: region_upper_def region_lower_def unat_word_ariths unat_of_nat)
qed

lemma region_contains_iff:
  "region_size r \<le> 65536 \<Longrightarrow>
   region_contains r a \<longleftrightarrow>
     unat (region_offset r) \<le> unat a \<and> unat a < unat (region_offset r) + region_size r"
  by (simp add: region_contains_def word_le_nat_alt word_less_nat_alt unat_region_upper)
    (simp add: region_lower_def)

lemma unat_region_translate:
  "unat (region_offset r) \<le> unat a \<Longrightarrow> unat (region_translate r a) = unat a - unat (region_offset r)"
  by (simp add: region_translate_def unat_sub word_le_nat_alt)

lemma region_translate_inject:
  "region_translate r a = region_translate r b \<longleftrightarrow> a = b"
  by (simp add: region_translate_def)

lemma region_translate_in_range:
  "region_size r \<le> 65536 \<Longrightarrow> region_contains r a \<Longrightarrow>
   unat (region_translate r a) < module_size (region_module r)"
  by (auto simp: region_contains_iff unat_region_translate region_size_def)

section \<open>Memory\<close>

type_synonym memory = "region list"

text \<open>The constructor's check, with the indices of the first overlapping pair.\<close>

definition overlap_pairs :: "memory \<Rightarrow> (nat \<times> nat) list" where
  "overlap_pairs rs =
     [(i, j). i \<leftarrow> [0..<length rs], j \<leftarrow> [i + 1..<length rs], region_overlaps (rs ! i) (rs ! j)]"

definition make_memory :: "region list \<Rightarrow> sim_error + memory" where
  "make_memory rs =
     (case overlap_pairs rs of [] \<Rightarrow> Inr rs | (i, j) # _ \<Rightarrow> Inl (Regions_overlap i j))"

fun find_region :: "memory \<Rightarrow> u16 \<Rightarrow> nat option" where
  "find_region [] a = None"
| "find_region (r # rs) a =
     (if region_contains r a then Some 0 else map_option Suc (find_region rs a))"

definition read_at :: "u16 \<Rightarrow> memory \<Rightarrow> sim_error + (u8 \<times> memory)" where
  "read_at a rs =
     (case find_region rs a of
        None \<Rightarrow> Inr (0xFF, rs)
      | Some i \<Rightarrow> bind_ok (region_read a (rs ! i)) (\<lambda>(v, r). Inr (v, rs[i := r])))"

definition write_at :: "u16 \<Rightarrow> u8 \<Rightarrow> memory \<Rightarrow> sim_error + memory" where
  "write_at a v rs =
     (case find_region rs a of
        None \<Rightarrow> Inl (Unmapped_write a)
      | Some i \<Rightarrow> bind_ok (region_write a v (rs ! i)) (\<lambda>r. Inr (rs[i := r])))"

definition memory_tick_control :: "tick_phase \<Rightarrow> memory \<Rightarrow> controls \<Rightarrow> sim_error + controls" where
  "memory_tick_control cur rs = fold_ok (\<lambda>r. module_tick_control cur (region_module r)) rs"

text \<open>The regions the processor always has (\<open>BuildRegionFactories\<close>), then the extra ones.\<close>

definition build_regions :: "u8 list \<Rightarrow> region list \<Rightarrow> sim_error + region list" where
  "build_regions cartridge_rom extra =
     bind_ok (make_ram 0x2000 0x00) (\<lambda>ram.
     bind_ok (make_region 0x0000 ram) (\<lambda>ram_region.
     bind_ok (if cartridge_rom = [] then make_rom_fill 0x8000 0xFF else make_rom cartridge_rom) (\<lambda>rom.
     bind_ok (make_region 0x8000 rom) (\<lambda>rom_region.
     Inr (ram_region # rom_region # extra)))))"

section \<open>Finding the region of an address\<close>

lemma find_region_Some:
  "find_region rs a = Some i \<Longrightarrow> i < length rs \<and> region_contains (rs ! i) a"
  by (induction rs arbitrary: i) (auto split: if_splits)

lemma find_region_None: "find_region rs a = None \<longleftrightarrow> (\<forall>r\<in>set rs. \<not> region_contains r a)"
  by (induction rs) (auto split: if_splits)

lemma find_region_bounds_only:
  assumes "length ss = length rs"
    and "\<And>i. i < length rs \<Longrightarrow>
      region_offset (ss ! i) = region_offset (rs ! i) \<and> region_size (ss ! i) = region_size (rs ! i)"
  shows "find_region ss a = find_region rs a"
  using assms
proof (induction rs arbitrary: ss)
  case Nil
  then show ?case by simp
next
  case (Cons r rs)
  then obtain s ss' where ss: "ss = s # ss'" by (cases ss) auto
  have "region_offset s = region_offset r" "region_size s = region_size r"
    using Cons.prems(2) [of 0] by (simp_all add: ss)
  then have "region_contains s a = region_contains r a"
    by (simp add: region_contains_def region_lower_def region_upper_def)
  moreover have "find_region ss' a = find_region rs a"
    using Cons.IH [of ss'] Cons.prems(1) Cons.prems(2) [of "Suc i" for i] by (simp add: ss)
  ultimately show ?case by (simp add: ss)
qed

text \<open>Regions that share an address overlap, so a checked memory has one region per address.\<close>

lemma region_contains_overlaps:
  "region_contains r a \<Longrightarrow> region_contains r' a \<Longrightarrow> region_overlaps r r'"
  by (auto simp: region_contains_def region_overlaps_def)

lemma overlap_pairs_Nil_iff:
  "overlap_pairs rs = [] \<longleftrightarrow>
     (\<forall>i j. i < j \<longrightarrow> j < length rs \<longrightarrow> \<not> region_overlaps (rs ! i) (rs ! j))"
proof -
  have "overlap_pairs rs = [] \<longleftrightarrow> set (overlap_pairs rs) = {}" by simp
  also have "\<dots> \<longleftrightarrow> (\<forall>i<length rs. \<forall>j. i < j \<and> j < length rs \<longrightarrow> \<not> region_overlaps (rs ! i) (rs ! j))"
    by (auto simp: overlap_pairs_def Suc_le_eq)
  finally show ?thesis by auto
qed

lemma make_memory_eq_Inr: "make_memory rs = Inr m \<longleftrightarrow> m = rs \<and> overlap_pairs rs = []"
  by (auto simp: make_memory_def split: list.splits)

lemma make_memory_unique_region:
  assumes "make_memory rs = Inr m" and "i < length m" and "j < length m"
    and "region_contains (m ! i) a" and "region_contains (m ! j) a"
  shows "i = j"
proof (rule ccontr)
  assume "i \<noteq> j"
  from assms(1) have no: "\<And>i j. i < j \<Longrightarrow> j < length m \<Longrightarrow> \<not> region_overlaps (m ! i) (m ! j)"
    by (auto simp: make_memory_eq_Inr overlap_pairs_Nil_iff)
  with \<open>i \<noteq> j\<close> assms(2-5) region_contains_overlaps show False
    by (metis linorder_less_linear)
qed

section \<open>The invariant\<close>

fun module_wf :: "mem_module \<Rightarrow> bool" where
  "module_wf (Input d) = input_wf d"
| "module_wf m = True"

definition region_wf :: "region \<Rightarrow> bool" where
  "region_wf r \<longleftrightarrow>
     is_power_of_two (region_size r) \<and> unat (region_offset r) mod region_size r = 0 \<and>
     region_size r \<le> 65536 \<and> module_wf (region_module r)"

definition memory_wf :: "memory \<Rightarrow> bool" where
  "memory_wf rs \<longleftrightarrow> list_all region_wf rs \<and> overlap_pairs rs = []"

lemma make_region_wf:
  "make_region offset m = Inr r \<Longrightarrow> module_wf m \<Longrightarrow> module_size m \<le> 65536 \<Longrightarrow> region_wf r"
  by (auto simp: make_region_def region_wf_def region_size_def Let_def split: if_splits)

lemma module_read_wf: "module_read a m = Inr (v, m') \<Longrightarrow> module_wf m \<Longrightarrow> module_wf m'"
  using input_read_wf
  by (cases m) (auto elim!: bind_ok_eq_InrE split: prod.splits, metis snd_conv)

lemma module_write_wf: "module_write a v m = Inr m' \<Longrightarrow> module_wf m \<Longrightarrow> module_wf m'"
  by (cases m) (auto simp: input_write_wf elim!: bind_ok_eq_InrE)

definition same_bounds :: "region \<Rightarrow> region \<Rightarrow> bool" where
  "same_bounds r r' \<longleftrightarrow> region_offset r' = region_offset r \<and> region_size r' = region_size r"

lemma find_region_update:
  "i < length rs \<Longrightarrow> same_bounds (rs ! i) r \<Longrightarrow> find_region (rs[i := r]) a = find_region rs a"
  by (rule find_region_bounds_only) (auto simp: nth_list_update same_bounds_def)

lemma region_read_bounds: "region_read a r = Inr (v, r') \<Longrightarrow> same_bounds r r'"
  by (auto simp: region_read_def same_bounds_def region_size_def module_read_size
    split: if_splits elim!: bind_ok_eq_InrE)

lemma region_write_bounds: "region_write a v r = Inr r' \<Longrightarrow> same_bounds r r'"
  by (auto simp: region_write_def same_bounds_def region_size_def module_write_size
    split: if_splits elim!: bind_ok_eq_InrE)

lemma region_read_wf: "region_read a r = Inr (v, r') \<Longrightarrow> region_wf r \<Longrightarrow> region_wf r'"
  using region_read_bounds [of a r v r']
  by (auto simp: region_read_def region_wf_def same_bounds_def split: if_splits
    elim!: bind_ok_eq_InrE dest: module_read_wf)

lemma region_write_wf: "region_write a v r = Inr r' \<Longrightarrow> region_wf r \<Longrightarrow> region_wf r'"
  using region_write_bounds [of a v r r']
  by (auto simp: region_write_def region_wf_def same_bounds_def split: if_splits
    elim!: bind_ok_eq_InrE dest: module_write_wf)

lemma same_bounds_overlaps:
  "same_bounds r r' \<Longrightarrow> same_bounds s s' \<Longrightarrow> region_overlaps r' s' = region_overlaps r s"
  by (simp add: same_bounds_def region_overlaps_def region_lower_def region_upper_def)

lemma memory_wf_update:
  assumes "memory_wf rs" and "i < length rs" and "same_bounds (rs ! i) r" and "region_wf r"
  shows "memory_wf (rs[i := r])"
proof -
  have bounds: "same_bounds (rs ! k) (rs[i := r] ! k)" if "k < length rs" for k
    using assms(2,3) that by (auto simp: nth_list_update same_bounds_def)
  have "overlap_pairs (rs[i := r]) = []"
    using assms(1) same_bounds_overlaps [OF bounds bounds]
    by (simp add: memory_wf_def overlap_pairs_Nil_iff)
  moreover have "list_all region_wf (rs[i := r])"
    using assms(1,4) set_update_subset_insert [of rs i r] by (auto simp: memory_wf_def list_all_iff)
  ultimately show ?thesis by (simp add: memory_wf_def)
qed

lemma read_at_wf: "memory_wf rs \<Longrightarrow> read_at a rs = Inr (v, rs') \<Longrightarrow> memory_wf rs'"
  by (auto simp: read_at_def split: option.splits elim!: bind_ok_eq_InrE
    intro!: memory_wf_update dest: find_region_Some region_read_bounds)
    (metis find_region_Some list_all_length memory_wf_def region_read_wf)

lemma write_at_wf: "memory_wf rs \<Longrightarrow> write_at a v rs = Inr rs' \<Longrightarrow> memory_wf rs'"
  by (auto simp: write_at_def split: option.splits elim!: bind_ok_eq_InrE
    intro!: memory_wf_update dest: find_region_Some region_write_bounds)
    (metis find_region_Some list_all_length memory_wf_def region_write_wf)

section \<open>Reads and writes\<close>

lemma region_read_ok: "region_wf r \<Longrightarrow> region_contains r a \<Longrightarrow> is_ok (region_read a r)"
  using module_read_in_range [OF region_translate_in_range, of r a]
  by (auto simp: region_read_def region_wf_def)

lemma read_at_ok: "memory_wf rs \<Longrightarrow> is_ok (read_at a rs)"
proof (cases "find_region rs a")
  case None
  then show ?thesis by (simp add: read_at_def)
next
  case (Some i)
  assume "memory_wf rs"
  with find_region_Some [OF Some] have "is_ok (region_read a (rs ! i))"
    by (simp add: region_read_ok memory_wf_def list_all_length)
  with Some show ?thesis by (auto simp: read_at_def)
qed

definition is_rom :: "mem_module \<Rightarrow> bool" where
  "is_rom m = (case m of Rom data \<Rightarrow> True | _ \<Rightarrow> False)"

lemma region_write_ok:
  "region_wf r \<Longrightarrow> region_contains r a \<Longrightarrow>
   is_ok (region_write a v r) \<longleftrightarrow> \<not> is_rom (region_module r)"
  using module_write_in_range [OF region_translate_in_range, of r a v]
  by (auto simp: region_write_def region_wf_def is_rom_def bind_ok_def is_ok_def
    split: sum.splits mem_module.splits)

lemma write_at_ok:
  assumes "memory_wf rs"
  shows "is_ok (write_at a v rs) \<longleftrightarrow>
    (\<exists>i. find_region rs a = Some i \<and> \<not> is_rom (region_module (rs ! i)))"
proof (cases "find_region rs a")
  case None
  then show ?thesis by (simp add: write_at_def)
next
  case (Some i)
  with find_region_Some [OF Some] assms
  have "is_ok (region_write a v (rs ! i)) \<longleftrightarrow> \<not> is_rom (region_module (rs ! i))"
    by (simp add: region_write_ok memory_wf_def list_all_length)
  with Some show ?thesis by (auto simp: write_at_def bind_ok_def is_ok_def split: sum.splits)
qed

definition writable_addr :: "memory \<Rightarrow> u16 \<Rightarrow> bool" where
  "writable_addr rs a =
     (case find_region rs a of None \<Rightarrow> False | Some i \<Rightarrow> \<not> is_rom (region_module (rs ! i)))"

lemma write_at_writable: "memory_wf rs \<Longrightarrow> is_ok (write_at a v rs) \<longleftrightarrow> writable_addr rs a"
  by (auto simp: write_at_ok writable_addr_def split: option.splits)

lemma module_read_is_rom: "module_read a m = Inr (v, m') \<Longrightarrow> is_rom m' = is_rom m"
  by (cases m) (auto simp: is_rom_def elim!: bind_ok_eq_InrE split: prod.splits)

lemma read_at_writable:
  assumes "read_at a rs = Inr (v, rs')"
  shows "writable_addr rs' b = writable_addr rs b"
proof (cases "find_region rs a")
  case None
  with assms show ?thesis by (simp add: read_at_def)
next
  case (Some i)
  with assms obtain r where r: "region_read a (rs ! i) = Inr (v, r)" "rs' = rs[i := r]"
    by (auto simp: read_at_def elim!: bind_ok_eq_InrE)
  have i: "i < length rs" using find_region_Some [OF Some] by simp
  have "find_region rs' b = find_region rs b"
    unfolding r(2) by (rule find_region_update [OF i region_read_bounds [OF r(1)]])
  moreover have "is_rom (region_module r) = is_rom (region_module (rs ! i))"
    using r(1) by (auto simp: region_read_def module_read_is_rom split: if_splits elim!: bind_ok_eq_InrE)
  ultimately show ?thesis
    using i by (auto simp: writable_addr_def r(2) nth_list_update split: option.splits)
qed

lemma write_at_rom:
  assumes "memory_wf rs" and "find_region rs a = Some i" and "region_module (rs ! i) = Rom data"
  shows "write_at a v rs = Inl (Rom_write_forbidden (region_translate (rs ! i) a))"
  using assms find_region_Some [OF assms(2)]
  by (simp add: write_at_def region_write_def)

section \<open>RAM behind the memory\<close>

definition mem_ram_addr :: "memory \<Rightarrow> u16 \<Rightarrow> bool" where
  "mem_ram_addr rs a =
     (case find_region rs a of
        None \<Rightarrow> False
      | Some i \<Rightarrow> (case region_module (rs ! i) of Ram data \<Rightarrow> True | _ \<Rightarrow> False))"

definition mem_peek :: "memory \<Rightarrow> u16 \<Rightarrow> u8" where
  "mem_peek rs a =
     (case find_region rs a of
        None \<Rightarrow> 0xFF
      | Some i \<Rightarrow> ram_peek (region_module (rs ! i)) (region_translate (rs ! i) a))"

lemma mem_ram_addrE:
  assumes "memory_wf rs" and "mem_ram_addr rs a"
  obtains i data where "find_region rs a = Some i" and "i < length rs"
    and "region_module (rs ! i) = Ram data" and "region_contains (rs ! i) a"
    and "unat (region_translate (rs ! i) a) < length data"
proof -
  from assms(2) obtain i data where i: "find_region rs a = Some i"
    "region_module (rs ! i) = Ram data"
    by (auto simp: mem_ram_addr_def split: option.splits mem_module.splits)
  moreover from find_region_Some [OF i(1)] have "i < length rs" "region_contains (rs ! i) a"
    by simp_all
  moreover from this assms(1) i(2) have "unat (region_translate (rs ! i) a) < length data"
    using region_translate_in_range [of "rs ! i" a]
    by (simp add: memory_wf_def list_all_length region_wf_def)
  ultimately show ?thesis using that by blast
qed

lemma read_at_ram:
  assumes "memory_wf rs" and "mem_ram_addr rs a"
  shows "read_at a rs = Inr (mem_peek rs a, rs)"
proof -
  from assms obtain i data where "find_region rs a = Some i" "i < length rs"
    "region_module (rs ! i) = Ram data" "region_contains (rs ! i) a"
    "unat (region_translate (rs ! i) a) < length data"
    by (rule mem_ram_addrE)
  moreover have "(rs ! i)\<lparr>region_module := Ram data\<rparr> = rs ! i"
    using \<open>region_module (rs ! i) = Ram data\<close> by simp
  then have "rs[i := (rs ! i)\<lparr>region_module := Ram data\<rparr>] = rs" by (simp only: list_update_id)
  ultimately show ?thesis
    by (simp add: read_at_def region_read_def ram_read_def mem_peek_def ram_peek_def)
qed

lemma write_at_ram:
  assumes "memory_wf rs" and "mem_ram_addr rs a"
  obtains rs' where "write_at a v rs = Inr rs'" and "memory_wf rs'"
    and "\<And>b. mem_ram_addr rs' b = mem_ram_addr rs b"
    and "\<And>b. find_region rs' b = find_region rs b"
    and "\<And>b. mem_peek rs' b = (if b = a then v else mem_peek rs b)"
proof -
  from assms obtain i data where i: "find_region rs a = Some i" "i < length rs"
    "region_module (rs ! i) = Ram data" "region_contains (rs ! i) a"
    "unat (region_translate (rs ! i) a) < length data"
    by (rule mem_ram_addrE)
  let ?r = "(rs ! i)\<lparr>region_module := Ram (data[unat (region_translate (rs ! i) a) := v])\<rparr>"
  let ?rs = "rs[i := ?r]"
  have w: "write_at a v rs = Inr ?rs"
    using i by (simp add: write_at_def region_write_def ram_write_def)
  have same: "same_bounds (rs ! i) ?r"
    using i(3) by (simp add: same_bounds_def region_size_def)
  note find = find_region_update [OF i(2) same]
  have tr: "region_translate ?r b = region_translate (rs ! i) b" for b
    by (simp add: region_translate_def)
  have ram: "mem_ram_addr ?rs b = mem_ram_addr rs b" for b
    using i(2,3) by (auto simp: mem_ram_addr_def find nth_list_update split: option.splits)
  have peek: "mem_peek ?rs b = (if b = a then v else mem_peek rs b)" for b
  proof (cases "find_region rs b = Some i")
    case True
    then show ?thesis
      using i by (auto simp: mem_peek_def find tr ram_peek_def nth_list_update
        unsigned_word_eqI word_unat_eq_iff [symmetric] region_translate_inject)
  next
    case False
    with i(1) have "b \<noteq> a" by auto
    with False i(2) show ?thesis
      by (auto simp: mem_peek_def find nth_list_update split: option.splits)
  qed
  show ?thesis by (rule that [OF w write_at_wf [OF assms(1) w] ram find peek])
qed

interpretation main_memory: byte_store memory_wf mem_ram_addr read_at write_at mem_peek
proof unfold_locales
  fix s a b v s'
  assume s: "memory_wf s" "mem_ram_addr s a"
  show "read_at a s = Inr (mem_peek s a, s)" by (rule read_at_ram [OF s])
  show "\<exists>s'. write_at a v s = Inr s' \<and> memory_wf s'" by (rule write_at_ram [OF s]) blast
  assume w: "write_at a v s = Inr s'"
  show "mem_ram_addr s' b = mem_ram_addr s b"
    by (rule write_at_ram [OF s, of v]) (use w in auto)
  show "mem_peek s' b = (if b = a then v else mem_peek s b)"
    by (rule write_at_ram [OF s, of v]) (use w in auto)
qed

section \<open>The default memory map\<close>

lemma build_regions_default:
  "build_regions [] [] =
     Inr [\<lparr>region_offset = 0, region_module = Ram (replicate 0x2000 0)\<rparr>,
          \<lparr>region_offset = 0x8000, region_module = Rom (replicate 0x8000 0xFF)\<rparr>]"
  by (simp add: build_regions_def make_ram_def make_rom_fill_def validate_size_def make_region_def
    is_power_of_two_def Let_def)

end
