(* ===== verification/Sim_Controller.thy ===== *)
theory Sim_Controller
  imports Micro_Compiler Sim_Memory
begin

text \<open>
  The controller of the simulator (\<open>sim/src/controller\<close>): the control encoder over byte
  vectors, the status encoder, and the instruction memory that burns a microcode program
  into a ROM and looks up the controls to assert.
\<close>

section \<open>ControlEncoder\<close>

text \<open>\<open>control_order\<close> is \<open>Cpu::ControlOrder()\<close>, the controls in the order of registration.\<close>

record sim_control_encoder =
  control_references :: "ctl list"
  control_word_width :: nat

definition control_encoder_initialize ::
  "ctl list \<Rightarrow> microcode_program \<Rightarrow> sim_error + sim_control_encoder" where
  "control_encoder_initialize control_order p =
     (if 128 < length (control_paths p) then Inl (Too_many_controls (length (control_paths p)))
      else if length control_order \<noteq> length (control_paths p) then Inl Control_table_size
      else bind_ok
        (fold_ok (\<lambda>i refs.
           if ctl_path (control_order ! i) \<noteq> control_paths p ! i
           then Inl (Control_order_mismatch (control_paths p ! i))
           else Inr (refs @ [control_order ! i])) [0..<length control_order] [])
        (\<lambda>refs. Inr \<lparr>control_references = refs, control_word_width = (length refs + 7) div 8\<rparr>))"

fun find_index :: "ctl \<Rightarrow> ctl list \<Rightarrow> nat option" where
  "find_index k [] = None"
| "find_index k (x # xs) = (if x = k then Some 0 else map_option Suc (find_index k xs))"

definition bytes_encode :: "sim_control_encoder \<Rightarrow> ctl list \<Rightarrow> sim_error + u8 list" where
  "bytes_encode enc ks =
     fold_ok (\<lambda>k w. case find_index k (control_references enc) of
                None \<Rightarrow> Inl (Control_not_found k)
              | Some i \<Rightarrow> Inr (w[i div 8 := (w ! (i div 8)) OR push_bit (i mod 8) 1]))
       ks (replicate (control_word_width enc) 0)"

definition bytes_decode :: "sim_control_encoder \<Rightarrow> u8 list \<Rightarrow> sim_error + ctl list" where
  "bytes_decode enc w =
     (if length w \<noteq> control_word_width enc
      then Inl (Control_word_size (control_word_width enc) (length w))
      else Inr (map (\<lambda>i. control_references enc ! i)
             (filter (\<lambda>i. drop_bit (i mod 8) (w ! (i div 8)) AND 1 \<noteq> 0)
               [0..<length (control_references enc)])))"

definition get_control :: "sim_control_encoder \<Rightarrow> nat \<Rightarrow> sim_error + ctl" where
  "get_control enc i =
     (if length (control_references enc) \<le> i then Inl (Control_index_range i)
      else Inr (control_references enc ! i))"

section \<open>StatusEncoder\<close>

definition status_map :: "(string \<times> flag) list" where
  "status_map = map (\<lambda>f. (flag_name f, f)) all_flags"

definition status_encoder_initialize :: "microcode_program \<Rightarrow> sim_error + flag list" where
  "status_encoder_initialize p =
     (if 8 < length (status_bits p) then Inl (Too_many_status_bits (length (status_bits p)))
      else map_ok (\<lambda>b. case map_of status_map (bit_name b) of
                None \<Rightarrow> Inl (Unknown_status_bit (bit_name b))
              | Some f \<Rightarrow>
                  (if flag_bit f \<noteq> unat (bit_index b) then Inl (Status_bit_mismatch (bit_name b))
                   else Inr f)) (status_bits p))"

definition status_encode :: "flag list \<Rightarrow> u8 \<Rightarrow> u8" where
  "status_encode refs st =
     fold (\<lambda>f e. if status_value f st then e OR push_bit (flag_bit f) 1 else e) refs 0"

text \<open>The decoder reads bit \<open>i\<close> for the \<open>i\<close>-th reference, not the bit of the reference.\<close>

definition sim_status_decode :: "flag list \<Rightarrow> u8 \<Rightarrow> bool list" where
  "sim_status_decode refs encoded =
     map (\<lambda>i. drop_bit i encoded AND 1 \<noteq> 0) [0..<length refs]"

definition status_permute :: "flag list \<Rightarrow> u8 \<Rightarrow> u8 \<Rightarrow> u8 list" where
  "status_permute refs wanted_mask wanted =
     (if refs = [] then [0]
      else filter (\<lambda>enc. enc AND wanted_mask = wanted AND wanted_mask)
             (map of_nat [0..<2 ^ length refs]))"

section \<open>InstructionMemory\<close>

record instruction_memory =
  im_controls :: sim_control_encoder
  im_status :: "flag list"
  im_rom :: "u128 list"

definition max_address :: "microcode_table \<Rightarrow> u32" where
  "max_address t = fold (\<lambda>(k, w) m. max m k) t 0"

definition burn :: "microcode_table \<Rightarrow> u128 list \<Rightarrow> sim_error + u128 list" where
  "burn t rom =
     fold_ok (\<lambda>(k, w) rom.
       if length rom \<le> unat k then Inl (Rom_read_range (unat k) (length rom))
       else Inr (rom[unat k := w])) t rom"

definition make_instruction_memory ::
  "ctl list \<Rightarrow> microcode_program \<Rightarrow> sim_error + instruction_memory" where
  "make_instruction_memory control_order p =
     bind_ok (control_encoder_initialize control_order p) (\<lambda>cenc.
     bind_ok (status_encoder_initialize p) (\<lambda>senc.
     bind_ok (burn (table p) (replicate (unat (max_address (table p)) + 1) 0)) (\<lambda>rom.
     Inr \<lparr>im_controls = cenc, im_status = senc, im_rom = rom\<rparr>)))"

definition rom_address :: "u8 \<Rightarrow> u8 \<Rightarrow> u8 \<Rightarrow> u32" where
  "rom_address op st status =
     ((push_bit 16 (ucast op) OR push_bit 8 (ucast st)) OR ucast status)"

definition lookup :: "instruction_memory \<Rightarrow> u8 \<Rightarrow> u8 \<Rightarrow> u8 \<Rightarrow> sim_error + ctl list" where
  "lookup im op st status =
     bind_ok (rom_storage_read (unat (rom_address op st status)) (im_rom im)) (\<lambda>w.
     let n = length (control_references (im_controls im)) in
     if n < 128 \<and> drop_bit n w \<noteq> 0 then Inl Control_word_overflow
     else map_ok (get_control (im_controls im))
            (filter (\<lambda>i. drop_bit i w AND 1 \<noteq> 0) [0..<n]))"

section \<open>The byte vectors are a codec\<close>

definition hdl_sim_encoder :: sim_control_encoder where
  "hdl_sim_encoder =
     \<lparr>control_references = hdl_controls, control_word_width = (length hdl_controls + 7) div 8\<rparr>"

lemma find_index_Some: "find_index k xs = Some i \<Longrightarrow> i < length xs \<and> xs ! i = k"
  by (induction xs arbitrary: i) (auto split: if_splits)

lemma find_index_nth: "distinct xs \<Longrightarrow> i < length xs \<Longrightarrow> find_index (xs ! i) xs = Some i"
  by (induction xs arbitrary: i) (auto simp: nth_Cons split: nat.splits)

lemma bytes_bit_update:
  assumes "i div 8 < length (w :: u8 list)"
  shows "bit ((w[i div 8 := (w ! (i div 8)) OR push_bit (i mod 8) 1]) ! (j div 8)) (j mod 8) \<longleftrightarrow>
    bit (w ! (j div 8)) (j mod 8) \<or> j = i"
proof -
  have "bit (push_bit (i mod 8) 1 :: u8) n \<longleftrightarrow> n = i mod 8" for n
    unfolding bit_push_bit_iff bit_1_iff using mod_less_divisor [of 8 i] by auto
  moreover have "j = i \<longleftrightarrow> j div 8 = i div 8 \<and> j mod 8 = i mod 8"
    by (metis div_mult_mod_eq)
  ultimately show ?thesis
    using assms by (auto simp: nth_list_update bit_or_iff)
qed

lemma bytes_encode_fold:
  assumes "set ks \<subseteq> set hdl_controls" and "length w0 = 12"
  shows "\<exists>w. fold_ok (\<lambda>k w. case find_index k hdl_controls of
                None \<Rightarrow> Inl (Control_not_found k)
              | Some i \<Rightarrow> Inr (w[i div 8 := (w ! (i div 8)) OR push_bit (i mod 8) 1])) ks (w0 :: u8 list) = Inr w \<and>
     length w = 12 \<and>
     (\<forall>j<length hdl_controls. bit (w ! (j div 8)) (j mod 8) \<longleftrightarrow>
        bit (w0 ! (j div 8)) (j mod 8) \<or> hdl_controls ! j \<in> set ks)"
  using assms
proof (induction ks arbitrary: w0)
  case Nil
  then show ?case by simp
next
  case (Cons k ks)
  then obtain i where i: "i < length hdl_controls" "hdl_controls ! i = k"
    by (auto simp: in_set_conv_nth)
  then have fi: "find_index k hdl_controls = Some i"
    using find_index_nth [OF distinct_hdl_controls, of i] by simp
  have lt: "i div 8 < length w0" using i(1) Cons.prems(2) by (simp add: length_hdl_controls)
  have eq: "j = i \<longleftrightarrow> hdl_controls ! j = k" if "j < length hdl_controls" for j
    using i that distinct_hdl_controls nth_eq_iff_index_eq by blast
  define w1 where "w1 = w0[i div 8 := (w0 ! (i div 8)) OR push_bit (i mod 8) 1]"
  have w1: "length w1 = 12" using Cons.prems(2) by (simp add: w1_def)
  have bit: "bit (w1 ! (j div 8)) (j mod 8) \<longleftrightarrow> bit (w0 ! (j div 8)) (j mod 8) \<or> hdl_controls ! j = k"
    if "j < length hdl_controls" for j
    unfolding w1_def bytes_bit_update [OF lt] eq [OF that] ..
  from Cons.prems(1) have "set ks \<subseteq> set hdl_controls" by simp
  from Cons.IH [OF this w1] show ?case
    by (auto simp: fi bit w1_def [symmetric] simp del: push_bit_of_1)
qed

interpretation bytes_codec: control_codec hdl_controls "bytes_encode hdl_sim_encoder"
  "bytes_decode hdl_sim_encoder"
proof
  fix ks assume ks: "set ks \<subseteq> set hdl_controls"
  let ?w0 = "replicate ((length hdl_controls + 7) div 8) 0 :: u8 list"
  have len: "length ?w0 = 12" by (simp add: length_hdl_controls)
  have zero: "\<not> bit (?w0 ! (j div 8)) (j mod 8)" if "j < length hdl_controls" for j
  proof -
    have "j div 8 < (length hdl_controls + 7) div 8" using that by (simp add: length_hdl_controls)
    then show ?thesis by (simp only: nth_replicate) simp
  qed
  from bytes_encode_fold [OF ks len] obtain w where
    w: "bytes_encode hdl_sim_encoder ks = Inr w" "length w = 12"
      "\<And>j. j < length hdl_controls \<Longrightarrow> bit (w ! (j div 8)) (j mod 8) \<longleftrightarrow> hdl_controls ! j \<in> set ks"
    using zero by (auto simp: bytes_encode_def hdl_sim_encoder_def)
  have "filter (\<lambda>i. drop_bit (i mod 8) (w ! (i div 8)) AND 1 \<noteq> 0) [0..<length hdl_controls] =
      filter (\<lambda>i. hdl_controls ! i \<in> set ks) [0..<length hdl_controls]"
    unfolding shift_and_1_iff_bit by (rule filter_cong) (auto simp: w(3))
  then have "bytes_decode hdl_sim_encoder w = Inr (filter (\<lambda>k. k \<in> set ks) hdl_controls)"
    using w(2) filter_index [of hdl_controls "\<lambda>k. k \<in> set ks"]
    by (simp add: bytes_decode_def hdl_sim_encoder_def length_hdl_controls)
  with w(1) show "\<exists>w. bytes_encode hdl_sim_encoder ks = Inr w \<and>
      bytes_decode hdl_sim_encoder w = Inr (filter (\<lambda>k. k \<in> set ks) hdl_controls)" by blast
qed

section \<open>Loading a compiled program\<close>

lemma control_encoder_initialize_hdl:
  assumes "control_paths p = map ctl_path hdl_controls"
  shows "control_encoder_initialize hdl_controls p = Inr hdl_sim_encoder"
proof -
  have "fold_ok (\<lambda>i refs.
           if ctl_path (hdl_controls ! i) \<noteq> control_paths p ! i
           then Inl (Control_order_mismatch (control_paths p ! i))
           else Inr (refs @ [hdl_controls ! i])) [0..<n] [] = Inr (take n hdl_controls)"
    if "n \<le> length hdl_controls" for n
    using that
  proof (induction n)
    case 0
    then show ?case by simp
  next
    case (Suc n)
    then show ?case by (simp add: fold_ok_append assms take_Suc_conv_app_nth)
  qed
  from this [of "length hdl_controls"] show ?thesis
    by (simp add: control_encoder_initialize_def assms hdl_sim_encoder_def length_hdl_controls)
qed

lemma status_encoder_initialize_cpu:
  assumes "status_bits p = build_status_bits"
  shows "status_encoder_initialize p = Inr all_flags"
  by (simp add: status_encoder_initialize_def assms build_status_bits_def status_map_def
    all_flags_def)

lemma bit_status_encode:
  "bit (status_encode refs st) n \<longleftrightarrow> (\<exists>f\<in>set refs. flag_bit f = n \<and> status_value f st)"
proof -
  have "bit (fold (\<lambda>f e. if status_value f st then e OR push_bit (flag_bit f) 1 else e) refs e) n \<longleftrightarrow>
      bit e n \<or> (\<exists>f\<in>set refs. flag_bit f = n \<and> status_value f st)" for e :: u8
  proof (induction refs arbitrary: e)
    case Nil
    then show ?case by simp
  next
    case (Cons f refs)
    have "bit (push_bit (flag_bit f) 1 :: u8) n \<longleftrightarrow> n = flag_bit f"
      unfolding bit_push_bit_iff bit_1_iff by (auto simp: flag_bit_less [of f, simplified])
    with Cons show ?case by (auto simp: bit_or_iff simp del: push_bit_of_1)
  qed
  from this [of 0] show ?thesis by (simp add: status_encode_def)
qed

text \<open>With all flags as references the encoding is the status register itself.\<close>

lemma status_encode_all [simp]: "status_encode all_flags st = st"
proof (rule bit_word_eqI)
  fix n assume "n < LENGTH(8)"
  then obtain f where f: "flag_bit f = n" using flag_bit_surj by auto
  then have "(\<exists>g. flag_bit g = n \<and> status_value g st) \<longleftrightarrow> status_value f st"
    by (metis flag_bit_inject)
  then show "bit (status_encode all_flags st) n \<longleftrightarrow> bit st n"
    using f by (auto simp: bit_status_encode set_all_flags status_value_bit)
qed

section \<open>The microcode ROM\<close>

lemma max_address_fold:
  "m \<le> fold (\<lambda>(k, w) m. max m k) t m \<and>
   (\<forall>(k, w) \<in> set t. k \<le> fold (\<lambda>(k, w) m. max m k) t (m :: u32))"
proof (induction t arbitrary: m)
  case Nil
  then show ?case by simp
next
  case (Cons kw t)
  obtain k w where kw: "kw = (k, w)" by (cases kw)
  from Cons.IH [of "max m k"] show ?case by (auto simp: kw)
qed

lemma max_address_ge: "(k, w) \<in> set t \<Longrightarrow> k \<le> max_address t"
  using max_address_fold [of 0 t] by (auto simp: max_address_def)

lemma burn_ok:
  assumes "list_all (\<lambda>(k, w). unat k < length rom) t" and "distinct (map fst t)"
  shows "\<exists>rom'. burn t rom = Inr rom' \<and> length rom' = length rom \<and>
    (\<forall>k. unat k < length rom \<longrightarrow>
       rom' ! unat k = (case map_of t k of None \<Rightarrow> rom ! unat k | Some w \<Rightarrow> w))"
  using assms
proof (induction t arbitrary: rom)
  case Nil
  then show ?case by (simp add: burn_def)
next
  case (Cons kw t)
  obtain k w where kw: "kw = (k, w)" by (cases kw)
  from Cons.prems have k: "unat k < length rom" and none: "map_of t k = None"
    by (auto simp: kw map_of_eq_None_iff)
  from Cons.IH [of "rom[unat k := w]"] Cons.prems obtain rom' where
    rom': "burn t (rom[unat k := w]) = Inr rom'" "length rom' = length rom"
      "\<And>l. unat l < length rom \<Longrightarrow>
         rom' ! unat l = (case map_of t l of None \<Rightarrow> rom[unat k := w] ! unat l | Some w \<Rightarrow> w)"
    by (auto simp: kw)
  have "rom' ! unat l = (case map_of (kw # t) l of None \<Rightarrow> rom ! unat l | Some w \<Rightarrow> w)"
    if "unat l < length rom" for l
    using rom'(3) [OF that] none k that
    by (cases "l = k") (auto simp: kw nth_list_update word_unat_eq_iff split: option.splits)
  with rom'(1,2) k show ?case by (auto simp: burn_def kw)
qed

lemma rom_address_key: "rom_address op st status = encode_key (make_key op st status)"
  by (simp add: rom_address_def encode_key_def make_key_def)

definition rom_word :: "microcode_program \<Rightarrow> u32 \<Rightarrow> u128" where
  "rom_word p k = (case map_of (table p) k of None \<Rightarrow> 0 | Some w \<Rightarrow> w)"

lemma make_instruction_memory_hdl:
  assumes "control_paths p = map ctl_path hdl_controls" and "status_bits p = build_status_bits"
    and "distinct (map fst (table p))"
  obtains rom where "make_instruction_memory hdl_controls p =
      Inr \<lparr>im_controls = hdl_sim_encoder, im_status = all_flags, im_rom = rom\<rparr>"
    and "length rom = unat (max_address (table p)) + 1"
    and "\<And>k. unat k < length rom \<Longrightarrow> rom ! unat k = rom_word p k"
proof -
  let ?rom = "replicate (unat (max_address (table p)) + 1) (0 :: u128)"
  have "list_all (\<lambda>(k, w). unat k < length ?rom) (table p)"
    using max_address_ge by (fastforce simp: list_all_iff word_le_nat_alt less_Suc_eq_le)
  from burn_ok [OF this assms(3)] obtain rom where
    rom: "burn (table p) ?rom = Inr rom" "length rom = length ?rom"
      "\<And>k. unat k < length ?rom \<Longrightarrow>
         rom ! unat k = (case map_of (table p) k of None \<Rightarrow> ?rom ! unat k | Some w \<Rightarrow> w)"
    by blast
  show ?thesis
  proof (rule that)
    show "make_instruction_memory hdl_controls p =
        Inr \<lparr>im_controls = hdl_sim_encoder, im_status = all_flags, im_rom = rom\<rparr>"
      using rom(1)
      by (simp add: make_instruction_memory_def control_encoder_initialize_hdl [OF assms(1)]
        status_encoder_initialize_cpu [OF assms(2)])
    show "length rom = unat (max_address (table p)) + 1" using rom(2) by simp
    fix k :: u32 assume k: "unat k < length rom"
    then have "?rom ! unat k = 0" by (simp only: rom(2) length_replicate nth_replicate)
    with rom(3) [of k] k rom(2) show "rom ! unat k = rom_word p k"
      by (simp add: rom_word_def split: option.splits)
  qed
qed

lemma get_control_hdl:
  "i < length hdl_controls \<Longrightarrow> get_control hdl_sim_encoder i = Inr (hdl_controls ! i)"
  by (simp add: get_control_def hdl_sim_encoder_def)

lemma lookup_word:
  assumes "rom_storage_read (unat (rom_address op st status)) rom = Inr w"
    and "\<And>n. bit w n \<Longrightarrow> n < length hdl_controls"
  shows "lookup \<lparr>im_controls = hdl_sim_encoder, im_status = fs, im_rom = rom\<rparr> op st status =
    Inr (map (\<lambda>i. hdl_controls ! i) (filter (bit w) [0..<length hdl_controls]))"
proof -
  have "drop_bit (length hdl_controls) w = 0"
    using assms(2) by (intro bit_word_eqI) (auto simp: bit_drop_bit_eq)
  moreover have "map_ok (get_control hdl_sim_encoder) (filter (bit w) [0..<length hdl_controls]) =
      Inr (map (\<lambda>i. hdl_controls ! i) (filter (bit w) [0..<length hdl_controls]))"
    by (rule map_ok_cong_Inr) (simp add: get_control_hdl)
  ultimately show ?thesis
    by (simp add: lookup_def assms(1) Let_def shift_and_1_iff_bit hdl_sim_encoder_def)
qed

text \<open>
  From source to signals: a program the compiler accepted loads, and looking up a step of a
  variant at a status it covers yields exactly the controls of that step, in the order of
  the schematic.
\<close>

lemma compiled_lookup:
  assumes "compile (cpu_compiler isa) s = Inr p"
  obtains im where "make_instruction_memory hdl_controls p = Inr im"
    and "im_status im = all_flags"
    and "\<And>i v st j. i \<in> set (instructions s) \<Longrightarrow> v \<in> set (variants i) \<Longrightarrow>
      variant_matches cpu_status_encoder v st \<Longrightarrow>
      j < length (final_steps (cpu_compiler isa) s v) \<Longrightarrow>
      lookup im (opcode i) (of_nat j) st =
        Inr (filter (\<lambda>k. k \<in> set (controls (final_steps (cpu_compiler isa) s v ! j))) hdl_controls)"
proof -
  obtain s' where e: "encode_program (cpu_compiler isa) s' = Inr p"
    using compile_encoded [OF assms] .
  have tables: "control_paths p = map ctl_path hdl_controls" "status_bits p = build_status_bits"
    using encode_program_tables [OF e]
    by (simp_all add: cpu_compiler_def hdl_encoder_def cpu_status_encoder_def)
  obtain rom where rom: "make_instruction_memory hdl_controls p =
      Inr \<lparr>im_controls = hdl_sim_encoder, im_status = all_flags, im_rom = rom\<rparr>"
    "length rom = unat (max_address (table p)) + 1"
    "\<And>k. unat k < length rom \<Longrightarrow> rom ! unat k = rom_word p k"
    using make_instruction_memory_hdl [OF tables encode_program_distinct [OF e]] by blast
  show ?thesis
  proof (rule that [OF rom(1)])
    show "im_status \<lparr>im_controls = hdl_sim_encoder, im_status = all_flags, im_rom = rom\<rparr> = all_flags"
      by simp
    fix i v st j
    assume iv: "i \<in> set (instructions s)" "v \<in> set (variants i)"
      "variant_matches cpu_status_encoder v st" "j < length (final_steps (cpu_compiler isa) s v)"
    let ?ks = "controls (final_steps (cpu_compiler isa) s v ! j)"
    let ?a = "rom_address (opcode i) (of_nat j) st"
    obtain w where w: "map_of (table p) ?a = Some w" "control_encode hdl_encoder ?ks = Inr w"
      "set ?ks \<subseteq> set hdl_controls"
      using compile_table [OF assms iv] by (metis rom_address_key)
    have bits: "bit w n \<longleftrightarrow> n < length hdl_controls \<and> hdl_controls ! n \<in> set ?ks" for n
      using control_encode_bits [OF w(3)] w(2) by (metis sum.inject(2))
    have "?a \<le> max_address (table p)" using map_of_SomeD [OF w(1)] by (rule max_address_ge)
    then have lt: "unat ?a < length rom" by (simp add: rom(2) word_le_nat_alt less_Suc_eq_le)
    then have "rom_storage_read (unat ?a) rom = Inr w"
      using rom(3) [of ?a] w(1) by (simp add: rom_storage_read_def rom_word_def)
    then have "lookup \<lparr>im_controls = hdl_sim_encoder, im_status = all_flags, im_rom = rom\<rparr>
        (opcode i) (of_nat j) st =
      Inr (map (\<lambda>n. hdl_controls ! n) (filter (bit w) [0..<length hdl_controls]))"
      by (rule lookup_word) (simp add: bits)
    also have "filter (bit w) [0..<length hdl_controls] =
        filter (\<lambda>n. hdl_controls ! n \<in> set ?ks) [0..<length hdl_controls]"
      by (rule filter_cong) (auto simp: bits)
    also have "map (\<lambda>n. hdl_controls ! n) \<dots> = filter (\<lambda>k. k \<in> set ?ks) hdl_controls"
      by (rule filter_index [of hdl_controls "\<lambda>k. k \<in> set ?ks"])
    finally show "lookup \<lparr>im_controls = hdl_sim_encoder, im_status = all_flags, im_rom = rom\<rparr>
        (opcode i) (of_nat j) st = Inr (filter (\<lambda>k. k \<in> set ?ks) hdl_controls)" .
  qed
qed

end
