(* ===== verification/Sim_Trace.thy ===== *)
theory Sim_Trace
  imports Base_Types
begin

text \<open>The ring of executed instructions kept for debugging (\<open>sim/debug_trace.h\<close>).\<close>

record trace_entry =
  entry_cycle :: u64
  entry_instruction_address :: u16
  entry_pc :: u16
  entry_ir :: u8
  entry_sc :: u8
  entry_a :: u8
  entry_x :: u8
  entry_status :: u8

record trace_buffer =
  trace_depth :: nat
  trace_entries :: "trace_entry list"

definition trace_init :: trace_buffer where
  "trace_init = \<lparr>trace_depth = 0, trace_entries = []\<rparr>"

definition trace_configure :: "nat \<Rightarrow> trace_buffer \<Rightarrow> trace_buffer" where
  "trace_configure depth b = b\<lparr>trace_depth := depth, trace_entries := []\<rparr>"

definition trace_enabled :: "trace_buffer \<Rightarrow> bool" where
  "trace_enabled b \<longleftrightarrow> 0 < trace_depth b"

definition trace_record :: "trace_entry \<Rightarrow> trace_buffer \<Rightarrow> trace_buffer" where
  "trace_record e b =
     (if \<not> trace_enabled b then b
      else let kept = (if trace_depth b \<le> length (trace_entries b)
                       then tl (trace_entries b) else trace_entries b)
           in b\<lparr>trace_entries := kept @ [e]\<rparr>)"

definition last_n :: "nat \<Rightarrow> 'a list \<Rightarrow> 'a list" where
  "last_n n xs = drop (length xs - n) xs"

lemma trace_record_entries:
  assumes "trace_entries b = last_n (trace_depth b) es"
  shows "trace_entries (trace_record e b) = last_n (trace_depth b) (es @ [e])"
proof (cases "trace_depth b = 0")
  case True
  with assms show ?thesis by (simp add: trace_record_def trace_enabled_def last_n_def)
next
  case False
  then obtain n where n: "trace_depth b = Suc n" by (cases "trace_depth b") auto
  show ?thesis
  proof (cases "Suc n \<le> length es")
    case True
    then have "tl (drop (length es - Suc n) es) = drop (length es - n) es"
      by (simp add: tl_drop drop_Suc [symmetric] Suc_diff_Suc drop_Suc)
    with True assms n show ?thesis
      by (simp add: trace_record_def trace_enabled_def last_n_def Let_def)
  next
    case False
    with assms n show ?thesis
      by (simp add: trace_record_def trace_enabled_def last_n_def Let_def)
  qed
qed

lemma trace_record_depth [simp]: "trace_depth (trace_record e b) = trace_depth b"
  by (simp add: trace_record_def Let_def)

text \<open>After any number of records the buffer holds the latest \<open>depth\<close> of them, in order.\<close>

lemma trace_keeps_latest:
  "trace_entries (fold trace_record es (trace_configure depth b)) = last_n depth es"
proof (induction es rule: rev_induct)
  case Nil
  then show ?case by (simp add: trace_configure_def last_n_def)
next
  case (snoc e es)
  have "trace_depth (fold trace_record es (trace_configure depth b)) = depth"
    by (induction es rule: rev_induct) (simp_all add: trace_configure_def)
  with snoc show ?case
    using trace_record_entries [of "fold trace_record es (trace_configure depth b)" es e] by simp
qed

end
