(* ===== verification/Sim_Cpu.thy ===== *)
theory Sim_Cpu
  imports Sim_Alu Sim_Controller Sim_Trace
begin

text \<open>
  The processor (\<open>sim/src/cpu.cpp\<close> and the component classes of \<open>sim/include\<close>): its
  state, the list of components in the order of registration, the virtual tick functions of
  every class, and \<open>Tick\<close> and \<open>RunUntilHalt\<close>.
\<close>

section \<open>State\<close>

record cpu =
  cur_phase :: tick_phase
  sig :: "controls"
  data_bus :: "u8 bus"
  address_bus :: "u16 bus"
  byte_regs :: "comp \<Rightarrow> u8"
  word_regs :: "comp \<Rightarrow> u16"
  inject_interrupt :: bool
  mem :: memory
  instruction_mem :: "instruction_memory option"
  halted :: bool
  crashed :: bool
  cycle_count :: u64
  ipc_valid :: bool
  trace :: trace_buffer

abbreviation status_reg :: "cpu \<Rightarrow> u8" where
  "status_reg s \<equiv> byte_regs s Status"

definition set_byte :: "comp \<Rightarrow> u8 \<Rightarrow> cpu \<Rightarrow> cpu" where
  "set_byte c v s = s\<lparr>byte_regs := (byte_regs s)(c := v)\<rparr>"

definition set_word :: "comp \<Rightarrow> u16 \<Rightarrow> cpu \<Rightarrow> cpu" where
  "set_word c v s = s\<lparr>word_regs := (word_regs s)(c := v)\<rparr>"

definition asserted :: "cpu \<Rightarrow> ctl \<Rightarrow> sim_error + bool" where
  "asserted s k = control_asserted (cur_phase s) k (sig s)"

text \<open>\<open>InstructionRegister::value\<close>: the injected opcode hides the register.\<close>

definition ir_value :: "cpu \<Rightarrow> u8" where
  "ir_value s = (if inject_interrupt s then 0x00 else byte_regs s Ir)"

section \<open>Components in the order of registration\<close>

definition registered :: "comp \<Rightarrow> control_op list \<Rightarrow> node list" where
  "registered c ops = Comp_node c # map (\<lambda>op. Control_node (Ctl c op)) ops"

definition sim_children :: "node list" where
  "sim_children =
     [Control_node (Ctl Cpu_root Halt), Control_node (Ctl Cpu_root Crash),
      Control_node (Ctl Cpu_root Irq_line), Comp_node Data_bus, Comp_node Address_bus] @
     registered Reg_a [Write, Read, Reset] @
     registered Reg_x [Write, Read, Reset] @
     registered Reg_y [Write, Read, Reset] @
     registered Reg_sp [Write, Read, Reset, Increment, Decrement] @
     registered Reg_tmp [Write, Read, Reset] @
     registered Alu [] @
     registered Alu_lhs [Write, Read, Reset] @
     registered Alu_rhs [Write, Read, Reset] @
     registered Alu_result [Write, Read, Reset] @
     [Control_node (Ctl Alu Opcode_bit_0), Control_node (Ctl Alu Opcode_bit_1),
      Control_node (Ctl Alu Opcode_bit_2), Control_node (Ctl Alu Opcode_bit_3)] @
     registered Pc [Write, Read, Reset] @
     registered Pc_low [Write, Read, Reset] @
     registered Pc_high [Write, Read, Reset] @
     registered Pc_signed_offset [Write, Read, Reset] @
     [Control_node (Ctl Pc Increment), Control_node (Ctl Pc Add_signed_offset)] @
     registered Status [Write, Read, Reset] @
     registered (Flag Negative) [Set_flag, Clear_flag] @
     registered (Flag Overflow) [Set_flag, Clear_flag] @
     registered (Flag Unused) [Set_flag, Clear_flag] @
     registered (Flag Brk) [Set_flag, Clear_flag] @
     registered (Flag Decimal) [Set_flag, Clear_flag] @
     registered (Flag Interrupt_disable) [Set_flag, Clear_flag] @
     registered (Flag Zero) [Set_flag, Clear_flag] @
     registered (Flag Carry) [Set_flag, Clear_flag] @
     registered Analyzer [Write, Read, Reset] @
     registered Controller [] @
     registered Ir [Write, Read, Reset] @
     [Control_node (Ctl Controller Instruction_start)] @
     registered Sc [Reset, Increment, Decrement] @
     registered Ipc [Latch] @
     registered Memory [Write, Read] @
     registered Mar [Write, Read, Reset] @
     registered Mar_low [Write, Read, Reset] @
     registered Mar_high [Write, Read, Reset] @
     registered Mar_offset [Write, Read, Reset] @
     [Control_node (Ctl Mar Add_offset), Control_node (Ctl Mar Increment),
      Control_node (Ctl Mar Stack_page), Control_node (Ctl Mar Interrupt_vector)]"

text \<open>\<open>BuildControlIndex\<close> and \<open>ValidateAgainstHdl\<close>.\<close>

fun index_controls :: "ctl list \<Rightarrow> (string \<times> ctl) list \<Rightarrow> sim_error + (string \<times> ctl) list" where
  "index_controls [] idx = Inr idx"
| "index_controls (k # ks) idx =
     (case map_of idx (ctl_path k) of
        Some _ \<Rightarrow> Inl (Duplicate_control_path (ctl_path k))
      | None \<Rightarrow> index_controls ks (idx @ [(ctl_path k, k)]))"

definition validate_against_hdl ::
  "(string \<times> ctl) list \<Rightarrow> string list \<Rightarrow> string list \<Rightarrow> sim_error + unit" where
  "validate_against_hdl by_path paths hdl_paths =
     (if length paths < length hdl_paths then Inl Fewer_controls_than_hdl
      else fold_ok (\<lambda>i u.
        if map_of by_path (hdl_paths ! i) = None then Inl (Hdl_control_missing (hdl_paths ! i))
        else if i < length paths \<and> paths ! i \<noteq> hdl_paths ! i then Inl (Hdl_order_mismatch i)
        else Inr ()) [0..<length hdl_paths] ())"

definition resolve_control :: "(string \<times> ctl) list \<Rightarrow> string \<Rightarrow> sim_error + ctl" where
  "resolve_control by_path path =
     (if path = [] then Inl Control_path_empty
      else case map_of by_path path of
        None \<Rightarrow> Inl (Control_path_not_found path)
      | Some k \<Rightarrow> Inr k)"

lemma sim_control_order: "node_controls sim_children = hdl_controls"
  by (simp add: sim_children_def registered_def hdl_controls_def visit_defs)

section \<open>Classes of components\<close>

text \<open>The class of each member decides which tick functions run (virtual dispatch).\<close>

datatype sim_class =
    Class_plain
  | Class_byte_bus
  | Class_word_bus
  | Class_byte_register
  | Class_byte_counter
  | Class_word_register
  | Class_byte_port comp bool
  | Class_program_counter
  | Class_mar
  | Class_alu
  | Class_status flag
  | Class_analyzer
  | Class_controller
  | Class_ir
  | Class_local_counter
  | Class_latched_word
  | Class_memory

fun class_of :: "comp \<Rightarrow> sim_class" where
  "class_of Cpu_root = Class_plain"
| "class_of Data_bus = Class_byte_bus"
| "class_of Address_bus = Class_word_bus"
| "class_of Reg_a = Class_byte_register"
| "class_of Reg_x = Class_byte_register"
| "class_of Reg_y = Class_byte_register"
| "class_of Reg_sp = Class_byte_counter"
| "class_of Reg_tmp = Class_word_register"
| "class_of Alu = Class_alu"
| "class_of Alu_lhs = Class_byte_register"
| "class_of Alu_rhs = Class_byte_register"
| "class_of Alu_result = Class_byte_register"
| "class_of Pc = Class_program_counter"
| "class_of Pc_low = Class_byte_port Pc False"
| "class_of Pc_high = Class_byte_port Pc True"
| "class_of Pc_signed_offset = Class_byte_register"
| "class_of Status = Class_byte_register"
| "class_of (Flag f) = Class_status f"
| "class_of Analyzer = Class_analyzer"
| "class_of Controller = Class_controller"
| "class_of Ir = Class_ir"
| "class_of Sc = Class_local_counter"
| "class_of Ipc = Class_latched_word"
| "class_of Memory = Class_memory"
| "class_of Mar = Class_mar"
| "class_of Mar_low = Class_byte_port Mar False"
| "class_of Mar_high = Class_byte_port Mar True"
| "class_of Mar_offset = Class_byte_register"

section \<open>Control phase\<close>

definition controller_tick_control :: "cpu \<Rightarrow> sim_error + cpu" where
  "controller_tick_control s =
     (case instruction_mem s of
        None \<Rightarrow> Inl No_microcode
      | Some im \<Rightarrow>
          bind_ok (lookup im (ir_value s) (byte_regs s Sc) (status_encode (im_status im) (status_reg s)))
            (\<lambda>ks. bind_ok (fold_ok (control_assert (cur_phase s)) ks (sig s))
              (\<lambda>cs. Inr (s\<lparr>sig := cs\<rparr>))))"

fun child_tick_control :: "node \<Rightarrow> cpu \<Rightarrow> sim_error + cpu" where
  "child_tick_control (Control_node k) s = Inr s"
| "child_tick_control (Comp_node c) s =
     (case class_of c of
        Class_controller \<Rightarrow> controller_tick_control s
      | Class_memory \<Rightarrow>
          bind_ok (memory_tick_control (cur_phase s) (mem s) (sig s)) (\<lambda>cs. Inr (s\<lparr>sig := cs\<rparr>))
      | _ \<Rightarrow> Inr s)"

section \<open>Write phase\<close>

definition data_write :: "comp \<Rightarrow> u8 \<Rightarrow> cpu \<Rightarrow> sim_error + cpu" where
  "data_write c v s =
     bind_ok (bus_write (cur_phase s) v (comp_path c) (data_bus s)) (\<lambda>b. Inr (s\<lparr>data_bus := b\<rparr>))"

definition address_write :: "comp \<Rightarrow> u16 \<Rightarrow> cpu \<Rightarrow> sim_error + cpu" where
  "address_write c v s =
     bind_ok (bus_write (cur_phase s) v (comp_path c) (address_bus s)) (\<lambda>b. Inr (s\<lparr>address_bus := b\<rparr>))"

definition port_value :: "comp \<Rightarrow> bool \<Rightarrow> cpu \<Rightarrow> u8" where
  "port_value c is_high s =
     (if is_high then word_high (word_regs s c) else word_low (word_regs s c))"

definition set_port :: "comp \<Rightarrow> bool \<Rightarrow> u8 \<Rightarrow> cpu \<Rightarrow> cpu" where
  "set_port c is_high v s =
     set_word c (if is_high then word_of_bytes v (word_low (word_regs s c))
                 else word_of_bytes (word_high (word_regs s c)) v) s"

definition when_asserted :: "ctl \<Rightarrow> (cpu \<Rightarrow> sim_error + cpu) \<Rightarrow> cpu \<Rightarrow> sim_error + cpu" where
  "when_asserted k act s = bind_ok (asserted s k) (\<lambda>b. if b then act s else Inr s)"

text \<open>A memory write to the bus reads the memory at the address register, side effects included.\<close>

definition memory_read_value :: "cpu \<Rightarrow> sim_error + (u8 \<times> cpu)" where
  "memory_read_value s =
     bind_ok (read_at (word_regs s Mar) (mem s)) (\<lambda>(v, m). Inr (v, s\<lparr>mem := m\<rparr>))"

fun child_tick_write :: "node \<Rightarrow> cpu \<Rightarrow> sim_error + cpu" where
  "child_tick_write (Control_node k) s = Inr s"
| "child_tick_write (Comp_node c) s =
     (let w = when_asserted (Ctl c Write) in
      case class_of c of
        Class_byte_register \<Rightarrow> w (\<lambda>s. data_write c (byte_regs s c) s) s
      | Class_byte_counter \<Rightarrow> w (\<lambda>s. data_write c (byte_regs s c) s) s
      | Class_analyzer \<Rightarrow> w (\<lambda>s. data_write c (byte_regs s c) s) s
      | Class_ir \<Rightarrow> w (\<lambda>s. data_write c (byte_regs s c) s) s
      | Class_word_register \<Rightarrow> w (\<lambda>s. address_write c (word_regs s c) s) s
      | Class_program_counter \<Rightarrow> w (\<lambda>s. address_write c (word_regs s c) s) s
      | Class_mar \<Rightarrow> w (\<lambda>s. address_write c (word_regs s c) s) s
      | Class_byte_port p is_high \<Rightarrow> w (\<lambda>s. data_write c (port_value p is_high s) s) s
      | Class_memory \<Rightarrow> w (\<lambda>s. bind_ok (memory_read_value s) (\<lambda>(v, s'). data_write c v s')) s
      | _ \<Rightarrow> Inr s)"

section \<open>Read phase\<close>

definition data_read :: "comp \<Rightarrow> cpu \<Rightarrow> sim_error + u8" where
  "data_read c s = bus_read (cur_phase s) (comp_path c) (data_bus s)"

definition address_read :: "comp \<Rightarrow> cpu \<Rightarrow> sim_error + u16" where
  "address_read c s = bus_read (cur_phase s) (comp_path c) (address_bus s)"

fun child_tick_read :: "node \<Rightarrow> cpu \<Rightarrow> sim_error + cpu" where
  "child_tick_read (Control_node k) s = Inr s"
| "child_tick_read (Comp_node c) s =
     (let r = when_asserted (Ctl c Read);
          byte = r (\<lambda>s. bind_ok (data_read c s) (\<lambda>v. Inr (set_byte c v s)));
          word = r (\<lambda>s. bind_ok (address_read c s) (\<lambda>v. Inr (set_word c v s)))
      in case class_of c of
        Class_byte_register \<Rightarrow> byte s
      | Class_byte_counter \<Rightarrow> byte s
      | Class_ir \<Rightarrow> byte s
      | Class_analyzer \<Rightarrow>
          bind_ok (byte s) (\<lambda>s.
            when_asserted (Ctl c Read)
              (\<lambda>s. Inr (set_byte Status (analyze (byte_regs s c) (status_reg s)) s)) s)
      | Class_word_register \<Rightarrow> word s
      | Class_program_counter \<Rightarrow> word s
      | Class_mar \<Rightarrow> word s
      | Class_byte_port p is_high \<Rightarrow>
          r (\<lambda>s. bind_ok (data_read c s) (\<lambda>v. Inr (set_port p is_high v s))) s
      | Class_memory \<Rightarrow>
          r (\<lambda>s. bind_ok (data_read c s) (\<lambda>v.
               bind_ok (write_at (word_regs s Mar) v (mem s)) (\<lambda>m. Inr (s\<lparr>mem := m\<rparr>)))) s
      | _ \<Rightarrow> Inr s)"

section \<open>Process phase\<close>

definition process_reset_byte :: "comp \<Rightarrow> cpu \<Rightarrow> sim_error + cpu" where
  "process_reset_byte c s = when_asserted (Ctl c Reset) (\<lambda>s. Inr (set_byte c 0 s)) s"

definition process_reset_word :: "comp \<Rightarrow> cpu \<Rightarrow> sim_error + cpu" where
  "process_reset_word c s = when_asserted (Ctl c Reset) (\<lambda>s. Inr (set_word c 0 s)) s"

definition process_counter :: "comp \<Rightarrow> cpu \<Rightarrow> sim_error + cpu" where
  "process_counter c s =
     bind_ok (asserted s (Ctl c Reset)) (\<lambda>reset.
     if reset then Inr (set_byte c 0 s)
     else bind_ok (asserted s (Ctl c Increment)) (\<lambda>inc.
     if inc then Inr (set_byte c (byte_add (byte_regs s c) 1) s)
     else when_asserted (Ctl c Decrement)
            (\<lambda>s. Inr (set_byte c (byte_sub (byte_regs s c) 1) s)) s))"

text \<open>The sign extension and wrap-around of \<open>ProgramCounter::TickProcess\<close>.\<close>

definition add_signed_offset :: "u8 \<Rightarrow> u16 \<Rightarrow> u16" where
  "add_signed_offset offset pc =
     (let updated = int (unat pc) + sint offset;
          wrapped = (of_int updated :: u32) AND 0xFFFF
      in ucast wrapped)"

definition process_pc :: "cpu \<Rightarrow> sim_error + cpu" where
  "process_pc s =
     bind_ok (asserted s (Ctl Pc Reset)) (\<lambda>reset.
     if reset then Inr (set_word Pc 0 s)
     else bind_ok
       (when_asserted (Ctl Pc Increment) (\<lambda>s. Inr (set_word Pc (word_add (word_regs s Pc) 1) s)) s)
       (when_asserted (Ctl Pc Add_signed_offset)
         (\<lambda>s. Inr (set_word Pc (add_signed_offset (byte_regs s Pc_signed_offset) (word_regs s Pc)) s))))"

definition process_port :: "comp \<Rightarrow> comp \<Rightarrow> bool \<Rightarrow> cpu \<Rightarrow> sim_error + cpu" where
  "process_port c p is_high s = when_asserted (Ctl c Reset) (\<lambda>s. Inr (set_port p is_high 0 s)) s"

text \<open>The 16-bit sum of the low byte and the offset, with its carry into the high byte.\<close>

definition mar_add_offset :: "u8 \<Rightarrow> u16 \<Rightarrow> u16" where
  "mar_add_offset offset w =
     (let sum = (ucast (word_low w) :: u16) + ucast offset;
          new_low = (ucast (sum AND 0xFF) :: u8);
          carry = (if sum > 0xFF then 1 else 0 :: u8);
          new_high = word_high w + carry
      in word_of_bytes new_high new_low)"

definition process_mar :: "cpu \<Rightarrow> sim_error + cpu" where
  "process_mar s =
     seq_ok
       [when_asserted (Ctl Mar Interrupt_vector) (\<lambda>s. Inr (set_word Mar 0xFFFE s)),
        when_asserted (Ctl Mar Stack_page) (\<lambda>s. Inr (set_port Mar True 0x01 s)),
        when_asserted (Ctl Mar Increment) (\<lambda>s. Inr (set_word Mar (word_add (word_regs s Mar) 1) s)),
        when_asserted (Ctl Mar Add_offset)
          (\<lambda>s. Inr (set_word Mar (mar_add_offset (byte_regs s Mar_offset) (word_regs s Mar)) s))] s"

definition process_alu :: "cpu \<Rightarrow> sim_error + cpu" where
  "process_alu s =
     bind_ok (asserted s (Ctl Alu Opcode_bit_0)) (\<lambda>b0.
     bind_ok (asserted s (Ctl Alu Opcode_bit_1)) (\<lambda>b1.
     bind_ok (asserted s (Ctl Alu Opcode_bit_2)) (\<lambda>b2.
     bind_ok (asserted s (Ctl Alu Opcode_bit_3)) (\<lambda>b3.
     let op = alu_opcode b0 b1 b2 b3 in
     if op = 0 then Inr s
     else let (res, st) = alu_exec op (byte_regs s Alu_lhs) (byte_regs s Alu_rhs)
                            (byte_regs s Alu_result, status_reg s)
          in Inr (set_byte Status st (set_byte Alu_result res s))))))"

definition process_status :: "flag \<Rightarrow> cpu \<Rightarrow> sim_error + cpu" where
  "process_status f s =
     bind_ok (asserted s (Ctl (Flag f) Set_flag)) (\<lambda>want_set.
     bind_ok (asserted s (Ctl (Flag f) Clear_flag)) (\<lambda>want_clear.
     Inr (set_byte Status (status_tick_process f want_set want_clear (status_reg s)) s)))"

definition process_controller :: "cpu \<Rightarrow> sim_error + cpu" where
  "process_controller s =
     when_asserted (Ctl Controller Instruction_start)
       (\<lambda>s. Inr (set_word Ipc (word_regs s Pc) s)) s"

definition process_ir :: "cpu \<Rightarrow> sim_error + cpu" where
  "process_ir s =
     bind_ok (process_reset_byte Ir s) (\<lambda>s.
     bind_ok (asserted s (Ctl Ir Reset)) (\<lambda>reset.
     if reset then Inr (s\<lparr>inject_interrupt := False\<rparr>)
     else when_asserted (Ctl Controller Instruction_start)
       (\<lambda>s. bind_ok (asserted s (Ctl Cpu_root Irq_line)) (\<lambda>line.
              Inr (s\<lparr>inject_interrupt := line \<and> \<not> status_value Interrupt_disable (status_reg s)\<rparr>))) s))"

fun child_tick_process :: "node \<Rightarrow> cpu \<Rightarrow> sim_error + cpu" where
  "child_tick_process (Control_node k) s = Inr s"
| "child_tick_process (Comp_node c) s =
     (case class_of c of
        Class_byte_register \<Rightarrow> process_reset_byte c s
      | Class_analyzer \<Rightarrow> process_reset_byte c s
      | Class_byte_counter \<Rightarrow> process_counter c s
      | Class_local_counter \<Rightarrow> process_counter c s
      | Class_word_register \<Rightarrow> process_reset_word c s
      | Class_program_counter \<Rightarrow> process_pc s
      | Class_mar \<Rightarrow> process_mar s
      | Class_byte_port p is_high \<Rightarrow> process_port c p is_high s
      | Class_alu \<Rightarrow> process_alu s
      | Class_status f \<Rightarrow> process_status f s
      | Class_controller \<Rightarrow> process_controller s
      | Class_ir \<Rightarrow> process_ir s
      | Class_latched_word \<Rightarrow>
          when_asserted (Ctl c Latch) (\<lambda>s. Inr (set_word c (word_regs s Pc) s)) s
      | _ \<Rightarrow> Inr s)"

section \<open>Clear phase\<close>

fun child_tick_clear :: "node \<Rightarrow> cpu \<Rightarrow> sim_error + cpu" where
  "child_tick_clear (Control_node k) s = Inr (s\<lparr>sig := control_tick_clear k (sig s)\<rparr>)"
| "child_tick_clear (Comp_node c) s =
     (case class_of c of
        Class_byte_bus \<Rightarrow> Inr (s\<lparr>data_bus := bus_tick_clear (data_bus s)\<rparr>)
      | Class_word_bus \<Rightarrow> Inr (s\<lparr>address_bus := bus_tick_clear (address_bus s)\<rparr>)
      | _ \<Rightarrow> Inr s)"

declare child_tick_control.simps(2) [simp del] child_tick_write.simps(2) [simp del]
  child_tick_read.simps(2) [simp del] child_tick_process.simps(2) [simp del]
  child_tick_clear.simps(2) [simp del]

lemmas child_simps =
  child_tick_control.simps(2) child_tick_write.simps(2) child_tick_read.simps(2)
  child_tick_process.simps(2) child_tick_clear.simps(2)

section \<open>The processor\<close>

definition run_phase :: "tick_phase \<Rightarrow> (node \<Rightarrow> cpu \<Rightarrow> sim_error + cpu) \<Rightarrow> cpu \<Rightarrow> sim_error + cpu" where
  "run_phase ph child s = fold_ok child sim_children (s\<lparr>cur_phase := ph\<rparr>)"

definition trace_entry_of :: "cpu \<Rightarrow> trace_entry" where
  "trace_entry_of s =
     \<lparr>entry_cycle = cycle_count s, entry_instruction_address = word_regs s Ipc,
      entry_pc = word_regs s Pc, entry_ir = ir_value s, entry_sc = byte_regs s Sc,
      entry_a = byte_regs s Reg_a, entry_x = byte_regs s Reg_x, entry_status = status_reg s\<rparr>"

text \<open>\<open>Cpu::TickProcess\<close> after its children: halting, crashing, the start of an instruction.\<close>

definition cpu_process :: "cpu \<Rightarrow> sim_error + cpu" where
  "cpu_process s =
     seq_ok
       [when_asserted (Ctl Cpu_root Halt) (\<lambda>s. Inr (s\<lparr>halted := True\<rparr>)),
        when_asserted (Ctl Cpu_root Crash) (\<lambda>s. Inr (s\<lparr>crashed := True, halted := True\<rparr>)),
        when_asserted (Ctl Controller Instruction_start)
          (\<lambda>s. let s' = s\<lparr>ipc_valid := True\<rparr> in
               Inr (if trace_enabled (trace s')
                    then s'\<lparr>trace := trace_record (trace_entry_of s') (trace s')\<rparr> else s'))] s"

definition tick :: "cpu \<Rightarrow> sim_error + cpu" where
  "tick s =
     (if halted s then Inr s
      else seq_ok
        [run_phase Phase_Control child_tick_control,
         run_phase Phase_Write child_tick_write,
         run_phase Phase_Read child_tick_read,
         run_phase Phase_Process child_tick_process,
         cpu_process,
         run_phase Phase_Clear child_tick_clear,
         \<lambda>s. Inr (s\<lparr>cur_phase := Phase_None, cycle_count := cycle_count s + 1\<rparr>)] s)"

fun ticks :: "nat \<Rightarrow> cpu \<Rightarrow> sim_error + cpu" where
  "ticks 0 s = Inr s"
| "ticks (Suc n) s = bind_ok (tick s) (ticks n)"

text \<open>
  \<open>RunUntilHalt\<close>. The loops may not end (\<open>None\<close>); an exception of a tick leaves them
  (\<open>Some (Inl e)\<close>).
\<close>

datatype halt_reason = Reason_running | Reason_timeout | Reason_halt | Reason_crash

record run_result =
  result_reason :: halt_reason
  result_cycles :: u64

partial_function (option) run_loop :: "cpu \<Rightarrow> (sim_error + cpu) option" where
  [code]: "run_loop s =
     (if \<not> halted s then
        (case tick s of Inl e \<Rightarrow> Some (Inl e) | Inr s' \<Rightarrow> run_loop s')
      else Some (Inr s))"

definition run_until_halt :: "cpu \<Rightarrow> (sim_error + (run_result \<times> cpu)) option" where
  "run_until_halt s =
     map_option (\<lambda>r. bind_ok r (\<lambda>s'.
       Inr (\<lparr>result_reason = (if crashed s' then Reason_crash else Reason_halt),
             result_cycles = cycle_count s'\<rparr>, s'))) (run_loop s)"

partial_function (option) run_loop_max :: "u64 \<Rightarrow> u64 \<Rightarrow> cpu \<Rightarrow> (sim_error + cpu) option" where
  [code]: "run_loop_max start max_cycles s =
     (if \<not> halted s \<and> cycle_count s - start < max_cycles then
        (case tick s of Inl e \<Rightarrow> Some (Inl e) | Inr s' \<Rightarrow> run_loop_max start max_cycles s')
      else Some (Inr s))"

definition run_until_halt_max :: "u64 \<Rightarrow> cpu \<Rightarrow> (sim_error + (run_result \<times> cpu)) option" where
  "run_until_halt_max max_cycles s =
     map_option (\<lambda>r. bind_ok r (\<lambda>s'.
       Inr (\<lparr>result_reason = (if halted s' then (if crashed s' then Reason_crash else Reason_halt)
                              else Reason_timeout),
             result_cycles = cycle_count s' - cycle_count s\<rparr>, s')))
       (run_loop_max (cycle_count s) max_cycles s)"

definition instruction_address :: "cpu \<Rightarrow> u16" where
  "instruction_address s = (if ipc_valid s then word_regs s Ipc else word_regs s Pc)"

definition enable_trace :: "nat \<Rightarrow> cpu \<Rightarrow> cpu" where
  "enable_trace depth s = s\<lparr>trace := trace_configure depth (trace s)\<rparr>"

text \<open>The constructor: the regions are built and checked, then the program is loaded.\<close>

definition make_cpu ::
  "microcode_program \<Rightarrow> u8 list \<Rightarrow> region list \<Rightarrow> sim_error + cpu" where
  "make_cpu p cartridge_rom extra =
     bind_ok (build_regions cartridge_rom extra) (\<lambda>regions.
     bind_ok (make_memory regions) (\<lambda>m.
     let control_order = node_controls sim_children;
         paths = map ctl_path control_order in
     bind_ok (index_controls control_order []) (\<lambda>by_path.
     bind_ok (validate_against_hdl by_path paths (map ctl_path hdl_controls)) (\<lambda>_.
     bind_ok (make_instruction_memory control_order p) (\<lambda>im.
     Inr \<lparr>cur_phase = Phase_None, sig = (\<lambda>_. False), data_bus = bus_idle, address_bus = bus_idle,
          byte_regs = (\<lambda>_. 0)(Ir := 0x02, Sc := 0), word_regs = (\<lambda>_. 0),
          inject_interrupt = False, mem = m, instruction_mem = Some im, halted = False,
          crashed = False, cycle_count = 0, ipc_valid = False, trace = trace_init\<rparr>)))))"

end
