(* ===== verification/Sim_Tick.thy ===== *)
theory Sim_Tick
  imports Sim_Cpu
begin

text \<open>
  One tick of the processor. Between ticks the buses are empty and no control but the
  interrupt line is asserted (\<open>idle\<close>). A tick whose controls use the buses as the bus
  validator demands raises no error of the bus or control layer, and ends idle again.
\<close>

section \<open>Frames of the phases\<close>

lemma asserted_ok: "cur_phase s = ctl_phase k \<Longrightarrow> asserted s k = Inr (sig s k)"
  by (simp add: asserted_def)

lemma when_asserted_ok:
  "cur_phase s = ctl_phase k \<Longrightarrow> when_asserted k act s = (if sig s k then act s else Inr s)"
  by (simp add: when_asserted_def asserted_ok)

lemma when_asserted_off: "cur_phase s = ctl_phase k \<Longrightarrow> \<not> sig s k \<Longrightarrow> when_asserted k act s = Inr s"
  by (simp add: when_asserted_ok)

lemma set_byte_sel [simp]:
  "byte_regs (set_byte c v s) = (byte_regs s)(c := v)" "word_regs (set_byte c v s) = word_regs s"
  "cur_phase (set_byte c v s) = cur_phase s" "sig (set_byte c v s) = sig s"
  "data_bus (set_byte c v s) = data_bus s" "address_bus (set_byte c v s) = address_bus s"
  "inject_interrupt (set_byte c v s) = inject_interrupt s" "mem (set_byte c v s) = mem s"
  "instruction_mem (set_byte c v s) = instruction_mem s" "halted (set_byte c v s) = halted s"
  "crashed (set_byte c v s) = crashed s" "cycle_count (set_byte c v s) = cycle_count s"
  "ipc_valid (set_byte c v s) = ipc_valid s" "trace (set_byte c v s) = trace s"
  by (simp_all add: set_byte_def)

lemma set_word_sel [simp]:
  "byte_regs (set_word c w s) = byte_regs s" "word_regs (set_word c w s) = (word_regs s)(c := w)"
  "cur_phase (set_word c w s) = cur_phase s" "sig (set_word c w s) = sig s"
  "data_bus (set_word c w s) = data_bus s" "address_bus (set_word c w s) = address_bus s"
  "inject_interrupt (set_word c w s) = inject_interrupt s" "mem (set_word c w s) = mem s"
  "instruction_mem (set_word c w s) = instruction_mem s" "halted (set_word c w s) = halted s"
  "crashed (set_word c w s) = crashed s" "cycle_count (set_word c w s) = cycle_count s"
  "ipc_valid (set_word c w s) = ipc_valid s" "trace (set_word c w s) = trace s"
  by (simp_all add: set_word_def)

lemma set_port_eq: "set_port c h v s = set_word c (word_regs (set_port c h v s) c) s"
  by (simp add: set_port_def set_word_def)

text \<open>What no phase but Control and Clear changes.\<close>

definition same_frame :: "cpu \<Rightarrow> cpu \<Rightarrow> bool" where
  "same_frame s t \<longleftrightarrow>
     cur_phase t = cur_phase s \<and> sig t = sig s \<and> instruction_mem t = instruction_mem s \<and>
     halted t = halted s \<and> crashed t = crashed s \<and> cycle_count t = cycle_count s \<and>
     ipc_valid t = ipc_valid s \<and> trace t = trace s"

lemma same_frame_refl [simp]: "same_frame s s"
  by (simp add: same_frame_def)

lemma same_frame_trans: "same_frame s t \<Longrightarrow> same_frame t u \<Longrightarrow> same_frame s u"
  by (simp add: same_frame_def)

lemma same_frame_set [simp]:
  "same_frame s (set_byte c v s)" "same_frame s (set_word c w s)" "same_frame s (set_port c h v s)"
  by (simp_all add: same_frame_def set_port_def)

lemma same_frame_upd [simp]:
  "same_frame s (s\<lparr>data_bus := b\<rparr>)" "same_frame s (s\<lparr>address_bus := a\<rparr>)"
  "same_frame s (s\<lparr>mem := m\<rparr>)" "same_frame s (s\<lparr>inject_interrupt := i\<rparr>)"
  by (simp_all add: same_frame_def)

section \<open>Write phase\<close>

text \<open>The bus a component writes to and reads from, by its class.\<close>

definition drives :: "comp \<Rightarrow> bus_width option" where
  "drives c =
     (case class_of c of
        Class_byte_register \<Rightarrow> Some Byte_bus
      | Class_byte_counter \<Rightarrow> Some Byte_bus
      | Class_analyzer \<Rightarrow> Some Byte_bus
      | Class_ir \<Rightarrow> Some Byte_bus
      | Class_byte_port p h \<Rightarrow> Some Byte_bus
      | Class_memory \<Rightarrow> Some Byte_bus
      | Class_word_register \<Rightarrow> Some Word_bus
      | Class_program_counter \<Rightarrow> Some Word_bus
      | Class_mar \<Rightarrow> Some Word_bus
      | _ \<Rightarrow> None)"

lemma drives_comp_bus: "drives c = Some b \<Longrightarrow> comp_bus c = b"
  by (cases c) (simp_all add: drives_def)

definition writes :: "controls \<Rightarrow> bus_width \<Rightarrow> comp \<Rightarrow> bool" where
  "writes cs b c \<longleftrightarrow> drives c = Some b \<and> cs (Ctl c Write)"

definition reads :: "controls \<Rightarrow> bus_width \<Rightarrow> comp \<Rightarrow> bool" where
  "reads cs b c \<longleftrightarrow> drives c = Some b \<and> cs (Ctl c Read)"

text \<open>The byte or word a component puts on its bus; memory is read at the address register.\<close>

definition driven_byte :: "comp \<Rightarrow> cpu \<Rightarrow> sim_error + (u8 \<times> cpu)" where
  "driven_byte c s =
     (case class_of c of
        Class_byte_port p h \<Rightarrow> Inr (port_value p h s, s)
      | Class_memory \<Rightarrow> memory_read_value s
      | _ \<Rightarrow> Inr (byte_regs s c, s))"

lemma child_tick_write_byte:
  assumes "cur_phase s = Phase_Write" and "writes (sig s) Byte_bus c"
  shows "child_tick_write (Comp_node c) s = bind_ok (driven_byte c s) (\<lambda>(v, t). data_write c v t)"
  using assms
  by (cases c) (simp_all add: writes_def drives_def driven_byte_def when_asserted_ok Let_def child_simps)

lemma child_tick_write_word:
  assumes "cur_phase s = Phase_Write" and "writes (sig s) Word_bus c"
  shows "child_tick_write (Comp_node c) s = address_write c (word_regs s c) s"
  using assms by (cases c) (simp_all add: writes_def drives_def when_asserted_ok Let_def child_simps)

lemma child_tick_write_none:
  assumes "cur_phase s = Phase_Write" and "\<And>b. \<not> writes (sig s) b c"
  shows "child_tick_write (Comp_node c) s = Inr s"
  using assms assms(2) [of Byte_bus] assms(2) [of Word_bus]
  by (cases c) (simp_all add: writes_def drives_def when_asserted_ok Let_def child_simps)

lemma driven_byte_ok:
  assumes "memory_wf (mem s)"
  obtains v m where "driven_byte c s = Inr (v, s\<lparr>mem := m\<rparr>)" and "memory_wf m"
    and "\<And>a. writable_addr m a = writable_addr (mem s) a"
proof (cases "c = Memory")
  case True
  from read_at_ok [OF assms, of "word_regs s Mar"] obtain v m where
    r: "read_at (word_regs s Mar) (mem s) = Inr (v, m)" by (auto elim!: is_okE)
  then have "driven_byte c s = Inr (v, s\<lparr>mem := m\<rparr>)"
    by (simp add: True driven_byte_def memory_read_value_def)
  then show ?thesis
    using that [of v m] read_at_wf [OF assms r] read_at_writable [OF r] by blast
next
  case False
  then have "\<exists>v. driven_byte c s = Inr (v, s)"
    by (cases c) (simp_all add: driven_byte_def)
  then obtain v where "driven_byte c s = Inr (v, s\<lparr>mem := mem s\<rparr>)" by auto
  with that [of v "mem s"] assms show ?thesis by blast
qed

definition bus_good :: "'v bus \<Rightarrow> bool" where
  "bus_good b \<longleftrightarrow> (bus_wrote b \<longrightarrow> bus_value b \<noteq> None)"

lemma bus_good_idle [simp]: "bus_good bus_idle"
  by (simp add: bus_good_def)

lemma bus_write_ok:
  "\<not> bus_wrote b \<Longrightarrow>
   bus_write Phase_Write v w b = Inr (b\<lparr>bus_value := Some v, bus_writer := w, bus_wrote := True\<rparr>)"
  by (simp add: bus_write_def)

text \<open>
  No component of \<open>xs\<close> writes a bus already written, and at most one writes each bus: then
  the phase succeeds, and a bus is written exactly when someone writes it.
\<close>

definition one_writer :: "controls \<Rightarrow> node list \<Rightarrow> bool" where
  "one_writer cs xs \<longleftrightarrow>
     (\<forall>b c d. Comp_node c \<in> set xs \<longrightarrow> Comp_node d \<in> set xs \<longrightarrow>
        writes cs b c \<longrightarrow> writes cs b d \<longrightarrow> c = d)"

definition some_writer :: "controls \<Rightarrow> bus_width \<Rightarrow> node list \<Rightarrow> bool" where
  "some_writer cs b xs \<longleftrightarrow> (\<exists>c. Comp_node c \<in> set xs \<and> writes cs b c)"

lemma writes_one_bus: "writes cs b c \<Longrightarrow> writes cs b' c \<Longrightarrow> b = b'"
  by (simp add: writes_def)

text \<open>The invariant of the phase.\<close>

definition write_inv :: "cpu \<Rightarrow> bool" where
  "write_inv s \<longleftrightarrow>
     cur_phase s = Phase_Write \<and> memory_wf (mem s) \<and> bus_good (data_bus s) \<and> bus_good (address_bus s)"

definition regs_kept :: "cpu \<Rightarrow> cpu \<Rightarrow> bool" where
  "regs_kept s t \<longleftrightarrow>
     same_frame s t \<and> byte_regs t = byte_regs s \<and> word_regs t = word_regs s \<and>
     inject_interrupt t = inject_interrupt s"

lemma regs_kept_refl [simp]: "regs_kept s s"
  by (simp add: regs_kept_def)

lemma regs_kept_trans: "regs_kept s t \<Longrightarrow> regs_kept t u \<Longrightarrow> regs_kept s u"
  by (auto simp: regs_kept_def intro: same_frame_trans)

lemma child_tick_write_ok:
  assumes inv: "write_inv s"
    and byte: "writes (sig s) Byte_bus c \<Longrightarrow> \<not> bus_wrote (data_bus s)"
    and word: "writes (sig s) Word_bus c \<Longrightarrow> \<not> bus_wrote (address_bus s)"
  obtains t where "child_tick_write (Comp_node c) s = Inr t" and "write_inv t" and "regs_kept s t"
    and "bus_wrote (data_bus t) \<longleftrightarrow> bus_wrote (data_bus s) \<or> writes (sig s) Byte_bus c"
    and "bus_wrote (address_bus t) \<longleftrightarrow> bus_wrote (address_bus s) \<or> writes (sig s) Word_bus c"
    and "\<And>a. writable_addr (mem t) a = writable_addr (mem s) a"
proof -
  have ph: "cur_phase s = Phase_Write" and wf: "memory_wf (mem s)"
    using inv by (simp_all add: write_inv_def)
  consider (byte) "writes (sig s) Byte_bus c" | (word) "writes (sig s) Word_bus c"
    | (none) "\<And>b. \<not> writes (sig s) b c"
    by (metis bus_width.exhaust)
  then show ?thesis
  proof cases
    case byte
    from driven_byte_ok [OF wf, of c] obtain v m where
      v: "driven_byte c s = Inr (v, s\<lparr>mem := m\<rparr>)" "memory_wf m"
        "\<And>a. writable_addr m a = writable_addr (mem s) a" by blast
    have nw: "\<not> writes (sig s) Word_bus c" using writes_one_bus [OF byte] by blast
    have "\<not> bus_wrote (data_bus s)" by (rule assms(2) [OF byte])
    then have "child_tick_write (Comp_node c) s =
        Inr (s\<lparr>mem := m, data_bus := (data_bus s)\<lparr>bus_value := Some v, bus_writer := comp_path c,
          bus_wrote := True\<rparr>\<rparr>)" (is "_ = Inr ?t")
      by (simp add: child_tick_write_byte [OF ph byte] v(1) data_write_def ph bus_write_ok)
    then show ?thesis
      by (rule that) (use inv byte nw v in \<open>simp_all add: write_inv_def bus_good_def regs_kept_def
        same_frame_def\<close>)
  next
    case word
    have nw: "\<not> writes (sig s) Byte_bus c" using writes_one_bus [OF word] by blast
    have "\<not> bus_wrote (address_bus s)" by (rule assms(3) [OF word])
    then have "child_tick_write (Comp_node c) s =
        Inr (s\<lparr>address_bus := (address_bus s)\<lparr>bus_value := Some (word_regs s c),
          bus_writer := comp_path c, bus_wrote := True\<rparr>\<rparr>)"
      by (simp add: child_tick_write_word [OF ph word] address_write_def ph bus_write_ok)
    then show ?thesis
      by (rule that) (use inv word nw in \<open>simp_all add: write_inv_def bus_good_def regs_kept_def
        same_frame_def\<close>)
  next
    case none
    show ?thesis
      by (rule that [OF child_tick_write_none [OF ph none]]) (use inv none in simp_all)
  qed
qed

lemma write_phase_ok:
  assumes "write_inv s" and "distinct xs" and "one_writer (sig s) xs"
    and "some_writer (sig s) Byte_bus xs \<Longrightarrow> \<not> bus_wrote (data_bus s)"
    and "some_writer (sig s) Word_bus xs \<Longrightarrow> \<not> bus_wrote (address_bus s)"
  shows "\<exists>t. fold_ok child_tick_write xs s = Inr t \<and> write_inv t \<and> regs_kept s t \<and>
    (bus_wrote (data_bus t) \<longleftrightarrow> bus_wrote (data_bus s) \<or> some_writer (sig s) Byte_bus xs) \<and>
    (bus_wrote (address_bus t) \<longleftrightarrow> bus_wrote (address_bus s) \<or> some_writer (sig s) Word_bus xs) \<and>
    (\<forall>a. writable_addr (mem t) a = writable_addr (mem s) a)"
  using assms
proof (induction xs arbitrary: s)
  case Nil
  then show ?case by (simp add: some_writer_def)
next
  case (Cons x xs)
  show ?case
  proof (cases x)
    case (Control_node k)
    with Cons show ?thesis by (simp add: one_writer_def some_writer_def)
  next
    case (Comp_node c)
    have cons: "some_writer cs b (x # xs) \<longleftrightarrow> writes cs b c \<or> some_writer cs b xs" for cs b
      by (auto simp: some_writer_def Comp_node)
    have solo: "\<not> (writes (sig s) b c \<and> some_writer (sig s) b xs)" for b
      using Cons.prems(2,3) by (auto simp: one_writer_def some_writer_def Comp_node)
    from Cons.prems(4,5) have free: "writes (sig s) Byte_bus c \<Longrightarrow> \<not> bus_wrote (data_bus s)"
      "writes (sig s) Word_bus c \<Longrightarrow> \<not> bus_wrote (address_bus s)" by (simp_all add: cons)
    obtain t where t: "child_tick_write (Comp_node c) s = Inr t" "write_inv t" "regs_kept s t"
      "bus_wrote (data_bus t) \<longleftrightarrow> bus_wrote (data_bus s) \<or> writes (sig s) Byte_bus c"
      "bus_wrote (address_bus t) \<longleftrightarrow> bus_wrote (address_bus s) \<or> writes (sig s) Word_bus c"
      "\<And>a. writable_addr (mem t) a = writable_addr (mem s) a"
      using child_tick_write_ok [OF Cons.prems(1) free] by blast
    have sg: "sig t = sig s" using t(3) by (simp add: regs_kept_def same_frame_def)
    have "one_writer (sig t) xs" "distinct xs"
      using Cons.prems(2,3) by (auto simp: sg one_writer_def)
    with Cons.IH [OF t(2)] Cons.prems(4,5) t(4,5) solo obtain u where
      u: "fold_ok child_tick_write xs t = Inr u" "write_inv u" "regs_kept t u"
      "bus_wrote (data_bus u) \<longleftrightarrow> bus_wrote (data_bus t) \<or> some_writer (sig t) Byte_bus xs"
      "bus_wrote (address_bus u) \<longleftrightarrow> bus_wrote (address_bus t) \<or> some_writer (sig t) Word_bus xs"
      "\<forall>a. writable_addr (mem u) a = writable_addr (mem t) a"
      by (auto simp: sg cons)
    have "regs_kept s u" by (rule regs_kept_trans [OF t(3) u(3)])
    with t u show ?thesis by (auto simp: Comp_node cons [unfolded Comp_node] sg)
  qed
qed

section \<open>Read phase\<close>

text \<open>What the phases after Write leave alone: everything but the registers.\<close>

definition only_regs :: "cpu \<Rightarrow> cpu \<Rightarrow> bool" where
  "only_regs s t \<longleftrightarrow>
     same_frame s t \<and> mem t = mem s \<and> data_bus t = data_bus s \<and> address_bus t = address_bus s \<and>
     byte_regs t Sc = byte_regs s Sc"

lemma only_regs_refl [simp]: "only_regs s s"
  by (simp add: only_regs_def)

lemma only_regs_trans: "only_regs s t \<Longrightarrow> only_regs t u \<Longrightarrow> only_regs s u"
  by (auto simp: only_regs_def intro: same_frame_trans)

lemma only_regs_set [simp]:
  "c \<noteq> Sc \<Longrightarrow> only_regs s (set_byte c v s)" "only_regs s (set_word c w s)"
  "only_regs s (set_port c h v s)"
  by (simp_all add: only_regs_def set_port_def)

definition readable :: "cpu \<Rightarrow> bus_width \<Rightarrow> bool" where
  "readable s b =
     (case b of
        Byte_bus \<Rightarrow> bus_wrote (data_bus s) \<and> bus_value (data_bus s) \<noteq> None
      | Word_bus \<Rightarrow> bus_wrote (address_bus s) \<and> bus_value (address_bus s) \<noteq> None)"

lemma bus_read_ok:
  "bus_wrote b \<Longrightarrow> bus_value b = Some v \<Longrightarrow> bus_read Phase_Read r b = Inr v"
  by (simp add: bus_read_def)

definition mar_part :: "comp \<Rightarrow> bool" where
  "mar_part c \<longleftrightarrow> c = Mar \<or> c = Mar_low \<or> c = Mar_high"

lemma child_tick_read_byte:
  assumes "cur_phase s = Phase_Read" and "reads (sig s) Byte_bus c" and "c \<noteq> Memory"
    and "bus_wrote (data_bus s)" and "bus_value (data_bus s) = Some v"
  shows "child_tick_read (Comp_node c) s =
    Inr (case class_of c of
           Class_byte_port p h \<Rightarrow> set_port p h v s
         | Class_analyzer \<Rightarrow> set_byte Status (analyze v (status_reg s)) (set_byte c v s)
         | _ \<Rightarrow> set_byte c v s)"
  using assms
  by (cases c) (simp_all add: reads_def drives_def when_asserted_ok Let_def child_simps data_read_def
    bus_read_ok)

lemma child_tick_read_word:
  assumes "cur_phase s = Phase_Read" and "reads (sig s) Word_bus c"
    and "bus_wrote (address_bus s)" and "bus_value (address_bus s) = Some v"
  shows "child_tick_read (Comp_node c) s = Inr (set_word c v s)"
  using assms
  by (cases c) (simp_all add: reads_def drives_def when_asserted_ok Let_def child_simps
    address_read_def bus_read_ok)

lemma child_tick_read_none:
  assumes "cur_phase s = Phase_Read" and "\<And>b. \<not> reads (sig s) b c"
  shows "child_tick_read (Comp_node c) s = Inr s"
  using assms assms(2) [of Byte_bus] assms(2) [of Word_bus]
  by (cases c) (simp_all add: reads_def drives_def when_asserted_ok Let_def child_simps)

lemma child_tick_read_ok:
  assumes "cur_phase s = Phase_Read" and "c \<noteq> Memory"
    and "\<And>b. reads (sig s) b c \<Longrightarrow> readable s b"
  shows "\<exists>t. child_tick_read (Comp_node c) s = Inr t \<and> only_regs s t \<and>
    (\<not> mar_part c \<longrightarrow> word_regs t Mar = word_regs s Mar)"
proof -
  consider (byte) "reads (sig s) Byte_bus c" | (word) "reads (sig s) Word_bus c"
    | (none) "\<And>b. \<not> reads (sig s) b c"
    by (metis bus_width.exhaust)
  then show ?thesis
  proof cases
    case byte
    from assms(3) [OF byte] obtain v where v: "bus_wrote (data_bus s)" "bus_value (data_bus s) = Some v"
      by (auto simp: readable_def)
    have "c \<noteq> Sc" using byte by (auto simp: reads_def drives_def)
    then show ?thesis
      unfolding child_tick_read_byte [OF assms(1) byte assms(2) v]
      by (cases c) (auto simp: mar_part_def set_port_def intro: only_regs_trans [OF _ only_regs_set(1)])
  next
    case word
    from assms(3) [OF word] obtain v where v: "bus_wrote (address_bus s)" "bus_value (address_bus s) = Some v"
      by (auto simp: readable_def)
    show ?thesis unfolding child_tick_read_word [OF assms(1) word v] by (auto simp: mar_part_def)
  next
    case none
    show ?thesis unfolding child_tick_read_none [OF assms(1) none] by simp
  qed
qed

lemma readable_only_regs: "only_regs s t \<Longrightarrow> readable t b = readable s b"
  by (auto simp: only_regs_def readable_def split: bus_width.splits)

lemma only_regs_frame: "only_regs s t \<Longrightarrow> sig t = sig s \<and> cur_phase t = cur_phase s"
  by (simp add: only_regs_def same_frame_def)

lemma read_list_ok:
  assumes "cur_phase s = Phase_Read" and "Comp_node Memory \<notin> set xs"
    and "\<And>b c. Comp_node c \<in> set xs \<Longrightarrow> reads (sig s) b c \<Longrightarrow> readable s b"
  shows "\<exists>t. fold_ok child_tick_read xs s = Inr t \<and> only_regs s t \<and>
    ((\<forall>c. Comp_node c \<in> set xs \<longrightarrow> \<not> mar_part c) \<longrightarrow> word_regs t Mar = word_regs s Mar)"
  using assms
proof (induction xs arbitrary: s)
  case Nil
  then show ?case by simp
next
  case (Cons x xs)
  show ?case
  proof (cases x)
    case (Control_node k)
    with Cons show ?thesis by simp
  next
    case (Comp_node c)
    with Cons.prems have "c \<noteq> Memory" by auto
    from child_tick_read_ok [OF Cons.prems(1) this] Cons.prems(3) [of c] Comp_node obtain t where
      t: "child_tick_read (Comp_node c) s = Inr t" "only_regs s t"
        "\<not> mar_part c \<longrightarrow> word_regs t Mar = word_regs s Mar" by auto
    have "\<exists>u. fold_ok child_tick_read xs t = Inr u \<and> only_regs t u \<and>
        ((\<forall>c. Comp_node c \<in> set xs \<longrightarrow> \<not> mar_part c) \<longrightarrow> word_regs u Mar = word_regs t Mar)"
    proof (rule Cons.IH)
      show "cur_phase t = Phase_Read" using only_regs_frame [OF t(2)] Cons.prems(1) by simp
      show "Comp_node Memory \<notin> set xs" using Cons.prems(2) by simp
      show "readable t b" if "Comp_node d \<in> set xs" "reads (sig t) b d" for b d
        using that Cons.prems(3) [of d b] only_regs_frame [OF t(2)] readable_only_regs [OF t(2)] by auto
    qed
    with t show ?thesis by (auto simp: Comp_node intro: only_regs_trans)
  qed
qed

section \<open>Process phase\<close>

lemmas process_defs =
  process_reset_byte_def process_reset_word_def process_counter_def process_pc_def
  process_port_def process_mar_def process_alu_def process_status_def process_controller_def
  process_ir_def

lemma only_regs_inject [simp]: "only_regs s (s\<lparr>inject_interrupt := i\<rparr>)"
  by (simp add: only_regs_def)

definition chain_ok :: "cpu \<Rightarrow> sim_error + cpu \<Rightarrow> bool" where
  "chain_ok s r \<longleftrightarrow> (\<exists>t. r = Inr t \<and> only_regs s t)"

lemma only_regs_phase: "only_regs s t \<Longrightarrow> cur_phase t = cur_phase s"
  by (simp add: only_regs_def same_frame_def)

lemma when_asserted_chain:
  assumes "cur_phase s = ctl_phase k" and "chain_ok s (act s)"
  shows "chain_ok s (when_asserted k act s)"
  using assms by (simp add: when_asserted_ok chain_ok_def)

lemma chain_ok_bind:
  assumes "chain_ok s r"
    and "\<And>t. only_regs s t \<Longrightarrow> cur_phase t = cur_phase s \<Longrightarrow> chain_ok t (f t)"
  shows "chain_ok s (bind_ok r f)"
proof -
  from assms(1) obtain t where t: "r = Inr t" "only_regs s t" by (auto simp: chain_ok_def)
  from assms(2) [OF t(2) only_regs_phase [OF t(2)]] obtain u where "f t = Inr u" "only_regs t u"
    by (auto simp: chain_ok_def)
  with t show ?thesis by (auto simp: chain_ok_def intro: only_regs_trans)
qed

lemma chain_ok_Inr: "only_regs s t \<Longrightarrow> chain_ok s (Inr t)"
  by (simp add: chain_ok_def)

lemmas chain_intros = chain_ok_bind when_asserted_chain chain_ok_Inr

lemma process_reset_ok:
  "cur_phase s = Phase_Process \<Longrightarrow> c \<noteq> Sc \<Longrightarrow> chain_ok s (process_reset_byte c s)"
  "cur_phase s = Phase_Process \<Longrightarrow> chain_ok s (process_reset_word c s)"
  "cur_phase s = Phase_Process \<Longrightarrow> chain_ok s (process_port c p h s)"
  by (auto simp: process_reset_byte_def process_reset_word_def process_port_def intro!: chain_intros)

lemma process_counter_ok:
  "cur_phase s = Phase_Process \<Longrightarrow> c \<noteq> Sc \<Longrightarrow> chain_ok s (process_counter c s)"
  by (auto simp: process_counter_def asserted_ok intro!: chain_intros)

lemma process_pc_ok: "cur_phase s = Phase_Process \<Longrightarrow> chain_ok s (process_pc s)"
  by (auto simp: process_pc_def asserted_ok intro!: chain_intros)

lemma process_mar_ok: "cur_phase s = Phase_Process \<Longrightarrow> chain_ok s (process_mar s)"
  by (auto simp: process_mar_def intro!: chain_intros)

lemma process_alu_ok: "cur_phase s = Phase_Process \<Longrightarrow> chain_ok s (process_alu s)"
  by (auto simp: process_alu_def asserted_ok Let_def split: prod.splits
    intro!: chain_ok_Inr intro: only_regs_trans [OF only_regs_set(1) only_regs_set(1)])

lemma process_status_ok: "cur_phase s = Phase_Process \<Longrightarrow> chain_ok s (process_status f s)"
  by (auto simp: process_status_def asserted_ok intro!: chain_intros)

lemma process_ir_ok: "cur_phase s = Phase_Process \<Longrightarrow> chain_ok s (process_ir s)"
proof -
  assume ph: "cur_phase s = Phase_Process"
  have "chain_ok s (process_reset_byte Ir s)" by (rule process_reset_ok) (simp_all add: ph)
  then show ?thesis
    unfolding process_ir_def
    by (rule chain_ok_bind) (auto simp: ph asserted_ok intro!: chain_intros)
qed

lemma child_tick_process_ok:
  assumes "cur_phase s = Phase_Process" and "c \<noteq> Sc"
  shows "chain_ok s (child_tick_process (Comp_node c) s)"
  using assms
  by (cases c) (auto simp: child_simps process_controller_def
    intro!: process_reset_ok process_counter_ok process_pc_ok process_mar_ok process_alu_ok
      process_status_ok process_ir_ok chain_intros)

lemma process_list_ok:
  assumes "cur_phase s = Phase_Process" and "Comp_node Sc \<notin> set xs"
  shows "chain_ok s (fold_ok child_tick_process xs s)"
  using assms
proof (induction xs arbitrary: s)
  case Nil
  then show ?case by (simp add: chain_ok_Inr)
next
  case (Cons x xs)
  show ?case
  proof (cases x)
    case (Control_node k)
    with Cons show ?thesis by simp
  next
    case (Comp_node c)
    with Cons.prems have "chain_ok s (child_tick_process (Comp_node c) s)"
      by (intro child_tick_process_ok) auto
    then show ?thesis
      unfolding Comp_node fold_ok.simps
      by (rule chain_ok_bind) (use Cons in auto)
  qed
qed

text \<open>The step counter: reset wins over increment, increment over decrement.\<close>

definition sc_next :: "controls \<Rightarrow> u8 \<Rightarrow> u8" where
  "sc_next cs n =
     (if cs (Ctl Sc Reset) then 0
      else if cs (Ctl Sc Increment) then n + 1
      else if cs (Ctl Sc Decrement) then n - 1 else n)"

definition only_regs_sc :: "cpu \<Rightarrow> cpu \<Rightarrow> bool" where
  "only_regs_sc s t \<longleftrightarrow>
     same_frame s t \<and> mem t = mem s \<and> data_bus t = data_bus s \<and> address_bus t = address_bus s"

lemma child_tick_process_sc:
  "cur_phase s = Phase_Process \<Longrightarrow>
   \<exists>t. child_tick_process (Comp_node Sc) s = Inr t \<and> only_regs_sc s t \<and>
     byte_regs t Sc = sc_next (sig s) (byte_regs s Sc)"
  by (auto simp: child_simps process_counter_def asserted_ok when_asserted_ok sc_next_def
    only_regs_sc_def byte_add_def byte_sub_def)

lemma only_regs_sc_intros:
  "only_regs s t \<Longrightarrow> only_regs_sc s t"
  "only_regs_sc s t \<Longrightarrow> only_regs_sc t u \<Longrightarrow> only_regs_sc s u"
  by (auto simp: only_regs_def only_regs_sc_def intro: same_frame_trans)

lemma sim_children_split_sc:
  obtains pre post where "sim_children = pre @ Comp_node Sc # post"
    and "Comp_node Sc \<notin> set pre" and "Comp_node Sc \<notin> set post"
proof (rule that [of "takeWhile (\<lambda>n. n \<noteq> Comp_node Sc) sim_children"
    "tl (dropWhile (\<lambda>n. n \<noteq> Comp_node Sc) sim_children)"])
qed (simp_all add: sim_children_def registered_def)

lemma process_phase_ok:
  assumes "cur_phase s = Phase_Process"
  shows "\<exists>t. fold_ok child_tick_process sim_children s = Inr t \<and> only_regs_sc s t \<and>
    byte_regs t Sc = sc_next (sig s) (byte_regs s Sc)"
proof -
  obtain pre post where split: "sim_children = pre @ Comp_node Sc # post"
    "Comp_node Sc \<notin> set pre" "Comp_node Sc \<notin> set post" by (rule sim_children_split_sc)
  obtain t where t: "fold_ok child_tick_process pre s = Inr t" "only_regs s t"
    using process_list_ok [OF assms split(2)] by (auto simp: chain_ok_def)
  have ph: "cur_phase t = Phase_Process" using only_regs_phase [OF t(2)] assms by simp
  obtain u where u: "child_tick_process (Comp_node Sc) t = Inr u" "only_regs_sc t u"
    "byte_regs u Sc = sc_next (sig t) (byte_regs t Sc)"
    using child_tick_process_sc [OF ph] by blast
  have "cur_phase u = Phase_Process" using u(2) ph by (simp add: only_regs_sc_def same_frame_def)
  from process_list_ok [OF this split(3)] obtain v where
    v: "fold_ok child_tick_process post u = Inr v" "only_regs u v" by (auto simp: chain_ok_def)
  have "fold_ok child_tick_process sim_children s = Inr v"
    using t(1) u(1) v(1) by (simp add: split(1) fold_ok_append)
  moreover have "only_regs_sc s v"
    using t(2) u(2) v(2) by (blast intro: only_regs_sc_intros)
  moreover have "byte_regs v Sc = sc_next (sig s) (byte_regs s Sc)"
    using u(3) t(2) v(2) by (simp add: only_regs_def same_frame_def)
  ultimately show ?thesis by blast
qed

section \<open>The whole read phase\<close>

lemma sim_children_split_memory:
  obtains pre post where "sim_children = pre @ Comp_node Memory # post"
    and "Comp_node Memory \<notin> set pre" and "Comp_node Memory \<notin> set post"
    and "\<forall>c. Comp_node c \<in> set pre \<longrightarrow> \<not> mar_part c"
proof (rule that [of "takeWhile (\<lambda>n. n \<noteq> Comp_node Memory) sim_children"
    "tl (dropWhile (\<lambda>n. n \<noteq> Comp_node Memory) sim_children)"])
qed (simp_all add: sim_children_def registered_def mar_part_def)

lemma child_tick_read_memory:
  assumes "cur_phase s = Phase_Read" and "memory_wf (mem s)"
    and "sig s (Ctl Memory Read) \<Longrightarrow> readable s Byte_bus \<and> writable_addr (mem s) (word_regs s Mar)"
  shows "\<exists>m. child_tick_read (Comp_node Memory) s = Inr (s\<lparr>mem := m\<rparr>) \<and> memory_wf m"
proof (cases "sig s (Ctl Memory Read)")
  case True
  from assms(3) [OF True] obtain v where v: "bus_wrote (data_bus s)" "bus_value (data_bus s) = Some v"
    by (auto simp: readable_def)
  from assms(3) [OF True] write_at_writable [OF assms(2), of "word_regs s Mar" v] obtain m where
    m: "write_at (word_regs s Mar) v (mem s) = Inr m" by (auto elim!: is_okE)
  then have "child_tick_read (Comp_node Memory) s = Inr (s\<lparr>mem := m\<rparr>)"
    using assms(1) True v by (simp add: child_simps when_asserted_ok data_read_def bus_read_ok Let_def)
  with write_at_wf [OF assms(2) m] show ?thesis by blast
next
  case False
  then have "child_tick_read (Comp_node Memory) s = Inr (s\<lparr>mem := mem s\<rparr>)"
    using assms(1) by (simp add: child_simps when_asserted_ok Let_def)
  with assms(2) show ?thesis by blast
qed

definition read_result :: "cpu \<Rightarrow> cpu \<Rightarrow> bool" where
  "read_result s t \<longleftrightarrow>
     same_frame s t \<and> memory_wf (mem t) \<and> data_bus t = data_bus s \<and> address_bus t = address_bus s \<and>
     byte_regs t Sc = byte_regs s Sc"

lemma read_phase_ok:
  assumes "cur_phase s = Phase_Read" and "memory_wf (mem s)"
    and "\<And>b c. reads (sig s) b c \<Longrightarrow> readable s b"
    and "sig s (Ctl Memory Read) \<Longrightarrow> writable_addr (mem s) (word_regs s Mar)"
  shows "\<exists>t. fold_ok child_tick_read sim_children s = Inr t \<and> read_result s t"
proof -
  obtain pre post where split: "sim_children = pre @ Comp_node Memory # post"
    "Comp_node Memory \<notin> set pre" "Comp_node Memory \<notin> set post"
    "\<forall>c. Comp_node c \<in> set pre \<longrightarrow> \<not> mar_part c" by (rule sim_children_split_memory)
  from read_list_ok [OF assms(1) split(2)] assms(3) split(4) obtain t where
    t: "fold_ok child_tick_read pre s = Inr t" "only_regs s t" "word_regs t Mar = word_regs s Mar"
    by blast
  note ft = only_regs_frame [OF t(2)] readable_only_regs [OF t(2)]
  have mt: "mem t = mem s" using t(2) by (simp add: only_regs_def)
  have "reads (sig t) Byte_bus Memory" if "sig t (Ctl Memory Read)"
    using that by (simp add: reads_def drives_def)
  then obtain m where m: "child_tick_read (Comp_node Memory) t = Inr (t\<lparr>mem := m\<rparr>)" "memory_wf m"
    using child_tick_read_memory [of t] assms ft mt t(3) by auto
  let ?u = "t\<lparr>mem := m\<rparr>"
  have ru: "readable ?u b = readable s b" for b
    using ft(2) [of b] by (cases b) (simp_all add: readable_def)
  have "\<exists>v. fold_ok child_tick_read post ?u = Inr v \<and> only_regs ?u v"
    using read_list_ok [of ?u post] split(3) assms(1,3) ft(1) ru by auto
  then obtain v where v: "fold_ok child_tick_read post ?u = Inr v" "only_regs ?u v" by blast
  have "fold_ok child_tick_read sim_children s = Inr v"
    using t(1) m(1) v(1) by (simp add: split(1) fold_ok_append)
  moreover have "read_result s v"
    using t(2) v(2) m(2) by (simp add: read_result_def only_regs_def same_frame_def)
  ultimately show ?thesis by blast
qed

section \<open>Control and clear phases\<close>

lemma fold_control_skip:
  "Comp_node Controller \<notin> set xs \<Longrightarrow> Comp_node Memory \<notin> set xs \<Longrightarrow>
   fold_ok child_tick_control xs s = Inr s"
proof (rule fold_ok_skip)
  fix x t assume "Comp_node Controller \<notin> set xs" "Comp_node Memory \<notin> set xs" "x \<in> set xs"
  then show "child_tick_control x t = Inr t"
  proof (cases x)
    case (Comp_node c)
    with \<open>Comp_node Controller \<notin> set xs\<close> \<open>Comp_node Memory \<notin> set xs\<close> \<open>x \<in> set xs\<close>
    have "c \<noteq> Controller" "c \<noteq> Memory" by auto
    then show ?thesis unfolding Comp_node by (cases c) (simp_all add: child_simps)
  qed simp
qed

lemma sim_children_split_control:
  obtains pre mid post where "sim_children = pre @ Comp_node Controller # mid @ Comp_node Memory # post"
    and "Comp_node Controller \<notin> set pre" and "Comp_node Memory \<notin> set pre"
    and "Comp_node Controller \<notin> set mid" and "Comp_node Memory \<notin> set mid"
    and "Comp_node Controller \<notin> set post" and "Comp_node Memory \<notin> set post"
proof (rule that [of "takeWhile (\<lambda>n. n \<noteq> Comp_node Controller) sim_children"
    "takeWhile (\<lambda>n. n \<noteq> Comp_node Memory) (tl (dropWhile (\<lambda>n. n \<noteq> Comp_node Controller) sim_children))"
    "tl (dropWhile (\<lambda>n. n \<noteq> Comp_node Memory) sim_children)"])
qed (simp_all add: sim_children_def registered_def)

lemma control_phase_eq:
  "fold_ok child_tick_control sim_children s =
     bind_ok (controller_tick_control s) (child_tick_control (Comp_node Memory))"
proof -
  obtain pre mid post where split: "sim_children = pre @ Comp_node Controller # mid @ Comp_node Memory # post"
    "Comp_node Controller \<notin> set pre" "Comp_node Memory \<notin> set pre"
    "Comp_node Controller \<notin> set mid" "Comp_node Memory \<notin> set mid"
    "Comp_node Controller \<notin> set post" "Comp_node Memory \<notin> set post"
    by (rule sim_children_split_control)
  have post: "fold_ok child_tick_control (Comp_node Memory # post) t = child_tick_control (Comp_node Memory) t" for t
    by (cases "child_tick_control (Comp_node Memory) t")
      (simp_all add: fold_control_skip [OF split(6,7)])
  have "fold_ok child_tick_control (Comp_node Controller # mid @ Comp_node Memory # post) s =
      bind_ok (controller_tick_control s) (\<lambda>t. fold_ok child_tick_control (mid @ Comp_node Memory # post) t)"
    by (simp add: child_simps)
  also have "\<dots> = bind_ok (controller_tick_control s) (child_tick_control (Comp_node Memory))"
    by (simp only: fold_ok_append fold_control_skip [OF split(4,5)] post bind_ok_Inr)
  finally show ?thesis
    by (simp add: split(1) fold_ok_append fold_control_skip [OF split(2,3)] del: fold_ok.simps)
qed

text \<open>The interrupt line after the devices have been polled.\<close>

definition irq_after :: "memory \<Rightarrow> bool \<Rightarrow> bool" where
  "irq_after rs b =
     fold (\<lambda>r b. case region_module r of
             Input d \<Rightarrow> irq_enabled d \<and> \<not> input_empty d
           | _ \<Rightarrow> b) rs b"

lemma memory_tick_control_eq:
  "memory_tick_control Phase_Control rs cs =
     Inr (cs(Ctl Cpu_root Irq_line := irq_after rs (cs (Ctl Cpu_root Irq_line))))"
proof (induction rs arbitrary: cs)
  case Nil
  then show ?case by (simp add: memory_tick_control_def irq_after_def)
next
  case (Cons r rs)
  then show ?case
    by (cases "region_module r")
      (simp_all add: memory_tick_control_def irq_after_def input_tick_control_def)
qed

definition next_sig :: "cpu \<Rightarrow> ctl list \<Rightarrow> controls" where
  "next_sig s ks =
     (\<lambda>k. k \<in> set ks \<or> sig s k)
       (Ctl Cpu_root Irq_line :=
          irq_after (mem s) (Ctl Cpu_root Irq_line \<in> set ks \<or> sig s (Ctl Cpu_root Irq_line)))"

lemma control_phase_ok:
  assumes "cur_phase s = Phase_Control" and "instruction_mem s = Some im"
    and "lookup im (ir_value s) (byte_regs s Sc) (status_encode (im_status im) (status_reg s)) = Inr ks"
  shows "fold_ok child_tick_control sim_children s = Inr (s\<lparr>sig := next_sig s ks\<rparr>)"
proof -
  have "controller_tick_control s = Inr (s\<lparr>sig := \<lambda>k. k \<in> set ks \<or> sig s k\<rparr>)"
    using assms by (simp add: controller_tick_control_def control_assert_all)
  then show ?thesis
    using assms(1)
    by (simp add: control_phase_eq child_simps memory_tick_control_eq next_sig_def)
qed

lemma clear_list_eq:
  "fold_ok child_tick_clear xs s =
     Inr (s\<lparr>sig := fold control_tick_clear (node_controls xs) (sig s),
            data_bus := (if Comp_node Data_bus \<in> set xs then bus_idle else data_bus s),
            address_bus := (if Comp_node Address_bus \<in> set xs then bus_idle else address_bus s)\<rparr>)"
proof (induction xs arbitrary: s)
  case Nil
  then show ?case by simp
next
  case (Cons x xs)
  show ?case
  proof (cases x)
    case (Control_node k)
    then show ?thesis by (simp add: Cons)
  next
    case (Comp_node c)
    then show ?thesis by (cases c) (simp_all add: Cons child_simps)
  qed
qed

lemma clear_phase_eq:
  "fold_ok child_tick_clear sim_children s =
     Inr (s\<lparr>sig := \<lambda>k. sig s k \<and> \<not> (k \<in> set hdl_controls \<and> ctl_auto_reset k),
            data_bus := bus_idle, address_bus := bus_idle\<rparr>)"
proof -
  have "Comp_node Data_bus \<in> set sim_children" "Comp_node Address_bus \<in> set sim_children"
    by (simp_all add: sim_children_def)
  then show ?thesis
    by (simp add: clear_list_eq sim_control_order control_tick_clear_all)
qed

section \<open>A whole tick\<close>

lemma ir_value_phase [simp]: "ir_value (s\<lparr>cur_phase := p\<rparr>) = ir_value s"
  by (simp add: ir_value_def)

definition idle :: "cpu \<Rightarrow> bool" where
  "idle s \<longleftrightarrow>
     cur_phase s = Phase_None \<and> data_bus s = bus_idle \<and> address_bus s = bus_idle \<and>
     (\<forall>k. sig s k \<longrightarrow> k = Ctl Cpu_root Irq_line) \<and> memory_wf (mem s)"

lemma bus_info_writes:
  "drives c = Some b \<Longrightarrow>
   bus_info (Ctl c Write) = Some (case b of Byte_bus \<Rightarrow> Data_bus_type | Word_bus \<Rightarrow> Address_bus_type, Bus_write_op)"
  "drives c = Some b \<Longrightarrow>
   bus_info (Ctl c Read) = Some (case b of Byte_bus \<Rightarrow> Data_bus_type | Word_bus \<Rightarrow> Address_bus_type, Bus_read_op)"
  by (auto simp: bus_info_def Let_def dest: drives_comp_bus)

lemma length_filter_unique:
  "length (filter P xs) \<le> 1 \<Longrightarrow> x \<in> set xs \<Longrightarrow> y \<in> set xs \<Longrightarrow> P x \<Longrightarrow> P y \<Longrightarrow> x = y"
proof -
  assume len: "length (filter P xs) \<le> 1" and xy: "x \<in> set xs" "y \<in> set xs" "P x" "P y"
  then have "x \<in> set (filter P xs)" "y \<in> set (filter P xs)" by simp_all
  with len show "x = y" by (cases "filter P xs") auto
qed

text \<open>The controls a disciplined step asserts.\<close>

lemma next_sig_write: "idle s \<Longrightarrow> next_sig s ks (Ctl c Write) \<longleftrightarrow> Ctl c Write \<in> set ks"
  by (auto simp: next_sig_def idle_def)

lemma next_sig_read: "idle s \<Longrightarrow> next_sig s ks (Ctl c Read) \<longleftrightarrow> Ctl c Read \<in> set ks"
  by (auto simp: next_sig_def idle_def)

lemma next_sig_process:
  "idle s \<Longrightarrow> k \<noteq> Ctl Cpu_root Irq_line \<Longrightarrow> next_sig s ks k \<longleftrightarrow> k \<in> set ks"
  by (auto simp: next_sig_def idle_def)

lemma one_writer_disciplined:
  assumes "idle s" and "bus_disciplined ks"
  shows "one_writer (next_sig s ks) xs"
  unfolding one_writer_def
proof (intro allI impI)
  fix b c d
  assume w: "writes (next_sig s ks) b c" "writes (next_sig s ks) b d"
  let ?t = "case b of Byte_bus \<Rightarrow> Data_bus_type | Word_bus \<Rightarrow> Address_bus_type"
  have "length (filter (\<lambda>k. bus_info k = Some (?t, Bus_write_op)) ks) \<le> 1"
    using assms(2) unfolding bus_disciplined_def by blast
  from length_filter_unique [OF this, of "Ctl c Write" "Ctl d Write"] w assms(1)
  show "c = d" by (simp add: writes_def next_sig_write bus_info_writes)
qed

lemma all_comps_registered: "drives c \<noteq> None \<Longrightarrow> Comp_node c \<in> set sim_children"
  by (cases c) (simp_all add: drives_def sim_children_def registered_def)

lemma readers_have_writer:
  assumes "idle s" and "bus_disciplined ks" and "reads (next_sig s ks) b c"
    and "set ks \<subseteq> set hdl_controls"
  shows "some_writer (next_sig s ks) b sim_children"
proof -
  let ?t = "case b of Byte_bus \<Rightarrow> Data_bus_type | Word_bus \<Rightarrow> Address_bus_type"
  have dr: "drives c = Some b" and rd: "Ctl c Read \<in> set ks"
    using assms(1,3) by (simp_all add: reads_def next_sig_read)
  then have "bus_info (Ctl c Read) = Some (?t, Bus_read_op)" by (simp add: bus_info_writes)
  with rd assms(2) obtain k where k: "k \<in> set ks" "bus_info k = Some (?t, Bus_write_op)"
    unfolding bus_disciplined_def by blast
  obtain d where d: "k = Ctl d Write"
    using k(2) by (cases k) (auto simp: bus_info_def Let_def split: control_op.splits)
  have "k \<in> set hdl_controls" using k(1) assms(4) by blast
  then have "drives d \<noteq> None"
    unfolding d sim_control_order [symmetric]
    by (cases d) (simp_all add: drives_def sim_children_def registered_def)
  then obtain b' where b': "drives d = Some b'" by auto
  then have "b' = b"
    using k(2) d bus_info_writes(1) [OF b'] by (auto split: bus_width.splits)
  with b' k(1) d assms(1) all_comps_registered [of d] show ?thesis
    by (auto simp: some_writer_def writes_def next_sig_write)
qed

lemma distinct_sim_children: "distinct sim_children"
  by (simp add: sim_children_def registered_def)

lemma cpu_process_ok:
  assumes "cur_phase s = Phase_Process"
  shows "\<exists>t. cpu_process s = Inr t \<and> cur_phase t = Phase_Process \<and> sig t = sig s \<and>
    mem t = mem s \<and> byte_regs t = byte_regs s \<and> word_regs t = word_regs s \<and>
    inject_interrupt t = inject_interrupt s \<and> instruction_mem t = instruction_mem s \<and>
    cycle_count t = cycle_count s \<and>
    (halted t \<longleftrightarrow> halted s \<or> sig s (Ctl Cpu_root Halt) \<or> sig s (Ctl Cpu_root Crash)) \<and>
    (crashed t \<longleftrightarrow> crashed s \<or> sig s (Ctl Cpu_root Crash))"
  using assms by (auto simp: cpu_process_def when_asserted_ok Let_def)

text \<open>
  The result of a tick: it never raises a bus or control error; the only possible failure is
  a write to an address that is unmapped or read-only.
\<close>

lemma tick_disciplined:
  assumes idle: "idle s" and "\<not> halted s" and "instruction_mem s = Some im"
    and look: "lookup im (ir_value s) (byte_regs s Sc) (status_encode (im_status im) (status_reg s)) = Inr ks"
    and known: "set ks \<subseteq> set hdl_controls" and disc: "bus_disciplined ks"
    and mem_ok: "Ctl Memory Read \<in> set ks \<Longrightarrow> writable_addr (mem s) (word_regs s Mar)"
  obtains t where "tick s = Inr t" and "idle t" and "instruction_mem t = Some im"
    and "cycle_count t = cycle_count s + 1"
    and "byte_regs t Sc = sc_next (\<lambda>k. k \<in> set ks) (byte_regs s Sc)"
    and "halted t \<longleftrightarrow> Ctl Cpu_root Halt \<in> set ks \<or> Ctl Cpu_root Crash \<in> set ks"
    and "crashed t \<longleftrightarrow> crashed s \<or> Ctl Cpu_root Crash \<in> set ks"
proof -
  let ?cs = "next_sig s ks"
  have wf: "memory_wf (mem s)" using idle by (simp add: idle_def)
  let ?s1 = "s\<lparr>cur_phase := Phase_Control, sig := ?cs\<rparr>"
  have c: "run_phase Phase_Control child_tick_control s = Inr ?s1"
    using control_phase_ok [of "s\<lparr>cur_phase := Phase_Control\<rparr>" im ks] assms(3) look
    by (simp add: run_phase_def next_sig_def)
  let ?s2 = "?s1\<lparr>cur_phase := Phase_Write\<rparr>"
  have inv: "write_inv ?s2" using idle by (simp add: write_inv_def idle_def)
  obtain s3 where s3: "run_phase Phase_Write child_tick_write ?s1 = Inr s3" "write_inv s3"
    "regs_kept ?s2 s3"
    "bus_wrote (data_bus s3) \<longleftrightarrow> some_writer ?cs Byte_bus sim_children"
    "bus_wrote (address_bus s3) \<longleftrightarrow> some_writer ?cs Word_bus sim_children"
    "\<And>a. writable_addr (mem s3) a = writable_addr (mem s) a"
    using write_phase_ok [OF inv distinct_sim_children] one_writer_disciplined [OF idle disc] idle
    by (auto simp: run_phase_def idle_def)
  let ?s4 = "s3\<lparr>cur_phase := Phase_Read\<rparr>"
  have sig4: "sig ?s4 = ?cs" using s3(3) by (simp add: regs_kept_def same_frame_def)
  have rd: "readable ?s4 b" if "reads (sig ?s4) b d" for b d
    using readers_have_writer [OF idle disc _ known, of b d] that s3(2,4,5) sig4
    by (cases b) (auto simp: readable_def write_inv_def bus_good_def)
  have "\<exists>t. fold_ok child_tick_read sim_children ?s4 = Inr t \<and> read_result ?s4 t"
  proof (rule read_phase_ok)
    show "cur_phase ?s4 = Phase_Read" by simp
    show "memory_wf (mem ?s4)" using s3(2) by (simp add: write_inv_def)
    show "readable ?s4 b" if "reads (sig ?s4) b d" for b d using rd [OF that] .
    show "writable_addr (mem ?s4) (word_regs ?s4 Mar)" if "sig ?s4 (Ctl Memory Read)"
      using that mem_ok s3(3,6) sig4 by (simp add: next_sig_read [OF idle] regs_kept_def)
  qed
  then obtain s5 where s5: "run_phase Phase_Read child_tick_read s3 = Inr s5" "read_result ?s4 s5"
    by (auto simp: run_phase_def)
  let ?s6 = "s5\<lparr>cur_phase := Phase_Process\<rparr>"
  obtain s7 where s7: "run_phase Phase_Process child_tick_process s5 = Inr s7" "only_regs_sc ?s6 s7"
    "byte_regs s7 Sc = sc_next (sig ?s6) (byte_regs ?s6 Sc)"
    using process_phase_ok [of ?s6] by (auto simp: run_phase_def)
  have ph7: "cur_phase s7 = Phase_Process" using s7(2) by (simp add: only_regs_sc_def same_frame_def)
  have sig7: "sig s7 = ?cs"
    using s7(2) s5(2) sig4 by (simp add: only_regs_sc_def read_result_def same_frame_def)
  obtain s8 where s8: "cpu_process s7 = Inr s8" "sig s8 = sig s7" "mem s8 = mem s7"
    "byte_regs s8 = byte_regs s7" "instruction_mem s8 = instruction_mem s7"
    "cycle_count s8 = cycle_count s7"
    "halted s8 \<longleftrightarrow> halted s7 \<or> sig s7 (Ctl Cpu_root Halt) \<or> sig s7 (Ctl Cpu_root Crash)"
    "crashed s8 \<longleftrightarrow> crashed s7 \<or> sig s7 (Ctl Cpu_root Crash)"
    using cpu_process_ok [OF ph7] by blast
  let ?s9 = "s8\<lparr>cur_phase := Phase_Clear,
    sig := \<lambda>k. sig s8 k \<and> \<not> (k \<in> set hdl_controls \<and> ctl_auto_reset k),
    data_bus := bus_idle, address_bus := bus_idle\<rparr>"
  have cl: "run_phase Phase_Clear child_tick_clear s8 = Inr ?s9"
    by (simp add: run_phase_def clear_phase_eq)
  let ?t = "?s9\<lparr>cur_phase := Phase_None, cycle_count := cycle_count s8 + 1\<rparr>"
  have t: "tick s = Inr ?t"
    by (simp only: tick_def assms(2) if_False seq_ok.simps c s3(1) s5(1) s7(1) s8(1) cl bind_ok_Inr)
      simp
  have frames: "instruction_mem s8 = Some im" "cycle_count s8 = cycle_count s"
    "halted s7 = halted s" "crashed s7 = crashed s"
    using s8 s7(2) s5(2) s3(3) assms(3)
    by (simp_all add: only_regs_sc_def read_result_def regs_kept_def same_frame_def)
  have only_irq: "k = Ctl Cpu_root Irq_line"
    if "?cs k" "\<not> (k \<in> set hdl_controls \<and> ctl_auto_reset k)" for k
  proof (rule ccontr)
    assume ne: "k \<noteq> Ctl Cpu_root Irq_line"
    with that(1) have "k \<in> set ks" by (simp add: next_sig_process [OF idle])
    with known have k: "k \<in> set hdl_controls" by blast
    with that(2) have "\<not> ctl_auto_reset k" by blast
    with k ne show False
      unfolding sim_control_order [symmetric] by (auto simp: sim_children_def registered_def)
  qed
  have "memory_wf (mem s8)"
    using s8(3) s7(2) s5(2) by (simp add: only_regs_sc_def read_result_def)
  then have i: "idle ?t"
    using only_irq by (auto simp: idle_def s8(2) sig7)
  have sc: "byte_regs ?t Sc = sc_next (\<lambda>k. k \<in> set ks) (byte_regs s Sc)"
  proof -
    have "sig ?s6 = ?cs" using s5(2) sig4 by (simp add: read_result_def same_frame_def)
    then have "byte_regs s7 Sc = sc_next ?cs (byte_regs s5 Sc)" using s7(3) by simp
    moreover have "byte_regs s5 Sc = byte_regs s Sc"
      using s5(2) s3(3) by (simp add: read_result_def regs_kept_def)
    ultimately show ?thesis
      by (simp add: s8(4) sc_next_def next_sig_process [OF idle])
  qed
  have h: "halted ?t \<longleftrightarrow> Ctl Cpu_root Halt \<in> set ks \<or> Ctl Cpu_root Crash \<in> set ks"
    using s8(7) frames(3) assms(2) by (simp add: sig7 next_sig_process [OF idle])
  have cr: "crashed ?t \<longleftrightarrow> crashed s \<or> Ctl Cpu_root Crash \<in> set ks"
    using s8(8) frames(4) by (simp add: sig7 next_sig_process [OF idle])
  have "instruction_mem ?t = Some im" "cycle_count ?t = cycle_count s + 1" by (simp_all add: frames)
  then show ?thesis by (intro that [OF t i _ _ sc h cr])
qed

end
