(* ===== verification/Sim_Exec.thy ===== *)
theory Sim_Exec
  imports Sim_Tick
begin

text \<open>
  Executing microcode: a tick reduces to the few components whose controls are asserted, so
  the effect of a concrete microcode step is computed by rewriting. The fetch sequence and
  the interrupt injection of the instruction register are derived this way.
\<close>

section \<open>Skipping the components that do nothing\<close>

definition asserted_frame :: "controls \<Rightarrow> tick_phase \<Rightarrow> cpu \<Rightarrow> bool" where
  "asserted_frame cs ph s \<longleftrightarrow> sig s = cs \<and> cur_phase s = ph"

fun active_write :: "controls \<Rightarrow> node \<Rightarrow> bool" where
  "active_write cs (Control_node k) = False"
| "active_write cs (Comp_node c) = cs (Ctl c Write)"

fun active_read :: "controls \<Rightarrow> node \<Rightarrow> bool" where
  "active_read cs (Control_node k) = False"
| "active_read cs (Comp_node c) = cs (Ctl c Read)"

text \<open>The controls the process function of a component looks at.\<close>

definition process_controls :: "comp \<Rightarrow> ctl list" where
  "process_controls c =
     (case class_of c of
        Class_alu \<Rightarrow> [Ctl Alu Opcode_bit_0, Ctl Alu Opcode_bit_1, Ctl Alu Opcode_bit_2, Ctl Alu Opcode_bit_3]
      | Class_program_counter \<Rightarrow> [Ctl Pc Reset, Ctl Pc Increment, Ctl Pc Add_signed_offset]
      | Class_mar \<Rightarrow> [Ctl Mar Interrupt_vector, Ctl Mar Stack_page, Ctl Mar Increment, Ctl Mar Add_offset]
      | Class_status f \<Rightarrow> [Ctl c Set_flag, Ctl c Clear_flag]
      | Class_controller \<Rightarrow> [Ctl Controller Instruction_start]
      | Class_ir \<Rightarrow> [Ctl Ir Reset, Ctl Controller Instruction_start]
      | Class_latched_word \<Rightarrow> [Ctl c Latch]
      | Class_byte_counter \<Rightarrow> [Ctl c Reset, Ctl c Increment, Ctl c Decrement]
      | Class_local_counter \<Rightarrow> [Ctl c Reset, Ctl c Increment, Ctl c Decrement]
      | _ \<Rightarrow> [Ctl c Reset])"

fun active_process :: "controls \<Rightarrow> node \<Rightarrow> bool" where
  "active_process cs (Control_node k) = False"
| "active_process cs (Comp_node c) = list_ex cs (process_controls c)"

lemma when_asserted_frame:
  assumes "when_asserted k act s = Inr t" and "\<And>t. act s = Inr t \<Longrightarrow> same_frame s t"
  shows "same_frame s t"
  using assms by (auto simp: when_asserted_def split: if_splits elim!: bind_ok_eq_InrE)

lemma same_frame_asserted: "same_frame s t \<Longrightarrow> asserted_frame cs ph s \<Longrightarrow> asserted_frame cs ph t"
  by (simp add: same_frame_def asserted_frame_def)

lemma data_write_frame: "data_write c v s = Inr t \<Longrightarrow> same_frame s t"
  by (auto simp: data_write_def elim!: bind_ok_eq_InrE)

lemma address_write_frame: "address_write c v s = Inr t \<Longrightarrow> same_frame s t"
  by (auto simp: address_write_def elim!: bind_ok_eq_InrE)

lemma memory_write_frame:
  "bind_ok (memory_read_value s) (\<lambda>(v, s'). data_write c v s') = Inr t \<Longrightarrow> same_frame s t"
  by (auto simp: memory_read_value_def elim!: bind_ok_eq_InrE dest!: data_write_frame)
    (simp add: same_frame_def)

lemma child_tick_write_frame: "child_tick_write n s = Inr t \<Longrightarrow> same_frame s t"
proof (cases n)
  case (Comp_node c)
  assume "child_tick_write n s = Inr t"
  then show ?thesis unfolding Comp_node
    by (cases c) (auto simp: child_simps Let_def elim!: when_asserted_frame
      dest: data_write_frame address_write_frame memory_write_frame)
qed simp

lemma child_tick_read_frame: "child_tick_read n s = Inr t \<Longrightarrow> same_frame s t"
proof (cases n)
  case (Comp_node c)
  assume r: "child_tick_read n s = Inr t"
  have byte: "same_frame s t"
    if "when_asserted (Ctl c Read) (\<lambda>s. bind_ok (data_read c s) (\<lambda>v. Inr (set_byte c v s))) s = Inr t"
    for s t
    using that by (elim when_asserted_frame) (auto elim!: bind_ok_eq_InrE)
  have status: "same_frame s t"
    if "when_asserted (Ctl c Read) (\<lambda>s. Inr (set_byte Status (analyze (byte_regs s c) (status_reg s)) s)) s = Inr t"
    for s t
    using that by (elim when_asserted_frame) auto
  from r show ?thesis unfolding Comp_node
    by (cases c) (auto simp: child_simps Let_def elim!: bind_ok_eq_InrE
      intro: byte same_frame_trans [OF byte status] elim!: when_asserted_frame)
qed simp

lemma write_active:
  assumes "cur_phase s = Phase_Write"
  shows "fold_ok child_tick_write xs s = fold_ok child_tick_write (filter (active_write (sig s)) xs) s"
proof (rule fold_ok_filter_inv [of _ "asserted_frame (sig s) Phase_Write"])
  fix x t assume t: "asserted_frame (sig s) Phase_Write t" and x: "\<not> active_write (sig s) x"
  show "child_tick_write x t = Inr t"
  proof (cases x)
    case (Comp_node c)
    with x t have "\<not> writes (sig t) b c" for b by (simp add: writes_def asserted_frame_def)
    with t show ?thesis unfolding Comp_node by (intro child_tick_write_none) (simp_all add: asserted_frame_def)
  qed simp
next
  show "asserted_frame (sig s) Phase_Write s" using assms by (simp add: asserted_frame_def)
qed (auto intro: same_frame_asserted child_tick_write_frame)

lemma read_active:
  assumes "cur_phase s = Phase_Read"
  shows "fold_ok child_tick_read xs s = fold_ok child_tick_read (filter (active_read (sig s)) xs) s"
proof (rule fold_ok_filter_inv [of _ "asserted_frame (sig s) Phase_Read"])
  fix x t assume t: "asserted_frame (sig s) Phase_Read t" and x: "\<not> active_read (sig s) x"
  show "child_tick_read x t = Inr t"
  proof (cases x)
    case (Comp_node c)
    with x t have "\<not> reads (sig t) b c" for b by (simp add: reads_def asserted_frame_def)
    with t show ?thesis unfolding Comp_node by (intro child_tick_read_none) (simp_all add: asserted_frame_def)
  qed simp
next
  show "asserted_frame (sig s) Phase_Read s" using assms by (simp add: asserted_frame_def)
qed (auto intro: same_frame_asserted child_tick_read_frame)

lemma child_tick_process_inactive:
  assumes "cur_phase s = Phase_Process" and "\<not> active_process (sig s) (Comp_node c)"
  shows "child_tick_process (Comp_node c) s = Inr s"
  using assms
  by (cases c) (simp_all add: process_controls_def child_simps process_defs asserted_ok
    when_asserted_ok status_tick_process_def alu_opcode_def set_byte_def)

lemma child_tick_process_frame:
  assumes "cur_phase s = Phase_Process" and "child_tick_process n s = Inr t"
  shows "same_frame s t"
proof (cases n)
  case (Comp_node c)
  show ?thesis
  proof (cases "c = Sc")
    case True
    with child_tick_process_sc [OF assms(1)] assms(2) Comp_node show ?thesis
      by (auto simp: only_regs_sc_def)
  next
    case False
    with child_tick_process_ok [OF assms(1) False] assms(2) Comp_node show ?thesis
      by (auto simp: chain_ok_def only_regs_def)
  qed
qed (use assms in simp)

lemma process_active:
  assumes "cur_phase s = Phase_Process"
  shows "fold_ok child_tick_process xs s = fold_ok child_tick_process (filter (active_process (sig s)) xs) s"
proof (rule fold_ok_filter_inv [of _ "asserted_frame (sig s) Phase_Process"])
  fix x t assume t: "asserted_frame (sig s) Phase_Process t" and x: "\<not> active_process (sig s) x"
  show "child_tick_process x t = Inr t"
  proof (cases x)
    case (Comp_node c)
    with x t show ?thesis unfolding Comp_node
      by (intro child_tick_process_inactive) (simp_all add: asserted_frame_def)
  qed simp
next
  show "asserted_frame (sig s) Phase_Process s" using assms by (simp add: asserted_frame_def)
next
  fix x t u
  assume t: "asserted_frame (sig s) Phase_Process t" and u: "child_tick_process x t = Inr u"
  have "same_frame t u"
    by (rule child_tick_process_frame [OF _ u]) (use t in \<open>simp add: asserted_frame_def\<close>)
  from same_frame_asserted [OF this t] show "asserted_frame (sig s) Phase_Process u" .
qed

section \<open>The effect of a step\<close>

text \<open>The phases of a tick over the active components, from an idle processor.\<close>

definition step_effect :: "ctl list \<Rightarrow> cpu \<Rightarrow> sim_error + cpu" where
  "step_effect ks s =
     (let cs = next_sig s ks;
          s1 = s\<lparr>sig := cs, cur_phase := Phase_Write\<rparr>
      in bind_ok (fold_ok child_tick_write (filter (active_write cs) sim_children) s1) (\<lambda>s2.
         bind_ok (fold_ok child_tick_read (filter (active_read cs) sim_children)
                    (s2\<lparr>cur_phase := Phase_Read\<rparr>)) (\<lambda>s3.
         bind_ok (fold_ok child_tick_process (filter (active_process cs) sim_children)
                    (s3\<lparr>cur_phase := Phase_Process\<rparr>)) (\<lambda>s4.
         bind_ok (cpu_process s4) (\<lambda>s5.
         Inr (s5\<lparr>sig := \<lambda>k. cs k \<and> \<not> (k \<in> set hdl_controls \<and> ctl_auto_reset k),
                 data_bus := bus_idle, address_bus := bus_idle,
                 cur_phase := Phase_None, cycle_count := cycle_count s5 + 1\<rparr>))))))"

lemma fold_ok_same_frame:
  assumes "fold_ok f xs s = Inr t" and "\<And>x s t. I s \<Longrightarrow> f x s = Inr t \<Longrightarrow> same_frame s t"
    and "\<And>s t. I s \<Longrightarrow> same_frame s t \<Longrightarrow> I t" and "I s"
  shows "same_frame s t"
proof -
  have "I t \<and> same_frame s t"
    by (rule fold_ok_invariant [OF assms(1), of "\<lambda>u. I u \<and> same_frame s u"])
      (auto intro: assms(3,4) same_frame_trans dest: assms(2))
  then show ?thesis by simp
qed

lemma tick_step_effect:
  assumes "\<not> halted s" and "instruction_mem s = Some im"
    and "lookup im (ir_value s) (byte_regs s Sc) (status_encode (im_status im) (status_reg s)) = Inr ks"
  shows "tick s = step_effect ks s"
proof -
  let ?cs = "next_sig s ks"
  let ?s1 = "s\<lparr>cur_phase := Phase_Control, sig := ?cs\<rparr>"
  have c: "run_phase Phase_Control child_tick_control s = Inr ?s1"
    using control_phase_ok [of "s\<lparr>cur_phase := Phase_Control\<rparr>" im ks] assms
    by (simp add: run_phase_def next_sig_def)
  let ?w = "fold_ok child_tick_write (filter (active_write ?cs) sim_children)
      (s\<lparr>sig := ?cs, cur_phase := Phase_Write\<rparr>)"
  have w: "run_phase Phase_Write child_tick_write ?s1 = ?w"
    using write_active [of "s\<lparr>sig := ?cs, cur_phase := Phase_Write\<rparr>" sim_children]
    by (simp add: run_phase_def)
  have "seq_ok
        [run_phase Phase_Control child_tick_control,
         run_phase Phase_Write child_tick_write,
         run_phase Phase_Read child_tick_read,
         run_phase Phase_Process child_tick_process,
         cpu_process,
         run_phase Phase_Clear child_tick_clear,
         \<lambda>s. Inr (s\<lparr>cur_phase := Phase_None, cycle_count := cycle_count s + 1\<rparr>)] s = step_effect ks s"
  proof (cases ?w)
    case (Inl e)
    then show ?thesis by (simp add: c w step_effect_def Let_def)
  next
    case (Inr s2)
    have f2: "sig s2 = ?cs"
      using fold_ok_same_frame [OF Inr, of "\<lambda>_. True"] child_tick_write_frame
      by (auto simp: same_frame_def)
    let ?r = "fold_ok child_tick_read (filter (active_read ?cs) sim_children) (s2\<lparr>cur_phase := Phase_Read\<rparr>)"
    have r: "run_phase Phase_Read child_tick_read s2 = ?r"
      using read_active [of "s2\<lparr>cur_phase := Phase_Read\<rparr>" sim_children] f2 by (simp add: run_phase_def)
    show ?thesis
    proof (cases ?r)
      case (Inl e)
      then show ?thesis by (simp add: c w Inr r step_effect_def Let_def)
    next
      case r': (Inr s3)
      have f3: "sig s3 = ?cs"
        using fold_ok_same_frame [OF r', of "\<lambda>_. True"] child_tick_read_frame f2
        by (auto simp: same_frame_def)
      let ?p = "fold_ok child_tick_process (filter (active_process ?cs) sim_children)
          (s3\<lparr>cur_phase := Phase_Process\<rparr>)"
      have p: "run_phase Phase_Process child_tick_process s3 = ?p"
        using process_active [of "s3\<lparr>cur_phase := Phase_Process\<rparr>" sim_children] f3
        by (simp add: run_phase_def)
      show ?thesis
      proof (cases ?p)
        case (Inl e)
        then show ?thesis by (simp add: c w Inr r r' p step_effect_def Let_def)
      next
        case p': (Inr s4)
        have "same_frame (s3\<lparr>cur_phase := Phase_Process\<rparr>) s4"
          by (rule fold_ok_same_frame [OF p', of "\<lambda>s. cur_phase s = Phase_Process"])
            (simp_all add: child_tick_process_frame, simp add: same_frame_def)
        then have f4: "sig s4 = ?cs" "cur_phase s4 = Phase_Process" by (simp_all add: f3 same_frame_def)
        obtain s5 where s5: "cpu_process s4 = Inr s5" "sig s5 = ?cs"
          using cpu_process_ok [OF f4(2)] f4(1) by auto
        show ?thesis
          by (simp add: c w Inr r r' p p' s5 step_effect_def Let_def clear_phase_eq
            run_phase_def [of Phase_Clear])
      qed
    qed
  qed
  then show ?thesis by (simp only: tick_def assms(1) if_False)
qed

end
