(* ===== verification/Sim_Run.thy ===== *)
theory Sim_Run
  imports Sim_Exec
begin

text \<open>
  \<open>RunUntilHalt\<close> of \<open>sim/src/cpu.cpp\<close> with a cycle bound: every tick that returns
  counts one cycle, so the loop ends. The 16-bit arithmetic of the program counter and of the
  memory address register.
\<close>

section \<open>The cycle counter\<close>

lemma run_phase_cycle:
  assumes "run_phase ph child s = Inr t"
    and "\<And>n s t. n \<in> set sim_children \<Longrightarrow> cur_phase s = ph \<Longrightarrow> child n s = Inr t \<Longrightarrow>
      cur_phase t = ph \<and> cycle_count t = cycle_count s"
  shows "cur_phase t = ph \<and> cycle_count t = cycle_count s"
  by (rule fold_ok_invariant [OF assms(1) [unfolded run_phase_def],
        of "\<lambda>u. cur_phase u = ph \<and> cycle_count u = cycle_count s"])
    (auto dest: assms(2))

lemma child_tick_control_cycle:
  "child_tick_control n s = Inr t \<Longrightarrow> cur_phase t = cur_phase s \<and> cycle_count t = cycle_count s"
  by (cases n; (cases "class_of (case n of Comp_node c \<Rightarrow> c)")?)
    (auto simp: child_simps controller_tick_control_def split: option.splits sim_class.splits elim!: bind_ok_eq_InrE)

lemma child_tick_clear_cycle:
  "child_tick_clear n s = Inr t \<Longrightarrow> cur_phase t = cur_phase s \<and> cycle_count t = cycle_count s"
  by (cases n) (auto simp: child_simps split: sim_class.splits)

lemma cpu_process_cycle:
  assumes "cpu_process s = Inr t" "cur_phase s = Phase_Process"
  shows "cycle_count t = cycle_count s"
  using assms by (auto simp: cpu_process_def when_asserted_ok Let_def split: if_splits)

lemma tick_cycle:
  assumes "tick s = Inr t" and "\<not> halted s"
  shows "cycle_count t = cycle_count s + 1"
proof -
  from assms obtain s1 s2 s3 s4 s5 s6 where
    s: "run_phase Phase_Control child_tick_control s = Inr s1"
    "run_phase Phase_Write child_tick_write s1 = Inr s2"
    "run_phase Phase_Read child_tick_read s2 = Inr s3"
    "run_phase Phase_Process child_tick_process s3 = Inr s4"
    "cpu_process s4 = Inr s5" "run_phase Phase_Clear child_tick_clear s5 = Inr s6"
    "t = s6\<lparr>cur_phase := Phase_None, cycle_count := cycle_count s6 + 1\<rparr>"
    by (auto simp: tick_def elim!: bind_ok_eq_InrE)
  note cycle = run_phase_cycle [THEN conjunct2]
  have "cycle_count s1 = cycle_count s"
    by (rule cycle [OF s(1)]) (metis child_tick_control_cycle)
  moreover have "cycle_count s2 = cycle_count s1"
    by (rule cycle [OF s(2)]) (metis child_tick_write_frame same_frame_def)
  moreover have "cycle_count s3 = cycle_count s2"
    by (rule cycle [OF s(3)]) (metis child_tick_read_frame same_frame_def)
  moreover have "cur_phase s4 = Phase_Process \<and> cycle_count s4 = cycle_count s3"
    by (rule run_phase_cycle [OF s(4)]) (metis child_tick_process_frame same_frame_def)
  moreover have "cycle_count s6 = cycle_count s5"
    by (rule cycle [OF s(6)]) (metis child_tick_clear_cycle)
  ultimately show ?thesis using cpu_process_cycle [OF s(5)] s(7) by simp
qed

lemma unat_less_Suc:
  fixes a b :: "'a::len word"
  assumes "a < b"
  shows "unat (a + 1) = Suc (unat a)"
proof -
  have "unat a < unat b" using assms by (simp add: word_less_nat_alt)
  moreover have "unat b < 2 ^ LENGTH('a)" by (rule unsigned_less)
  ultimately have "unat a + unat (1 :: 'a word) < 2 ^ LENGTH('a)"
    by (simp only: unsigned_1)
  then show ?thesis using unat_add_lem [of a 1] by simp
qed

text \<open>
  The bounded run always returns. Unless an exception left it, it stopped after exactly the
  counted number of ticks, halted or at the bound.
\<close>

lemma run_loop_max_ticks:
  "cycle_count s - start \<le> max_cycles \<Longrightarrow>
   \<exists>r. run_loop_max start max_cycles s = Some r \<and>
     (\<forall>t. r = Inr t \<longrightarrow>
        (halted t \<or> cycle_count t - start = max_cycles) \<and>
        cycle_count s - start \<le> cycle_count t - start \<and> cycle_count t - start \<le> max_cycles \<and>
        ticks (unat (cycle_count t - start) - unat (cycle_count s - start)) s = Inr t)"
proof (induction "unat (max_cycles - (cycle_count s - start))" arbitrary: s rule: less_induct)
  case less
  show ?case
  proof (cases "\<not> halted s \<and> cycle_count s - start < max_cycles")
    case False
    then show ?thesis using less.prems by (subst run_loop_max.simps) auto
  next
    case running: True
    show ?thesis
    proof (cases "tick s")
      case (Inl e)
      with running show ?thesis by (subst run_loop_max.simps) simp
    next
      case (Inr u)
      let ?d = "cycle_count s - start"
      have d: "cycle_count u - start = ?d + 1"
        using tick_cycle [OF Inr] running by simp
      have nat: "unat (?d + 1) = Suc (unat ?d)" "?d + 1 \<le> max_cycles"
        using running unat_less_Suc [of ?d max_cycles] by (simp_all add: inc_le)
      then have "unat (max_cycles - (cycle_count u - start)) < unat (max_cycles - ?d)"
        using running by (simp add: d unat_sub less_imp_le word_less_nat_alt diff_less_mono2)
      from less.hyps [OF this] d nat(2) obtain r where
        r: "run_loop_max start max_cycles u = Some r" "\<And>t. r = Inr t \<Longrightarrow>
          (halted t \<or> cycle_count t - start = max_cycles) \<and>
          ?d + 1 \<le> cycle_count t - start \<and> cycle_count t - start \<le> max_cycles \<and>
          ticks (unat (cycle_count t - start) - unat (?d + 1)) u = Inr t"
        by auto
      have "?d \<le> cycle_count t - start \<and>
          ticks (unat (cycle_count t - start) - unat ?d) s = Inr t" if "r = Inr t" for t
      proof -
        have lt: "Suc (unat ?d) \<le> unat (cycle_count t - start)"
          using r(2) [OF that] nat(1) by (simp add: word_le_nat_alt)
        then have "unat (cycle_count t - start) - unat ?d =
            Suc (unat (cycle_count t - start) - Suc (unat ?d))" by simp
        with r(2) [OF that] nat(1) Inr lt show ?thesis by (simp add: word_le_nat_alt)
      qed
      with r running Inr show ?thesis by (subst run_loop_max.simps) auto
    qed
  qed
qed


lemma run_until_halt_max_returns:
  "\<exists>r. run_until_halt_max n s = Some r \<and>
     (\<forall>res t. r = Inr (res, t) \<longrightarrow>
        result_cycles res \<le> n \<and> ticks (unat (result_cycles res)) s = Inr t \<and>
        (result_reason res = Reason_timeout \<longleftrightarrow> \<not> halted t) \<and>
        (result_reason res = Reason_timeout \<longrightarrow> result_cycles res = n))"
proof -
  obtain r where r: "run_loop_max (cycle_count s) n s = Some r"
    "\<And>t. r = Inr t \<Longrightarrow> (halted t \<or> cycle_count t - cycle_count s = n) \<and>
       cycle_count t - cycle_count s \<le> n \<and> ticks (unat (cycle_count t - cycle_count s)) s = Inr t"
    using run_loop_max_ticks [of s "cycle_count s" n] by auto
  show ?thesis
  proof (cases r)
    case (Inl e)
    then show ?thesis by (simp add: run_until_halt_max_def r(1))
  next
    case (Inr t)
    then show ?thesis using r(2) [OF Inr] by (auto simp: run_until_halt_max_def r(1))
  qed
qed

section \<open>Address arithmetic\<close>

text \<open>Adding to the low byte and carrying into the high byte is the 16-bit addition.\<close>

lemma carry_sum:
  fixes h l k :: nat
  assumes "l < 256" and "k < 256"
  shows "256 * ((h + (if l + k > 255 then 1 else 0)) mod 256) + (l + k) mod 256 =
    (256 * h + l + k) mod 65536"
proof -
  have "(l + k) div 256 = (if l + k > 255 then 1 else 0)" using assms by (simp add: div_nat_eqI)
  moreover have "(256 * h + l + k) mod (256 * 256) =
      256 * ((256 * h + (l + k)) div 256 mod 256) + (256 * h + (l + k)) mod 256"
    by (simp only: mod_mult2_eq add.assoc)
  ultimately show ?thesis by (simp add: add.assoc)
qed

lemma mar_add_offset_eq: "mar_add_offset off w = w + ucast off"
proof -
  let ?l = "unat w mod 256" and ?h = "unat w div 256" and ?o = "unat off"
  let ?sum = "(ucast (word_low w) :: u16) + ucast off"
  have "?l + ?o < 65536" using unat_u8_less [of off] by linarith
  then have sum: "unat ?sum = ?l + ?o"
    by (simp add: unat_word_ariths unsigned_ucast_eq take_bit_eq_mod unat_word_low)
  have low: "unat (ucast (?sum AND 0xFF) :: u8) = (?l + ?o) mod 256"
    using unat_word_low [of ?sum] sum by (simp only: word_low_def)
  have carry: "?sum > 0xFF \<longleftrightarrow> ?l + ?o > 255"
    by (simp add: word_less_nat_alt sum)
  have "unat (mar_add_offset off w) =
      256 * ((?h + (if ?l + ?o > 255 then 1 else 0)) mod 256) + (?l + ?o) mod 256"
    unfolding mar_add_offset_def Let_def unat_word_of_bytes low carry
    by (simp add: unat_word_ariths unat_word_high)
  also have "\<dots> = (unat w + ?o) mod 65536"
    using carry_sum [of ?l ?o ?h] by simp
  also have "\<dots> = unat (w + ucast off)"
    by (simp add: unat_word_ariths unsigned_ucast_eq take_bit_eq_mod)
  finally show ?thesis by (rule word_unat_eq_iff [THEN iffD2])
qed

lemma add_signed_offset_eq:
  "uint (add_signed_offset off pc) = (uint pc + sint off) mod 65536"
proof -
  have m: "(0xFFFF :: u32) = mask 16" by (simp add: mask_eq_exp_minus_1)
  have *: "uint ((of_int x :: u32) AND 0xFFFF) = x mod 65536" for x
    unfolding m take_bit_eq_mask [symmetric] unsigned_take_bit_eq
    by (simp add: unsigned_of_int take_bit_eq_mod mod_mod_cancel)
  show ?thesis
    unfolding add_signed_offset_def Let_def unsigned_ucast_eq take_bit_eq_mod *
    by (simp only: uint_nat [symmetric]) simp
qed

end
