(* ===== verification/Sim_Debug_Dump.thy ===== *)
theory Sim_Debug_Dump
  imports Sim_Cpu Sim_Debug_Symbols
begin

text \<open>
  The captured state of the processor (\<open>sim/src/cpu.cpp\<close>) and the text of a debug dump
  (\<open>sim/src/debug_dump.cpp\<close>): registers, flags, buses and the trace with its source
  locations. The symbols, an optional member of the processor in the code, are an argument.
\<close>

section \<open>The captured state\<close>

record cpu_state =
  cs_a :: u8
  cs_x :: u8
  cs_y :: u8
  cs_sp :: u8
  cs_tmp :: u16
  cs_pc :: u16
  cs_ir :: u8
  cs_sc :: u8
  cs_status :: u8
  cs_cycle_count :: u64

definition capture_state :: "cpu \<Rightarrow> cpu_state" where
  "capture_state s =
     \<lparr>cs_a = byte_regs s Reg_a, cs_x = byte_regs s Reg_x, cs_y = byte_regs s Reg_y,
      cs_sp = byte_regs s Reg_sp, cs_tmp = word_regs s Reg_tmp, cs_pc = word_regs s Pc,
      cs_ir = ir_value s, cs_sc = byte_regs s Sc, cs_status = status_reg s,
      cs_cycle_count = cycle_count s\<rparr>"

definition instruction_source_location :: "debug_symbols option \<Rightarrow> cpu \<Rightarrow> source_location option" where
  "instruction_source_location syms s =
     (case syms of None \<Rightarrow> None | Some d \<Rightarrow> symbols_lookup d (instruction_address s))"

section \<open>Formats\<close>

definition hex_byte :: "u8 \<Rightarrow> string" where
  "hex_byte b = ''0x'' @ pad_left 2 CHR ''0'' (hexadecimal (unat b))"

definition hex_word :: "u16 \<Rightarrow> string" where
  "hex_word w = ''0x'' @ pad_left 4 CHR ''0'' (hexadecimal (unat w))"

text \<open>A C++ \<open>int\<close> as a stream prints it.\<close>

definition decimal_int :: "int \<Rightarrow> string" where
  "decimal_int i = (if i < 0 then CHR ''-'' # decimal (nat (- i)) else decimal (nat i))"

definition format_location :: "source_location option \<Rightarrow> string" where
  "format_location location =
     (case location of
        None \<Rightarrow> ''unknown''
      | Some l \<Rightarrow>
          loc_file l @ '':'' @ decimal_int (loc_line l) @ '':'' @ decimal_int (loc_column l) @
          (if loc_text l = [] then [] else CHR '' '' # loc_text l))"

definition format_flag :: "u8 \<Rightarrow> string \<times> flag \<Rightarrow> string" where
  "format_flag st nf = fst nf @ ''='' @ (if status_value (snd nf) st then ''1'' else ''0'')"

definition format_flags :: "u8 \<Rightarrow> string" where
  "format_flags st =
     join '' '' (map (format_flag st)
       [(''N'', Negative), (''V'', Overflow), (''U'', Unused), (''B'', Brk), (''D'', Decimal),
        (''I'', Interrupt_disable), (''Z'', Zero), (''C'', Carry)])"

definition format_bus :: "('v \<Rightarrow> string) \<Rightarrow> 'v bus \<Rightarrow> string" where
  "format_bus f b = (case bus_value b of None \<Rightarrow> ''--'' | Some v \<Rightarrow> f v)"

definition format_trace_location :: "debug_symbols option \<Rightarrow> u16 \<Rightarrow> string" where
  "format_trace_location syms address =
     (case syms of None \<Rightarrow> ''unknown'' | Some d \<Rightarrow> format_location (symbols_lookup d address))"

definition dump_trace_entry :: "debug_symbols option \<Rightarrow> nat \<times> trace_entry \<Rightarrow> string" where
  "dump_trace_entry syms ie =
     (let i = fst ie; e = snd ie in
      ''  ['' @ decimal i @ ''] cycle='' @ decimal (unat (entry_cycle e)) @
      '' addr='' @ hex_word (entry_instruction_address e) @ '' ir='' @ hex_byte (entry_ir e) @
      '' pc='' @ hex_word (entry_pc e) @ '' sc='' @ hex_byte (entry_sc e) @
      '' a='' @ hex_byte (entry_a e) @ '' x='' @ hex_byte (entry_x e) @
      '' sr='' @ hex_byte (entry_status e) @ '' '' @
      format_trace_location syms (entry_instruction_address e) @ [newline])"

definition format_debug_dump :: "debug_symbols option \<Rightarrow> cpu \<Rightarrow> string \<Rightarrow> string" where
  "format_debug_dump syms s reason =
     ''Debug dump ('' @ reason @ '')'' @ [newline] @
     ''cycle: '' @ decimal (unat (cycle_count s)) @ [newline] @
     ''instruction: '' @ hex_word (instruction_address s) @ '' '' @
       format_location (instruction_source_location syms s) @ [newline] @
     ''pc: '' @ hex_word (word_regs s Pc) @ '' ipc: '' @ hex_word (word_regs s Ipc) @
       '' ir: '' @ hex_byte (ir_value s) @ '' sc: '' @ hex_byte (byte_regs s Sc) @ [newline] @
     ''a: '' @ hex_byte (byte_regs s Reg_a) @ '' x: '' @ hex_byte (byte_regs s Reg_x) @
       '' sr: '' @ hex_byte (status_reg s) @ '' flags: '' @ format_flags (status_reg s) @ [newline] @
     ''buses: data='' @ format_bus hex_byte (data_bus s) @ '' address='' @
       format_bus hex_word (address_bus s) @ [newline] @
     ''trace ('' @ decimal (length (trace_entries (trace s))) @ '' entries):'' @ [newline] @
     concat (map (dump_trace_entry syms)
       (zip [0..<length (trace_entries (trace s))] (trace_entries (trace s))))"

end
