(* ===== verification/Sim_Runner.thy ===== *)
theory Sim_Runner
  imports Sim_Run Sim_Debug_Dump Sim_Cartridge
begin

text \<open>
  The command that runs a cartridge (\<open>sim/src/run.cpp\<close>): its arguments, the start of the
  processor at the entry of the cartridge, the run, the dump after a failure and the exit code.
  The microprogram and the contents of the files are parameters. The log and the usage text are
  left out. An exception outside the \<open>try\<close> block ends the process (\<open>Terminated\<close>).
\<close>

section \<open>Arguments\<close>

record run_args =
  expect_crash :: bool
  max_cycles_arg :: int
  trace_depth_arg :: int
  debug_path :: string
  cartridge_path :: string

datatype outcome = Exit int | Terminated | Undefined_Behaviour

text \<open>\<open>std::stoll\<close> of an argument: the rest after the digits is ignored; no value: it throws.\<close>

definition stoll_arg :: "string \<Rightarrow> int option" where
  "stoll_arg s =
     (let s1 = dropWhile is_c_space s;
          negative = (s1 \<noteq> [] \<and> hd s1 = CHR ''-'');
          s2 = (if s1 \<noteq> [] \<and> (hd s1 = CHR ''-'' \<or> hd s1 = CHR ''+'') then tl s1 else s1);
          ds = takeWhile is_digit s2 in
      if ds = [] then None
      else case stoll negative ds of Inl e \<Rightarrow> None | Inr n \<Rightarrow> Some n)"

definition log_levels :: "string list" where
  "log_levels = [''info'', ''warning'', ''error'', ''debug'']"

fun parse_run_args :: "string list \<Rightarrow> run_args \<Rightarrow> outcome + run_args" where
  "parse_run_args [] a = Inr a"
| "parse_run_args (arg # args) a =
     (if arg = ''--expect-crash'' then parse_run_args args (a\<lparr>expect_crash := True\<rparr>)
      else if arg = ''--max-cycles'' then
        (case args of
           [] \<Rightarrow> Inl (Exit 1)
         | v # args' \<Rightarrow>
             (case stoll_arg v of
                None \<Rightarrow> Inl Terminated
              | Some n \<Rightarrow> parse_run_args args' (a\<lparr>max_cycles_arg := n\<rparr>)))
      else if arg = ''--debug'' then
        (case args of
           [] \<Rightarrow> Inl (Exit 1)
         | v # args' \<Rightarrow> parse_run_args args' (a\<lparr>debug_path := v\<rparr>))
      else if arg = ''--trace-depth'' then
        (case args of
           [] \<Rightarrow> Inl (Exit 1)
         | v # args' \<Rightarrow>
             (case stoll_arg v of
                None \<Rightarrow> Inl Terminated
              | Some n \<Rightarrow> parse_run_args args' (a\<lparr>trace_depth_arg := n\<rparr>)))
      else if arg = ''--log-level'' then
        (case args of
           [] \<Rightarrow> Inl (Exit 1)
         | v # args' \<Rightarrow> if v \<in> set log_levels then parse_run_args args' a else Inl (Exit 1))
      else if cartridge_path a = [] then parse_run_args args (a\<lparr>cartridge_path := arg\<rparr>)
      else Inl (Exit 1))"

definition default_run_args :: run_args where
  "default_run_args =
     \<lparr>expect_crash = False, max_cycles_arg = -1, trace_depth_arg = -1, debug_path = [],
      cartridge_path = []\<rparr>"

definition run_arguments :: "string list \<Rightarrow> outcome + run_args" where
  "run_arguments args =
     (if args = [] then Inl (Exit 1)
      else bind_ok (parse_run_args args default_run_args) (\<lambda>a.
        if cartridge_path a = [] then Inl (Exit 1) else Inr a))"

section \<open>The run\<close>

definition boot :: "u16 \<Rightarrow> cpu \<Rightarrow> sim_error + cpu" where
  "boot entry s =
     (let s1 = set_byte Sc 0 (set_word Pc entry s) in
      bind_ok (read_at entry (mem s1)) (\<lambda>(v, m). Inr (set_byte Ir v (s1\<lparr>mem := m\<rparr>))))"

definition run_bounded :: "int \<Rightarrow> cpu \<Rightarrow> (sim_error + (run_result \<times> cpu)) option" where
  "run_bounded max_cycles s =
     (if max_cycles < 0 then run_until_halt s else run_until_halt_max (word_of_int max_cycles) s)"

definition trace_setup :: "run_args \<Rightarrow> cpu \<Rightarrow> cpu" where
  "trace_setup a s =
     (if debug_path a \<noteq> []
      then enable_trace (nat (if trace_depth_arg a \<ge> 0 then trace_depth_arg a else 64)) s
      else if trace_depth_arg a \<ge> 0 then enable_trace (nat (trace_depth_arg a)) s
      else s)"

definition failure_dump :: "run_args \<Rightarrow> debug_symbols option \<Rightarrow> halt_reason \<Rightarrow> cpu \<Rightarrow> string" where
  "failure_dump a syms reason s =
     (let timed_out = (reason = Reason_timeout);
          unexpected_crash = (reason = Reason_crash \<and> \<not> expect_crash a);
          unexpected_halt = (reason = Reason_halt \<and> expect_crash a) in
      if debug_path a \<noteq> [] \<and> (timed_out \<or> unexpected_crash \<or> unexpected_halt)
      then format_debug_dump syms s
             (if timed_out then ''timeout'' else if unexpected_crash then ''crash'' else ''halt'') @ [newline]
      else [])"

definition exit_code :: "bool \<Rightarrow> halt_reason \<Rightarrow> int" where
  "exit_code expects_crash reason =
     (if reason = Reason_timeout then 4
      else if expects_crash then (if reason = Reason_crash then 0 else 2)
      else if reason = Reason_crash then 2 else 0)"

text \<open>The optional symbols: \<open>LoadDebugSymbols\<close> when a path is given.\<close>

definition run_symbols ::
  "run_args \<Rightarrow> (string \<Rightarrow> string option) \<Rightarrow> (symbols_error + debug_symbols option) option" where
  "run_symbols a texts =
     (if debug_path a = [] then Some (Inr None)
      else run_bind (load_debug_symbols (debug_path a) (texts (debug_path a))) (\<lambda>d. Some (Inr (Some d))))"

text \<open>
  The outcome and what goes to the error stream of a run; no value when the run does not end.
  Every exception of the library is caught and gives exit code 1.
\<close>

definition run_cartridge ::
  "microcode_program \<Rightarrow> (string \<Rightarrow> u8 list option) \<Rightarrow> (string \<Rightarrow> string option) \<Rightarrow> run_args \<Rightarrow>
   (outcome \<times> string) option" where
  "run_cartridge p files texts a =
     (case load_cartridge (cartridge_path a) (files (cartridge_path a)) of
        Inl e \<Rightarrow> Some (if e = Read_Out_Of_Bounds then Undefined_Behaviour else Exit 1, [])
      | Inr c \<Rightarrow>
          (case bind_ok (make_cpu p (l_rom c) []) (boot (h_entry (l_header c))) of
             Inl e \<Rightarrow> Some (Exit 1, [])
           | Inr s \<Rightarrow>
               (case run_symbols a texts of
                  None \<Rightarrow> None
                | Some (Inl e) \<Rightarrow> Some (Exit 1, [])
                | Some (Inr syms) \<Rightarrow>
                    (case run_bounded (max_cycles_arg a) (trace_setup a s) of
                       None \<Rightarrow> None
                     | Some (Inl e) \<Rightarrow> Some (Exit 1, [])
                     | Some (Inr (res, s')) \<Rightarrow>
                         Some (Exit (exit_code (expect_crash a) (result_reason res)),
                               failure_dump a syms (result_reason res) s')))))"

definition run_main ::
  "microcode_program \<Rightarrow> (string \<Rightarrow> u8 list option) \<Rightarrow> (string \<Rightarrow> string option) \<Rightarrow> string list \<Rightarrow>
   (outcome \<times> string) option" where
  "run_main p files texts args =
     (case run_arguments args of
        Inl out \<Rightarrow> Some (out, [])
      | Inr a \<Rightarrow> run_cartridge p files texts a)"

end
