(* ===== verification/Sim_Disassembler.thy ===== *)
theory Sim_Disassembler
  imports Asm_Assembler Sim_Debug_Symbols
begin

text \<open>
  The disassembler (\<open>sim/src/disassembler.cpp\<close>). The generated instruction set is the
  parameter it also is for the assembler. \<open>std::vector::at\<close> throws when an addressing mode
  has fewer operand bytes than its format uses.
\<close>

datatype disassembler_error = Operand_out_of_range

record disassemble_options =
  dis_origin :: u16
  emit_org :: bool
  emit_labels :: bool
  emit_addresses :: bool
  emit_bytes :: bool

definition default_disassemble_options :: disassemble_options where
  "default_disassemble_options =
     \<lparr>dis_origin = 0x8000, emit_org = True, emit_labels = True, emit_addresses = False, emit_bytes = False\<rparr>"

text \<open>The formats \<open>${:02X}\<close> and \<open>${:04X}\<close>.\<close>

definition upper_char :: "char \<Rightarrow> char" where
  "upper_char c = (if is_lower c then char_of (of_char c - 32 :: nat) else c)"

definition upper_hexadecimal :: "nat \<Rightarrow> string" where
  "upper_hexadecimal n = map upper_char (hexadecimal n)"

definition format_hex_byte :: "u8 \<Rightarrow> string" where
  "format_hex_byte v = CHR ''$'' # pad_left 2 CHR ''0'' (upper_hexadecimal (unat v))"

definition format_hex_word :: "u16 \<Rightarrow> string" where
  "format_hex_word v = CHR ''$'' # pad_left 4 CHR ''0'' (upper_hexadecimal (unat v))"

text \<open>The first name of an address is kept.\<close>

definition build_label_map :: "debug_symbols option \<Rightarrow> (u16 \<times> string) list" where
  "build_label_map syms =
     (case syms of
        None \<Rightarrow> []
      | Some d \<Rightarrow> fold (\<lambda>entry labels. emplace (snd entry) (fst entry) labels) (ds_symbols d) [])"

definition byte_at :: "u8 list \<Rightarrow> nat \<Rightarrow> disassembler_error + u8" where
  "byte_at bytes i = (if i < length bytes then Inr (bytes ! i) else Inl Operand_out_of_range)"

definition target_name :: "(u16 \<times> string) list \<Rightarrow> u16 \<Rightarrow> string" where
  "target_name labels target =
     (case map_of labels target of Some name \<Rightarrow> name | None \<Rightarrow> format_hex_word target)"

definition format_operand_at ::
  "addressing_mode \<Rightarrow> u8 list \<Rightarrow> u16 \<Rightarrow> (u16 \<times> string) list \<Rightarrow> disassembler_error + string" where
  "format_operand_at mode bytes address labels =
     (let with_byte = (\<lambda>f. bind_ok (byte_at bytes 0) (\<lambda>b. Inr (f (format_hex_byte b))));
          with_target = (\<lambda>f.
            bind_ok (byte_at bytes 0) (\<lambda>low. bind_ok (byte_at bytes 1) (\<lambda>high.
              Inr (f (target_name labels (ucast low OR push_bit 8 (ucast high))))))) in
      case mode of
        IMP \<Rightarrow> Inr []
      | IMM \<Rightarrow> with_byte (\<lambda>s. CHR ''#'' # s)
      | ZP \<Rightarrow> with_byte (\<lambda>s. s)
      | ZPX \<Rightarrow> with_byte (\<lambda>s. s @ '',X'')
      | ZPY \<Rightarrow> with_byte (\<lambda>s. s @ '',Y'')
      | IZX \<Rightarrow> with_byte (\<lambda>s. ''('' @ s @ '',X)'')
      | IZY \<Rightarrow> with_byte (\<lambda>s. ''('' @ s @ ''),Y'')
      | ABS \<Rightarrow> with_target (\<lambda>s. s)
      | ABX \<Rightarrow> with_target (\<lambda>s. s @ '',X'')
      | ABY \<Rightarrow> with_target (\<lambda>s. s @ '',Y'')
      | IND \<Rightarrow> with_target (\<lambda>s. ''('' @ s @ '')'')
      | REL \<Rightarrow> bind_ok (byte_at bytes 0) (\<lambda>b. Inr (target_name labels (address + 2 + scast b))))"

text \<open>\<open>IsaInfo::GetInstruction\<close>: the last instruction of an opcode wins in the generated map.\<close>

definition get_instruction :: "isa_info \<Rightarrow> u8 \<Rightarrow> instruction_info option" where
  "get_instruction isa op = List.find (\<lambda>i. i_opcode i = op) (rev (isa_instructions isa))"

text \<open>The instruction at an index with its operand bytes, when it is known and complete.\<close>

definition decode_at :: "isa_info \<Rightarrow> u8 list \<Rightarrow> nat \<Rightarrow> (instruction_info \<times> u8 list) option" where
  "decode_at isa rom idx =
     (case get_instruction isa (rom ! idx) of
        None \<Rightarrow> None
      | Some info \<Rightarrow>
          let n = (case isa_operand_bytes isa (i_mode info) of None \<Rightarrow> 0 | Some b \<Rightarrow> unat b) in
          if idx + n \<ge> length rom then None else Some (info, take n (drop (idx + 1) rom)))"

definition line_comment :: "disassemble_options \<Rightarrow> u16 \<Rightarrow> u8 \<Rightarrow> u8 list \<Rightarrow> string" where
  "line_comment opts address op bytes =
     (if emit_addresses opts \<or> emit_bytes opts then
        '' ;'' @ (if emit_addresses opts then CHR '' '' # format_hex_word address else []) @
        (if emit_bytes opts
         then CHR '' '' # format_hex_byte op @ concat (map (\<lambda>b. CHR '' '' # format_hex_byte b) bytes)
         else [])
      else [])"

definition label_line :: "disassemble_options \<Rightarrow> (u16 \<times> string) list \<Rightarrow> u16 \<Rightarrow> string" where
  "label_line opts labels address =
     (if emit_labels opts then
        (case map_of labels address of None \<Rightarrow> [] | Some name \<Rightarrow> name @ '':'' @ [newline])
      else [])"

function disassemble_loop ::
  "isa_info \<Rightarrow> u8 list \<Rightarrow> (u16 \<times> string) list \<Rightarrow> disassemble_options \<Rightarrow> nat \<Rightarrow> u16 \<Rightarrow>
   disassembler_error + string" where
  "disassemble_loop isa rom labels opts idx address =
     (if idx \<ge> length rom then Inr []
      else
        case decode_at isa rom idx of
          None \<Rightarrow>
            bind_ok (disassemble_loop isa rom labels opts (idx + 1) (address + 1)) (\<lambda>out.
              Inr (label_line opts labels address @ ''.byte '' @ format_hex_byte (rom ! idx) @ [newline] @ out))
        | Some (info, bytes) \<Rightarrow>
            bind_ok (format_operand_at (i_mode info) bytes address labels) (\<lambda>opnd.
            bind_ok (disassemble_loop isa rom labels opts (idx + 1 + length bytes)
                (address + 1 + of_nat (length bytes))) (\<lambda>out.
              Inr (label_line opts labels address @ i_mnemonic info @
                (if opnd = [] then [] else CHR '' '' # opnd) @
                line_comment opts address (rom ! idx) bytes @ [newline] @ out))))"
  by pat_completeness auto
termination
  by (relation "measure (\<lambda>(isa, rom, labels, opts, idx, address). length rom - idx)") auto

declare disassemble_loop.simps [simp del]

definition disassemble ::
  "isa_info \<Rightarrow> u8 list \<Rightarrow> debug_symbols option \<Rightarrow> disassemble_options \<Rightarrow> disassembler_error + string" where
  "disassemble isa rom syms opts =
     bind_ok (disassemble_loop isa rom (build_label_map syms) opts 0 (dis_origin opts)) (\<lambda>out.
       Inr ((if emit_org opts then ''.org '' @ format_hex_word (dis_origin opts) @ [newline] else []) @ out))"

end
