(* ===== verification/Micro_Decoder.thy ===== *)
theory Micro_Decoder
  imports Micro_Compiler Text_Formats "HOL-Library.Product_Lexorder"
begin

text \<open>
  The decoder of compiled microcode (\<open>microcode/src/debug/decoder.cpp\<close>): control words and
  status bytes as names, and dumps of the table as text and YAML. The four loops print a header
  when the opcode or the status changes and remember the last one, 255 at the start.
  The lemmas of \<open>Micro_Dump\<close> show that this is the nested listing by opcode, status and step, whatever
  the order of the hash table, when 255 is not the first value; \<open>dump_hides_header\<close> shows
  what is lost when it is.
\<close>

section \<open>Decoding\<close>

definition decode_control_word :: "microcode_program \<Rightarrow> u128 \<Rightarrow> string list" where
  "decode_control_word p w =
     map (\<lambda>i. control_paths p ! i)
       (filter (\<lambda>i. drop_bit i w AND 1 \<noteq> 0) [0..<length (control_paths p)])"

definition decode_status_bits :: "microcode_program \<Rightarrow> u8 \<Rightarrow> string" where
  "decode_status_bits p status =
     (if status = 0 then ''default''
      else join '','' (map bit_name
        (filter (\<lambda>b. drop_bit (unat (bit_index b)) status AND 1 \<noteq> 0) (status_bits p))))"

section \<open>The loops\<close>

text \<open>\<open>program_.table.at\<close> throws for a key that is not in the table.\<close>

datatype decoder_error = Key_out_of_range

definition step_controls :: "microcode_program \<Rightarrow> microcode_key \<Rightarrow> decoder_error + string list" where
  "step_controls p k =
     (case map_of (table p) (encode_key k) of
        None \<Rightarrow> Inl Key_out_of_range
      | Some w \<Rightarrow> Inr (decode_control_word p w))"

text \<open>The keys of the table, and the orders of the two comparison functions.\<close>

definition collect_keys :: "microcode_program \<Rightarrow> microcode_key list" where
  "collect_keys p = map (\<lambda>e. decode_key (fst e)) (table p)"

definition program_order :: "microcode_key \<Rightarrow> u8 \<times> u8 \<times> u8" where
  "program_order k = (key_opcode k, key_status k, key_step k)"

definition instruction_order :: "microcode_key \<Rightarrow> u8 \<times> u8" where
  "instruction_order k = (key_status k, key_step k)"

text \<open>The four dumps print the same parts in their own format.\<close>

record dump_layout =
  opcode_lines :: "u8 \<Rightarrow> string"
  opcode_separator :: string
  status_lines :: "u8 \<Rightarrow> string"
  step_lines :: "u8 \<Rightarrow> string list \<Rightarrow> string"

record dump_state =
  current_opcode :: u8
  current_status :: u8
  dumped :: string

definition dump_opcode :: "dump_layout \<Rightarrow> microcode_key \<Rightarrow> dump_state \<Rightarrow> dump_state" where
  "dump_opcode l k st =
     (if key_opcode k \<noteq> current_opcode st
      then \<lparr>current_opcode = key_opcode k, current_status = 255,
            dumped = dumped st @ (if current_opcode st \<noteq> 255 then opcode_separator l else []) @
              opcode_lines l (key_opcode k)\<rparr>
      else st)"

definition dump_status :: "dump_layout \<Rightarrow> microcode_key \<Rightarrow> dump_state \<Rightarrow> dump_state" where
  "dump_status l k st =
     (if key_status k \<noteq> current_status st
      then st\<lparr>current_status := key_status k, dumped := dumped st @ status_lines l (key_status k)\<rparr>
      else st)"

definition dump_step ::
  "dump_layout \<Rightarrow> microcode_program \<Rightarrow> microcode_key \<Rightarrow> dump_state \<Rightarrow> decoder_error + dump_state" where
  "dump_step l p k st =
     bind_ok (step_controls p k) (\<lambda>cs. Inr (st\<lparr>dumped := dumped st @ step_lines l (key_step k) cs\<rparr>))"

definition dump_program_loop ::
  "dump_layout \<Rightarrow> microcode_program \<Rightarrow> microcode_key list \<Rightarrow> dump_state \<Rightarrow> decoder_error + dump_state" where
  "dump_program_loop l p ks st =
     fold_ok (\<lambda>k st. dump_step l p k (dump_status l k (dump_opcode l k st))) ks st"

definition dump_instruction_loop ::
  "dump_layout \<Rightarrow> microcode_program \<Rightarrow> microcode_key list \<Rightarrow> dump_state \<Rightarrow> decoder_error + dump_state" where
  "dump_instruction_loop l p ks st = fold_ok (\<lambda>k st. dump_step l p k (dump_status l k st)) ks st"

section \<open>The four dumps\<close>

definition text_layout :: "microcode_program \<Rightarrow> dump_layout" where
  "text_layout p =
     \<lparr>opcode_lines = (\<lambda>op. ''opcode '' @ decimal (unat op) @ '':'' @ [newline]),
      opcode_separator = [newline],
      status_lines = (\<lambda>status. ''  status '' @ decode_status_bits p status @ '':'' @ [newline]),
      step_lines = (\<lambda>n cs. ''    step '' @ decimal (unat n) @ '': ['' @ join '', '' cs @ '']'' @ [newline])\<rparr>"

definition yaml_layout :: "microcode_program \<Rightarrow> string \<Rightarrow> (u8 \<Rightarrow> string) \<Rightarrow> dump_layout" where
  "yaml_layout p indent opcode_line =
     \<lparr>opcode_lines = opcode_line, opcode_separator = [],
      status_lines = (\<lambda>status. indent @ ''status_'' @ decode_status_bits p status @ '':'' @ [newline] @
        indent @ ''  steps:'' @ [newline]),
      step_lines = (\<lambda>n cs. indent @ ''    - stage: '' @ decimal (unat n) @ [newline] @
        indent @ ''      controls:'' @ [newline] @
        concat (map (\<lambda>c. indent @ ''        - '' @ c @ [newline]) cs))\<rparr>"

definition program_yaml_layout :: "microcode_program \<Rightarrow> dump_layout" where
  "program_yaml_layout p =
     yaml_layout p ''    '' (\<lambda>op. ''  '' @ decimal (unat op) @ '':'' @ [newline])"

definition instruction_yaml_layout :: "microcode_program \<Rightarrow> dump_layout" where
  "instruction_yaml_layout p =
     yaml_layout p ''  '' (\<lambda>op. ''opcode_'' @ decimal (unat op) @ '':'' @ [newline])"

definition dump_start :: "string \<Rightarrow> dump_state" where
  "dump_start out = \<lparr>current_opcode = 255, current_status = 255, dumped = out\<rparr>"

definition dump_program :: "microcode_program \<Rightarrow> decoder_error + string" where
  "dump_program p =
     bind_ok (dump_program_loop (text_layout p) p (sort_key program_order (collect_keys p)) (dump_start []))
       (\<lambda>st. Inr (dumped st))"

definition dump_instruction :: "microcode_program \<Rightarrow> u8 \<Rightarrow> decoder_error + string" where
  "dump_instruction p op =
     (let ks = filter (\<lambda>k. key_opcode k = op) (collect_keys p) in
      if ks = [] then Inr (''opcode '' @ decimal (unat op) @ '': (no microcode)'' @ [newline])
      else bind_ok (dump_instruction_loop (text_layout p) p (sort_key instruction_order ks)
             (dump_start (opcode_lines (text_layout p) op))) (\<lambda>st. Inr (dumped st)))"

definition dump_program_yaml :: "microcode_program \<Rightarrow> decoder_error + string" where
  "dump_program_yaml p =
     (let ks = sort_key program_order (collect_keys p) in
      if ks = [] then Inr (''opcodes: {}'' @ [newline])
      else bind_ok (dump_program_loop (program_yaml_layout p) p ks (dump_start (''opcodes:'' @ [newline])))
             (\<lambda>st. Inr (dumped st)))"

definition dump_instruction_yaml :: "microcode_program \<Rightarrow> u8 \<Rightarrow> decoder_error + string" where
  "dump_instruction_yaml p op =
     (let ks = filter (\<lambda>k. key_opcode k = op) (collect_keys p) in
      if ks = [] then Inr (''opcode_'' @ decimal (unat op) @ '': null'' @ [newline])
      else bind_ok (dump_instruction_loop (instruction_yaml_layout p) p (sort_key instruction_order ks)
             (dump_start (opcode_lines (instruction_yaml_layout p) op))) (\<lambda>st. Inr (dumped st)))"

end
