(* ===== verification/Tools.thy ===== *)
theory Tools
  imports Asm_Assembler Sim_Cartridge Sim_Runner Sim_Disassembler Micro_Decoder
begin

text \<open>
  The command lines of the assembler, the disassembler, the cartridge inspector and the
  microcode dump. The files are one map from paths to bytes that a run returns updated; which
  paths can be written, what \<open>fs::canonical\<close> finds, the generated instruction set and the
  current directory are parameters. Usage texts and error streams are left out.
\<close>

type_synonym disk = "string \<Rightarrow> u8 list option"

definition file_bytes :: "string \<Rightarrow> u8 list" where
  "file_bytes text = map byte_of_char text"

definition file_text :: "u8 list \<Rightarrow> string" where
  "file_text bytes = map char_of_byte bytes"

lemma file_text_bytes [simp]: "file_text (file_bytes text) = text"
  by (simp add: file_text_def file_bytes_def comp_def)

definition disk_text :: "disk \<Rightarrow> string \<Rightarrow> string option" where
  "disk_text disk path = map_option file_text (disk path)"

section \<open>The assembler\<close>

definition write_file ::
  "(string \<Rightarrow> bool) \<Rightarrow> string \<Rightarrow> u8 list \<Rightarrow> disk \<Rightarrow> asm_error + disk" where
  "write_file writable path content disk =
     (if writable path then Inr (disk(path \<mapsto> content))
      else Inl (Runtime_Error (''failed to write file: '' @ path)))"

definition disk_system :: "(string \<Rightarrow> string option) \<Rightarrow> disk \<Rightarrow> file_system" where
  "disk_system canonical disk = \<lparr>fs_canonical = canonical, fs_read = disk_text disk\<rparr>"

text \<open>Every exception gives exit code 1; a cartridge that was written before it stays.\<close>

definition asm_main ::
  "nat \<Rightarrow> isa_info \<Rightarrow> (string \<Rightarrow> string option) \<Rightarrow> string \<Rightarrow> (string \<Rightarrow> bool) \<Rightarrow> string list \<Rightarrow> disk \<Rightarrow>
   (outcome \<times> disk) option" where
  "asm_main fuel isa canonical current_path writable args disk =
     (if length args < 2 then Some (Exit 1, disk)
      else
        let input = args ! 0; output = args ! 1;
            debug = (if length args \<ge> 3 then args ! 2 else []) in
        case assemble_file fuel isa (disk_system canonical disk) current_path input default_options of
          None \<Rightarrow> None
        | Some (Inl e) \<Rightarrow> Some (Exit 1, disk)
        | Some (Inr result) \<Rightarrow>
            (case write_file writable output (write_cartridge result) disk of
               Inl e \<Rightarrow> Some (Exit 1, disk)
             | Inr disk1 \<Rightarrow>
                 if debug = [] then Some (Exit 0, disk1)
                 else
                   (case write_file writable debug (file_bytes (a_debug_json result)) disk1 of
                      Inl e \<Rightarrow> Some (Exit 1, disk1)
                    | Inr disk2 \<Rightarrow> Some (Exit 0, disk2))))"

section \<open>Numbers of the command line\<close>

text \<open>\<open>std::stoul\<close> with its index: the value and what is left after the digits.\<close>

definition stoul_rest :: "int \<Rightarrow> string \<Rightarrow> (int \<times> string) option" where
  "stoul_rest base s =
     (let is_base_digit = (\<lambda>c. 0 \<le> digit_value c \<and> digit_value c < base);
          s1 = dropWhile is_c_space s;
          negative = (s1 \<noteq> [] \<and> hd s1 = CHR ''-'');
          s2 = (if s1 \<noteq> [] \<and> (hd s1 = CHR ''-'' \<or> hd s1 = CHR ''+'') then tl s1 else s1);
          s3 = (if base = 16 \<and> length s2 > 2 \<and> s2 ! 0 = CHR ''0'' \<and>
                   (s2 ! 1 = CHR ''x'' \<or> s2 ! 1 = CHR ''X'') \<and> is_base_digit (s2 ! 2)
                then drop 2 s2 else s2);
          ds = takeWhile is_base_digit s3;
          v = fold_digits base 0 ds in
      if ds = [] \<or> v \<ge> 2 ^ 64 then None
      else Some (if negative then (2 ^ 64 - v) mod 2 ^ 64 else v, dropWhile is_base_digit s3))"

definition parse_u16 :: "string \<Rightarrow> u16 option" where
  "parse_u16 value =
     (let hex = (value \<noteq> [] \<and> hd value = CHR ''$'') in
      case stoul_rest (if hex then 16 else 10) (if hex then tl value else value) of
        None \<Rightarrow> None
      | Some (v, rest) \<Rightarrow> if rest \<noteq> [] \<or> v > 0xFFFF then None else Some (word_of_int v))"

section \<open>The disassembler\<close>

record disasm_args =
  da_rom :: string
  da_debug :: string
  da_options :: disassemble_options

fun parse_disasm_args :: "string list \<Rightarrow> disasm_args \<Rightarrow> outcome + disasm_args" where
  "parse_disasm_args [] a = Inr a"
| "parse_disasm_args (arg # args) a =
     (if arg = ''--rom'' then
        (case args of [] \<Rightarrow> Inl (Exit 1) | v # args' \<Rightarrow> parse_disasm_args args' (a\<lparr>da_rom := v\<rparr>))
      else if arg = ''--debug'' then
        (case args of [] \<Rightarrow> Inl (Exit 1) | v # args' \<Rightarrow> parse_disasm_args args' (a\<lparr>da_debug := v\<rparr>))
      else if arg = ''--origin'' then
        (case args of
           [] \<Rightarrow> Inl (Exit 1)
         | v # args' \<Rightarrow>
             (case parse_u16 v of
                None \<Rightarrow> Inl (Exit 1)
              | Some n \<Rightarrow> parse_disasm_args args' (a\<lparr>da_options := (da_options a)\<lparr>dis_origin := n\<rparr>\<rparr>)))
      else if arg = ''--show-addresses''
      then parse_disasm_args args (a\<lparr>da_options := (da_options a)\<lparr>emit_addresses := True\<rparr>\<rparr>)
      else if arg = ''--show-bytes''
      then parse_disasm_args args (a\<lparr>da_options := (da_options a)\<lparr>emit_bytes := True\<rparr>\<rparr>)
      else if arg = ''--no-labels''
      then parse_disasm_args args (a\<lparr>da_options := (da_options a)\<lparr>emit_labels := False\<rparr>\<rparr>)
      else if arg = ''--no-org''
      then parse_disasm_args args (a\<lparr>da_options := (da_options a)\<lparr>emit_org := False\<rparr>\<rparr>)
      else Inl (Exit 1))"

definition default_disasm_args :: disasm_args where
  "default_disasm_args = \<lparr>da_rom = [], da_debug = [], da_options = default_disassemble_options\<rparr>"

definition optional_symbols :: "string \<Rightarrow> disk \<Rightarrow> (symbols_error + debug_symbols option) option" where
  "optional_symbols path disk =
     (if path = [] then Some (Inr None)
      else run_bind (load_debug_symbols path (disk_text disk path)) (\<lambda>d. Some (Inr (Some d))))"

text \<open>How a tool ends when the cartridge cannot be loaded.\<close>

definition load_failure :: "load_error \<Rightarrow> outcome" where
  "load_failure e = (if e = Read_Out_Of_Bounds then Undefined_Behaviour else Exit 1)"

definition disasm_main :: "isa_info \<Rightarrow> string list \<Rightarrow> disk \<Rightarrow> (outcome \<times> string) option" where
  "disasm_main isa args disk =
     (case parse_disasm_args args default_disasm_args of
        Inl out \<Rightarrow> Some (out, [])
      | Inr a \<Rightarrow>
          if da_rom a = [] then Some (Exit 1, [])
          else
            case load_cartridge (da_rom a) (disk (da_rom a)) of
              Inl e \<Rightarrow> Some (load_failure e, [])
            | Inr c \<Rightarrow>
                (case optional_symbols (da_debug a) disk of
                   None \<Rightarrow> None
                 | Some (Inl e) \<Rightarrow> Some (Exit 1, [])
                 | Some (Inr syms) \<Rightarrow>
                     (case disassemble isa (l_rom c) syms (da_options a) of
                        Inl e \<Rightarrow> Some (Exit 1, [])
                      | Inr out \<Rightarrow> Some (Exit 0, out))))"

section \<open>The cartridge inspector\<close>

text \<open>\<open>Word::to_string\<close> and \<open>Byte::to_string\<close>.\<close>

definition word_to_string :: "u16 \<Rightarrow> string" where
  "word_to_string w = ''0x'' @ pad_left 4 CHR ''0'' (upper_hexadecimal (unat w))"

definition byte_to_string :: "u8 \<Rightarrow> string" where
  "byte_to_string b = ''0x'' @ pad_left 2 CHR ''0'' (upper_hexadecimal (unat b))"

definition inspect_header :: "loaded_cartridge \<Rightarrow> string" where
  "inspect_header c =
     (let h = l_header c in
      ''cartridge:'' @ [newline] @
      ''  magic='' @ h_magic h @ [newline] @
      ''  version='' @ decimal (unat (h_version h)) @ [newline] @
      ''  header_size='' @ decimal (unat (h_header_size h)) @ [newline] @
      ''  entry='' @ word_to_string (h_entry h) @ [newline] @
      ''  rom_size='' @ decimal (unat (h_rom_size h)) @ [newline] @
      ''  rom_bytes='' @ decimal (length (l_rom c)) @ [newline])"

definition inspect_symbols :: "debug_symbols \<Rightarrow> string" where
  "inspect_symbols d =
     ''debug:'' @ [newline] @
     ''  version='' @ ds_version d @ [newline] @
     ''  entry='' @ word_to_string (ds_entry d) @ [newline] @
     ''  rom_size='' @ decimal (unat (ds_rom_size d)) @ [newline] @
     ''  symbols='' @ decimal (length (ds_symbols d)) @ [newline] @
     ''  records='' @ decimal (length (ds_records d)) @ [newline] @
     ''  sources='' @ decimal (length (ds_source_files d)) @ [newline]"

fun parse_inspect_args :: "string list \<Rightarrow> string \<times> string \<Rightarrow> outcome + string \<times> string" where
  "parse_inspect_args [] a = Inr a"
| "parse_inspect_args (arg # args) (rom, debug) =
     (if arg = ''--rom'' then
        (case args of [] \<Rightarrow> Inl (Exit 1) | v # args' \<Rightarrow> parse_inspect_args args' (v, debug))
      else if arg = ''--debug'' then
        (case args of [] \<Rightarrow> Inl (Exit 1) | v # args' \<Rightarrow> parse_inspect_args args' (rom, v))
      else Inl (Exit 1))"

text \<open>The header is printed before the symbols are read.\<close>

definition inspect_main :: "string list \<Rightarrow> disk \<Rightarrow> (outcome \<times> string) option" where
  "inspect_main args disk =
     (case parse_inspect_args args ([], []) of
        Inl out \<Rightarrow> Some (out, [])
      | Inr (rom, debug) \<Rightarrow>
          if rom = [] then Some (Exit 1, [])
          else
            case load_cartridge rom (disk rom) of
              Inl e \<Rightarrow> Some (load_failure e, [])
            | Inr c \<Rightarrow>
                (case optional_symbols debug disk of
                   None \<Rightarrow> None
                 | Some (Inl e) \<Rightarrow> Some (Exit 1, inspect_header c)
                 | Some (Inr None) \<Rightarrow> Some (Exit 0, inspect_header c)
                 | Some (Inr (Some d)) \<Rightarrow> Some (Exit 0, inspect_header c @ inspect_symbols d)))"

section \<open>The microcode dump\<close>

text \<open>
  The command line is parsed by a library: the format and the optional opcode are arguments, and
  so is the instruction set that the generated builder returns.
\<close>

definition dump_main :: "u8 list \<Rightarrow> instruction_set \<Rightarrow> string \<Rightarrow> int option \<Rightarrow> outcome \<times> string" where
  "dump_main isa_codes iset format opcode_filter =
     (if format \<noteq> ''text'' \<and> format \<noteq> ''yaml'' then (Exit 1, [])
      else if (case opcode_filter of None \<Rightarrow> False | Some n \<Rightarrow> n < 0 \<or> n > 255) then (Exit 1, [])
      else
        case compile (cpu_compiler isa_codes) iset of
          Inl e \<Rightarrow> (Exit 1, [])
        | Inr p \<Rightarrow>
            (case (case opcode_filter of
                     Some n \<Rightarrow> if format = ''yaml'' then dump_instruction_yaml p (word_of_int n)
                               else dump_instruction p (word_of_int n)
                   | None \<Rightarrow> if format = ''yaml'' then dump_program_yaml p else dump_program p) of
               Inl e \<Rightarrow> (Exit 1, [])
             | Inr out \<Rightarrow> (Exit 0, out)))"

section \<open>The tools together\<close>

lemma parse_u16_examples:
  "parse_u16 ''$8000'' = Some 0x8000" "parse_u16 ''32768'' = Some 0x8000" "parse_u16 ''0x10'' = None"
  "parse_u16 ''65536'' = None"
  by code_simp+

lemma asm_main_returns:
  assumes "assemble_file fuel isa (disk_system canonical disk) current_path input default_options = Some (Inr result)"
    and "writable out"
  shows "asm_main fuel isa canonical current_path writable [input, out] disk =
    Some (Exit 0, disk(out \<mapsto> write_cartridge result))"
  using assms by (simp add: asm_main_def write_file_def)

lemma asm_main_Inr:
  assumes "asm_main fuel isa canonical current_path writable [input, out] disk = Some (Exit 0, disk')"
  obtains result where
    "assemble_file fuel isa (disk_system canonical disk) current_path input default_options = Some (Inr result)"
    and "disk' = disk(out \<mapsto> write_cartridge result)"
  using assms by (auto simp: asm_main_def write_file_def split: option.splits sum.splits if_splits)

end
