(* ===== verification/Lexer_Text.thy ===== *)
theory Lexer_Text
  imports Asm_Parser
begin

text \<open>
  The lexer as a function of the text that is left. \<open>lexes s shs\<close> says that, from any cursor
  with the text \<open>s\<close> ahead, the lexer returns tokens of the shapes \<open>shs\<close>; the rules add
  one token or blank at the front. Positions, which depend on what came before, are left open.
\<close>

section \<open>The text ahead\<close>

definition ahead :: "lexer \<Rightarrow> string" where
  "ahead lx = drop (index lx) (source lx)"

lemma at_end_ahead: "at_end lx \<longleftrightarrow> ahead lx = []"
  by (simp add: at_end_def ahead_def)

lemma peek_ahead: "ahead lx = c # s \<Longrightarrow> peek lx = c"
  by (auto simp: peek_def at_end_ahead ahead_def dest: nth_via_drop)

lemma ahead_advance: "ahead lx = c # s \<Longrightarrow> ahead (advance lx) = s"
  by (auto simp: ahead_def drop_Suc tl_drop [symmetric])

lemma peek_next_ahead: "ahead lx = c # d # s \<Longrightarrow> peek_next lx = d"
  using ahead_advance [of lx c "d # s"]
  by (auto simp: peek_next_def ahead_def not_le dest: nth_via_drop)

lemma peek_ahead_Nil: "ahead lx = [] \<Longrightarrow> peek lx = CHR 0x00"
  by (simp add: peek_def at_end_ahead)

lemma advance_while_ahead:
  "ahead (advance_while p lx) = dropWhile p (ahead lx) \<and>
   index (advance_while p lx) = index lx + length (takeWhile p (ahead lx))"
proof (induction p lx rule: advance_while.induct)
  case (1 p lx)
  show ?case
  proof (cases "ahead lx")
    case Nil
    then show ?thesis by (subst (1 2) advance_while.simps) (simp add: at_end_ahead)
  next
    case (Cons c s)
    then have "\<not> at_end lx" "peek lx = c" "ahead (advance lx) = s"
      by (simp_all add: at_end_ahead peek_ahead ahead_advance)
    with 1 Cons show ?thesis
      by (cases "p c") (subst (1 2) advance_while.simps; simp)+
  qed
qed

lemma advance_while_stops:
  assumes "ahead lx = w @ s" and "list_all p w" and "s = [] \<or> \<not> p (hd s)"
  shows "ahead (advance_while p lx) = s" and "index (advance_while p lx) = index lx + length w"
proof -
  have "takeWhile p (w @ s) = w" "dropWhile p (w @ s) = s"
    using assms(2,3) by (cases s; simp add: list_all_iff takeWhile_append2 dropWhile_append2)+
  then show "ahead (advance_while p lx) = s" "index (advance_while p lx) = index lx + length w"
    using advance_while_ahead [of p lx] assms(1) by simp_all
qed

lemma substring_ahead:
  assumes "ahead lx = w @ s" and "source lx' = source lx"
  shows "substring lx' (index lx) (index lx + length w) = w"
  using assms by (simp add: substring_def ahead_def)

section \<open>Shapes of tokens\<close>

datatype shape = Plain token_kind | Word token_kind string | Numeral bool u32

fun fits :: "shape \<Rightarrow> token \<Rightarrow> bool" where
  "fits (Plain k) t = (t_kind t = k)"
| "fits (Word k w) t = (t_kind t = k \<and> t_text t = w)"
| "fits (Numeral imm v) t =
     (t_kind t = Number \<and> t_number t = Some v \<and> (t_text t \<noteq> [] \<and> hd (t_text t) = CHR ''#'') = imm)"

definition reads_token :: "string \<Rightarrow> shape \<Rightarrow> string \<Rightarrow> bool" where
  "reads_token s sh s' =
     (\<forall>lx. ahead lx = s \<longrightarrow> (\<exists>t lx'. next_token lx = Inr (t, lx') \<and> fits sh t \<and> ahead lx' = s'))"

text \<open>Where a word ends.\<close>

definition word_end :: "string \<Rightarrow> bool" where
  "word_end s = (s = [] \<or> \<not> is_identifier_char (hd s))"

lemma word_end_number: "word_end s \<Longrightarrow> s = [] \<or> \<not> is_alnum (hd s)"
  by (auto simp: word_end_def is_identifier_char_def)

lemma not_blank: "ahead lx = c # s \<Longrightarrow> c \<notin> {CHR '' '', CHR 0x09, CHR 0x0D} \<Longrightarrow> skip_whitespace lx = lx"
  unfolding skip_whitespace_def by (subst advance_while.simps) (simp add: at_end_ahead peek_ahead)

lemma skip_blank:
  assumes "ahead lx = CHR '' '' # s"
  shows "next_token lx = next_token (advance lx)"
proof -
  have "skip_whitespace lx = skip_whitespace (advance lx)"
    unfolding skip_whitespace_def by (subst advance_while.simps)
      (use assms in \<open>simp add: at_end_ahead peek_ahead\<close>)
  then show ?thesis by (subst (1 2) next_token.simps) (simp add: Let_def)
qed

lemma reads_blank:
  assumes "reads_token s sh s'"
  shows "reads_token (CHR '' '' # s) sh s'"
  using assms skip_blank ahead_advance unfolding reads_token_def by metis

lemma reads_newline: "reads_token (newline # s) (Plain Newline) s"
proof -
  have "\<exists>t lx'. next_token lx = Inr (t, lx') \<and> fits (Plain Newline) t \<and> ahead lx' = s"
    if "ahead lx = newline # s" for lx
    using that by (subst next_token.simps) (simp add: Let_def not_blank at_end_ahead peek_ahead ahead_advance)
  then show ?thesis by (simp add: reads_token_def)
qed

lemma reads_mark:
  "reads_token (CHR '','' # s) (Plain Comma) s" "reads_token (CHR ''('' # s) (Plain Left_Paren) s"
  "reads_token (CHR '')'' # s) (Plain Right_Paren) s" "reads_token (CHR '':'' # s) (Plain Colon) s"
proof -
  have "\<exists>t lx'. next_token lx = Inr (t, lx') \<and> fits (Plain Comma) t \<and> ahead lx' = s"
    if "ahead lx = CHR '','' # s" for lx
    using that by (subst next_token.simps) (simp add: Let_def not_blank at_end_ahead peek_ahead ahead_advance)
  then show "reads_token (CHR '','' # s) (Plain Comma) s" by (simp add: reads_token_def)
  have "\<exists>t lx'. next_token lx = Inr (t, lx') \<and> fits (Plain Left_Paren) t \<and> ahead lx' = s"
    if "ahead lx = CHR ''('' # s" for lx
    using that by (subst next_token.simps) (simp add: Let_def not_blank at_end_ahead peek_ahead ahead_advance)
  then show "reads_token (CHR ''('' # s) (Plain Left_Paren) s" by (simp add: reads_token_def)
  have "\<exists>t lx'. next_token lx = Inr (t, lx') \<and> fits (Plain Right_Paren) t \<and> ahead lx' = s"
    if "ahead lx = CHR '')'' # s" for lx
    using that by (subst next_token.simps) (simp add: Let_def not_blank at_end_ahead peek_ahead ahead_advance)
  then show "reads_token (CHR '')'' # s) (Plain Right_Paren) s" by (simp add: reads_token_def)
  have "\<exists>t lx'. next_token lx = Inr (t, lx') \<and> fits (Plain Colon) t \<and> ahead lx' = s"
    if "ahead lx = CHR '':'' # s" for lx
    using that by (subst next_token.simps) (simp add: Let_def not_blank at_end_ahead peek_ahead ahead_advance)
  then show "reads_token (CHR '':'' # s) (Plain Colon) s" by (simp add: reads_token_def)
qed

lemma reads_end: "reads_token [] (Plain End_Of_File) []"
proof -
  have "\<exists>t lx'. next_token lx = Inr (t, lx') \<and> fits (Plain End_Of_File) t \<and> ahead lx' = []"
    if "ahead lx = []" for lx
  proof -
    have "skip_whitespace lx = lx"
      unfolding skip_whitespace_def by (subst advance_while.simps) (simp add: at_end_ahead that)
    then show ?thesis
      by (subst next_token.simps) (simp add: Let_def at_end_ahead that)
  qed
  then show ?thesis by (simp add: reads_token_def)
qed

lemma comment_skipped:
  assumes "ahead lx = CHR '';'' # c @ newline # s" and "newline \<notin> set c"
  shows "\<exists>lx'. next_token lx = next_token lx' \<and> ahead lx' = newline # s"
proof -
  have "ahead (skip_comment lx) = newline # s"
    unfolding skip_comment_def
    by (rule advance_while_stops [where w = "CHR '';'' # c"]) (use assms in \<open>auto simp: list_all_iff\<close>)
  moreover have "next_token lx = next_token (skip_comment lx)"
    using assms(1) by (subst next_token.simps) (simp add: Let_def not_blank at_end_ahead peek_ahead)
  ultimately show ?thesis by blast
qed

lemma reads_comment:
  assumes "reads_token (newline # s) sh s'" and "newline \<notin> set c"
  shows "reads_token (CHR '';'' # c @ newline # s) sh s'"
  using assms comment_skipped [OF _ assms(2)] unfolding reads_token_def by metis

section \<open>Words\<close>

lemma identifier_next:
  assumes "ahead lx = c # s" and "is_identifier_start c"
  shows "next_token lx = lex_identifier_or_directive lx"
proof -
  have c: "c \<notin> {CHR '' '', CHR 0x09, CHR 0x0D, newline, CHR '';'', CHR '','', CHR ''('', CHR '')'', CHR '':'',
      CHR 0x22, CHR ''.''}"
    using assms(2) by (auto simp: is_identifier_start_def char_class_defs)
  then have "skip_whitespace lx = lx" using assms(1) by (intro not_blank) auto
  then show ?thesis
    using assms c by (subst next_token.simps) (simp add: Let_def at_end_ahead peek_ahead)
qed

lemma directive_next:
  assumes "ahead lx = CHR ''.'' # s"
  shows "next_token lx = lex_identifier_or_directive lx"
  using assms by (subst next_token.simps) (simp add: Let_def not_blank at_end_ahead peek_ahead)

lemma number_next:
  assumes "ahead lx = CHR ''$'' # s \<or> ahead lx = CHR ''#'' # CHR ''$'' # s"
  shows "next_token lx = lex_number lx"
proof -
  have d: "\<not> is_identifier_start CHR ''$''" "\<not> is_identifier_start CHR ''#''"
    by (simp_all add: is_identifier_start_def char_class_defs)
  from assms show ?thesis
  proof
    assume "ahead lx = CHR ''$'' # s"
    then show ?thesis
      using d by (subst next_token.simps) (simp add: Let_def not_blank at_end_ahead peek_ahead)
  next
    assume "ahead lx = CHR ''#'' # CHR ''$'' # s"
    then show ?thesis
      using d by (subst next_token.simps) (simp add: Let_def not_blank at_end_ahead peek_ahead peek_next_ahead)
  qed
qed

definition is_word :: "string \<Rightarrow> bool" where
  "is_word w = (w \<noteq> [] \<and> is_identifier_start (hd w) \<and> list_all is_identifier_char w)"

lemma identifier_Cons:
  assumes "is_word w"
  obtains c w' where "w = c # w'" and "is_identifier_start c"
  using assms by (cases w) (auto simp: is_word_def)

lemma reads_identifier:
  assumes "is_word w" and "word_end s"
  shows "reads_token (w @ s) (Word Identifier (to_lower w)) s"
proof -
  obtain c w' where w: "w = c # w'" "is_identifier_start c" by (rule identifier_Cons [OF assms(1)])
  have "\<exists>t lx'. next_token lx = Inr (t, lx') \<and> fits (Word Identifier (to_lower w)) t \<and> ahead lx' = s"
    if lx: "ahead lx = w @ s" for lx
  proof -
    have stop: "ahead (advance_while is_identifier_char lx) = s"
        "index (advance_while is_identifier_char lx) = index lx + length w"
      using advance_while_stops [OF lx] assms by (auto simp: is_word_def word_end_def)
    have "peek lx = c" using lx w by (simp add: peek_ahead)
    moreover have "c \<noteq> CHR ''.''" using w(2) by (auto simp: is_identifier_start_def char_class_defs)
    moreover have "next_token lx = lex_identifier_or_directive lx"
      using lx w by (intro identifier_next) simp_all
    moreover have "source (advance_while is_identifier_char lx) = source lx"
      using later_source [OF later_advance_while] .
    ultimately show ?thesis
      using w(2) stop substring_ahead [OF lx]
      by (simp add: lex_identifier_or_directive_def Let_def)
  qed
  then show ?thesis by (simp add: reads_token_def)
qed

lemma reads_directive:
  assumes "is_word w" and "word_end s"
  shows "reads_token (CHR ''.'' # w @ s) (Word Directive (to_lower w)) s"
proof -
  obtain c w' where w: "w = c # w'" "is_identifier_start c" by (rule identifier_Cons [OF assms(1)])
  have "\<exists>t lx'. next_token lx = Inr (t, lx') \<and> fits (Word Directive (to_lower w)) t \<and> ahead lx' = s"
    if lx: "ahead lx = CHR ''.'' # w @ s" for lx
  proof -
    have lx1: "ahead (advance lx) = w @ s" by (rule ahead_advance [OF lx])
    have stop: "ahead (advance_while is_identifier_char (advance lx)) = s"
        "index (advance_while is_identifier_char (advance lx)) = index (advance lx) + length w"
      using advance_while_stops [OF lx1] assms by (auto simp: is_word_def word_end_def)
    have "peek (advance lx) = c" using lx1 w by (simp add: peek_ahead)
    moreover have "peek lx = CHR ''.''" using lx by (simp add: peek_ahead)
    moreover have "next_token lx = lex_identifier_or_directive lx" by (rule directive_next [OF lx])
    moreover have "source (advance_while is_identifier_char (advance lx)) = source (advance lx)"
      using later_source [OF later_advance_while] .
    ultimately show ?thesis
      using w(2) stop substring_ahead [OF lx1]
      by (simp add: lex_identifier_or_directive_def Let_def)
  qed
  then show ?thesis by (simp add: reads_token_def)
qed

section \<open>Hexadecimal numbers\<close>

definition hex_word_text :: "string \<Rightarrow> bool" where
  "hex_word_text w = (w \<noteq> [] \<and> list_all is_alnum w \<and> list_all (\<lambda>c. 0 \<le> digit_value c \<and> digit_value c < 16) w)"

lemma hex_first:
  assumes "hex_word_text w"
  shows "hd w \<notin> {CHR ''#'', CHR ''$'', CHR ''%''}"
  using assms by (cases w) (auto simp: hex_word_text_def char_class_defs)

lemma parse_hex_literal:
  assumes "hex_word_text w"
  shows "parse_number_literal (CHR ''$'' # w) sp = Inr (fold_digits 16 0 w)"
    and "parse_number_literal (CHR ''#'' # CHR ''$'' # w) sp = Inr (fold_digits 16 0 w)"
  using assms parse_digits_value [of 16 w sp 0]
  by (simp_all add: parse_number_literal_def split_base_def hex_word_text_def)

lemma reads_number:
  assumes "hex_word_text w" and "word_end s"
  shows "reads_token (CHR ''$'' # w @ s) (Numeral False (fold_digits 16 0 w)) s"
    and "reads_token (CHR ''#'' # CHR ''$'' # w @ s) (Numeral True (fold_digits 16 0 w)) s"
proof -
  note stops = word_end_number [OF assms(2)]
  have an: "list_all is_alnum w" using assms(1) by (simp add: hex_word_text_def)
  have "\<exists>t lx'. next_token lx = Inr (t, lx') \<and> fits (Numeral False (fold_digits 16 0 w)) t \<and> ahead lx' = s"
    if lx: "ahead lx = CHR ''$'' # w @ s" for lx
  proof -
    have lx1: "ahead (advance lx) = w @ s" by (rule ahead_advance [OF lx])
    note stop = advance_while_stops [OF lx1 an stops]
    have "source (advance_while is_alnum (advance lx)) = source lx"
      using later_source [OF later_advance_while] by simp
    then have "substring (advance_while is_alnum (advance lx)) (index lx) (index lx + length (CHR ''$'' # w)) =
        CHR ''$'' # w"
      by (intro substring_ahead) (use lx in simp_all)
    moreover have "peek lx = CHR ''$''" using lx by (simp add: peek_ahead)
    moreover have "next_token lx = lex_number lx" by (rule number_next) (use lx in simp)
    ultimately show ?thesis
      using stop by (simp add: lex_number_def Let_def parse_hex_literal [OF assms(1)])
  qed
  then show "reads_token (CHR ''$'' # w @ s) (Numeral False (fold_digits 16 0 w)) s"
    by (simp add: reads_token_def)
  have "\<exists>t lx'. next_token lx = Inr (t, lx') \<and> fits (Numeral True (fold_digits 16 0 w)) t \<and> ahead lx' = s"
    if lx: "ahead lx = CHR ''#'' # CHR ''$'' # w @ s" for lx
  proof -
    have lx1: "ahead (advance lx) = CHR ''$'' # w @ s" by (rule ahead_advance [OF lx])
    have lx2: "ahead (advance (advance lx)) = w @ s" by (rule ahead_advance [OF lx1])
    note stop = advance_while_stops [OF lx2 an stops]
    have "source (advance_while is_alnum (advance (advance lx))) = source lx"
      using later_source [OF later_advance_while] by simp
    then have "substring (advance_while is_alnum (advance (advance lx))) (index lx)
        (index lx + length (CHR ''#'' # CHR ''$'' # w)) = CHR ''#'' # CHR ''$'' # w"
      by (intro substring_ahead) (use lx in simp_all)
    moreover have "peek lx = CHR ''#''" "peek (advance lx) = CHR ''$''"
      using lx lx1 by (simp_all add: peek_ahead)
    moreover have "next_token lx = lex_number lx" by (rule number_next) (use lx in simp)
    ultimately show ?thesis
      using stop by (simp add: lex_number_def Let_def parse_hex_literal [OF assms(1)])
  qed
  then show "reads_token (CHR ''#'' # CHR ''$'' # w @ s) (Numeral True (fold_digits 16 0 w)) s"
    by (simp add: reads_token_def)
qed

section \<open>The token list\<close>

definition lexes :: "string \<Rightarrow> shape list \<Rightarrow> bool" where
  "lexes s shs = (\<forall>lx. ahead lx = s \<longrightarrow> (\<exists>ts. lex_source lx = Inr ts \<and> list_all2 fits shs ts))"

lemma lexes_end: "lexes [] [Plain End_Of_File]"
  using reads_end unfolding lexes_def reads_token_def
  by (subst lex_source.simps) fastforce

lemma fits_not_end: "fits sh t \<Longrightarrow> sh \<noteq> Plain End_Of_File \<Longrightarrow> (\<And>w. sh \<noteq> Word End_Of_File w) \<Longrightarrow> t_kind t \<noteq> End_Of_File"
  by (cases sh) auto

definition not_end :: "shape \<Rightarrow> bool" where
  "not_end sh = (\<forall>t. fits sh t \<longrightarrow> t_kind t \<noteq> End_Of_File)"

lemma not_end_simps [simp]:
  "k \<noteq> End_Of_File \<Longrightarrow> not_end (Plain k)" "k \<noteq> End_Of_File \<Longrightarrow> not_end (Word k w)" "not_end (Numeral imm v)"
  by (auto simp: not_end_def)

lemma lexes_token:
  assumes "reads_token s sh s'" and "not_end sh" and "lexes s' shs"
  shows "lexes s (sh # shs)"
  unfolding lexes_def
proof (intro allI impI)
  fix lx assume lx: "ahead lx = s"
  with assms(1) obtain t lx' where t: "next_token lx = Inr (t, lx')" "fits sh t" "ahead lx' = s'"
    by (auto simp: reads_token_def)
  with assms(3) obtain ts where ts: "lex_source lx' = Inr ts" "list_all2 fits shs ts"
    by (auto simp: lexes_def)
  have "t_kind t \<noteq> End_Of_File" using assms(2) t(2) by (simp add: not_end_def)
  with t ts show "\<exists>ts. lex_source lx = Inr ts \<and> list_all2 fits (sh # shs) ts"
    by (subst lex_source.simps) simp
qed

lemma lexes_make_lexer:
  assumes "lexes s shs"
  obtains ts where "lex_source (make_lexer s file) = Inr ts" and "list_all2 fits shs ts"
proof -
  have "ahead (make_lexer s file) = s" by (simp add: ahead_def make_lexer_def)
  with assms that show ?thesis by (auto simp: lexes_def)
qed

end
