(* ===== verification/Sim_Fetch.thy ===== *)
theory Sim_Fetch
  imports Sim_Exec
begin

text \<open>
  The effect of concrete microcode steps on an idle processor, computed from the tick of
  \<open>sim/src/cpu.cpp\<close>: the fetch preamble and the interrupt entry of
  \<open>microcode/microcode.yaml\<close>, tick by tick.
\<close>

section \<open>A step from an idle processor\<close>

definition irq_up :: "cpu \<Rightarrow> bool" where
  "irq_up s = irq_after (mem s) (sig s (Ctl Cpu_root Irq_line))"

definition idle_sig :: "bool \<Rightarrow> controls" where
  "idle_sig b = (\<lambda>k. k = Ctl Cpu_root Irq_line \<and> b)"

text \<open>The end of a tick: buses and controls cleared, the interrupt line kept, the cycle counted.\<close>

definition settle :: "bool \<Rightarrow> cpu \<Rightarrow> cpu" where
  "settle b s = s\<lparr>sig := idle_sig b, data_bus := bus_idle, address_bus := bus_idle,
                  cur_phase := Phase_None, cycle_count := cycle_count s + 1\<rparr>"

lemma idle_sels:
  "idle s \<Longrightarrow> data_bus s = bus_idle" "idle s \<Longrightarrow> address_bus s = bus_idle"
  "idle s \<Longrightarrow> cur_phase s = Phase_None"
  by (simp_all add: idle_def)

lemma next_sig_irq:
  "Ctl Cpu_root Irq_line \<notin> set ks \<Longrightarrow> next_sig s ks (Ctl Cpu_root Irq_line) = irq_up s"
  by (simp add: next_sig_def irq_up_def)

lemma auto_reset_hdl:
  assumes "k \<in> set hdl_controls" and "\<not> ctl_auto_reset k"
  shows "k = Ctl Cpu_root Irq_line"
proof -
  have "list_all (\<lambda>k. ctl_auto_reset k \<or> k = Ctl Cpu_root Irq_line) hdl_controls" by code_simp
  with assms show ?thesis by (auto simp: list_all_iff)
qed

lemma cleared_sig:
  assumes "idle s" and "set ks \<subseteq> set hdl_controls" and "Ctl Cpu_root Irq_line \<notin> set ks"
  shows "(\<lambda>k. next_sig s ks k \<and> \<not> (k \<in> set hdl_controls \<and> ctl_auto_reset k)) = idle_sig (irq_up s)"
proof
  fix k
  show "(next_sig s ks k \<and> \<not> (k \<in> set hdl_controls \<and> ctl_auto_reset k)) = idle_sig (irq_up s) k"
  proof (cases "k = Ctl Cpu_root Irq_line")
    case True
    then show ?thesis using assms(3) by (simp add: next_sig_irq idle_sig_def)
  next
    case False
    then have "\<not> sig s k" using assms(1) by (auto simp: idle_def)
    with False assms(2) auto_reset_hdl [of k] show ?thesis
      by (auto simp: next_sig_def idle_sig_def)
  qed
qed

text \<open>The phases of a tick, as functions of the signals of the tick.\<close>

definition step_phases :: "controls \<Rightarrow> cpu \<Rightarrow> sim_error + cpu" where
  "step_phases cs s =
     (let s1 = s\<lparr>sig := cs, cur_phase := Phase_Write\<rparr>
      in bind_ok (fold_ok child_tick_write (filter (active_write cs) sim_children) s1) (\<lambda>s2.
         bind_ok (fold_ok child_tick_read (filter (active_read cs) sim_children)
                    (s2\<lparr>cur_phase := Phase_Read\<rparr>)) (\<lambda>s3.
         bind_ok (fold_ok child_tick_process (filter (active_process cs) sim_children)
                    (s3\<lparr>cur_phase := Phase_Process\<rparr>)) cpu_process)))"

text \<open>The signals of a tick started idle, control by control.\<close>

definition step_sig :: "bool \<Rightarrow> ctl list \<Rightarrow> controls" where
  "step_sig b ks = (\<lambda>k. if k = Ctl Cpu_root Irq_line then b else k \<in> set ks)"

lemma step_sig_apply: "step_sig b ks k \<longleftrightarrow> (if k = Ctl Cpu_root Irq_line then b else k \<in> set ks)"
  by (simp add: step_sig_def)

lemma next_sig_step:
  assumes "idle s" and "Ctl Cpu_root Irq_line \<notin> set ks"
  shows "next_sig s ks = step_sig (irq_up s) ks"
  using assms by (auto simp: fun_eq_iff step_sig_def next_sig_irq next_sig_process)

lemmas exec_simps =
  step_phases_def Let_def sim_children_def registered_def step_sig_apply process_controls_def
  child_simps when_asserted_ok asserted_ok address_write_def address_read_def data_write_def
  data_read_def process_defs cpu_process_def

text \<open>The controls of a step are controls of the schematic, the interrupt line not among them.\<close>

definition step_controls_ok :: "ctl list \<Rightarrow> bool" where
  "step_controls_ok ks \<longleftrightarrow> list_all (\<lambda>k. k \<in> set hdl_controls \<and> k \<noteq> Ctl Cpu_root Irq_line) ks"

lemma step_settles:
  assumes "step_controls_ok ks" and "idle s"
    and "bind_ok (step_phases (step_sig (irq_up s) ks) s) (\<lambda>t. Inr (settle (irq_up s) t)) = r"
  shows "step_effect ks s = r"
proof -
  have ks: "set ks \<subseteq> set hdl_controls" "Ctl Cpu_root Irq_line \<notin> set ks"
    using assms(1) by (auto simp: step_controls_ok_def list_all_iff)
  have "step_effect ks s =
      bind_ok (step_phases (next_sig s ks) s) (\<lambda>t. Inr (settle (irq_up s) t))"
    unfolding step_effect_def step_phases_def Let_def bind_ok_assoc settle_def
      cleared_sig [OF assms(2) ks] ..
  with assms(3) show ?thesis by (simp add: next_sig_step [OF assms(2) ks(2)])
qed

text \<open>The step counter moves on.\<close>

definition next_sc :: "cpu \<Rightarrow> cpu" where
  "next_sc s = set_byte Sc (byte_regs s Sc + 1) s"

text \<open>What the start of an instruction does besides the bus transfer.\<close>

definition start_instruction :: "bool \<Rightarrow> cpu \<Rightarrow> cpu" where
  "start_instruction line s =
     (let s1 = set_word Ipc (word_regs s Pc)
                 (s\<lparr>inject_interrupt := line \<and> \<not> status_value Interrupt_disable (status_reg s),
                    ipc_valid := True\<rparr>)
      in if trace_enabled (trace s1) then s1\<lparr>trace := trace_record (trace_entry_of s1) (trace s1)\<rparr>
         else s1)"

lemmas settle_simps = settle_def next_sc_def set_byte_def set_word_def set_port_def byte_add_def byte_sub_def word_add_def

text \<open>The steps of the fetch preamble and of the interrupt entry, as the control lookup returns them.\<close>

definition st_fetch_1 :: "ctl list" where
  "st_fetch_1 = [Ctl Pc Write, Ctl Controller Instruction_start, Ctl Sc Increment, Ctl Mar Read]"
definition st_fetch_2 :: "ctl list" where
  "st_fetch_2 = [Ctl Ir Read, Ctl Sc Increment, Ctl Memory Write]"
definition st_fetch_3 :: "ctl list" where
  "st_fetch_3 = [Ctl Pc Increment, Ctl Sc Increment]"
definition st_seti :: "ctl list" where
  "st_seti = [Ctl (Flag Interrupt_disable) Set_flag, Ctl Sc Increment]"
definition st_stack :: "ctl list" where
  "st_stack = [Ctl Reg_sp Write, Ctl Sc Increment, Ctl Mar_low Read, Ctl Mar Stack_page]"
definition st_push_pch :: "ctl list" where
  "st_push_pch = [Ctl Reg_sp Decrement, Ctl Pc_high Write, Ctl Sc Increment, Ctl Memory Read]"
definition st_push_pcl :: "ctl list" where
  "st_push_pcl = [Ctl Reg_sp Decrement, Ctl Pc_low Write, Ctl Sc Increment, Ctl Memory Read]"
definition st_clrb :: "ctl list" where
  "st_clrb = [Ctl (Flag Brk) Clear_flag, Ctl Sc Increment]"
definition st_push_status :: "ctl list" where
  "st_push_status = [Ctl Reg_sp Decrement, Ctl Status Write, Ctl Sc Increment, Ctl Memory Read]"
definition st_vector :: "ctl list" where
  "st_vector = [Ctl Sc Increment, Ctl Mar Interrupt_vector]"
definition st_vec_low :: "ctl list" where
  "st_vec_low = [Ctl Pc_low Read, Ctl Sc Increment, Ctl Memory Write]"
definition st_mar_inc :: "ctl list" where
  "st_mar_inc = [Ctl Sc Increment, Ctl Mar Increment]"
definition st_vec_high :: "ctl list" where
  "st_vec_high = [Ctl Pc_high Read, Ctl Sc Reset, Ctl Memory Write]"

lemmas st_defs = st_fetch_1_def st_fetch_2_def st_fetch_3_def st_seti_def st_stack_def st_push_pch_def st_push_pcl_def
 st_clrb_def st_push_status_def st_vector_def st_vec_low_def st_mar_inc_def st_vec_high_def

lemma st_ok [simp]:
  "step_controls_ok st_fetch_1" "step_controls_ok st_fetch_2" "step_controls_ok st_fetch_3"
  "step_controls_ok st_seti" "step_controls_ok st_stack" "step_controls_ok st_push_pch"
  "step_controls_ok st_push_pcl" "step_controls_ok st_clrb" "step_controls_ok st_push_status"
  "step_controls_ok st_vector" "step_controls_ok st_vec_low" "step_controls_ok st_mar_inc"
  "step_controls_ok st_vec_high"
  by code_simp+

lemma eff_fetch_1:
  assumes "idle s"
  shows "step_effect st_fetch_1 s = Inr (settle (irq_up s) (start_instruction (irq_up s) (next_sc (set_word Mar (word_regs s Pc) s))))"
  by (rule step_settles [OF st_ok(1) assms(1)])
    (use assms in \<open>simp add: exec_simps idle_sels st_fetch_1_def settle_simps start_instruction_def trace_entry_of_def ir_value_def\<close>)

lemma eff_fetch_2:
  assumes "idle s" and "read_at (word_regs s Mar) (mem s) = Inr (v, m)"
  shows "step_effect st_fetch_2 s = Inr (settle (irq_up s) (next_sc (set_byte Ir v (s\<lparr>mem := m\<rparr>))))"
  by (rule step_settles [OF st_ok(2) assms(1)])
    (use assms in \<open>simp add: exec_simps idle_sels st_fetch_2_def settle_simps memory_read_value_def\<close>)

lemma eff_fetch_3:
  assumes "idle s"
  shows "step_effect st_fetch_3 s = Inr (settle (irq_up s) (next_sc (set_word Pc (word_regs s Pc + 1) s)))"
  by (rule step_settles [OF st_ok(3) assms(1)])
    (use assms in \<open>simp add: exec_simps idle_sels st_fetch_3_def settle_simps \<close>)

lemma eff_seti:
  assumes "idle s"
  shows "step_effect st_seti s = Inr (settle (irq_up s) (next_sc (set_byte Status (status_set Interrupt_disable True (status_reg s)) s)))"
  by (rule step_settles [OF st_ok(4) assms(1)])
    (use assms in \<open>simp add: exec_simps idle_sels st_seti_def settle_simps status_tick_process_def\<close>)

lemma eff_stack:
  assumes "idle s"
  shows "step_effect st_stack s = Inr (settle (irq_up s) (next_sc (set_word Mar (word_of_bytes 1 (byte_regs s Reg_sp)) s)))"
  by (rule step_settles [OF st_ok(5) assms(1)])
    (use assms in \<open>simp add: exec_simps idle_sels st_stack_def settle_simps \<close>)

lemma eff_push_pch:
  assumes "idle s" and "write_at (word_regs s Mar) (word_high (word_regs s Pc)) (mem s) = Inr m"
  shows "step_effect st_push_pch s = Inr (settle (irq_up s) (next_sc (set_byte Reg_sp (byte_regs s Reg_sp - 1) (s\<lparr>mem := m\<rparr>))))"
  by (rule step_settles [OF st_ok(6) assms(1)])
    (use assms in \<open>simp add: exec_simps idle_sels st_push_pch_def settle_simps port_value_def\<close>)

lemma eff_push_pcl:
  assumes "idle s" and "write_at (word_regs s Mar) (word_low (word_regs s Pc)) (mem s) = Inr m"
  shows "step_effect st_push_pcl s = Inr (settle (irq_up s) (next_sc (set_byte Reg_sp (byte_regs s Reg_sp - 1) (s\<lparr>mem := m\<rparr>))))"
  by (rule step_settles [OF st_ok(7) assms(1)])
    (use assms in \<open>simp add: exec_simps idle_sels st_push_pcl_def settle_simps port_value_def\<close>)

lemma eff_push_status:
  assumes "idle s" and "write_at (word_regs s Mar) (status_reg s) (mem s) = Inr m"
  shows "step_effect st_push_status s = Inr (settle (irq_up s) (next_sc (set_byte Reg_sp (byte_regs s Reg_sp - 1) (s\<lparr>mem := m\<rparr>))))"
  by (rule step_settles [OF st_ok(9) assms(1)])
    (use assms in \<open>simp add: exec_simps idle_sels st_push_status_def settle_simps port_value_def\<close>)

lemma eff_clrb:
  assumes "idle s"
  shows "step_effect st_clrb s = Inr (settle (irq_up s) (next_sc (set_byte Status (status_set Brk False (status_reg s)) s)))"
  by (rule step_settles [OF st_ok(8) assms(1)])
    (use assms in \<open>simp add: exec_simps idle_sels st_clrb_def settle_simps status_tick_process_def\<close>)

lemma eff_vector:
  assumes "idle s"
  shows "step_effect st_vector s = Inr (settle (irq_up s) (next_sc (set_word Mar 0xFFFE s)))"
  by (rule step_settles [OF st_ok(10) assms(1)])
    (use assms in \<open>simp add: exec_simps idle_sels st_vector_def settle_simps \<close>)

lemma eff_vec_low:
  assumes "idle s" and "read_at (word_regs s Mar) (mem s) = Inr (v, m)"
  shows "step_effect st_vec_low s = Inr (settle (irq_up s) (next_sc (set_port Pc False v (s\<lparr>mem := m\<rparr>))))"
  by (rule step_settles [OF st_ok(11) assms(1)])
    (use assms in \<open>simp add: exec_simps idle_sels st_vec_low_def settle_simps memory_read_value_def\<close>)

lemma eff_mar_inc:
  assumes "idle s"
  shows "step_effect st_mar_inc s = Inr (settle (irq_up s) (next_sc (set_word Mar (word_regs s Mar + 1) s)))"
  by (rule step_settles [OF st_ok(12) assms(1)])
    (use assms in \<open>simp add: exec_simps idle_sels st_mar_inc_def settle_simps \<close>)

lemma eff_vec_high:
  assumes "idle s" and "read_at (word_regs s Mar) (mem s) = Inr (v, m)"
  shows "step_effect st_vec_high s = Inr (settle (irq_up s) (set_byte Sc 0 (set_port Pc True v (s\<lparr>mem := m\<rparr>))))"
  by (rule step_settles [OF st_ok(13) assms(1)])
    (use assms in \<open>simp add: exec_simps idle_sels st_vec_high_def settle_simps memory_read_value_def\<close>)


lemma settle_sels [simp]:
  "byte_regs (settle b s) = byte_regs s" "word_regs (settle b s) = word_regs s"
  "mem (settle b s) = mem s" "inject_interrupt (settle b s) = inject_interrupt s"
  "instruction_mem (settle b s) = instruction_mem s" "halted (settle b s) = halted s"
  "crashed (settle b s) = crashed s" "cycle_count (settle b s) = cycle_count s + 1"
  "cur_phase (settle b s) = Phase_None" "sig (settle b s) = idle_sig b"
  "data_bus (settle b s) = bus_idle" "address_bus (settle b s) = bus_idle"
  by (simp_all add: settle_def)

lemma idle_settle [simp]: "idle (settle b s) \<longleftrightarrow> memory_wf (mem s)"
  by (auto simp: idle_def idle_sig_def)

lemma ir_value_sels [simp]:
  "ir_value (settle b s) = ir_value s" "ir_value (set_word c w s) = ir_value s"
  "ir_value (next_sc s) = ir_value s" "ir_value (s\<lparr>mem := m\<rparr>) = ir_value s"
  by (simp_all add: ir_value_def next_sc_def)

lemma start_instruction_sels [simp]:
  "byte_regs (start_instruction b s) = byte_regs s"
  "word_regs (start_instruction b s) = (word_regs s)(Ipc := word_regs s Pc)"
  "mem (start_instruction b s) = mem s" "halted (start_instruction b s) = halted s"
  "crashed (start_instruction b s) = crashed s"
  "cycle_count (start_instruction b s) = cycle_count s"
  "instruction_mem (start_instruction b s) = instruction_mem s"
  "inject_interrupt (start_instruction b s) \<longleftrightarrow> b \<and> \<not> status_value Interrupt_disable (status_reg s)"
  by (simp_all add: start_instruction_def Let_def)

lemma next_sc_sels [simp]:
  "byte_regs (next_sc s) = (byte_regs s)(Sc := byte_regs s Sc + 1)"
  "word_regs (next_sc s) = word_regs s" "mem (next_sc s) = mem s" "halted (next_sc s) = halted s"
  "crashed (next_sc s) = crashed s" "cycle_count (next_sc s) = cycle_count s"
  "instruction_mem (next_sc s) = instruction_mem s"
  "inject_interrupt (next_sc s) = inject_interrupt s"
  by (simp_all add: next_sc_def)



lemma set_port_sels [simp]:
  "byte_regs (set_port c h v s) = byte_regs s"
  "word_regs (set_port c h v s) = (word_regs s)(c :=
     if h then word_of_bytes v (word_low (word_regs s c)) else word_of_bytes (word_high (word_regs s c)) v)"
  "mem (set_port c h v s) = mem s"
  "halted (set_port c h v s) = halted s" "instruction_mem (set_port c h v s) = instruction_mem s"
  "inject_interrupt (set_port c h v s) = inject_interrupt s"
  by (simp_all add: set_port_def)

section \<open>Programs of steps\<close>

text \<open>A microcode program at an opcode, whatever the status.\<close>

definition microcoded :: "instruction_memory \<Rightarrow> u8 \<Rightarrow> ctl list list \<Rightarrow> bool" where
  "microcoded im op kss \<longleftrightarrow>
     (\<forall>j st. j < length kss \<longrightarrow> lookup im op (of_nat j) st = Inr (kss ! j))"

lemma microcoded_prefix: "microcoded im op (kss @ rest) \<Longrightarrow> microcoded im op kss"
  by (simp add: microcoded_def nth_append)

text \<open>Ready for step \<open>j\<close> of the opcode \<open>op\<close>.\<close>

definition ready :: "instruction_memory \<Rightarrow> u8 \<Rightarrow> nat \<Rightarrow> cpu \<Rightarrow> bool" where
  "ready im op j s \<longleftrightarrow>
     idle s \<and> \<not> halted s \<and> instruction_mem s = Some im \<and> byte_regs s Sc = of_nat j \<and> ir_value s = op"

lemma ready_idle: "ready im op j s \<Longrightarrow> idle s"
  by (simp add: ready_def)

lemma ready_wf: "ready im op j s \<Longrightarrow> memory_wf (mem s)"
  by (simp add: ready_def idle_def)

lemma ready_lookup:
  assumes "microcoded im op kss" and "ready im op j s" and "j < length kss" and "kss ! j = ks"
  shows "lookup im (ir_value s) (byte_regs s Sc) (status_encode (im_status im) (status_reg s)) = Inr ks"
  using assms unfolding ready_def microcoded_def by metis

lemma tick_microcoded:
  assumes "microcoded im op kss" and "j < length kss" and "ready im op j s"
  shows "tick s = step_effect (kss ! j) s"
  by (rule tick_step_effect [OF _ _ ready_lookup [OF assms(1,3,2) refl]])
    (use assms(3) in \<open>simp_all add: ready_def\<close>)

text \<open>One step: the registers and the memory it leaves, and the step it is ready for.\<close>

definition leaves :: "cpu \<Rightarrow> cpu \<Rightarrow> bool" where
  "leaves t u \<longleftrightarrow> byte_regs t = byte_regs u \<and> word_regs t = word_regs u \<and> mem t = mem u \<and>
     inject_interrupt t = inject_interrupt u"

lemma micro_step:
  assumes "microcoded im op kss" and "j < length kss" and "ready im op j s"
    and "step_effect st s = Inr (settle (irq_up s) u)" and "kss ! j = st"
    and "memory_wf (mem u)" and "halted u = halted s" and "instruction_mem u = instruction_mem s"
    and "byte_regs u Sc = of_nat j'" and "ir_value u = op'"
  shows "\<exists>t. tick s = Inr t \<and> ready im op' j' t \<and> leaves t u"
  using tick_microcoded [OF assms(1-3)] assms(3-)
  by (auto simp: ready_def leaves_def)

lemma ticks_add: "ticks (m + n) s = bind_ok (ticks m s) (ticks n)"
proof (induction m arbitrary: s)
  case (Suc m)
  have "ticks (m + n) = (\<lambda>s. bind_ok (ticks m s) (ticks n))" using Suc by blast
  then show ?case by (simp add: bind_ok_assoc)
qed simp

lemma ticks_1 [simp]: "ticks (Suc 0) s = tick s"
  by (cases "tick s") simp_all

section \<open>Fetch\<close>

definition fetch_steps :: "ctl list list" where
  "fetch_steps = [st_fetch_1, st_fetch_2, st_fetch_3]"

definition fetched_opcode :: "cpu \<Rightarrow> u8 \<Rightarrow> u8" where
  "fetched_opcode s v = (if irq_up s \<and> \<not> status_value Interrupt_disable (status_reg s) then 0 else v)"

lemma fetch_executes:
  assumes r: "ready im op 0 s"
    and mc: "microcoded im op fetch_steps"
      "microcoded im (fetched_opcode s (byte_regs s Ir)) fetch_steps"
      "microcoded im (fetched_opcode s v) fetch_steps"
    and read: "read_at (word_regs s Pc) (mem s) = Inr (v, m)"
  shows "\<exists>t. ticks 3 s = Inr t \<and> ready im (fetched_opcode s v) 3 t \<and>
    byte_regs t = (byte_regs s)(Ir := v, Sc := 3) \<and>
    word_regs t = (word_regs s)(Ipc := word_regs s Pc, Mar := word_regs s Pc, Pc := word_regs s Pc + 1) \<and>
    mem t = m"
proof -
  have wf: "memory_wf (mem s)" "memory_wf m" using ready_wf [OF r] read_at_wf [OF _ read] by auto
  let ?q = "fetched_opcode s (byte_regs s Ir)"
  let ?u1 = "start_instruction (irq_up s) (next_sc (set_word Mar (word_regs s Pc) s))"
  have sc: "byte_regs s Sc = 0" using r by (simp add: ready_def)
  have "\<exists>t. tick s = Inr t \<and> ready im ?q 1 t \<and> leaves t ?u1"
    by (rule micro_step [OF mc(1) _ r eff_fetch_1 [OF ready_idle [OF r]]])
      (use sc wf in \<open>simp_all add: fetch_steps_def ir_value_def fetched_opcode_def\<close>)
  then obtain s1 where s1: "tick s = Inr s1" "ready im ?q 1 s1" "leaves s1 ?u1" by blast
  let ?u2 = "next_sc (set_byte Ir v (s1\<lparr>mem := m\<rparr>))"
  have r2: "read_at (word_regs s1 Mar) (mem s1) = Inr (v, m)"
    using read s1(3) by (simp add: leaves_def)
  have "\<exists>t. tick s1 = Inr t \<and> ready im (fetched_opcode s v) 2 t \<and> leaves t ?u2"
    by (rule micro_step [OF mc(2) _ s1(2) eff_fetch_2 [OF ready_idle [OF s1(2)] r2]])
      (use sc wf s1(3) in \<open>simp_all add: fetch_steps_def leaves_def ir_value_def fetched_opcode_def\<close>)
  then obtain s2 where s2: "tick s1 = Inr s2" "ready im (fetched_opcode s v) 2 s2" "leaves s2 ?u2"
    by blast
  let ?u3 = "next_sc (set_word Pc (word_regs s2 Pc + 1) s2)"
  have "\<exists>t. tick s2 = Inr t \<and> ready im (fetched_opcode s v) 3 t \<and> leaves t ?u3"
    by (rule micro_step [OF mc(3) _ s2(2) eff_fetch_3 [OF ready_idle [OF s2(2)]]])
      (use sc wf s1(3) s2(2,3) in \<open>simp_all add: fetch_steps_def leaves_def ready_def\<close>)
  then obtain s3 where s3: "tick s2 = Inr s3" "ready im (fetched_opcode s v) 3 s3" "leaves s3 ?u3"
    by blast
  show ?thesis
    using s1 s2 s3 sc by (intro exI [of _ s3]) (auto simp: numeral_3_eq_3 leaves_def fun_eq_iff)
qed

section \<open>Interrupt entry\<close>

definition irq_steps :: "ctl list list" where
  "irq_steps = fetch_steps @
     [st_seti, st_stack, st_push_pch, st_stack, st_push_pcl, st_stack, st_clrb, st_push_status,
      st_vector, st_vec_low, st_mar_inc, st_vec_high]"

text \<open>The status the entry leaves and pushes: interrupts disabled, break clear.\<close>

definition irq_status :: "u8 \<Rightarrow> u8" where
  "irq_status st = status_set Brk False (status_set Interrupt_disable True st)"

fun write_bytes :: "(u16 \<times> u8) list \<Rightarrow> memory \<Rightarrow> sim_error + memory" where
  "write_bytes [] m = Inr m"
| "write_bytes ((a, v) # ws) m = bind_ok (write_at a v m) (write_bytes ws)"

lemma micro_step_fixed:
  assumes "microcoded im op kss" and "j < length kss" and "ready im op j s"
    and "step_effect st s = Inr (settle (irq_up s) u)" and "kss ! j = st"
    and "memory_wf (mem u)" and "halted u = halted s" and "instruction_mem u = instruction_mem s"
    and "byte_regs u Sc = of_nat j'" and "byte_regs u Ir = byte_regs s Ir"
    and "inject_interrupt u = inject_interrupt s"
  shows "\<exists>t. tick s = Inr t \<and> ready im op j' t \<and> leaves t u"
  by (rule micro_step [OF assms(1-9)])
    (use assms(3,10,11) in \<open>simp_all add: ir_value_def ready_def split: if_splits\<close>)

lemma irq_push_return:
  assumes mc: "microcoded im 0 irq_steps" and r: "ready im 0 3 s"
    and w1: "write_at (word_of_bytes 1 (byte_regs s Reg_sp)) (word_high (word_regs s Pc)) (mem s) = Inr m1"
    and w2: "write_at (word_of_bytes 1 (byte_regs s Reg_sp - 1)) (word_low (word_regs s Pc)) m1 = Inr m"
  shows "\<exists>t. ticks 5 s = Inr t \<and> ready im 0 8 t \<and>
    byte_regs t = (byte_regs s)(Status := status_set Interrupt_disable True (status_reg s),
      Reg_sp := byte_regs s Reg_sp - 2, Sc := 8) \<and>
    word_regs t = (word_regs s)(Mar := word_of_bytes 1 (byte_regs s Reg_sp - 1)) \<and> mem t = m"
proof -
  have sc: "byte_regs s Sc = 3" using r by (simp add: ready_def)
  note facts = sc ready_wf [OF r] write_at_wf [OF ready_wf [OF r] w1]
    write_at_wf [OF write_at_wf [OF ready_wf [OF r] w1] w2]
  have "\<exists>t. tick s = Inr t \<and> ready im 0 4 t \<and>
      leaves t (next_sc (set_byte Status (status_set Interrupt_disable True (status_reg s)) s))"
    by (rule micro_step_fixed [OF mc _ r eff_seti [OF ready_idle [OF r]]])
      (use facts in \<open>simp_all add: irq_steps_def fetch_steps_def\<close>)
  then obtain s1 where s1: "tick s = Inr s1" "ready im 0 4 s1" and
    l1: "leaves s1 (next_sc (set_byte Status (status_set Interrupt_disable True (status_reg s)) s))" by blast
  note e1 = l1 [unfolded leaves_def]
  have "\<exists>t. tick s1 = Inr t \<and> ready im 0 5 t \<and>
      leaves t (next_sc (set_word Mar (word_of_bytes 1 (byte_regs s1 Reg_sp)) s1))"
    by (rule micro_step_fixed [OF mc _ s1(2) eff_stack [OF ready_idle [OF s1(2)]]])
      (use facts e1 in \<open>simp_all add: irq_steps_def fetch_steps_def\<close>)
  then obtain s2 where s2: "tick s1 = Inr s2" "ready im 0 5 s2" and
    l2: "leaves s2 (next_sc (set_word Mar (word_of_bytes 1 (byte_regs s1 Reg_sp)) s1))" by blast
  note e2 = l2 [unfolded leaves_def]
  have p3: "write_at (word_regs s2 Mar) (word_high (word_regs s2 Pc)) (mem s2) = Inr m1"
    using w1 e1 e2 by simp
  have "\<exists>t. tick s2 = Inr t \<and> ready im 0 6 t \<and>
      leaves t (next_sc (set_byte Reg_sp (byte_regs s2 Reg_sp - 1) (s2\<lparr>mem := m1\<rparr>)))"
    by (rule micro_step_fixed [OF mc _ s2(2) eff_push_pch [OF ready_idle [OF s2(2)] p3]])
      (use facts e1 e2 in \<open>simp_all add: irq_steps_def fetch_steps_def\<close>)
  then obtain s3 where s3: "tick s2 = Inr s3" "ready im 0 6 s3" and
    l3: "leaves s3 (next_sc (set_byte Reg_sp (byte_regs s2 Reg_sp - 1) (s2\<lparr>mem := m1\<rparr>)))" by blast
  note e3 = l3 [unfolded leaves_def]
  have "\<exists>t. tick s3 = Inr t \<and> ready im 0 7 t \<and>
      leaves t (next_sc (set_word Mar (word_of_bytes 1 (byte_regs s3 Reg_sp)) s3))"
    by (rule micro_step_fixed [OF mc _ s3(2) eff_stack [OF ready_idle [OF s3(2)]]])
      (use facts e1 e2 e3 in \<open>simp_all add: irq_steps_def fetch_steps_def\<close>)
  then obtain s4 where s4: "tick s3 = Inr s4" "ready im 0 7 s4" and
    l4: "leaves s4 (next_sc (set_word Mar (word_of_bytes 1 (byte_regs s3 Reg_sp)) s3))" by blast
  note e4 = l4 [unfolded leaves_def]
  have p5: "write_at (word_regs s4 Mar) (word_low (word_regs s4 Pc)) (mem s4) = Inr m"
    using w2 e1 e2 e3 e4 by simp
  have "\<exists>t. tick s4 = Inr t \<and> ready im 0 8 t \<and>
      leaves t (next_sc (set_byte Reg_sp (byte_regs s4 Reg_sp - 1) (s4\<lparr>mem := m\<rparr>)))"
    by (rule micro_step_fixed [OF mc _ s4(2) eff_push_pcl [OF ready_idle [OF s4(2)] p5]])
      (use facts e1 e2 e3 e4 in \<open>simp_all add: irq_steps_def fetch_steps_def\<close>)
  then obtain s5 where s5: "tick s4 = Inr s5" "ready im 0 8 s5" and
    l5: "leaves s5 (next_sc (set_byte Reg_sp (byte_regs s4 Reg_sp - 1) (s4\<lparr>mem := m\<rparr>)))" by blast
  note e5 = l5 [unfolded leaves_def]
  show ?thesis
    using s1(1) s2(1) s3(1) s4(1) s5(1) s5(2) e1 e2 e3 e4 e5 sc
    by (intro exI [of _ s5]) (auto simp: eval_nat_numeral fun_eq_iff irq_status_def)
qed

lemma irq_push_status:
  assumes mc: "microcoded im 0 irq_steps" and r: "ready im 0 8 s"
    and w1: "write_at (word_of_bytes 1 (byte_regs s Reg_sp)) (status_set Brk False (status_reg s)) (mem s) = Inr m"
  shows "\<exists>t. ticks 3 s = Inr t \<and> ready im 0 11 t \<and>
    byte_regs t = (byte_regs s)(Status := status_set Brk False (status_reg s),
      Reg_sp := byte_regs s Reg_sp - 1, Sc := 11) \<and>
    word_regs t = (word_regs s)(Mar := word_of_bytes 1 (byte_regs s Reg_sp)) \<and> mem t = m"
proof -
  have sc: "byte_regs s Sc = 8" using r by (simp add: ready_def)
  note facts = sc ready_wf [OF r] write_at_wf [OF ready_wf [OF r] w1]
  have "\<exists>t. tick s = Inr t \<and> ready im 0 9 t \<and>
      leaves t (next_sc (set_word Mar (word_of_bytes 1 (byte_regs s Reg_sp)) s))"
    by (rule micro_step_fixed [OF mc _ r eff_stack [OF ready_idle [OF r]]])
      (use facts in \<open>simp_all add: irq_steps_def fetch_steps_def\<close>)
  then obtain s1 where s1: "tick s = Inr s1" "ready im 0 9 s1" and
    l1: "leaves s1 (next_sc (set_word Mar (word_of_bytes 1 (byte_regs s Reg_sp)) s))" by blast
  note e1 = l1 [unfolded leaves_def]
  have "\<exists>t. tick s1 = Inr t \<and> ready im 0 10 t \<and>
      leaves t (next_sc (set_byte Status (status_set Brk False (status_reg s1)) s1))"
    by (rule micro_step_fixed [OF mc _ s1(2) eff_clrb [OF ready_idle [OF s1(2)]]])
      (use facts e1 in \<open>simp_all add: irq_steps_def fetch_steps_def\<close>)
  then obtain s2 where s2: "tick s1 = Inr s2" "ready im 0 10 s2" and
    l2: "leaves s2 (next_sc (set_byte Status (status_set Brk False (status_reg s1)) s1))" by blast
  note e2 = l2 [unfolded leaves_def]
  have p3: "write_at (word_regs s2 Mar) (status_reg s2) (mem s2) = Inr m"
    using w1 e1 e2 by simp
  have "\<exists>t. tick s2 = Inr t \<and> ready im 0 11 t \<and>
      leaves t (next_sc (set_byte Reg_sp (byte_regs s2 Reg_sp - 1) (s2\<lparr>mem := m\<rparr>)))"
    by (rule micro_step_fixed [OF mc _ s2(2) eff_push_status [OF ready_idle [OF s2(2)] p3]])
      (use facts e1 e2 in \<open>simp_all add: irq_steps_def fetch_steps_def\<close>)
  then obtain s3 where s3: "tick s2 = Inr s3" "ready im 0 11 s3" and
    l3: "leaves s3 (next_sc (set_byte Reg_sp (byte_regs s2 Reg_sp - 1) (s2\<lparr>mem := m\<rparr>)))" by blast
  note e3 = l3 [unfolded leaves_def]
  show ?thesis
    using s1(1) s2(1) s3(1) s3(2) e1 e2 e3 sc
    by (intro exI [of _ s3]) (auto simp: eval_nat_numeral fun_eq_iff irq_status_def)
qed

lemma irq_load_vector:
  assumes mc: "microcoded im 0 irq_steps" and r: "ready im 0 11 s"
    and rd1: "read_at 0xFFFE (mem s) = Inr (lo, m1)" and rd2: "read_at 0xFFFF m1 = Inr (hi, m)"
  shows "\<exists>t. ticks 4 s = Inr t \<and> ready im 0 0 t \<and> byte_regs t = (byte_regs s)(Sc := 0) \<and>
    word_regs t = (word_regs s)(Mar := 0xFFFF, Pc := word_of_bytes hi lo) \<and> mem t = m"
proof -
  have sc: "byte_regs s Sc = 11" using r by (simp add: ready_def)
  note facts = sc ready_wf [OF r] read_at_wf [OF ready_wf [OF r] rd1]
    read_at_wf [OF read_at_wf [OF ready_wf [OF r] rd1] rd2]
  have "\<exists>t. tick s = Inr t \<and> ready im 0 12 t \<and>
      leaves t (next_sc (set_word Mar 0xFFFE s))"
    by (rule micro_step_fixed [OF mc _ r eff_vector [OF ready_idle [OF r]]])
      (use facts in \<open>simp_all add: irq_steps_def fetch_steps_def\<close>)
  then obtain s1 where s1: "tick s = Inr s1" "ready im 0 12 s1" and
    l1: "leaves s1 (next_sc (set_word Mar 0xFFFE s))" by blast
  note e1 = l1 [unfolded leaves_def]
  have p2: "read_at (word_regs s1 Mar) (mem s1) = Inr (lo, m1)"
    using rd1 e1 by simp
  have "\<exists>t. tick s1 = Inr t \<and> ready im 0 13 t \<and>
      leaves t (next_sc (set_port Pc False lo (s1\<lparr>mem := m1\<rparr>)))"
    by (rule micro_step_fixed [OF mc _ s1(2) eff_vec_low [OF ready_idle [OF s1(2)] p2]])
      (use facts e1 in \<open>simp_all add: irq_steps_def fetch_steps_def\<close>)
  then obtain s2 where s2: "tick s1 = Inr s2" "ready im 0 13 s2" and
    l2: "leaves s2 (next_sc (set_port Pc False lo (s1\<lparr>mem := m1\<rparr>)))" by blast
  note e2 = l2 [unfolded leaves_def]
  have "\<exists>t. tick s2 = Inr t \<and> ready im 0 14 t \<and>
      leaves t (next_sc (set_word Mar (word_regs s2 Mar + 1) s2))"
    by (rule micro_step_fixed [OF mc _ s2(2) eff_mar_inc [OF ready_idle [OF s2(2)]]])
      (use facts e1 e2 in \<open>simp_all add: irq_steps_def fetch_steps_def\<close>)
  then obtain s3 where s3: "tick s2 = Inr s3" "ready im 0 14 s3" and
    l3: "leaves s3 (next_sc (set_word Mar (word_regs s2 Mar + 1) s2))" by blast
  note e3 = l3 [unfolded leaves_def]
  have p4: "read_at (word_regs s3 Mar) (mem s3) = Inr (hi, m)"
    using rd2 e1 e2 e3 by simp
  have "\<exists>t. tick s3 = Inr t \<and> ready im 0 0 t \<and>
      leaves t (set_byte Sc 0 (set_port Pc True hi (s3\<lparr>mem := m\<rparr>)))"
    by (rule micro_step_fixed [OF mc _ s3(2) eff_vec_high [OF ready_idle [OF s3(2)] p4]])
      (use facts e1 e2 e3 in \<open>simp_all add: irq_steps_def fetch_steps_def\<close>)
  then obtain s4 where s4: "tick s3 = Inr s4" "ready im 0 0 s4" and
    l4: "leaves s4 (set_byte Sc 0 (set_port Pc True hi (s3\<lparr>mem := m\<rparr>)))" by blast
  note e4 = l4 [unfolded leaves_def]
  show ?thesis
    using s1(1) s2(1) s3(1) s4(1) s4(2) e1 e2 e3 e4 sc
    by (intro exI [of _ s4]) (auto simp: eval_nat_numeral set_port_def fun_eq_iff irq_status_def)
qed

lemma irq_entry_ticks:
  assumes r: "ready im op 0 s" and irq: "irq_up s" "\<not> status_value Interrupt_disable (status_reg s)"
    and mc: "microcoded im op fetch_steps" "microcoded im 0 irq_steps"
    and sp: "sp = byte_regs s Reg_sp" and ret: "ret = word_regs s Pc + 1"
    and rd: "read_at (word_regs s Pc) (mem s) = Inr (v, m0)"
    and wr: "write_bytes [(word_of_bytes 1 sp, word_high ret), (word_of_bytes 1 (sp - 1), word_low ret),
               (word_of_bytes 1 (sp - 2), irq_status (status_reg s))] m0 = Inr m1"
    and vec: "read_at 0xFFFE m1 = Inr (lo, m2)" "read_at 0xFFFF m2 = Inr (hi, m3)"
  shows "\<exists>t. ticks 15 s = Inr t \<and> ready im 0 0 t \<and>
    byte_regs t = (byte_regs s)(Ir := v, Status := irq_status (status_reg s), Reg_sp := sp - 3) \<and>
    word_regs t = (word_regs s)(Ipc := word_regs s Pc, Mar := 0xFFFF, Pc := word_of_bytes hi lo) \<and>
    mem t = m3"
proof -
  have sc: "byte_regs s Sc = 0" using r by (simp add: ready_def)
  have op: "fetched_opcode s q = 0" for q using irq by (simp add: fetched_opcode_def)
  have mc0: "microcoded im 0 fetch_steps"
    using microcoded_prefix mc(2) unfolding irq_steps_def by blast
  obtain s1 where s1: "ticks 3 s = Inr s1" "ready im 0 3 s1"
    "byte_regs s1 = (byte_regs s)(Ir := v, Sc := 3)"
    "word_regs s1 = (word_regs s)(Ipc := word_regs s Pc, Mar := word_regs s Pc, Pc := ret)" "mem s1 = m0"
    using fetch_executes [OF r mc(1) _ _ rd] mc0 by (auto simp: op ret)
  from wr obtain n1 n2 where
    w: "write_at (word_of_bytes 1 sp) (word_high ret) m0 = Inr n1"
      "write_at (word_of_bytes 1 (sp - 1)) (word_low ret) n1 = Inr n2"
      "write_at (word_of_bytes 1 (sp - 2)) (irq_status (status_reg s)) n2 = Inr m1"
    by (auto elim!: bind_ok_eq_InrE)
  obtain s2 where s2: "ticks 5 s1 = Inr s2" "ready im 0 8 s2" "mem s2 = n2"
    "byte_regs s2 = (byte_regs s1)(Status := status_set Interrupt_disable True (status_reg s1),
      Reg_sp := byte_regs s1 Reg_sp - 2, Sc := 8)"
    "word_regs s2 = (word_regs s1)(Mar := word_of_bytes 1 (byte_regs s1 Reg_sp - 1))"
    using irq_push_return [OF mc(2) s1(2), of n1 n2] w by (auto simp: s1 sp)
  obtain s3 where s3: "ticks 3 s2 = Inr s3" "ready im 0 11 s3" "mem s3 = m1"
    "byte_regs s3 = (byte_regs s2)(Status := status_set Brk False (status_reg s2),
      Reg_sp := byte_regs s2 Reg_sp - 1, Sc := 11)"
    "word_regs s3 = (word_regs s2)(Mar := word_of_bytes 1 (byte_regs s2 Reg_sp))"
    using irq_push_status [OF mc(2) s2(2), of m1] w by (auto simp: s1 s2 sp irq_status_def)
  obtain s4 where s4: "ticks 4 s3 = Inr s4" "ready im 0 0 s4" "mem s4 = m3"
    "byte_regs s4 = (byte_regs s3)(Sc := 0)"
    "word_regs s4 = (word_regs s3)(Mar := 0xFFFF, Pc := word_of_bytes hi lo)"
    using irq_load_vector [OF mc(2) s3(2)] vec by (auto simp: s3)
  have "ticks (3 + (5 + (3 + 4))) s = Inr s4"
    by (simp only: ticks_add s1 s2 s3 s4 bind_ok_Inr)
  then show ?thesis using s4 s3(4,5) s2(4,5) s1(3,4) sc
    by (intro exI [of _ s4]) (auto simp: fun_eq_iff sp irq_status_def)
qed

end
