(* ===== verification/Example_Machine.thy ===== *)
theory Example_Machine
  imports Sim_Fetch Sim_Run
begin

text \<open>
  A small machine, compiled and loaded like the real one, on which the theorems of the root
  are evaluated: the fetch preamble and the interrupt entry of \<open>microcode.yaml\<close> at the
  opcode 0, the default memory map, interrupts enabled and the line up.
\<close>

section \<open>The program\<close>

definition plain_steps :: "ctl list list \<Rightarrow> step list" where
  "plain_steps kss = map (\<lambda>ks. \<lparr>stage = 0, controls = ks\<rparr>) kss"

definition example_source :: "instruction_set" where
  "example_source =
     \<lparr>fetch_preamble = plain_steps
        [[Ctl Pc Write, Ctl Mar Read, Ctl Controller Instruction_start],
         [Ctl Memory Write, Ctl Ir Read], [Ctl Pc Increment]],
      instructions =
        [\<lparr>opcode = 0, variants =
           [\<lparr>status_conditions = [], steps = plain_steps
              [[Ctl (Flag Interrupt_disable) Set_flag],
               [Ctl Reg_sp Write, Ctl Mar_low Read, Ctl Mar Stack_page],
               [Ctl Pc_high Write, Ctl Memory Read, Ctl Reg_sp Decrement],
               [Ctl Reg_sp Write, Ctl Mar_low Read, Ctl Mar Stack_page],
               [Ctl Pc_low Write, Ctl Memory Read, Ctl Reg_sp Decrement],
               [Ctl Reg_sp Write, Ctl Mar_low Read, Ctl Mar Stack_page],
               [Ctl (Flag Brk) Clear_flag],
               [Ctl Status Write, Ctl Memory Read, Ctl Reg_sp Decrement],
               [Ctl Mar Interrupt_vector],
               [Ctl Memory Write, Ctl Pc_low Read],
               [Ctl Mar Increment],
               [Ctl Memory Write, Ctl Pc_high Read]]\<rparr>]\<rparr>]\<rparr>"

definition example_sequenced :: "instruction_set" where
  "example_sequenced =
     sequence_transformer (Ctl Sc Increment) (Ctl Sc Reset) (fetch_transformer example_source)"

definition example_final :: "instruction_set" where
  "example_final = step_merging_optimizer example_sequenced"

lemma example_fetch: "fetch_validator (fetch_transformer example_source) = Inr ()"
  by code_simp

lemma example_validators:
  "bus_validator example_sequenced = Inr ()" "bus_validator example_final = Inr ()"
  "control_conflict_validator example_sequenced = Inr ()"
  "control_conflict_validator example_final = Inr ()"
  "stage_validator example_sequenced = Inr ()" "stage_validator example_final = Inr ()"
  "status_validator cpu_status_encoder example_sequenced = Inr ()"
  "status_validator cpu_status_encoder example_final = Inr ()"
  "isa_coverage_validator [0] example_sequenced = Inr ()"
  "isa_coverage_validator [0] example_final = Inr ()"
  "sequence_validator (Ctl Sc Increment) (Ctl Sc Reset) example_sequenced = Inr ()"
  "sequence_validator (Ctl Sc Increment) (Ctl Sc Reset) example_final = Inr ()"
  by code_simp+

lemma example_optimizers:
  "empty_step_optimizer example_sequenced = example_sequenced"
  "duplicate_step_optimizer example_sequenced = example_sequenced"
  by code_simp+

lemma example_steps_ok:
  "list_all (\<lambda>v. length (steps v) \<le> 256 \<and>
       list_all (\<lambda>t. list_all (\<lambda>k. k \<in> set hdl_controls) (controls t)) (steps v))
     (all_variants example_final)"
  by code_simp

lemma example_final_steps:
  "\<forall>v\<in>set (all_variants example_final). length (steps v) \<le> 256 \<and>
     (\<forall>t\<in>set (steps v). set (controls t) \<subseteq> set hdl_controls)"
  using example_steps_ok unfolding list_all_iff subset_iff Ball_def .

lemma example_step_member:
  "variants (instructions example_final ! 0) ! 0 \<in> set (all_variants example_final)"
  "steps (variants (instructions example_final ! 0) ! 0) ! 1 \<in>
     set (steps (variants (instructions example_final ! 0) ! 0))"
proof -
  have l: "1 < length (steps (variants (instructions example_final ! 0) ! 0))"
    "0 < length (instructions example_final)" "0 < length (variants (instructions example_final ! 0))"
    by code_simp+
  show "variants (instructions example_final ! 0) ! 0 \<in> set (all_variants example_final)"
    unfolding all_variants_def using nth_mem [OF l(2)] nth_mem [OF l(3)] by (auto simp del: nth_mem)
  show "steps (variants (instructions example_final ! 0) ! 0) ! 1 \<in>
      set (steps (variants (instructions example_final ! 0) ! 0))"
    by (rule nth_mem [OF l(1)])
qed

lemma fetch_1_disciplined: "bus_disciplined st_fetch_1"
  by (simp add: bus_disciplined_def st_fetch_1_def bus_info_def Let_def)

lemma example_run_validators:
  "run_all_validators (cpu_compiler [0]) example_sequenced = Inr ()"
  "run_all_validators (cpu_compiler [0]) example_final = Inr ()"
  by (simp_all add: run_all_validators_def cpu_compiler_def example_validators)

lemma example_compiles: "is_ok (compile (cpu_compiler [0]) example_source)"
proof -
  obtain p where p: "encode_program (cpu_compiler [0]) example_final = Inr p"
    using validated_encodes [OF example_run_validators(2)] example_steps_ok
    by (fastforce simp: list_all_iff)
  have c: "increment_control (cpu_compiler [0]) = Ctl Sc Increment"
    "reset_control (cpu_compiler [0]) = Ctl Sc Reset"
    by (simp_all add: cpu_compiler_def)
  have "compile (cpu_compiler [0]) example_source = Inr p"
    unfolding compile_def Let_def c example_fetch bind_ok_Inr example_sequenced_def [symmetric]
      example_run_validators example_optimizers example_final_def [symmetric] p ..
  then show ?thesis by simp
qed

definition example_program :: "microcode_program" where
  "example_program = (case compile (cpu_compiler [0]) example_source of Inr p \<Rightarrow> p)"

lemma example_program: "compile (cpu_compiler [0]) example_source = Inr example_program"
  using example_compiles by (auto simp: example_program_def)

definition example_im :: "instruction_memory" where
  "example_im = (case make_instruction_memory hdl_controls example_program of Inr im \<Rightarrow> im)"

lemma example_steps:
  "final_steps (cpu_compiler [0]) example_source (variants (instructions example_source ! 0) ! 0) =
   steps (variants (instructions example_final ! 0) ! 0)"
  by code_simp

lemma example_lookups:
  "map (\<lambda>t. filter (\<lambda>k. k \<in> set (controls t)) hdl_controls)
     (steps (variants (instructions example_final ! 0) ! 0)) = irq_steps"
  by code_simp

lemma example_microcoded: "microcoded example_im 0 irq_steps"
proof -
  let ?i = "instructions example_source ! 0"
  let ?v = "variants ?i ! 0"
  let ?ts = "final_steps (cpu_compiler [0]) example_source ?v"
  have i: "?i \<in> set (instructions example_source)" "?v \<in> set (variants ?i)" "opcode ?i = 0"
    "status_conditions ?v = []"
    by (simp_all add: example_source_def)
  obtain im where im: "make_instruction_memory hdl_controls example_program = Inr im"
    "\<And>i v st j. i \<in> set (instructions example_source) \<Longrightarrow> v \<in> set (variants i) \<Longrightarrow>
      variant_matches cpu_status_encoder v st \<Longrightarrow>
      j < length (final_steps (cpu_compiler [0]) example_source v) \<Longrightarrow>
      lookup im (opcode i) (of_nat j) st =
        Inr (filter (\<lambda>k. k \<in> set (controls (final_steps (cpu_compiler [0]) example_source v ! j)))
          hdl_controls)"
    using compiled_lookup [OF example_program] by metis
  have m: "variant_matches cpu_status_encoder ?v st" for st
    by (simp add: variant_matches_def i(4) cpu_status_encoder_def matches_unconditional)
  have eq: "example_im = im" by (simp add: example_im_def im(1))
  have l: "irq_steps = map (\<lambda>t. filter (\<lambda>k. k \<in> set (controls t)) hdl_controls) ?ts"
    unfolding example_steps example_lookups ..
  show ?thesis unfolding microcoded_def eq
  proof (intro allI impI)
    fix j st assume "j < length irq_steps"
    then have j: "j < length ?ts" by (simp add: l)
    show "lookup im 0 (of_nat j) st = Inr (irq_steps ! j)"
      using im(2) [OF i(1,2) m j, of st] i(3) j by (simp add: l)
  qed
qed

section \<open>The machine\<close>

definition memory_of :: "u8 list \<Rightarrow> memory" where
  "memory_of d =
     [\<lparr>region_offset = 0, region_module = Ram d\<rparr>,
      \<lparr>region_offset = 0x8000, region_module = Rom (replicate 0x8000 0xFF)\<rparr>]"

lemma memory_of_wf: "length d = 0x2000 \<Longrightarrow> memory_wf (memory_of d)"
  by (simp add: memory_wf_def memory_of_def region_wf_def region_size_def is_power_of_two_def
    overlap_pairs_def region_overlaps_def region_lower_def region_upper_def)

lemma contains_ram:
  "length d = 0x2000 \<Longrightarrow> region_contains \<lparr>region_offset = 0, region_module = Ram d\<rparr> a \<longleftrightarrow> a < 0x2000"
  by (simp add: region_contains_def region_lower_def region_upper_def region_size_def
    word_less_nat_alt unsigned_ucast_eq take_bit_eq_mod)

lemma contains_rom:
  "region_contains \<lparr>region_offset = 0x8000, region_module = Rom (replicate 0x8000 0xFF)\<rparr> a \<longleftrightarrow> 0x8000 \<le> a"
  by (simp add: region_contains_def region_lower_def region_upper_def region_size_def
    word_less_nat_alt word_le_nat_alt unsigned_ucast_eq take_bit_eq_mod)

lemma memory_of_write:
  assumes "length d = 0x2000" and "a < 0x2000"
  shows "write_at a v (memory_of d) = Inr (memory_of (d[unat a := v]))"
  using assms
  by (simp add: write_at_def memory_of_def contains_ram region_write_def region_translate_def ram_write_def
     word_less_nat_alt)

lemma memory_of_read_rom:
  assumes "length d = 0x2000" and "0x8000 \<le> a"
  shows "read_at a (memory_of d) = Inr (0xFF, memory_of d)"
proof -
  have "\<not> a < 0x2000" using assms(2) by (simp add: word_le_nat_alt word_less_nat_alt)
  moreover have "unat (a - 0x8000) = unat a - 0x8000" using assms(2) by (simp add: unat_sub)
  moreover have "unat a - 0x8000 < 0x8000" using unat_u16_less [of a] by linarith
  ultimately show ?thesis
    using assms
    by (simp add: read_at_def memory_of_def contains_ram contains_rom region_read_def
      region_translate_def rom_storage_read_def)
qed

lemma memory_of_ram: "length d = 0x2000 \<Longrightarrow> mem_ram_addr (memory_of d) a \<longleftrightarrow> a < 0x2000"
  by (auto simp: mem_ram_addr_def memory_of_def contains_ram split: option.splits if_splits)

lemma memory_of_peek:
  assumes "length d = 0x2000" and "a < 0x2000"
  shows "mem_peek (memory_of d) a = d ! unat a"
  using assms
  by (simp add: mem_peek_def memory_of_def contains_ram region_translate_def ram_peek_def)

definition example_memory :: "memory" where
  "example_memory = memory_of (replicate 0x2000 0)"

lemma example_memory_wf: "memory_wf example_memory"
  by (simp add: example_memory_def memory_of_wf)

definition example_cpu :: "bool \<Rightarrow> cpu" where
  "example_cpu line =
     \<lparr>cur_phase = Phase_None, sig = idle_sig line, data_bus = bus_idle, address_bus = bus_idle,
      byte_regs = (\<lambda>_. 0)(Reg_sp := 0xFF), word_regs = (\<lambda>_. 0)(Pc := 0x8000),
      inject_interrupt = False, mem = example_memory, instruction_mem = Some example_im,
      halted = False, crashed = False, cycle_count = 0, ipc_valid = False, trace = trace_init\<rparr>"

lemma example_ready: "ready example_im 0 0 (example_cpu b)"
  using example_memory_wf by (auto simp: ready_def idle_def example_cpu_def idle_sig_def ir_value_def)

lemma example_irq: "irq_up (example_cpu b) = b" "\<not> status_value Interrupt_disable (status_reg (example_cpu b))"
  by (auto simp: irq_up_def irq_after_def example_cpu_def example_memory_def memory_of_def idle_sig_def status_value_def)

end
