(* ===== verification/Asm_Passes.thy ===== *)
theory Asm_Passes
  imports Asm_Assembler Sim_Cartridge Sim_Run Example_Machine
begin

text \<open>
  What the two passes guarantee: the invariant of the first pass, the address of every
  statement as the sum of the sizes before it, relative branches as the processor takes them,
  and the ROM as the bytes of the items written over the fill. The last section composes the
  assembler with the simulator's loader.
\<close>

section \<open>The first pass\<close>

definition item_size :: "emittable \<Rightarrow> nat" where
  "item_size item =
     (case e_kind item of
        Emit_Bytes \<Rightarrow> length (e_operands item)
      | Emit_Instruction \<Rightarrow> 1 + unat (e_operand_bytes item))"

text \<open>The addresses that an item occupies.\<close>

definition item_range :: "emittable \<Rightarrow> nat set" where
  "item_range item = {unat (e_address item) ..< unat (e_address item) + item_size item}"

definition first_pass_ok :: "assembler_options \<Rightarrow> first_pass_state \<Rightarrow> bool" where
  "first_pass_ok options st =
     (fp_origin st = opt_origin options \<and>
      unat (opt_origin options) \<le> fp_cursor st \<and>
      opt_origin options \<le> fp_max_address st \<and>
      list_all (\<lambda>item. 0 < item_size item \<and> opt_origin options \<le> e_address item \<and>
        unat (e_address item) + item_size item \<le> unat (fp_max_address st) + 1) (fp_items st) \<and>
      list_all (\<lambda>(name, address). opt_origin options \<le> address) (fp_symbols st) \<and>
      distinct (map fst (fp_symbols st)) \<and> distinct (map fst (fp_constants st)))"

lemma first_pass_init_ok: "first_pass_ok options (first_pass_init options)"
  by (simp add: first_pass_ok_def first_pass_init_def)

lemma validate_cursor_Inr [simp]: "validate_cursor a sp = Inr u \<longleftrightarrow> a \<le> 0xFFFF"
  by (auto simp: validate_cursor_def)

lemma require_number_operand_Inr [simp]:
  "require_number_operand opnd msg = Inr u \<longleftrightarrow> o_kind opnd = Op_Number"
  by (simp add: require_number_operand_def)

lemma unat_of_nat_u16: "n \<le> 0xFFFF \<Longrightarrow> unat (of_nat n :: u16) = n"
  by (simp add: unat_of_nat)

lemma place_item_Inr:
  assumes "place_item sp n mk st = Inr st'"
  shows "fp_cursor st \<le> 0xFFFF" and "fp_cursor st + n - 1 \<le> 0xFFFF"
    and "fp_cursor st' = fp_cursor st + n"
    and "fp_items st' = fp_items st @ [mk (of_nat (fp_cursor st))]"
    and "fp_symbols st' = fp_symbols st" and "fp_constants st' = fp_constants st"
    and "fp_origin st' = fp_origin st"
    and "unat (fp_max_address st') = max (unat (fp_max_address st)) (fp_cursor st + n - 1)"
proof -
  define e where "e = fp_cursor st + n - 1"
  show "fp_cursor st \<le> 0xFFFF" "fp_cursor st + n - 1 \<le> 0xFFFF"
    "fp_cursor st' = fp_cursor st + n"
    "fp_items st' = fp_items st @ [mk (of_nat (fp_cursor st))]"
    "fp_symbols st' = fp_symbols st" "fp_constants st' = fp_constants st"
    "fp_origin st' = fp_origin st"
    "unat (fp_max_address st') = max (unat (fp_max_address st)) (fp_cursor st + n - 1)"
    using assms unfolding place_item_def Let_def update_max_address_def e_def [symmetric]
    by (auto simp: unat_of_nat_u16 max_def elim!: bind_ok_eq_InrE)
qed

lemma place_item_one:
  assumes "place_item sp n mk st = Inr st'"
  shows "fp_cursor st \<le> 0xFFFF \<and> fp_items st' = fp_items st @ [mk (of_nat (fp_cursor st))]"
  using place_item_Inr [OF assms] by simp

lemma place_item_ok:
  assumes "place_item sp n mk st = Inr st'" and "first_pass_ok options st"
    and "0 < n" and "\<And>a. item_size (mk a) = n" and "\<And>a. e_address (mk a) = a"
  shows "first_pass_ok options st'"
proof -
  note p = place_item_Inr [OF assms(1)]
  have "fp_max_address st \<le> fp_max_address st'" using p(8) by (simp add: word_le_nat_alt)
  moreover have "opt_origin options \<le> (of_nat (fp_cursor st) :: u16)"
    using assms(2) p(1) by (simp add: first_pass_ok_def word_le_nat_alt unat_of_nat_u16)
  ultimately show ?thesis
    using assms(2-) p
    by (auto simp: first_pass_ok_def list_all_iff unat_of_nat_u16 word_le_nat_alt)
qed

lemma list_all_emplace:
  "list_all (\<lambda>(k, v). P v) m \<Longrightarrow> P v \<Longrightarrow> list_all (\<lambda>(k, v). P v) (emplace k v m)"
  by (simp add: emplace_def)

lemma first_pass_statement_ok:
  assumes "first_pass_statement isa options stmt st = Inr st'" and "first_pass_ok options st"
  shows "first_pass_ok options st'"
proof (cases stmt)
  case (Label_Decl name sp)
  with assms have "fp_cursor st \<le> 0xFFFF"
    and st': "st' = st\<lparr>fp_symbols := emplace name (of_nat (fp_cursor st)) (fp_symbols st)\<rparr>"
    by (auto split: if_splits elim!: bind_ok_eq_InrE)
  then have "opt_origin options \<le> (of_nat (fp_cursor st) :: u16)"
    using assms(2) by (simp add: first_pass_ok_def word_le_nat_alt unat_of_nat_u16)
  with assms(2) st' show ?thesis
    by (auto simp: first_pass_ok_def list_all_emplace distinct_emplace)
next
  case (Equ_Decl name v sp)
  with assms show ?thesis by (auto simp: first_pass_ok_def distinct_emplace split: if_splits)
next
  case (Instruction_Stmt m opnds sp)
  with assms obtain info :: instruction_info and bytes where
    "place_item sp (1 + unat bytes) (\<lambda>address. \<lparr>e_address = address, e_span = sp,
                e_text = format_instruction_text m opnds, e_kind = Emit_Instruction,
                e_mode = i_mode info, e_opcode = i_opcode info, e_operand_bytes = bytes,
                e_operands = opnds\<rparr>) st = Inr st'"
    by (auto split: option.splits elim!: bind_ok_eq_InrE)
  then show ?thesis by (rule place_item_ok [OF _ assms(2)]) (simp_all add: item_size_def)
next
  case (Directive_Stmt type opnds path sp)
  show ?thesis
  proof (cases type)
    case Org
    with Directive_Stmt assms show ?thesis
      by (auto simp: first_pass_ok_def Let_def split: if_splits elim!: bind_ok_eq_InrE)
  next
    case Byte_Data
    with Directive_Stmt assms have ne: "opnds \<noteq> []" and p:
      "place_item sp (length opnds) (\<lambda>address. \<lparr>e_address = address, e_span = sp,
                e_text = format_directive_text type opnds, e_kind = Emit_Bytes, e_mode = IMP,
                e_opcode = 0, e_operand_bytes = 0, e_operands = opnds\<rparr>) st = Inr st'"
      by (auto split: if_splits)
    show ?thesis by (rule place_item_ok [OF p assms(2)]) (use ne in \<open>simp_all add: item_size_def\<close>)
  next
    case Include
    with Directive_Stmt assms show ?thesis by simp
  qed
qed

lemma first_pass_result_ok: "first_pass isa options program = Inr st \<Longrightarrow> first_pass_ok options st"
  unfolding first_pass_def
  by (rule fold_ok_invariant [where P = "first_pass_ok options", OF _ first_pass_init_ok])
    (auto intro: first_pass_statement_ok)

subsection \<open>Addresses\<close>

text \<open>The number of bytes a statement takes.\<close>

fun statement_size :: "isa_info \<Rightarrow> statement \<Rightarrow> nat" where
  "statement_size isa (Instruction_Stmt m opnds sp) =
     (case select_instruction isa m opnds sp of
        Inl e \<Rightarrow> 0
      | Inr info \<Rightarrow> (case isa_operand_bytes isa (i_mode info) of None \<Rightarrow> 0 | Some b \<Rightarrow> 1 + unat b))"
| "statement_size isa (Directive_Stmt Byte_Data opnds path sp) = length opnds"
| "statement_size isa s = 0"

fun is_org :: "statement \<Rightarrow> bool" where
  "is_org (Directive_Stmt Org opnds path sp) = True"
| "is_org s = False"

text \<open>What a statement adds: items and names are only ever appended.\<close>

definition extends :: "first_pass_state \<Rightarrow> first_pass_state \<Rightarrow> bool" where
  "extends st st' =
     ((\<exists>items. fp_items st' = fp_items st @ items) \<and> map_of (fp_symbols st) \<subseteq>\<^sub>m map_of (fp_symbols st') \<and>
      map_of (fp_constants st) \<subseteq>\<^sub>m map_of (fp_constants st'))"

lemma extendsI:
  "fp_items st' = fp_items st \<Longrightarrow> map_of (fp_symbols st) \<subseteq>\<^sub>m map_of (fp_symbols st') \<Longrightarrow>
   map_of (fp_constants st) \<subseteq>\<^sub>m map_of (fp_constants st') \<Longrightarrow> extends st st'"
  by (simp add: extends_def)

lemma extends_refl [simp]: "extends st st"
  by (simp add: extends_def)

lemma extends_trans: "extends a b \<Longrightarrow> extends b c \<Longrightarrow> extends a c"
  by (auto simp: extends_def intro: map_le_trans)

lemma map_le_emplace: "map_of m \<subseteq>\<^sub>m map_of (emplace k v m)"
  by (auto simp: map_le_def map_of_emplace)

lemma place_item_extends: "place_item sp n mk st = Inr st' \<Longrightarrow> extends st st'"
  using place_item_Inr(4-6) [of sp n mk st st'] by (simp add: extends_def)

lemma first_pass_statement_extends:
  assumes "first_pass_statement isa options stmt st = Inr st'"
  shows "extends st st'"
  using assms
  by (cases "(isa, options, stmt, st)" rule: first_pass_statement.cases)
    (auto simp: map_le_emplace Let_def intro: place_item_extends extendsI
      split: if_splits directive_type.splits option.splits elim!: bind_ok_eq_InrE)

lemma first_pass_statement_cursor:
  assumes "first_pass_statement isa options stmt st = Inr st'" and "\<not> is_org stmt"
  shows "fp_cursor st' = fp_cursor st + statement_size isa stmt"
  using assms
  by (cases "(isa, options, stmt, st)" rule: first_pass_statement.cases)
    (auto dest!: place_item_Inr(3)
      split: if_splits directive_type.splits option.splits elim!: bind_ok_eq_InrE)

lemma first_pass_cursor:
  "fold_ok (first_pass_statement isa options) ss st = Inr st' \<Longrightarrow> list_all (\<lambda>s. \<not> is_org s) ss \<Longrightarrow>
   fp_cursor st' = fp_cursor st + (\<Sum>s\<leftarrow>ss. statement_size isa s)"
  by (induction ss arbitrary: st) (auto dest!: first_pass_statement_cursor elim!: bind_ok_eq_InrE)

lemma first_pass_fold_extends:
  "fold_ok (first_pass_statement isa options) ss st = Inr st' \<Longrightarrow> extends st st'"
  by (rule fold_ok_related [where R = extends])
    (auto intro: extends_trans first_pass_statement_extends)

text \<open>A label's address, and the address of the item of a statement that emits one.\<close>

lemma label_address:
  assumes "first_pass isa options (pre @ Label_Decl name sp # post) = Inr st"
    and "list_all (\<lambda>s. \<not> is_org s) pre"
  shows "\<exists>a. map_of (fp_symbols st) name = Some a \<and>
    unat a = unat (opt_origin options) + (\<Sum>s\<leftarrow>pre. statement_size isa s)"
proof -
  from assms(1) obtain st1 st2 where
    1: "fold_ok (first_pass_statement isa options) pre (first_pass_init options) = Inr st1"
    and 2: "first_pass_statement isa options (Label_Decl name sp) st1 = Inr st2"
    and 3: "fold_ok (first_pass_statement isa options) post st2 = Inr st"
    unfolding first_pass_def by (auto simp: fold_ok_append simp del: first_pass_statement.simps elim!: bind_ok_eq_InrE)
  have c: "fp_cursor st1 = unat (opt_origin options) + (\<Sum>s\<leftarrow>pre. statement_size isa s)"
    using first_pass_cursor [OF 1 assms(2)] by (simp add: first_pass_init_def)
  from 2 have "map_of (fp_symbols st2) name = Some (of_nat (fp_cursor st1))" and "fp_cursor st1 \<le> 0xFFFF"
    by (auto simp: map_of_emplace split: if_splits elim!: bind_ok_eq_InrE)
  moreover from this first_pass_fold_extends [OF 3]
  have "map_of (fp_symbols st) name = Some (of_nat (fp_cursor st1))"
    by (auto simp: extends_def map_le_def dom_def)
  moreover have "unat (of_nat (fp_cursor st1) :: u16) = fp_cursor st1"
    using \<open>fp_cursor st1 \<le> 0xFFFF\<close> by (rule unat_of_nat_u16)
  ultimately show ?thesis unfolding c by blast
qed

lemma item_address:
  assumes "first_pass isa options (pre @ stmt # post) = Inr st"
    and "list_all (\<lambda>s. \<not> is_org s) pre" and "0 < statement_size isa stmt"
  shows "\<exists>item\<in>set (fp_items st). item_size item = statement_size isa stmt \<and>
    unat (e_address item) = unat (opt_origin options) + (\<Sum>s\<leftarrow>pre. statement_size isa s)"
proof -
  from assms(1) obtain st1 st2 where
    1: "fold_ok (first_pass_statement isa options) pre (first_pass_init options) = Inr st1"
    and 2: "first_pass_statement isa options stmt st1 = Inr st2"
    and 3: "fold_ok (first_pass_statement isa options) post st2 = Inr st"
    unfolding first_pass_def by (auto simp: fold_ok_append simp del: first_pass_statement.simps elim!: bind_ok_eq_InrE)
  have c: "fp_cursor st1 = unat (opt_origin options) + (\<Sum>s\<leftarrow>pre. statement_size isa s)"
    using first_pass_cursor [OF 1 assms(2)] by (simp add: first_pass_init_def)
  from 2 assms(3) obtain item where item: "fp_items st2 = fp_items st1 @ [item]"
      "fp_cursor st1 \<le> 0xFFFF" "item_size item = statement_size isa stmt"
      "e_address item = of_nat (fp_cursor st1)"
    by (cases "(isa, options, stmt, st1)" rule: first_pass_statement.cases)
      (auto simp: item_size_def dest!: place_item_one
        split: if_splits directive_type.splits option.splits elim!: bind_ok_eq_InrE)
  have "unat (e_address item) = fp_cursor st1"
    unfolding item(4) using item(2) by (rule unat_of_nat_u16)
  moreover have "item \<in> set (fp_items st)"
    using first_pass_fold_extends [OF 3] item(1) by (auto simp: extends_def)
  ultimately show ?thesis using item(3) c by auto
qed

section \<open>The second pass\<close>

subsection \<open>Branches\<close>

text \<open>
  The processor adds the sign-extended operand to the address after the branch instruction.
\<close>

lemma branch_target_range: "branch_target st opnd = Inr t \<Longrightarrow> t \<le> 0xFFFF"
proof -
  have "(ucast (a :: u16) :: u32) \<le> 0xFFFF" for a
  proof -
    have "unat a \<le> 65535" using unat_u16_less [of a] by linarith
    then show ?thesis by (simp add: word_le_nat_alt unsigned_ucast_eq take_bit_eq_mod)
  qed
  then show "branch_target st opnd = Inr t \<Longrightarrow> t \<le> 0xFFFF"
    by (auto simp: branch_target_def split: if_splits option.splits sum.splits)
qed

lemma sint_word_of_int_u8: "- 128 \<le> d \<Longrightarrow> d \<le> 127 \<Longrightarrow> sint (word_of_int d :: u8) = d"
  by (simp add: sint_sbintrunc' signed_take_bit_int_eq_self)

lemma relative_operand:
  assumes "resolve_relative_operand st opnd address = Inr b" and "branch_target st opnd = Inr target"
  shows "sint b = uint target - (uint address + 2)"
proof -
  have b: "b = word_of_int (uint target - (uint address + 2))"
    and r: "- 128 \<le> uint target - (uint address + 2)" "uint target - (uint address + 2) \<le> 127"
    using assms by (auto simp: resolve_relative_operand_def Let_def split: if_splits)
  show ?thesis unfolding b by (rule sint_word_of_int_u8 [OF r])
qed

lemma relative_operand_lands:
  assumes "resolve_relative_operand st opnd address = Inr b" and "branch_target st opnd = Inr target"
  shows "address + 2 + scast b = (ucast target :: u16)"
proof -
  have "(scast b :: u16) = word_of_int (uint target - (uint address + 2))"
    by (simp add: scast_eq relative_operand [OF assms])
  then show ?thesis by (simp add: word_of_int_hom_syms)
qed

subsection \<open>The bytes of an item\<close>

definition operand_value :: "first_pass_state \<Rightarrow> emittable \<Rightarrow> asm_error + u8 list" where
  "operand_value pass item =
     (if e_operand_bytes item = 1 then
        bind_ok (if e_mode item = REL
                 then resolve_relative_operand pass (hd (e_operands item)) (e_address item)
                 else resolve_byte_operand pass (hd (e_operands item))) (\<lambda>v. Inr [v])
      else if e_operand_bytes item = 2 then
        bind_ok (resolve_word_operand pass (hd (e_operands item))) (\<lambda>v. Inr [word_low v, word_high v])
      else Inr [])"

text \<open>What the item means: its opcode and operand, little-endian, or its data bytes.\<close>

definition item_bytes :: "first_pass_state \<Rightarrow> emittable \<Rightarrow> asm_error + u8 list" where
  "item_bytes pass item =
     (case e_kind item of
        Emit_Instruction \<Rightarrow> bind_ok (operand_value pass item) (\<lambda>vs. Inr (e_opcode item # vs))
      | Emit_Bytes \<Rightarrow> map_ok (resolve_byte_operand pass) (e_operands item))"

text \<open>Writing bytes over a list from an index on.\<close>

fun overwrite :: "'a list \<Rightarrow> nat \<Rightarrow> 'a list \<Rightarrow> 'a list" where
  "overwrite xs k [] = xs"
| "overwrite xs k (b # bs) = overwrite (xs[k := b]) (Suc k) bs"

lemma length_overwrite [simp]: "length (overwrite xs k bs) = length xs"
  by (induction xs k bs rule: overwrite.induct) simp_all

lemma overwrite_snoc: "overwrite xs k (bs @ [b]) = (overwrite xs k bs)[k + length bs := b]"
  by (induction xs k bs rule: overwrite.induct) simp_all

lemma nth_overwrite:
  "i < length xs \<Longrightarrow> overwrite xs k bs ! i = (if k \<le> i \<and> i < k + length bs then bs ! (i - k) else xs ! i)"
proof (induction xs k bs rule: overwrite.induct)
  case (2 xs k b bs)
  then show ?case by (auto simp: nth_list_update nth_Cons')
qed auto

text \<open>The debug records of an item: one per byte, with the statement's position and text.\<close>

definition item_record :: "nat \<Rightarrow> (string \<Rightarrow> string) \<Rightarrow> emittable \<Rightarrow> nat \<Rightarrow> debug_record" where
  "item_record origin relative item i =
     \<lparr>d_address = e_address item + of_nat i,
      d_rom_offset = of_nat (unat (e_address item) - origin + i),
      d_file = relative (span_file (e_span item)), d_line = span_line (e_span item),
      d_column = span_column (e_span item), d_text = e_text item\<rparr>"

definition item_records :: "nat \<Rightarrow> (string \<Rightarrow> string) \<Rightarrow> emittable \<Rightarrow> debug_record list" where
  "item_records origin relative item = map (item_record origin relative item) [0..<item_size item]"

lemma set_rom_simps [simp]:
  "en_rom (set_rom k v st) = (en_rom st)[k := v]" "en_records (set_rom k v st) = en_records st"
  by (simp_all add: set_rom_def)

lemma add_record_simps [simp]:
  "en_rom (add_record rel sp a k t st) = en_rom st"
  "en_records (add_record rel sp a k t st) = en_records st @
     [\<lparr>d_address = a, d_rom_offset = of_nat k, d_file = rel (span_file sp), d_line = span_line sp,
       d_column = span_column sp, d_text = t\<rparr>]"
  by (simp_all add: add_record_def)

lemma low_high_bytes:
  "ucast (v AND 0xFF) = word_low (v :: u16)" "word_low (drop_bit 8 v) = word_high (v :: u16)"
  by (simp_all add: word_low_def word_high_def ucast_and_FF)

lemma encode_byte_Inr:
  assumes "encode_byte pass rel k item i st = Inr st'"
  shows "\<exists>v. resolve_byte_operand pass (e_operands item ! i) = Inr v \<and> k + i < length (en_rom st) \<and>
    en_rom st' = (en_rom st)[k + i := v] \<and>
    en_records st' = en_records st @
      [\<lparr>d_address = e_address item + of_nat i, d_rom_offset = of_nat (k + i),
        d_file = rel (span_file (e_span item)), d_line = span_line (e_span item),
        d_column = span_column (e_span item), d_text = e_text item\<rparr>]"
  using assms by (auto simp: encode_byte_def Let_def split: if_splits elim!: bind_ok_eq_InrE)

lemma map_ok_append:
  "map_ok f (xs @ ys) = bind_ok (map_ok f xs) (\<lambda>us. bind_ok (map_ok f ys) (\<lambda>vs. Inr (us @ vs)))"
  by (induction xs) (auto simp: bind_ok_def split: sum.splits)

text \<open>The byte loop after n operands.\<close>

lemma encode_bytes_prefix:
  assumes "fold_ok (encode_byte pass rel k item) [0..<n] st = Inr st'" and "n \<le> length (e_operands item)"
    and "k = unat (e_address item) - origin"
  shows "\<exists>bs. map_ok (resolve_byte_operand pass) (take n (e_operands item)) = Inr bs \<and>
    en_rom st' = overwrite (en_rom st) k bs \<and> (n = 0 \<or> k + n \<le> length (en_rom st)) \<and>
    en_records st' = en_records st @ map (item_record origin rel item) [0..<n]"
  using assms(1,2)
proof (induction n arbitrary: st')
  case 0
  then show ?case by simp
next
  case (Suc n)
  then obtain st1 where st1: "fold_ok (encode_byte pass rel k item) [0..<n] st = Inr st1"
      "encode_byte pass rel k item n st1 = Inr st'"
    by (auto simp: fold_ok_append elim!: bind_ok_eq_InrE)
  from Suc.IH [OF st1(1)] Suc.prems(2) obtain bs where
    bs: "map_ok (resolve_byte_operand pass) (take n (e_operands item)) = Inr bs"
      "en_rom st1 = overwrite (en_rom st) k bs"
      "en_records st1 = en_records st @ map (item_record origin rel item) [0..<n]" by auto
  from map_ok_eq_Inr_length [OF bs(1)] Suc.prems(2) have len: "length bs = n" by simp
  from encode_byte_Inr [OF st1(2)] obtain v where
    v: "resolve_byte_operand pass (e_operands item ! n) = Inr v" "k + n < length (en_rom st1)"
      "en_rom st' = (en_rom st1)[k + n := v]"
      "en_records st' = en_records st1 @ [item_record origin rel item n]"
    by (auto simp: item_record_def assms(3))
  have "map_ok (resolve_byte_operand pass) (take (Suc n) (e_operands item)) = Inr (bs @ [v])"
    using Suc.prems(2) bs(1) v(1) by (simp add: take_Suc_conv_app_nth map_ok_append)
  moreover have "en_rom st' = overwrite (en_rom st) k (bs @ [v])"
    using v(3) bs(2) by (simp add: overwrite_snoc len)
  ultimately show ?case using v(2,4) bs(2,3) by auto
qed

text \<open>
  Encoding an item writes its bytes at its offset, inside the ROM, and appends its records.
\<close>

lemma encode_item_Inr:
  assumes "encode_item pass origin rel item st = Inr st'" and "0 < item_size item"
  shows "\<exists>bs. item_bytes pass item = Inr bs \<and> length bs = item_size item \<and>
    origin \<le> unat (e_address item) \<and>
    unat (e_address item) - origin + item_size item \<le> length (en_rom st) \<and>
    en_rom st' = overwrite (en_rom st) (unat (e_address item) - origin) bs \<and>
    en_records st' = en_records st @ item_records origin rel item"
proof -
  define k where "k = unat (e_address item) - origin"
  have k: "origin \<le> unat (e_address item)" "k < length (en_rom st)"
    using assms(1) by (auto simp: encode_item_def Let_def k_def split: if_splits)
  show ?thesis
  proof (cases "e_kind item")
    case Emit_Bytes
    then have loop: "fold_ok (encode_byte pass rel k item) [0..<length (e_operands item)] st = Inr st'"
      using assms(1) by (auto simp: encode_item_def Let_def k_def split: if_splits)
    from encode_bytes_prefix [OF loop order_refl k_def]
    obtain bs where bs: "map_ok (resolve_byte_operand pass) (e_operands item) = Inr bs"
      "en_rom st' = overwrite (en_rom st) k bs"
      "length (e_operands item) = 0 \<or> k + length (e_operands item) \<le> length (en_rom st)"
      "en_records st' = en_records st @ map (item_record origin rel item) [0..<length (e_operands item)]"
      by auto
    with map_ok_eq_Inr_length [OF bs(1)] Emit_Bytes k assms(2) show ?thesis
      by (auto simp: item_bytes_def item_size_def item_records_def k_def)
  next
    case Emit_Instruction
    then have i: "encode_instruction_item pass rel k item st = Inr st'"
      using assms(1) by (auto simp: encode_item_def Let_def k_def split: if_splits)
    have "e_operand_bytes item = 0 \<or> e_operand_bytes item = 1 \<or> e_operand_bytes item = 2"
      using i by (auto simp: encode_instruction_item_def Let_def split: if_splits)
    then show ?thesis
    proof (elim disjE)
      assume n: "e_operand_bytes item = 0"
      with i k Emit_Instruction show ?thesis
        by (auto simp: encode_instruction_item_def Let_def item_bytes_def operand_value_def
          item_size_def item_records_def item_record_def k_def)
    next
      assume n: "e_operand_bytes item = 1"
      with i obtain v where v: "operand_value pass item = Inr [v]" "k + 1 < length (en_rom st)"
          "en_rom st' = ((en_rom st)[k := e_opcode item])[k + 1 := v]"
          "en_records st' = en_records st @ [item_record origin rel item 0, item_record origin rel item 1]"
        by (auto simp: encode_instruction_item_def Let_def operand_value_def item_record_def k_def
          split: if_splits elim!: bind_ok_eq_InrE)
      have sz: "item_size item = 2" "[0..<2] = [0, 1]"
        using n Emit_Instruction by (simp_all add: item_size_def upt_rec)
      show ?thesis
        using v k(1) Emit_Instruction
        by (intro exI [of _ "[e_opcode item, v]"])
          (simp add: item_bytes_def sz item_records_def k_def [symmetric])
    next
      assume n: "e_operand_bytes item = 2"
      with i obtain v where v: "operand_value pass item = Inr [word_low v, word_high v]"
          "k + 2 < length (en_rom st)"
          "en_rom st' = (((en_rom st)[k := e_opcode item])[k + 1 := word_low v])[k + 2 := word_high v]"
          "en_records st' = en_records st @ [item_record origin rel item 0, item_record origin rel item 1,
             item_record origin rel item 2]"
        by (auto simp: encode_instruction_item_def Let_def operand_value_def item_record_def k_def
          low_high_bytes split: if_splits elim!: bind_ok_eq_InrE)
      have sz: "item_size item = 3" "[0..<3] = [0, 1, 2]"
        using n Emit_Instruction by (simp_all add: item_size_def upt_rec)
      show ?thesis
        using v k(1) Emit_Instruction
        by (intro exI [of _ "[e_opcode item, word_low v, word_high v]"])
          (simp add: item_bytes_def sz item_records_def k_def [symmetric])
    qed
  qed
qed

subsection \<open>The image\<close>

text \<open>The ROM that the items denote: their bytes written in order over the fill.\<close>

definition the_bytes :: "first_pass_state \<Rightarrow> emittable \<Rightarrow> u8 list" where
  "the_bytes pass item = (case item_bytes pass item of Inl e \<Rightarrow> [] | Inr bs \<Rightarrow> bs)"

definition write_item :: "first_pass_state \<Rightarrow> nat \<Rightarrow> emittable \<Rightarrow> u8 list \<Rightarrow> u8 list" where
  "write_item pass origin item rom = overwrite rom (unat (e_address item) - origin) (the_bytes pass item)"

definition rom_image :: "first_pass_state \<Rightarrow> assembler_options \<Rightarrow> u8 list" where
  "rom_image pass options =
     fold (write_item pass (unat (opt_origin options))) (fp_items pass)
       (replicate (unat (opt_rom_size options)) 0xFF)"

lemma length_write_item [simp]: "length (write_item pass origin item rom) = length rom"
  by (simp add: write_item_def)

lemma length_fold_write_item [simp]: "length (fold (write_item pass origin) items rom) = length rom"
  by (induction items arbitrary: rom) simp_all

definition placed_in :: "first_pass_state \<Rightarrow> nat \<Rightarrow> nat \<Rightarrow> emittable \<Rightarrow> bool" where
  "placed_in pass origin n item =
     (is_ok (item_bytes pass item) \<and> length (the_bytes pass item) = item_size item \<and>
      origin \<le> unat (e_address item) \<and> unat (e_address item) - origin + item_size item \<le> n)"

lemma encode_items:
  "fold_ok (encode_item pass origin rel) items st = Inr st' \<Longrightarrow>
   list_all (\<lambda>item. 0 < item_size item) items \<Longrightarrow>
   en_rom st' = fold (write_item pass origin) items (en_rom st) \<and>
   en_records st' = en_records st @ concat (map (item_records origin rel) items) \<and>
   list_all (placed_in pass origin (length (en_rom st))) items"
proof (induction items arbitrary: st)
  case Nil
  then show ?case by simp
next
  case (Cons item items)
  from Cons.prems(1) obtain st1 where st1: "encode_item pass origin rel item st = Inr st1"
      "fold_ok (encode_item pass origin rel) items st1 = Inr st'"
    by (auto elim!: bind_ok_eq_InrE)
  from encode_item_Inr [OF st1(1)] Cons.prems(2) obtain bs where
    bs: "item_bytes pass item = Inr bs" "length bs = item_size item" "origin \<le> unat (e_address item)"
      "unat (e_address item) - origin + item_size item \<le> length (en_rom st)"
      "en_rom st1 = overwrite (en_rom st) (unat (e_address item) - origin) bs"
      "en_records st1 = en_records st @ item_records origin rel item" by auto
  have the: "the_bytes pass item = bs" by (simp add: the_bytes_def bs(1))
  then have "en_rom st1 = write_item pass origin item (en_rom st)"
    by (simp add: write_item_def bs(5))
  moreover have "placed_in pass origin (length (en_rom st)) item"
    using bs by (simp add: placed_in_def the)
  moreover have "length (en_rom st1) = length (en_rom st)" using bs(5) by simp
  ultimately show ?case using Cons.IH [OF st1(2)] Cons.prems(2) bs(6) by simp
qed

text \<open>A byte of the image that no later item overwrites is the byte of its item.\<close>

lemma nth_write_item:
  assumes "length (the_bytes pass item) = item_size item" and "origin \<le> unat (e_address item)"
    and "i < length rom"
  shows "write_item pass origin item rom ! i =
    (if origin + i \<in> item_range item then the_bytes pass item ! (origin + i - unat (e_address item))
     else rom ! i)"
  using assms by (auto simp: write_item_def nth_overwrite item_range_def add.commute)

lemma fold_write_item_other:
  assumes "list_all (\<lambda>item. length (the_bytes pass item) = item_size item \<and> origin \<le> unat (e_address item) \<and>
      origin + i \<notin> item_range item) items" and "i < length rom"
  shows "fold (write_item pass origin) items rom ! i = rom ! i"
  using assms by (induction items arbitrary: rom) (simp_all add: nth_write_item)

text \<open>
  Without a backward \<open>.org\<close> the items come in the order of their addresses and do not overlap.
\<close>

definition items_ordered :: "emittable list \<Rightarrow> bool" where
  "items_ordered items =
     sorted_wrt (\<lambda>a b. unat (e_address a) + item_size a \<le> unat (e_address b)) items"

lemma fold_write_item_at:
  assumes "list_all (placed_in pass origin (length rom)) items" and "items_ordered items"
    and "item \<in> set items" and "j < item_size item"
  shows "fold (write_item pass origin) items rom ! (unat (e_address item) - origin + j) =
    the_bytes pass item ! j"
  using assms(1-3)
proof (induction items arbitrary: rom)
  case Nil
  then show ?case by simp
next
  case (Cons it items)
  let ?i = "unat (e_address item) - origin + j"
  have p: "placed_in pass origin (length rom) item"
    using Cons.prems(1,3) by (auto simp: list_all_iff)
  have i: "?i < length rom" "origin + ?i = unat (e_address item) + j"
    using p assms(4) by (auto simp: placed_in_def)
  show ?case
  proof (cases "item \<in> set items")
    case True
    then show ?thesis using Cons by (simp add: items_ordered_def)
  next
    case False
    with Cons.prems(3) have it: "it = item" by simp
    have others: "list_all (\<lambda>x. length (the_bytes pass x) = item_size x \<and> origin \<le> unat (e_address x) \<and>
        origin + ?i \<notin> item_range x) items"
      using Cons.prems(1,2) assms(4) i(2)
      by (auto simp: list_all_iff placed_in_def items_ordered_def it item_range_def)
    have "fold (write_item pass origin) items (write_item pass origin item rom) ! ?i =
        write_item pass origin item rom ! ?i"
      by (rule fold_write_item_other [OF others]) (simp add: i)
    also have "\<dots> = the_bytes pass item ! j"
      using p i assms(4) by (simp add: nth_write_item placed_in_def item_range_def)
    finally show ?thesis by (simp add: it)
  qed
qed

lemma fold_write_item_fill:
  assumes "list_all (placed_in pass origin (length rom)) items" and "i < length rom"
    and "\<And>item. item \<in> set items \<Longrightarrow> origin + i \<notin> item_range item"
  shows "fold (write_item pass origin) items rom ! i = rom ! i"
  by (rule fold_write_item_other) (use assms in \<open>auto simp: list_all_iff placed_in_def\<close>)

text \<open>Every program without \<open>.org\<close> is laid out in order.\<close>

lemma first_pass_ordered:
  assumes "fold_ok (first_pass_statement isa options) ss st = Inr st'"
    and "list_all (\<lambda>s. \<not> is_org s) ss"
    and "items_ordered (fp_items st) \<and>
      (\<forall>item\<in>set (fp_items st). unat (e_address item) + item_size item \<le> fp_cursor st)"
  shows "items_ordered (fp_items st') \<and>
      (\<forall>item\<in>set (fp_items st'). unat (e_address item) + item_size item \<le> fp_cursor st')"
proof (rule fold_ok_invariant [OF assms(1), where P = "\<lambda>st. items_ordered (fp_items st) \<and>
      (\<forall>item\<in>set (fp_items st). unat (e_address item) + item_size item \<le> fp_cursor st)"])
  show "items_ordered (fp_items st) \<and>
      (\<forall>item\<in>set (fp_items st). unat (e_address item) + item_size item \<le> fp_cursor st)" by (rule assms(3))
  fix stmt s t
  assume stmt: "stmt \<in> set ss" and inv: "items_ordered (fp_items s) \<and>
      (\<forall>item\<in>set (fp_items s). unat (e_address item) + item_size item \<le> fp_cursor s)"
    and step: "first_pass_statement isa options stmt s = Inr t"
  have no_org: "\<not> is_org stmt" using assms(2) stmt by (auto simp: list_all_iff)
  from step have "fp_items t = fp_items s \<or>
      (\<exists>item. fp_items t = fp_items s @ [item] \<and> fp_cursor s \<le> 0xFFFF \<and>
        item_size item = statement_size isa stmt \<and> e_address item = of_nat (fp_cursor s))"
    by (cases "(isa, options, stmt, s)" rule: first_pass_statement.cases)
      (auto simp: item_size_def Let_def dest!: place_item_one
        split: if_splits directive_type.splits option.splits elim!: bind_ok_eq_InrE)
  then show "items_ordered (fp_items t) \<and>
      (\<forall>item\<in>set (fp_items t). unat (e_address item) + item_size item \<le> fp_cursor t)"
  proof (elim disjE exE conjE)
    assume "fp_items t = fp_items s"
    with inv first_pass_statement_cursor [OF step no_org] show ?thesis by fastforce
  next
    fix item
    assume item: "fp_items t = fp_items s @ [item]" "fp_cursor s \<le> 0xFFFF"
      "item_size item = statement_size isa stmt" "e_address item = of_nat (fp_cursor s)"
    have "unat (e_address item) = fp_cursor s" unfolding item(4) by (rule unat_of_nat_u16 [OF item(2)])
    with inv first_pass_statement_cursor [OF step no_org] item show ?thesis
      by (fastforce simp: items_ordered_def sorted_wrt_append)
  qed
qed

subsection \<open>The result\<close>

lemma encode_result:
  assumes "encode pass options file = Inr result"
    and "list_all (\<lambda>item. 0 < item_size item) (fp_items pass)"
  shows "a_rom result = rom_image pass options"
    and "a_header result = default_header\<lparr>h_entry := opt_origin options, h_rom_size := opt_rom_size options\<rparr>"
    and "list_all (placed_in pass (unat (opt_origin options)) (unat (opt_rom_size options))) (fp_items pass)"
proof -
  obtain rel st where
    st: "fold_ok (encode_item pass (unat (opt_origin options)) rel) (fp_items pass)
           \<lparr>en_rom = replicate (unat (opt_rom_size options)) 0xFF, en_files = [], en_records = []\<rparr> = Inr st"
    and result: "a_rom result = en_rom st"
      "a_header result = default_header\<lparr>h_entry := opt_origin options, h_rom_size := of_nat (length (en_rom st))\<rparr>"
    using assms(1) by (auto simp: encode_def Let_def split: if_splits elim!: bind_ok_eq_InrE)
  from encode_items [OF st assms(2)] result
  show "a_rom result = rom_image pass options"
    "list_all (placed_in pass (unat (opt_origin options)) (unat (opt_rom_size options))) (fp_items pass)"
    "a_header result = default_header\<lparr>h_entry := opt_origin options, h_rom_size := opt_rom_size options\<rparr>"
    by (simp_all add: rom_image_def)
qed

lemma first_pass_items_size:
  "first_pass isa options program = Inr pass \<Longrightarrow> list_all (\<lambda>item. 0 < item_size item) (fp_items pass)"
  by (drule first_pass_result_ok) (auto simp: first_pass_ok_def list_all_iff)

section \<open>Assembling and loading\<close>

lemma assemble_phases:
  assumes "assemble fuel isa fs cwd src file options = Some (Inr result)"
  obtains program pass where "first_pass isa options program = Inr pass"
    and "encode pass options file = Inr result"
  using assms by (auto simp: assemble_def Let_def elim!: run_bind_InrE bind_ok_eq_InrE)

lemma assembled_header_ok:
  assumes "assemble fuel isa fs cwd src file options = Some (Inr result)"
    and "opt_rom_size options < - 32"
  shows "header_ok (a_header result) (a_rom result)"
proof -
  from assms(1) obtain program pass where
    p: "first_pass isa options program = Inr pass" "encode pass options file = Inr result"
    by (rule assemble_phases)
  note r = encode_result [OF p(2) first_pass_items_size [OF p(1)]]
  have "length (a_rom result) = unat (opt_rom_size options)" by (simp add: r rom_image_def)
  moreover have "unat (opt_rom_size options) < 2 ^ 32 - 32"
    using assms(2) by (simp add: word_less_nat_alt)
  ultimately show ?thesis by (simp add: header_ok_def r default_header_def)
qed

text \<open>The branch operand as the program counter of the processor adds it.\<close>

lemma uint_add_scast: "uint (a + scast (b :: u8) :: u16) = (uint a + sint b) mod 65536"
proof -
  have 1: "uint (a + scast b :: u16) = (uint a + uint (scast b :: u16)) mod 65536"
    by (simp only: uint_word_ariths) simp
  have 2: "uint (scast b :: u16) = sint b mod 65536"
    by (simp only: scast_eq uint_word_of_int) simp
  show ?thesis unfolding 1 2 by (rule mod_add_right_eq)
qed

lemma branch_reaches_target:
  assumes "resolve_relative_operand st opnd address = Inr b" and "branch_target st opnd = Inr target"
  shows "add_signed_offset b (address + 2) = ucast target"
proof -
  have "uint (add_signed_offset b (address + 2)) = (uint (address + 2) + sint b) mod 65536"
    by (rule add_signed_offset_eq)
  also have "\<dots> = uint (address + 2 + scast b)" by (rule uint_add_scast [symmetric])
  finally have "add_signed_offset b (address + 2) = address + 2 + scast b"
    by (simp only: word_uint_eq_iff)
  then show ?thesis by (simp add: relative_operand_lands [OF assms])
qed

text \<open>The memory that the processor builds around a cartridge.\<close>

definition cartridge_memory :: "u8 list \<Rightarrow> memory" where
  "cartridge_memory rom =
     [\<lparr>region_offset = 0, region_module = Ram (replicate 0x2000 0)\<rparr>,
      \<lparr>region_offset = 0x8000, region_module = Rom rom\<rparr>]"

text \<open>The sizes for which the ROM region of the processor is accepted.\<close>

definition cartridge_size_ok :: "nat \<Rightarrow> bool" where
  "cartridge_size_ok n = (is_power_of_two n \<and> 0x8000 mod n = 0)"

lemma cartridge_size_bounds:
  assumes "cartridge_size_ok n"
  shows "0 < n" and "n \<le> 0x8000"
proof -
  show "0 < n" using assms by (simp add: cartridge_size_ok_def is_power_of_two_def)
  have "n dvd 0x8000" using assms by (simp add: cartridge_size_ok_def mod_eq_0_iff_dvd)
  then show "n \<le> 0x8000" by (rule dvd_imp_le) simp
qed

lemma build_cartridge_memory:
  assumes "cartridge_size_ok (length rom)"
  shows "bind_ok (build_regions rom []) make_memory = Inr (cartridge_memory rom)"
proof -
  note b = cartridge_size_bounds [OF assms]
  have "rom \<noteq> []" using b(1) by auto
  then have "build_regions rom [] = Inr (cartridge_memory rom)"
    using assms by (simp add: build_regions_def make_ram_def make_rom_def validate_size_def
      make_region_def is_power_of_two_def Let_def cartridge_memory_def cartridge_size_ok_def)
  moreover have "unat (0x8000 + of_nat (length rom) :: u32) = 0x8000 + length rom"
    using b by (simp add: unat_word_ariths unat_of_nat)
  then have "overlap_pairs (cartridge_memory rom) = []"
    by (simp add: overlap_pairs_def cartridge_memory_def region_overlaps_def
      region_lower_def region_upper_def region_size_def word_less_nat_alt)
  ultimately show ?thesis by (simp add: make_memory_eq_Inr)
qed

lemma read_cartridge_memory:
  assumes "cartridge_size_ok (length rom)" and "0x8000 \<le> unat a" and "unat a < 0x8000 + length rom"
  shows "read_at a (cartridge_memory rom) = Inr (rom ! (unat a - 0x8000), cartridge_memory rom)"
proof -
  note b = cartridge_size_bounds [OF assms(1)]
  have ram: "\<not> region_contains \<lparr>region_offset = 0, region_module = Ram (replicate 0x2000 0)\<rparr> a"
    using assms(2) by (simp add: contains_ram word_less_nat_alt)
  have "unat (0x8000 + of_nat (length rom) :: u32) = 0x8000 + length rom"
    using b by (simp add: unat_word_ariths unat_of_nat)
  then have rom: "region_contains \<lparr>region_offset = 0x8000, region_module = Rom rom\<rparr> a"
    using assms(2,3)
    by (simp add: region_contains_def region_lower_def region_upper_def region_size_def
      word_less_nat_alt word_le_nat_alt)
  have "unat (a - 0x8000) = unat a - 0x8000"
    using unat_sub [of "0x8000" a] assms(2) by (simp add: word_le_nat_alt)
  moreover have "unat a - 0x8000 < length rom" using assms(2,3) by linarith
  ultimately show ?thesis
    using ram rom
    by (simp add: read_at_def cartridge_memory_def region_read_def region_translate_def rom_storage_read_def)
qed

text \<open>
  The bytes of a program without \<open>.org\<close> in the memory of the processor: every item is at
  its address.
\<close>

definition standard_options :: "assembler_options \<Rightarrow> bool" where
  "standard_options options =
     (opt_origin options = 0x8000 \<and> cartridge_size_ok (unat (opt_rom_size options)))"

lemma default_options_standard: "standard_options default_options"
  by (simp add: standard_options_def default_options_def cartridge_size_ok_def is_power_of_two_def)

lemma result_memory:
  assumes "first_pass isa options program = Inr pass" and "encode pass options file = Inr result"
    and "standard_options options"
  shows "cartridge_size_ok (length (a_rom result))"
    and "load_cartridge path (Some (write_cartridge result)) =
      Inr \<lparr>l_header = a_header result, l_rom = a_rom result\<rparr>"
    and "h_entry (a_header result) = opt_origin options"
proof -
  note r = encode_result [OF assms(2) first_pass_items_size [OF assms(1)]]
  have len: "length (a_rom result) = unat (opt_rom_size options)" by (simp add: r(1) rom_image_def)
  then show ok: "cartridge_size_ok (length (a_rom result))" using assms(3) by (simp add: standard_options_def)
  have "header_ok (a_header result) (a_rom result)"
    using cartridge_size_bounds(2) [OF ok] by (simp add: header_ok_def r(2) default_header_def len)
  from load_after_encode [OF this]
  show "load_cartridge path (Some (write_cartridge result)) =
      Inr \<lparr>l_header = a_header result, l_rom = a_rom result\<rparr>"
    by (simp add: write_cartridge_def r(2) default_header_def)
  show "h_entry (a_header result) = opt_origin options" by (simp add: r(2))
qed

lemma program_in_memory:
  assumes pass: "first_pass isa options program = Inr pass"
    and no_org: "list_all (\<lambda>s. \<not> is_org s) program"
    and enc: "encode pass options file = Inr result" and std: "standard_options options"
    and item: "item \<in> set (fp_items pass)" "j < item_size item"
  shows "\<exists>bs. item_bytes pass item = Inr bs \<and> length bs = item_size item \<and>
      read_at (e_address item + of_nat j) (cartridge_memory (a_rom result)) =
        Inr (bs ! j, cartridge_memory (a_rom result))"
proof -
  note r = encode_result [OF enc first_pass_items_size [OF pass]]
  have origin: "unat (opt_origin options) = 0x8000" using std by (simp add: standard_options_def)
  let ?n = "unat (opt_rom_size options)"
  have len: "length (a_rom result) = ?n" by (simp add: r(1) rom_image_def)
  note ok = result_memory(1) [OF pass enc std]
  have p: "placed_in pass 0x8000 ?n item"
    using r(3) item(1) by (simp add: origin list_all_iff)
  then obtain bs where bs: "item_bytes pass item = Inr bs" "the_bytes pass item = bs" "length bs = item_size item"
    by (auto simp: placed_in_def the_bytes_def elim!: is_okE)
  have ord: "items_ordered (fp_items pass)"
    using first_pass_ordered [OF pass [unfolded first_pass_def] no_org]
    by (simp add: first_pass_init_def items_ordered_def)
  let ?a = "unat (e_address item)"
  have "rom_image pass options ! (?a - 0x8000 + j) = bs ! j"
    unfolding rom_image_def bs(2) [symmetric] origin
    by (rule fold_write_item_at [OF _ ord item]) (use r(3) in \<open>simp add: origin\<close>)
  then have byte: "a_rom result ! (?a - 0x8000 + j) = bs ! j" by (simp add: r(1))
  have range: "0x8000 \<le> ?a" "?a - 0x8000 + j < ?n"
    using p item(2) by (auto simp: placed_in_def)
  have "?n \<le> 0x8000" using cartridge_size_bounds(2) [OF ok] by (simp add: len)
  with range have j: "j \<le> 0xFFFF" "?a + j < 65536" by linarith+
  then have "unat (of_nat j :: u16) = j" by (intro unat_of_nat_u16)
  then have addr: "unat (e_address item + of_nat j) = ?a + j"
    using j by (simp add: unat_word_ariths)
  have off: "?a + j - 0x8000 = ?a - 0x8000 + j" and top: "?a + j < 0x8000 + ?n"
    using range by linarith+
  have "read_at (e_address item + of_nat j) (cartridge_memory (a_rom result)) =
      Inr (a_rom result ! (?a + j - 0x8000), cartridge_memory (a_rom result))"
    using read_cartridge_memory [OF ok, of "e_address item + of_nat j"] range top
    by (simp add: addr len)
  with bs byte off show ?thesis by auto
qed

end
