(* ===== verification/Asm_Disassembly.thy ===== *)
theory Asm_Disassembly
  imports Lexer_Text Sim_Disassembler Asm_Passes
begin

text \<open>
  Assembling what the disassembler prints. The listing without symbols is a sequence of
  chunks, each a data byte or a complete instruction; every line is lexed and parsed to the
  statement of its chunk, and the two passes put the bytes of the chunk back at its address.
\<close>

section \<open>Numbers\<close>

lemma upper_digit:
  assumes "d < 16"
  shows "is_alnum (upper_char (digit_char d)) \<and> digit_value (upper_char (digit_char d)) = int d"
proof -
  have "list_all (\<lambda>d. is_alnum (upper_char (digit_char d)) \<and> digit_value (upper_char (digit_char d)) = int d) [0..<16]"
    by code_simp
  then show ?thesis using assms by (simp add: list_all_iff)
qed

lemma upper_hexadecimal_digit:
  assumes "c \<in> set (upper_hexadecimal n)"
  shows "is_alnum c \<and> 0 \<le> digit_value c \<and> digit_value c < 16"
proof -
  obtain d where "d < 16" "c = upper_char (digit_char d)"
    using assms digits_in_chars [of _ 16 n] by (auto simp: upper_hexadecimal_def hexadecimal_def)
  with upper_digit [of d] show ?thesis by auto
qed

lemma fold_digits_upper:
  assumes "\<forall>c\<in>set s. \<exists>d<16. c = digit_char d"
  shows "fold_digits b a (map upper_char s) = fold_digits b a s"
  using assms
proof (induction s arbitrary: a)
  case (Cons c s)
  then obtain d where "d < 16" "c = digit_char d" by auto
  with Cons upper_digit [of d] show ?case by simp
qed simp

lemma upper_hexadecimal_value: "fold_digits 16 0 (upper_hexadecimal n) = (of_nat n :: 'a::comm_ring_1)"
proof -
  have "fold_digits 16 0 (upper_hexadecimal n) = (fold_digits 16 0 (hexadecimal n) :: 'a)"
    unfolding upper_hexadecimal_def
    by (rule fold_digits_upper) (use digits_in_chars [of _ 16 n] in \<open>auto simp: hexadecimal_def\<close>)
  also have "\<dots> = of_nat n"
    using fold_digits_digits_in [of 16 n] by (simp add: hexadecimal_def)
  finally show ?thesis .
qed

lemma digit_value_zero [simp]: "digit_value CHR ''0'' = 0"
  by code_simp

lemma fold_digits_zeros: "fold_digits b 0 (replicate k CHR ''0'' @ s) = fold_digits b 0 s"
  by (induction k) simp_all

lemma padded_hex:
  "hex_word_text (pad_left k CHR ''0'' (upper_hexadecimal n))"
  "fold_digits 16 0 (pad_left k CHR ''0'' (upper_hexadecimal n)) = (of_nat n :: u32)"
proof -
  have "upper_hexadecimal n \<noteq> []" by (simp add: upper_hexadecimal_def hexadecimal_def)
  moreover have "is_alnum CHR ''0''" by code_simp
  ultimately show "hex_word_text (pad_left k CHR ''0'' (upper_hexadecimal n))"
    using upper_hexadecimal_digit [of _ n] by (auto simp: hex_word_text_def pad_left_def list_all_iff)
  show "fold_digits 16 0 (pad_left k CHR ''0'' (upper_hexadecimal n)) = (of_nat n :: u32)"
    by (simp add: pad_left_def fold_digits_zeros upper_hexadecimal_value)
qed

text \<open>A printed number and its value.\<close>

definition number_text :: "string \<Rightarrow> u32 \<Rightarrow> bool" where
  "number_text s v = (\<exists>w. s = CHR ''$'' # w \<and> hex_word_text w \<and> fold_digits 16 0 w = v)"

lemma number_text_formats:
  "number_text (format_hex_byte b) (ucast b)" "number_text (format_hex_word w) (ucast w)"
proof -
  have "(of_nat (unat b) :: u32) = ucast b" "(of_nat (unat w) :: u32) = ucast w"
    by simp_all
  then show "number_text (format_hex_byte b) (ucast b)" "number_text (format_hex_word w) (ucast w)"
    by (auto simp: number_text_def format_hex_byte_def format_hex_word_def padded_hex)
qed

lemma reads_number_text:
  assumes "number_text num v" and "word_end s"
  shows "reads_token (num @ s) (Numeral False v) s" and "reads_token (CHR ''#'' # num @ s) (Numeral True v) s"
  using assms reads_number by (auto simp: number_text_def)

lemma no_newline_format: "newline \<notin> set (format_hex_byte b)" "newline \<notin> set (format_hex_word w)"
proof -
  have "newline \<notin> set (upper_hexadecimal n)" for n
    using upper_hexadecimal_digit [of newline n] by (auto simp: char_class_defs)
  then show "newline \<notin> set (format_hex_byte b)" "newline \<notin> set (format_hex_word w)"
    by (auto simp: format_hex_byte_def format_hex_word_def pad_left_def)
qed

section \<open>Operands\<close>

definition operand_text :: "addressing_mode \<Rightarrow> string \<Rightarrow> string" where
  "operand_text mode num =
     (case mode of
        IMP \<Rightarrow> [] | IMM \<Rightarrow> CHR ''#'' # num
      | ZPX \<Rightarrow> num @ '',X'' | ABX \<Rightarrow> num @ '',X'' | ZPY \<Rightarrow> num @ '',Y'' | ABY \<Rightarrow> num @ '',Y''
      | IZX \<Rightarrow> ''('' @ num @ '',X)'' | IZY \<Rightarrow> ''('' @ num @ ''),Y'' | IND \<Rightarrow> ''('' @ num @ '')''
      | _ \<Rightarrow> num)"

definition operand_shapes :: "addressing_mode \<Rightarrow> u32 \<Rightarrow> shape list" where
  "operand_shapes mode v =
     (let x = Word Identifier ''x''; y = Word Identifier ''y''; n = Numeral False v in
      case mode of
        IMP \<Rightarrow> [] | IMM \<Rightarrow> [Numeral True v]
      | ZPX \<Rightarrow> [n, Plain Comma, x] | ABX \<Rightarrow> [n, Plain Comma, x]
      | ZPY \<Rightarrow> [n, Plain Comma, y] | ABY \<Rightarrow> [n, Plain Comma, y]
      | IZX \<Rightarrow> [Plain Left_Paren, n, Plain Comma, x, Plain Right_Paren]
      | IZY \<Rightarrow> [Plain Left_Paren, n, Plain Right_Paren, Plain Comma, y]
      | IND \<Rightarrow> [Plain Left_Paren, n, Plain Right_Paren]
      | _ \<Rightarrow> [n])"

lemma word_end_marks [simp]:
  "word_end (CHR '','' # s)" "word_end (CHR ''('' # s)" "word_end (CHR '')'' # s)" "word_end (CHR '' '' # s)"
  "word_end (newline # s)" "word_end []"
  by (simp_all add: word_end_def is_identifier_char_def char_class_defs)

lemma reads_registers:
  assumes "word_end s"
  shows "reads_token (CHR ''X'' # s) (Word Identifier ''x'') s" "reads_token (CHR ''Y'' # s) (Word Identifier ''y'') s"
proof -
  have "is_word ''X''" "is_word ''Y''" "to_lower ''X'' = ''x''" "to_lower ''Y'' = ''y''" by code_simp+
  with reads_identifier [OF _ assms, of "''X''"] reads_identifier [OF _ assms, of "''Y''"]
  show "reads_token (CHR ''X'' # s) (Word Identifier ''x'') s" "reads_token (CHR ''Y'' # s) (Word Identifier ''y'') s"
    by simp_all
qed

lemma lexes_operand:
  assumes "number_text num v" and "word_end s" and "lexes s shs"
  shows "lexes (operand_text mode num @ s) (operand_shapes mode v @ shs)"
  using assms
  by (cases mode)
    (auto simp: operand_text_def operand_shapes_def Let_def
      intro!: lexes_token reads_number_text [OF assms(1)] reads_mark reads_registers)

section \<open>Chunks\<close>

text \<open>A line of the listing: its address, its instruction if it has one, and its bytes.\<close>

record chunk =
  c_address :: u16
  c_info :: "instruction_info option"
  c_bytes :: "u8 list"

function chunks :: "isa_info \<Rightarrow> u8 list \<Rightarrow> nat \<Rightarrow> u16 \<Rightarrow> chunk list" where
  "chunks isa rom idx address =
     (if idx \<ge> length rom then []
      else
        case decode_at isa rom idx of
          None \<Rightarrow>
            \<lparr>c_address = address, c_info = None, c_bytes = [rom ! idx]\<rparr> # chunks isa rom (idx + 1) (address + 1)
        | Some (info, bytes) \<Rightarrow>
            \<lparr>c_address = address, c_info = Some info, c_bytes = rom ! idx # bytes\<rparr> #
            chunks isa rom (idx + 1 + length bytes) (address + 1 + of_nat (length bytes)))"
  by pat_completeness auto
termination by (relation "measure (\<lambda>(isa, rom, idx, address). length rom - idx)") auto

declare chunks.simps [simp del]

definition mode_width :: "addressing_mode \<Rightarrow> nat" where
  "mode_width mode =
     (case mode of IMP \<Rightarrow> 0 | ABS \<Rightarrow> 2 | ABX \<Rightarrow> 2 | ABY \<Rightarrow> 2 | IND \<Rightarrow> 2 | _ \<Rightarrow> 1)"

text \<open>The value that an operand names.\<close>

definition operand_value_at :: "addressing_mode \<Rightarrow> u16 \<Rightarrow> u8 list \<Rightarrow> u32" where
  "operand_value_at mode address bytes =
     (if mode = REL then ucast (address + 2 + scast (bytes ! 0))
      else if mode_width mode = 2 then ucast (ucast (bytes ! 0) OR push_bit 8 (ucast (bytes ! 1)) :: u16)
      else ucast (bytes ! 0))"

definition number_at :: "addressing_mode \<Rightarrow> u16 \<Rightarrow> u8 list \<Rightarrow> string" where
  "number_at mode address bytes =
     (if mode = REL then format_hex_word (address + 2 + scast (bytes ! 0))
      else if mode_width mode = 2
      then format_hex_word (ucast (bytes ! 0) OR push_bit 8 (ucast (bytes ! 1)))
      else format_hex_byte (bytes ! 0))"

lemma number_at_value: "number_text (number_at mode address bytes) (operand_value_at mode address bytes)"
  by (simp add: number_at_def operand_value_at_def number_text_formats)

lemma format_operand_width:
  assumes "length bytes = mode_width mode"
  shows "format_operand_at mode bytes address [] = Inr (operand_text mode (number_at mode address bytes))"
  using assms
  by (cases mode) (simp_all add: format_operand_at_def byte_at_def mode_width_def target_name_def
    number_at_def operand_text_def Let_def)

definition chunk_text :: "disassemble_options \<Rightarrow> chunk \<Rightarrow> string" where
  "chunk_text opts c =
     (case c_info c of
        None \<Rightarrow> ''.byte '' @ format_hex_byte (hd (c_bytes c)) @ [newline]
      | Some info \<Rightarrow>
          (let opnd = operand_text (i_mode info) (number_at (i_mode info) (c_address c) (tl (c_bytes c))) in
           i_mnemonic info @ (if opnd = [] then [] else CHR '' '' # opnd) @
           line_comment opts (c_address c) (hd (c_bytes c)) (tl (c_bytes c)) @ [newline]))"

text \<open>The addressing modes of the instruction set have the widths that the formats use.\<close>

definition widths_ok :: "isa_info \<Rightarrow> bool" where
  "widths_ok isa =
     list_all (\<lambda>i. isa_operand_bytes isa (i_mode i) = Some (of_nat (mode_width (i_mode i)))) (isa_instructions isa)"

lemma mode_width_le: "mode_width mode \<le> 2"
  by (cases mode) (simp_all add: mode_width_def)

lemma unat_mode_width [simp]: "unat (of_nat (mode_width mode) :: u8) = mode_width mode"
  by (cases mode) (simp_all add: mode_width_def)

lemma decode_at_Some:
  assumes "widths_ok isa" and "decode_at isa rom idx = Some (info, bytes)"
  shows "info \<in> set (isa_instructions isa)" and "i_opcode info = rom ! idx"
    and "length bytes = mode_width (i_mode info)" and "idx + length bytes < length rom"
    and "bytes = take (length bytes) (drop (idx + 1) rom)"
proof -
  have i: "get_instruction isa (rom ! idx) = Some info"
    using assms(2) by (auto simp: decode_at_def Let_def split: option.splits if_splits)
  then show mem: "info \<in> set (isa_instructions isa)" "i_opcode info = rom ! idx"
    by (auto simp: get_instruction_def find_Some_iff intro: nth_mem dest: nth_mem)
      (metis length_rev nth_mem set_rev)
  have w: "isa_operand_bytes isa (i_mode info) = Some (of_nat (mode_width (i_mode info)))"
    using assms(1) mem(1) by (simp add: widths_ok_def list_all_iff)
  then have b: "\<not> length rom \<le> idx + mode_width (i_mode info)"
      "bytes = take (mode_width (i_mode info)) (drop (idx + 1) rom)"
    using assms(2) i by (auto simp: decode_at_def Let_def split: if_splits)
  then show len: "length bytes = mode_width (i_mode info)" by simp
  then show "idx + length bytes < length rom" "bytes = take (length bytes) (drop (idx + 1) rom)"
    using b by simp_all
qed

lemma disassemble_loop_chunks:
  assumes "widths_ok isa"
  shows "disassemble_loop isa rom [] opts idx address =
    Inr (concat (map (chunk_text opts) (chunks isa rom idx address)))"
  using assms
proof (induction isa rom "[] :: (u16 \<times> string) list" opts idx address rule: disassemble_loop.induct)
  case (1 isa rom opts idx address)
  have no_label: "label_line opts [] address = []" by (simp add: label_line_def)
  show ?case
  proof (cases "idx \<ge> length rom")
    case True
    then show ?thesis by (simp add: disassemble_loop.simps chunks.simps)
  next
    case False
    show ?thesis
    proof (cases "decode_at isa rom idx")
      case None
      with 1 False show ?thesis
        by (subst disassemble_loop.simps, subst chunks.simps) (simp add: no_label chunk_text_def)
    next
      case (Some d)
      obtain info bytes where d: "d = (info, bytes)" by fastforce
      have "length bytes = mode_width (i_mode info)"
        by (rule decode_at_Some(3) [OF "1.prems" Some [unfolded d]])
      from format_operand_width [OF this] 1 False Some d show ?thesis
        by (subst disassemble_loop.simps, subst chunks.simps) (simp add: no_label chunk_text_def Let_def)
    qed
  qed
qed

section \<open>Lexing the listing\<close>

definition chunk_value :: "chunk \<Rightarrow> u32" where
  "chunk_value c =
     (case c_info c of
        None \<Rightarrow> ucast (hd (c_bytes c))
      | Some info \<Rightarrow> operand_value_at (i_mode info) (c_address c) (tl (c_bytes c)))"

definition chunk_shapes :: "chunk \<Rightarrow> shape list" where
  "chunk_shapes c =
     (case c_info c of
        None \<Rightarrow> [Word Directive ''byte'', Numeral False (chunk_value c)]
      | Some info \<Rightarrow>
          Word Identifier (to_lower (i_mnemonic info)) # operand_shapes (i_mode info) (chunk_value c)) @
     [Plain Newline]"

lemma lexes_comment:
  assumes "lexes s shs"
  shows "lexes (line_comment opts a op bytes @ newline # s) (Plain Newline # shs)"
proof -
  have nl: "lexes (newline # s) (Plain Newline # shs)"
    by (rule lexes_token [OF reads_newline _ assms]) simp
  show ?thesis
  proof (cases "emit_addresses opts \<or> emit_bytes opts")
    case False
    with nl show ?thesis by (simp add: line_comment_def)
  next
    case True
    define c where "c = (if emit_addresses opts then CHR '' '' # format_hex_word a else []) @
      (if emit_bytes opts then CHR '' '' # format_hex_byte op @ concat (map (\<lambda>b. CHR '' '' # format_hex_byte b) bytes)
       else [])"
    have "newline \<notin> set c" by (auto simp: c_def no_newline_format)
    then have "reads_token (CHR '';'' # c @ newline # s) (Plain Newline) s"
      by (rule reads_comment [OF reads_newline])
    then have "reads_token (CHR '' '' # CHR '';'' # c @ newline # s) (Plain Newline) s"
      by (rule reads_blank)
    moreover have "line_comment opts a op bytes @ newline # s = CHR '' '' # CHR '';'' # c @ newline # s"
      using True by (simp add: line_comment_def c_def)
    ultimately show ?thesis using lexes_token [OF _ _ assms] by simp
  qed
qed

lemma word_end_comment [simp]: "word_end (line_comment opts a op bytes @ newline # s)"
  by (simp add: line_comment_def)

lemma lexes_blank: "lexes s (sh # shs) \<Longrightarrow> s \<noteq> [] \<Longrightarrow> lexes (CHR '' '' # s) (sh # shs)"
proof -
  assume l: "lexes s (sh # shs)"
  have "\<exists>ts. lex_source lx = Inr ts \<and> list_all2 fits (sh # shs) ts" if lx: "ahead lx = CHR '' '' # s" for lx
  proof -
    have "lex_source lx = lex_source (advance lx)"
      by (subst (1 2) lex_source.simps) (simp only: skip_blank [OF lx])
    then show ?thesis using l ahead_advance [OF lx] by (simp add: lexes_def)
  qed
  then show ?thesis by (simp add: lexes_def)
qed

lemma operand_shapes_Cons:
  assumes "mode \<noteq> IMP"
  obtains sh shs where "operand_shapes mode v = sh # shs"
  using assms by (cases mode) (simp_all add: operand_shapes_def Let_def)

lemma operand_text_Nil: "number_text num v \<Longrightarrow> operand_text mode num = [] \<longleftrightarrow> mode = IMP"
  by (cases mode) (auto simp: operand_text_def number_text_def)

definition chunk_named :: "chunk \<Rightarrow> bool" where
  "chunk_named c = (case c_info c of None \<Rightarrow> True | Some info \<Rightarrow> is_word (i_mnemonic info))"

lemma lexes_chunk:
  assumes "chunk_named c" and "lexes s shs"
  shows "lexes (chunk_text opts c @ s) (chunk_shapes c @ shs)"
proof (cases "c_info c")
  case None
  let ?num = "format_hex_byte (hd (c_bytes c))"
  have nl: "lexes (newline # s) (Plain Newline # shs)"
    by (rule lexes_token [OF reads_newline _ assms(2)]) simp
  have "lexes (?num @ newline # s) (Numeral False (chunk_value c) # Plain Newline # shs)"
    by (rule lexes_token [OF reads_number_text(1) _ nl])
      (simp_all add: chunk_value_def None number_text_formats)
  then have "lexes (CHR '' '' # ?num @ newline # s) (Numeral False (chunk_value c) # Plain Newline # shs)"
    by (rule lexes_blank) simp
  moreover have "is_word ''byte''" "to_lower ''byte'' = ''byte''" by code_simp+
  then have "reads_token (CHR ''.'' # ''byte'' @ CHR '' '' # ?num @ newline # s) (Word Directive ''byte'')
      (CHR '' '' # ?num @ newline # s)"
    using reads_directive [of "''byte''" "CHR '' '' # ?num @ newline # s"] by simp
  ultimately show ?thesis
    using lexes_token [of _ "Word Directive ''byte''" "CHR '' '' # ?num @ newline # s"]
    by (simp add: chunk_text_def chunk_shapes_def None)
next
  case (Some info)
  let ?num = "number_at (i_mode info) (c_address c) (tl (c_bytes c))"
  let ?tail = "line_comment opts (c_address c) (hd (c_bytes c)) (tl (c_bytes c)) @ newline # s"
  let ?opnd = "operand_text (i_mode info) ?num"
  have num: "number_text ?num (chunk_value c)" by (simp add: chunk_value_def Some number_at_value)
  have tail: "lexes ?tail (Plain Newline # shs)" by (rule lexes_comment [OF assms(2)])
  have opnd: "lexes (?opnd @ ?tail) (operand_shapes (i_mode info) (chunk_value c) @ Plain Newline # shs)"
    by (rule lexes_operand [OF num _ tail]) simp
  let ?mid = "(if ?opnd = [] then [] else CHR '' '' # ?opnd) @ ?tail"
  have "lexes ?mid (operand_shapes (i_mode info) (chunk_value c) @ Plain Newline # shs)"
  proof (cases "i_mode info = IMP")
    case True
    then show ?thesis using opnd by (simp add: operand_text_def)
  next
    case False
    then obtain sh shs' where sh: "operand_shapes (i_mode info) (chunk_value c) = sh # shs'"
      by (rule operand_shapes_Cons)
    have "?opnd \<noteq> []" using False by (simp add: operand_text_Nil [OF num])
    then show ?thesis using lexes_blank [OF opnd [unfolded sh append_Cons]] by (simp add: sh)
  qed
  moreover have "word_end ?mid" by simp
  then have "reads_token (i_mnemonic info @ ?mid) (Word Identifier (to_lower (i_mnemonic info))) ?mid"
    by (rule reads_identifier [rotated]) (use assms(1) Some in \<open>simp add: chunk_named_def\<close>)
  ultimately show ?thesis
    using lexes_token [of _ "Word Identifier (to_lower (i_mnemonic info))" ?mid]
    by (simp add: chunk_text_def chunk_shapes_def Some Let_def)
qed

lemma lexes_chunks:
  "list_all chunk_named cs \<Longrightarrow>
   lexes (concat (map (chunk_text opts) cs)) (concat (map chunk_shapes cs) @ [Plain End_Of_File])"
  by (induction cs) (simp_all add: lexes_end lexes_chunk)

section \<open>Parsing the listing\<close>

definition operand_fits :: "addressing_mode \<Rightarrow> u32 \<Rightarrow> operand list \<Rightarrow> bool" where
  "operand_fits mode v opnds =
     (if mode = IMP then opnds = []
      else \<exists>opnd. opnds = [opnd] \<and> o_kind opnd = Op_Number \<and> o_number opnd = v \<and>
        o_immediate opnd = (mode = IMM) \<and> o_indirect opnd = (mode \<in> {IND, IZX, IZY}) \<and>
        o_index opnd = (if mode \<in> {ZPX, ABX, IZX} then Index_X
                        else if mode \<in> {ZPY, ABY, IZY} then Index_Y else No_Index))"

definition chunk_statement :: "chunk \<Rightarrow> statement \<Rightarrow> bool" where
  "chunk_statement c stmt =
     (case c_info c of
        None \<Rightarrow> \<exists>opnd sp. stmt = Directive_Stmt Byte_Data [opnd] [] sp \<and>
          o_kind opnd = Op_Number \<and> o_number opnd = chunk_value c
      | Some info \<Rightarrow> \<exists>opnds sp. stmt = Instruction_Stmt (to_lower (i_mnemonic info)) opnds sp \<and>
          operand_fits (i_mode info) (chunk_value c) opnds)"

lemma parse_number_token:
  assumes "t_kind t = Number"
  shows "parse_operand (t # ts) = Inr (number_operand t, ts)"
  using assms by (subst parse_operand.simps) simp

lemma parse_indirect_token:
  assumes "t_kind l = Left_Paren" and "t_kind t = Number" and "\<not> o_immediate (number_operand t)"
    and "t_kind r = Right_Paren"
  shows "parse_operand (l # t # r # ts) = Inr ((number_operand t)\<lparr>o_indirect := True\<rparr>, ts)"
  using assms by (subst parse_operand.simps) (simp add: parse_number_token)

lemma parse_indexed_indirect_token:
  assumes "t_kind l = Left_Paren" and "t_kind t = Number" and "\<not> o_immediate (number_operand t)"
    and "t_kind k = Comma" and "t_kind x = Identifier" and "is_x (t_text x)" and "t_kind r = Right_Paren"
  shows "parse_operand (l # t # k # x # r # ts) =
    Inr ((number_operand t)\<lparr>o_indirect := True, o_index := Index_X\<rparr>, ts)"
  using assms by (subst parse_operand.simps) (simp add: parse_number_token)

lemma parse_plain_operands:
  assumes "parse_operand us = Inr (opnd, u # ts)" and "t_kind u = Newline"
  shows "instruction_operands us = Inr ([opnd], u # ts)"
  using assms by (subst instruction_operands.simps) simp

lemma parse_indexed_operands:
  assumes "parse_operand us = Inr (opnd, k # x # ts)" and "t_kind k = Comma" and "t_kind x = Identifier"
  shows "is_x (t_text x) \<Longrightarrow> instruction_operands us = Inr ([opnd\<lparr>o_index := Index_X\<rparr>], ts)"
    and "is_y (t_text x) \<Longrightarrow> \<not> is_x (t_text x) \<Longrightarrow>
      instruction_operands us = Inr ([opnd\<lparr>o_index := Index_Y\<rparr>], ts)"
  using assms by (subst instruction_operands.simps; simp)+

lemma numeral_operand:
  assumes "fits (Numeral imm v) t"
  shows "t_kind t = Number" and "o_kind (number_operand t) = Op_Number" and "o_number (number_operand t) = v"
    and "o_immediate (number_operand t) = imm" and "\<not> o_indirect (number_operand t)"
    and "o_index (number_operand t) = No_Index"
  using assms by (simp_all add: number_operand_def)

lemma registers: "is_x ''x''" "is_y ''y''" "\<not> is_x ''y''"
  by (simp_all add: is_x_def is_y_def)

lemma parse_operand_shapes:
  assumes "list_all2 fits (operand_shapes mode v) us" and "mode \<noteq> IMP" and "t_kind u = Newline"
  shows "\<exists>opnds. instruction_operands (us @ u # ts) = Inr (opnds, u # ts) \<and> operand_fits mode v opnds"
proof -
  have plain: "\<exists>opnds. instruction_operands (us @ u # ts) = Inr (opnds, u # ts) \<and> operand_fits mode v opnds"
    if "operand_shapes mode v = [Numeral (mode = IMM) v]" "mode \<in> {IMM, ZP, ABS, REL}"
  proof -
    from assms(1) that(1) obtain t where t: "us = [t]" "fits (Numeral (mode = IMM) v) t"
      by (auto simp: list_all2_Cons1)
    note n = numeral_operand [OF t(2)]
    have "instruction_operands (us @ u # ts) = Inr ([number_operand t], u # ts)"
      by (rule parse_plain_operands) (simp_all add: t(1) parse_number_token n assms(3))
    then show ?thesis using n that(2) by (auto simp: operand_fits_def)
  qed
  have indexed: "\<exists>opnds. instruction_operands (us @ u # ts) = Inr (opnds, u # ts) \<and> operand_fits mode v opnds"
    if "operand_shapes mode v = [Numeral False v, Plain Comma, Word Identifier r]"
      "(r = ''x'' \<and> mode \<in> {ZPX, ABX}) \<or> (r = ''y'' \<and> mode \<in> {ZPY, ABY})" for r
  proof -
    from assms(1) that(1) obtain t k x where t: "us = [t, k, x]" "fits (Numeral False v) t"
        "t_kind k = Comma" "t_kind x = Identifier" "t_text x = r"
      by (auto simp: list_all2_Cons1)
    note n = numeral_operand [OF t(2)]
    have "parse_operand (us @ u # ts) = Inr (number_operand t, k # x # u # ts)"
      by (simp add: t(1) parse_number_token n)
    from parse_indexed_operands [OF this t(3,4)] show ?thesis
      using n that(2) registers by (auto simp: t(5) operand_fits_def)
  qed
  have "\<exists>opnds. instruction_operands (us @ u # ts) = Inr (opnds, u # ts) \<and> operand_fits mode v opnds"
    if m: "mode = IND"
  proof -
    obtain l t r where t: "us = [l, t, r]" "t_kind l = Left_Paren" "fits (Numeral False v) t" "t_kind r = Right_Paren"
      using assms(1) by (auto simp: m operand_shapes_def Let_def list_all2_Cons1)
    note n = numeral_operand [OF t(3)]
    have "parse_operand (us @ u # ts) = Inr ((number_operand t)\<lparr>o_indirect := True\<rparr>, u # ts)"
      using t n by (simp add: parse_indirect_token)
    from parse_plain_operands [OF this assms(3)] show ?thesis
      using n m by (auto simp: operand_fits_def)
  qed
  moreover have "\<exists>opnds. instruction_operands (us @ u # ts) = Inr (opnds, u # ts) \<and> operand_fits mode v opnds"
    if m: "mode = IZX"
  proof -
    obtain l t k x r where t: "us = [l, t, k, x, r]" "t_kind l = Left_Paren" "fits (Numeral False v) t"
        "t_kind k = Comma" "t_kind x = Identifier" "t_text x = ''x''" "t_kind r = Right_Paren"
      using assms(1) by (auto simp: m operand_shapes_def Let_def list_all2_Cons1)
    note n = numeral_operand [OF t(3)]
    have "parse_operand (us @ u # ts) =
        Inr ((number_operand t)\<lparr>o_indirect := True, o_index := Index_X\<rparr>, u # ts)"
      using t n registers by (simp add: parse_indexed_indirect_token)
    from parse_plain_operands [OF this assms(3)] show ?thesis
      using n m by (auto simp: operand_fits_def)
  qed
  moreover have "\<exists>opnds. instruction_operands (us @ u # ts) = Inr (opnds, u # ts) \<and> operand_fits mode v opnds"
    if m: "mode = IZY"
  proof -
    obtain l t r k y where t: "us = [l, t, r, k, y]" "t_kind l = Left_Paren" "fits (Numeral False v) t"
        "t_kind r = Right_Paren" "t_kind k = Comma" "t_kind y = Identifier" "t_text y = ''y''"
      using assms(1) by (auto simp: m operand_shapes_def Let_def list_all2_Cons1)
    note n = numeral_operand [OF t(3)]
    have "parse_operand (us @ u # ts) = Inr ((number_operand t)\<lparr>o_indirect := True\<rparr>, k # y # u # ts)"
      using t n by (simp add: parse_indirect_token)
    from parse_indexed_operands(2) [OF this t(5,6)] show ?thesis
      using n m registers by (auto simp: t(7) operand_fits_def)
  qed
  ultimately show ?thesis
    using plain indexed [of "''x''"] indexed [of "''y''"] assms(2)
    by (cases mode) (simp_all add: operand_shapes_def Let_def)
qed

text \<open>A line that starts with a directive or with an identifier before no colon has no label.\<close>

lemma parse_line_no_label:
  assumes "t_kind t = Directive \<or> (t_kind t = Identifier \<and> t_kind u \<noteq> Colon)"
  shows "parse_line (t # u # ts) =
    bind_ok (if t_kind t = Directive then parse_directive (t # u # ts) else parse_instruction (t # u # ts))
      (\<lambda>(stmt, ts3).
        if p_check Newline ts3 then Inr ([stmt], p_advance ts3)
        else if \<not> p_at_end ts3 then Inl (Assembler_Error (t_span (p_peek ts3)) ''expected end of line'')
        else Inr ([stmt], ts3))"
proof -
  have lines: "consume_newlines (t # u # ts) = t # u # ts"
    using assms by (subst consume_newlines.simps) auto
  have labels: "parse_labels (t # u # ts) = ([], t # u # ts)"
    using assms by (subst parse_labels.simps) auto
  show ?thesis
    unfolding parse_line_def Let_def lines labels prod.case append_Nil using assms by auto
qed

lemma parse_data_line:
  assumes "fits (Word Directive w) d" and "w = ''org'' \<or> w = ''byte''" and "fits (Numeral False v) t"
    and "t_kind n = Newline"
  shows "parse_line (d # t # n # ts) =
    Inr ([Directive_Stmt (if w = ''org'' then Org else Byte_Data) [number_operand t] [] (t_span d)], ts)"
proof -
  have d: "t_kind d = Directive" "t_text d = w" using assms(1) by simp_all
  note num = numeral_operand [OF assms(3)]
  have "directive_operands (t # n # ts) = Inr ([number_operand t], n # ts)"
    using num(1) assms(4) by (subst directive_operands.simps) (simp add: parse_number_token)
  then have "parse_directive (d # t # n # ts) =
      Inr (Directive_Stmt (if w = ''org'' then Org else Byte_Data) [number_operand t] [] (t_span d), n # ts)"
    using d num(1) assms(2) by (auto simp: parse_directive_def Let_def)
  then show ?thesis using d num(1) assms(4) by (subst parse_line_no_label) simp_all
qed

lemma operand_shapes_first:
  assumes "list_all2 fits (operand_shapes mode v) us" and "mode \<noteq> IMP"
  obtains u us' where "us = u # us'" and "t_kind u \<in> {Number, Left_Paren}"
  using assms by (cases mode) (auto simp: operand_shapes_def Let_def list_all2_Cons1)

lemma parse_chunk_line:
  assumes "list_all2 fits (chunk_shapes c) us"
  shows "\<exists>stmt. parse_line (us @ ts) = Inr ([stmt], ts) \<and> chunk_statement c stmt"
proof (cases "c_info c")
  case None
  then obtain d t n where us: "us = [d, t, n]" "fits (Word Directive ''byte'') d"
      "fits (Numeral False (chunk_value c)) t" "t_kind n = Newline"
    using assms by (auto simp: chunk_shapes_def list_all2_Cons1)
  have "''byte'' = ''org'' \<or> ''byte'' = ''byte''" by simp
  from parse_data_line [OF us(2) this us(3,4), of ts] numeral_operand [OF us(3)] show ?thesis
    by (simp add: us(1) chunk_statement_def None)
next
  case (Some info)
  obtain m os n where us: "us = m # os @ [n]" "fits (Word Identifier (to_lower (i_mnemonic info))) m"
      "list_all2 fits (operand_shapes (i_mode info) (chunk_value c)) os" "t_kind n = Newline"
    using assms by (auto simp: chunk_shapes_def Some list_all2_Cons1 list_all2_append1)
  have m: "t_kind m = Identifier" "t_text m = to_lower (i_mnemonic info)" using us(2) by simp_all
  have "\<exists>opnds. parse_instruction (us @ ts) =
      Inr (Instruction_Stmt (to_lower (i_mnemonic info)) opnds (t_span m), n # ts) \<and>
    operand_fits (i_mode info) (chunk_value c) opnds"
  proof (cases "i_mode info = IMP")
    case True
    then have "os = []" using us(3) by (simp add: operand_shapes_def)
    then show ?thesis using m us(4) True by (simp add: us(1) parse_instruction_def operand_fits_def)
  next
    case False
    obtain u us' where u: "os = u # us'" "t_kind u \<in> {Number, Left_Paren}"
      by (rule operand_shapes_first [OF us(3) False])
    from parse_operand_shapes [OF us(3) False us(4), of ts] obtain opnds where
      "instruction_operands (os @ n # ts) = Inr (opnds, n # ts)"
      "operand_fits (i_mode info) (chunk_value c) opnds" by blast
    then show ?thesis using m u by (auto simp: us(1) parse_instruction_def)
  qed
  then obtain opnds where stmt: "parse_instruction (us @ ts) =
      Inr (Instruction_Stmt (to_lower (i_mnemonic info)) opnds (t_span m), n # ts)"
    "operand_fits (i_mode info) (chunk_value c) opnds" by blast
  obtain u vs where u: "os @ n # ts = u # vs" "t_kind u \<noteq> Colon"
  proof (cases "i_mode info = IMP")
    case True
    then have "os = []" using us(3) by (simp add: operand_shapes_def)
    then show ?thesis using that [of n ts] us(4) by simp
  next
    case False
    obtain u us' where "os = u # us'" "t_kind u \<in> {Number, Left_Paren}"
      by (rule operand_shapes_first [OF us(3) False])
    then show ?thesis using that [of u "us' @ n # ts"] by auto
  qed
  have "parse_line (m # u # vs) =
      Inr ([Instruction_Stmt (to_lower (i_mnemonic info)) opnds (t_span m)], ts)"
    using parse_line_no_label [of m u vs] m(1) u us(4) stmt(1) by (simp add: us(1))
  then show ?thesis using stmt(2) u(1) by (simp add: us(1) chunk_statement_def Some)
qed

lemma parse_chunks:
  "list_all2 fits (concat (map chunk_shapes cs) @ [Plain End_Of_File]) ts \<Longrightarrow>
   \<exists>ss. parse ts = Inr ss \<and> list_all2 chunk_statement cs ss"
proof (induction cs arbitrary: ts)
  case Nil
  then obtain t where "ts = [t]" "t_kind t = End_Of_File" by (auto simp: list_all2_Cons1)
  then show ?case by (subst parse.simps) simp
next
  case (Cons c cs)
  then obtain us vs where us: "ts = us @ vs" "list_all2 fits (chunk_shapes c) us"
      "list_all2 fits (concat (map chunk_shapes cs) @ [Plain End_Of_File]) vs"
    by (auto simp: list_all2_append1)
  from parse_chunk_line [OF us(2), of vs] obtain stmt where
    stmt: "parse_line (us @ vs) = Inr ([stmt], vs)" "chunk_statement c stmt" by blast
  from Cons.IH [OF us(3)] obtain ss where ss: "parse vs = Inr ss" "list_all2 chunk_statement cs ss" by blast
  have "\<not> p_at_end ts"
  proof
    assume "p_at_end ts"
    moreover obtain sh shs where "chunk_shapes c = sh # shs" "not_end sh"
      by (cases "c_info c") (simp_all add: chunk_shapes_def)
    ultimately show False using us(1,2) by (auto simp: list_all2_Cons1 not_end_def)
  qed
  then show ?case using stmt ss by (subst parse.simps) (simp add: us(1))
qed

section \<open>Selecting the instruction\<close>

definition short_mode :: "addressing_mode \<Rightarrow> addressing_mode option" where
  "short_mode mode =
     (case mode of ABS \<Rightarrow> Some ZP | ABX \<Rightarrow> Some ZPX | ABY \<Rightarrow> Some ZPY | _ \<Rightarrow> None)"

text \<open>
  What makes a chunk readable again: its mnemonic and mode name its instruction only, the
  assembler treats the mnemonic as a branch when it is one, no zero-page form is preferred for
  a small absolute operand, and a branch target does not leave the address space.
\<close>

definition chunk_reassembles :: "isa_info \<Rightarrow> chunk \<Rightarrow> bool" where
  "chunk_reassembles isa c =
     (case c_info c of
        None \<Rightarrow> True
      | Some info \<Rightarrow>
          is_word (i_mnemonic info) \<and>
          find_by_mnemonic_and_mode isa (i_mnemonic info) (i_mode info) = Some info \<and>
          is_relative_mnemonic (i_mnemonic info) = (i_mode info = REL) \<and>
          (case short_mode (i_mode info) of
             None \<Rightarrow> True
           | Some mode \<Rightarrow> 0xFF < chunk_value c \<or> find_by_mnemonic_and_mode isa (i_mnemonic info) mode = None) \<and>
          (i_mode info = REL \<longrightarrow>
             0 \<le> uint (c_address c) + 2 + sint (c_bytes c ! 1) \<and>
             uint (c_address c) + 2 + sint (c_bytes c ! 1) \<le> 0xFFFF))"

lemma to_lower_char_idem: "to_lower_char (to_lower_char c) = to_lower_char c"
proof -
  have "\<not> is_upper (to_lower_char c)"
  proof (cases "is_upper c")
    case True
    then have "65 \<le> (of_char c :: nat)" "(of_char c :: nat) \<le> 90" by (simp_all add: char_class_defs)
    then have "of_char (to_lower_char c) = (of_char c + 32 :: nat)" using True by (simp add: to_lower_char_def)
    then show ?thesis using \<open>65 \<le> _\<close> by (simp add: char_class_defs)
  qed (simp add: to_lower_char_def)
  then show ?thesis by (simp add: to_lower_char_def)
qed

lemma to_lower_idem [simp]: "to_lower (to_lower s) = to_lower s"
  by (simp add: to_lower_def to_lower_char_idem)

lemma find_to_lower [simp]:
  "find_by_mnemonic_and_mode isa (to_lower m) mode = find_by_mnemonic_and_mode isa m mode"
  "is_relative_mnemonic (to_lower m) = is_relative_mnemonic m"
  by (simp_all add: find_by_mnemonic_and_mode_def is_relative_mnemonic_def Let_def)

lemma not_IMP_cases:
  assumes "operand_fits mode v opnds" and "mode \<noteq> IMP"
  obtains opnd where "opnds = [opnd]" and "o_kind opnd = Op_Number" and "o_number opnd = v"
    and "o_immediate opnd = (mode = IMM)" and "o_indirect opnd = (mode \<in> {IND, IZX, IZY})"
    and "o_index opnd = (if mode \<in> {ZPX, ABX, IZX} then Index_X
      else if mode \<in> {ZPY, ABY, IZY} then Index_Y else No_Index)"
  using assms by (auto simp: operand_fits_def)

lemma chunk_selects:
  assumes ok: "chunk_reassembles isa c" and info: "c_info c = Some info"
    and fits: "operand_fits (i_mode info) (chunk_value c) opnds"
    and small: "mode_width (i_mode info) = 1 \<Longrightarrow> i_mode info \<noteq> REL \<Longrightarrow> chunk_value c \<le> 0xFF"
  shows "select_instruction isa (to_lower (i_mnemonic info)) opnds sp = Inr info"
proof -
  note k = ok [unfolded chunk_reassembles_def info option.case]
  have found: "find_by_mnemonic_and_mode isa (i_mnemonic info) (i_mode info) = Some info"
    and rel: "is_relative_mnemonic (i_mnemonic info) = (i_mode info = REL)" using k by simp_all
  show ?thesis
  proof (cases "i_mode info = IMP")
    case True
    then show ?thesis using fits found
      by (simp add: select_instruction_def candidate_modes_def operand_fits_def)
  next
    case False
    obtain opnd where opnd: "opnds = [opnd]" "o_kind opnd = Op_Number" "o_number opnd = chunk_value c"
      "o_immediate opnd = (i_mode info = IMM)" "o_indirect opnd = (i_mode info \<in> {IND, IZX, IZY})"
      "o_index opnd = (if i_mode info \<in> {ZPX, ABX, IZX} then Index_X
        else if i_mode info \<in> {ZPY, ABY, IZY} then Index_Y else No_Index)"
      by (rule not_IMP_cases [OF fits False])
    show ?thesis
      using False found rel k small opnd
      by (cases "i_mode info")
        (auto simp: select_instruction_def candidate_modes_def small_number_def short_mode_def mode_width_def)
  qed
qed

section \<open>The first pass\<close>

definition chunk_ok :: "chunk \<Rightarrow> bool" where
  "chunk_ok c =
     (case c_info c of
        None \<Rightarrow> length (c_bytes c) = 1
      | Some info \<Rightarrow> length (c_bytes c) = Suc (mode_width (i_mode info)) \<and> hd (c_bytes c) = i_opcode info)"

fun placed_from :: "nat \<Rightarrow> chunk list \<Rightarrow> bool" where
  "placed_from n [] = True"
| "placed_from n (c # cs) = (unat (c_address c) = n \<and> placed_from (n + length (c_bytes c)) cs)"

definition chunks_length :: "chunk list \<Rightarrow> nat" where
  "chunks_length cs = (\<Sum>c\<leftarrow>cs. length (c_bytes c))"

definition chunk_item :: "chunk \<Rightarrow> emittable \<Rightarrow> bool" where
  "chunk_item c item =
     (e_address item = c_address c \<and>
      (case c_info c of
         None \<Rightarrow> e_kind item = Emit_Bytes \<and>
           (\<exists>opnd. e_operands item = [opnd] \<and> o_kind opnd = Op_Number \<and> o_number opnd = chunk_value c)
       | Some info \<Rightarrow> e_kind item = Emit_Instruction \<and> e_mode item = i_mode info \<and>
           e_opcode item = i_opcode info \<and> e_operand_bytes item = of_nat (mode_width (i_mode info)) \<and>
           operand_fits (i_mode info) (chunk_value c) (e_operands item)))"

lemma unat_u32_of_u8: "unat (ucast (b :: u8) :: u32) = unat b"
proof -
  have "unat b < 4294967296" using unat_u8_less [of b] by linarith
  then show ?thesis by (simp add: unsigned_ucast_eq take_bit_eq_mod)
qed

lemma ucast_u8_le: "(ucast (b :: u8) :: u32) \<le> 0xFF"
proof -
  have "unat b \<le> 255" using unat_u8_less [of b] by linarith
  then show ?thesis by (simp add: word_le_nat_alt unat_u32_of_u8)
qed

lemma chunk_value_small:
  assumes "c_info c = Some info" and "mode_width (i_mode info) = 1" and "i_mode info \<noteq> REL"
  shows "chunk_value c \<le> 0xFF"
  using assms by (simp add: chunk_value_def operand_value_at_def ucast_u8_le)

lemma place_item_succeeds:
  assumes "0 < n" and "fp_cursor st + n \<le> 0x10000"
  shows "\<exists>st'. place_item sp n mk st = Inr st'"
  using assms by (simp add: place_item_def validate_cursor_def throw_if_def Let_def)

lemma first_pass_chunk:
  assumes "widths_ok isa" and "chunk_reassembles isa c" and "chunk_ok c" and "chunk_statement c stmt"
    and "\<And>info. c_info c = Some info \<Longrightarrow> info \<in> set (isa_instructions isa)"
    and "fp_cursor st = unat (c_address c)" and "unat (c_address c) + length (c_bytes c) \<le> 0x10000"
  shows "\<exists>st' item. first_pass_statement isa options stmt st = Inr st' \<and>
    fp_items st' = fp_items st @ [item] \<and> chunk_item c item \<and>
    fp_cursor st' = fp_cursor st + length (c_bytes c) \<and>
    unat (fp_max_address st') = max (unat (fp_max_address st)) (fp_cursor st + length (c_bytes c) - 1)"
proof (cases "c_info c")
  case None
  then obtain opnd sp where stmt: "stmt = Directive_Stmt Byte_Data [opnd] [] sp"
      "o_kind opnd = Op_Number" "o_number opnd = chunk_value c"
    using assms(4) by (auto simp: chunk_statement_def)
  have len: "length (c_bytes c) = 1" using assms(3) None by (simp add: chunk_ok_def)
  let ?mk = "\<lambda>address. \<lparr>e_address = address, e_span = sp, e_text = format_directive_text Byte_Data [opnd],
    e_kind = Emit_Bytes, e_mode = IMP, e_opcode = 0, e_operand_bytes = 0, e_operands = [opnd]\<rparr>"
  obtain st' where st': "place_item sp 1 ?mk st = Inr st'"
    using place_item_succeeds [of 1 st sp ?mk] assms(6,7) len by auto
  from place_item_Inr [OF st'] show ?thesis
    using st' None stmt(2,3) assms(6) by (simp add: stmt(1) chunk_item_def len)
next
  case (Some info)
  then obtain opnds sp where stmt: "stmt = Instruction_Stmt (to_lower (i_mnemonic info)) opnds sp"
      "operand_fits (i_mode info) (chunk_value c) opnds"
    using assms(4) by (auto simp: chunk_statement_def)
  have len: "length (c_bytes c) = 1 + mode_width (i_mode info)"
    using assms(3) Some by (simp add: chunk_ok_def)
  have sel: "select_instruction isa (to_lower (i_mnemonic info)) opnds sp = Inr info"
    by (rule chunk_selects [OF assms(2) Some stmt(2) chunk_value_small [OF Some]])
  have width: "isa_operand_bytes isa (i_mode info) = Some (of_nat (mode_width (i_mode info)))"
    using assms(1,5) Some by (simp add: widths_ok_def list_all_iff)
  let ?n = "1 + mode_width (i_mode info)"
  let ?mk = "\<lambda>address. \<lparr>e_address = address, e_span = sp,
    e_text = format_instruction_text (to_lower (i_mnemonic info)) opnds, e_kind = Emit_Instruction,
    e_mode = i_mode info, e_opcode = i_opcode info, e_operand_bytes = of_nat (mode_width (i_mode info)),
    e_operands = opnds\<rparr>"
  obtain st' where st': "place_item sp ?n ?mk st = Inr st'"
    using place_item_succeeds [of ?n st sp ?mk] assms(6,7) len by auto
  from place_item_Inr [OF st'] show ?thesis
    using st' Some stmt(2) assms(6) by (simp add: stmt(1) sel width chunk_item_def len)
qed

lemma first_pass_chunks:
  assumes "widths_ok isa"
  shows "list_all (\<lambda>c. chunk_reassembles isa c \<and> chunk_ok c \<and>
      (\<forall>info. c_info c = Some info \<longrightarrow> info \<in> set (isa_instructions isa))) cs \<Longrightarrow>
    list_all2 chunk_statement cs stmts \<Longrightarrow> placed_from (fp_cursor st) cs \<Longrightarrow>
    fp_cursor st + chunks_length cs \<le> 0x10000 \<Longrightarrow>
    \<exists>st' items. fold_ok (first_pass_statement isa options) stmts st = Inr st' \<and>
      fp_items st' = fp_items st @ items \<and> list_all2 chunk_item cs items \<and>
      unat (fp_max_address st') \<le> max (unat (fp_max_address st)) (fp_cursor st + chunks_length cs - 1)"
proof (induction cs arbitrary: stmts st)
  case Nil
  then show ?case by (auto simp: chunks_length_def)
next
  case (Cons c cs)
  from Cons.prems(2) obtain stmt ss where ss: "stmts = stmt # ss" "chunk_statement c stmt"
    "list_all2 chunk_statement cs ss" by (auto simp: list_all2_Cons1)
  have c: "chunk_reassembles isa c" "chunk_ok c"
    "\<And>info. c_info c = Some info \<Longrightarrow> info \<in> set (isa_instructions isa)"
    "fp_cursor st = unat (c_address c)" "unat (c_address c) + length (c_bytes c) \<le> 0x10000"
    using Cons.prems by (auto simp: chunks_length_def)
  from first_pass_chunk [OF assms c(1,2) ss(2) c(3-5)] obtain st1 item where
    st1: "first_pass_statement isa options stmt st = Inr st1" "fp_items st1 = fp_items st @ [item]"
      "chunk_item c item" "fp_cursor st1 = fp_cursor st + length (c_bytes c)"
      "unat (fp_max_address st1) = max (unat (fp_max_address st)) (fp_cursor st + length (c_bytes c) - 1)"
    by blast
  have "placed_from (fp_cursor st1) cs" "fp_cursor st1 + chunks_length cs \<le> 0x10000"
    using Cons.prems(3,4) by (simp_all add: st1(4) chunks_length_def)
  with Cons.IH [OF _ ss(3), of st1] Cons.prems(1) obtain st' items where
    st': "fold_ok (first_pass_statement isa options) ss st1 = Inr st'"
      "fp_items st' = fp_items st1 @ items" "list_all2 chunk_item cs items"
      "unat (fp_max_address st') \<le> max (unat (fp_max_address st1)) (fp_cursor st1 + chunks_length cs - 1)"
    by auto
  have "unat (fp_max_address st') \<le> max (unat (fp_max_address st)) (fp_cursor st + chunks_length (c # cs) - 1)"
    using st'(4) unfolding st1(5,4) by (simp add: chunks_length_def)
  then show ?case using st1(1-3) st'(1-3) by (intro exI [of _ st'] exI [of _ "item # items"]) (simp add: ss(1))
qed

section \<open>The second pass\<close>

lemma word_of_operand: "(ucast l OR push_bit 8 (ucast h) :: u16) = word_of_bytes h l"
  by (simp add: word_of_bytes_def or.commute)

lemma ucast_u16_u32: "ucast (ucast (w :: u16) :: u32) = w" "(ucast (w :: u16) :: u32) \<le> 0xFFFF"
  "uint (ucast w :: u32) = uint w"
proof -
  have b: "0 \<le> uint w" "uint w < 65536" using uint_bounded [of w] by simp_all
  then show u: "uint (ucast w :: u32) = uint w" by (simp add: unsigned_ucast_eq take_bit_eq_mod)
  show "ucast (ucast w :: u32) = w" by transfer simp
  show "(ucast w :: u32) \<le> 0xFFFF"
    using uint_bounded [of w] by (simp add: word_le_def u)
qed

lemma ucast_u8_u32: "ucast (ucast (b :: u8) :: u32) = b"
  by transfer simp

lemma branch_target_value:
  fixes a :: u16 and b :: u8
  assumes "0 \<le> uint a + 2 + sint b" and "uint a + 2 + sint b \<le> 0xFFFF"
  shows "uint (a + 2 + scast b) = uint a + 2 + sint b"
proof -
  have "uint (a + 2 + scast b) = (uint (a + 2) + sint b) mod 65536" by (rule uint_add_scast)
  also have "uint (a + 2) = (uint a + 2) mod 65536" by (simp add: uint_word_ariths)
  also have "((uint a + 2) mod 65536 + sint b) mod 65536 = (uint a + 2 + sint b) mod 65536"
    by (rule mod_add_left_eq)
  also have "\<dots> = uint a + 2 + sint b" using assms by (intro mod_pos_pos_trivial) simp_all
  finally show ?thesis .
qed

lemma sint_u8_bounds: "- 128 \<le> sint (b :: u8)" "sint b \<le> 127"
  using sint_greater_eq [of b] sint_less [of b] by simp_all

lemma chunk_item_bytes:
  assumes "chunk_item c item" and "chunk_ok c" and "chunk_reassembles isa c"
  shows "item_bytes pass item = Inr (c_bytes c)" and "item_size item = length (c_bytes c)"
proof -
  have "item_bytes pass item = Inr (c_bytes c) \<and> item_size item = length (c_bytes c)"
  proof (cases "c_info c")
    case None
    then obtain opnd where o: "e_kind item = Emit_Bytes" "e_operands item = [opnd]"
        "o_kind opnd = Op_Number" "o_number opnd = ucast (hd (c_bytes c))"
      using assms(1) by (auto simp: chunk_item_def chunk_value_def)
    obtain b where b: "c_bytes c = [b]"
      using assms(2) None by (auto simp: chunk_ok_def length_Suc_conv)
    show ?thesis
      using o ucast_u8_le [of b]
      by (simp add: item_bytes_def item_size_def resolve_byte_operand_def b ucast_u8_u32)
  next
    case (Some info)
    have i: "e_kind item = Emit_Instruction" "e_mode item = i_mode info" "e_opcode item = i_opcode info"
      "e_operand_bytes item = of_nat (mode_width (i_mode info))" "e_address item = c_address c"
      "operand_fits (i_mode info) (chunk_value c) (e_operands item)"
      using assms(1) Some by (simp_all add: chunk_item_def)
    obtain bs where bs: "c_bytes c = i_opcode info # bs" "length bs = mode_width (i_mode info)"
      using assms(2) Some by (cases "c_bytes c") (auto simp: chunk_ok_def)
    have size: "item_size item = length (c_bytes c)" by (simp add: item_size_def i bs)
    have "operand_value pass item = Inr bs"
    proof (cases "i_mode info = IMP")
      case True
      then show ?thesis using i(4) bs(2) by (simp add: operand_value_def mode_width_def)
    next
      case False
      obtain opnd where opnd: "e_operands item = [opnd]" "o_kind opnd = Op_Number" "o_number opnd = chunk_value c"
        by (rule not_IMP_cases [OF i(6) False])
      consider (rel) "i_mode info = REL" | (byte) "mode_width (i_mode info) = 1" "i_mode info \<noteq> REL"
        | (word) "mode_width (i_mode info) = 2"
        using False by (cases "i_mode info") (simp_all add: mode_width_def)
      then show ?thesis
      proof cases
        case rel
        obtain b where b: "bs = [b]" using bs(2) rel by (auto simp: mode_width_def length_Suc_conv)
        have v: "chunk_value c = ucast (c_address c + 2 + scast b)"
          by (simp add: chunk_value_def Some operand_value_at_def rel bs(1) b)
        have r: "0 \<le> uint (c_address c) + 2 + sint b" "uint (c_address c) + 2 + sint b \<le> 0xFFFF"
          using assms(3) rel by (simp_all add: chunk_reassembles_def Some bs(1) b)
        have "\<not> (0xFFFF < chunk_value c)" using ucast_u16_u32(2) by (simp add: v not_less)
        then have "branch_target pass opnd = Inr (chunk_value c)"
          by (simp add: branch_target_def opnd)
        moreover have "uint (chunk_value c) - (uint (c_address c) + 2) = sint b"
          using branch_target_value [OF r] by (simp add: v ucast_u16_u32(3))
        ultimately have "resolve_relative_operand pass opnd (c_address c) = Inr b"
          using sint_u8_bounds [of b] by (simp add: resolve_relative_operand_def Let_def not_less)
        then show ?thesis using rel by (simp add: operand_value_def i opnd(1) b mode_width_def)
      next
        case byte
        obtain b where b: "bs = [b]" using bs(2) byte by (auto simp: length_Suc_conv)
        have "chunk_value c = ucast b"
          using byte by (simp add: chunk_value_def Some operand_value_at_def bs(1) b)
        then have "resolve_byte_operand pass opnd = Inr b"
          using ucast_u8_le [of b] by (simp add: resolve_byte_operand_def opnd ucast_u8_u32)
        then show ?thesis using byte by (simp add: operand_value_def i opnd(1) b)
      next
        case word
        obtain l h where b: "bs = [l, h]" using bs(2) word
          by (metis One_nat_def Suc_1 length_0_conv length_Suc_conv)
        have "i_mode info \<noteq> REL" using word by (auto simp: mode_width_def)
        then have "chunk_value c = ucast (word_of_bytes h l)"
          using word by (simp add: chunk_value_def Some operand_value_at_def bs(1) b word_of_operand)
        then have "resolve_word_operand pass opnd = Inr (word_of_bytes h l)"
          using ucast_u16_u32(1,2) [of "word_of_bytes h l"]
          by (simp add: resolve_word_operand_def opnd not_less)
        then show ?thesis using word by (simp add: operand_value_def i opnd(1) b)
      qed
    qed
    then show ?thesis using size by (simp add: item_bytes_def i bs(1))
  qed
  then show "item_bytes pass item = Inr (c_bytes c)" "item_size item = length (c_bytes c)" by simp_all
qed

end
