(* ===== verification/Disassembly_Roundtrip.thy ===== *)
theory Disassembly_Roundtrip
  imports Asm_Disassembly
begin

text \<open>
  The ROM that assembling a listing yields: the chunks of a ROM hold all its bytes in order, and
  the second pass writes the bytes of each chunk at its address.
\<close>

section \<open>The chunks of a ROM\<close>

lemma chunks_step:
  assumes "widths_ok isa" and "idx < length rom"
  obtains c n where "chunks isa rom idx address = c # chunks isa rom (idx + n) (address + of_nat n)"
    and "c_address c = address" and "c_bytes c = take n (drop idx rom)" and "0 < n" and "idx + n \<le> length rom"
    and "chunk_ok c" and "\<And>info. c_info c = Some info \<Longrightarrow> info \<in> set (isa_instructions isa)"
proof (cases "decode_at isa rom idx")
  case None
  have byte: "[rom ! idx] = take 1 (drop idx rom)" using assms(2) by (simp flip: Cons_nth_drop_Suc)
  show ?thesis
  proof (rule that [of "\<lparr>c_address = address, c_info = None, c_bytes = [rom ! idx]\<rparr>" 1])
    show "chunks isa rom idx address = \<lparr>c_address = address, c_info = None, c_bytes = [rom ! idx]\<rparr> #
        chunks isa rom (idx + 1) (address + of_nat 1)"
      using assms(2) by (subst chunks.simps) (simp add: None)
  qed (use byte assms(2) in \<open>simp_all add: chunk_ok_def\<close>)
next
  case (Some d)
  obtain info bytes where d: "d = (info, bytes)" by fastforce
  note k = decode_at_Some [OF assms(1) Some [unfolded d]]
  have bytes: "rom ! idx # bytes = take (Suc (length bytes)) (drop idx rom)"
    using assms(2) k(5) by (simp flip: Cons_nth_drop_Suc)
  show ?thesis
  proof (rule that [of "\<lparr>c_address = address, c_info = Some info, c_bytes = rom ! idx # bytes\<rparr>" "Suc (length bytes)"])
    show "chunks isa rom idx address = \<lparr>c_address = address, c_info = Some info, c_bytes = rom ! idx # bytes\<rparr> #
        chunks isa rom (idx + Suc (length bytes)) (address + of_nat (Suc (length bytes)))"
      using assms(2) by (subst chunks.simps) (simp add: Some d add.assoc)
  qed (use k bytes assms(2) in \<open>simp_all add: chunk_ok_def hd_drop_conv_nth\<close>)
qed

lemma chunks_end: "length rom \<le> idx \<Longrightarrow> chunks isa rom idx address = []"
  by (subst chunks.simps) simp

text \<open>Induction along the listing.\<close>

lemma chunks_facts:
  assumes "widths_ok isa"
  shows "concat (map c_bytes (chunks isa rom idx address)) = drop idx rom \<and>
    list_all (\<lambda>c. chunk_ok c \<and> (\<forall>info. c_info c = Some info \<longrightarrow> info \<in> set (isa_instructions isa)))
      (chunks isa rom idx address) \<and>
    (unat address + (length rom - idx) \<le> 0x10000 \<longrightarrow> placed_from (unat address) (chunks isa rom idx address))"
proof (induction "length rom - idx" arbitrary: idx address rule: less_induct)
  case less
  show ?case
  proof (cases "length rom \<le> idx")
    case True
    then show ?thesis by (simp add: chunks_end)
  next
    case False
    then obtain c n where c: "chunks isa rom idx address = c # chunks isa rom (idx + n) (address + of_nat n)"
      "c_address c = address" "c_bytes c = take n (drop idx rom)" "0 < n" "idx + n \<le> length rom"
      "chunk_ok c" "\<And>info. c_info c = Some info \<Longrightarrow> info \<in> set (isa_instructions isa)"
      using chunks_step [OF assms, of idx rom address] by (metis not_le)
    have IH: "concat (map c_bytes (chunks isa rom (idx + n) (address + of_nat n))) = drop (idx + n) rom"
      "list_all (\<lambda>c. chunk_ok c \<and> (\<forall>info. c_info c = Some info \<longrightarrow> info \<in> set (isa_instructions isa)))
        (chunks isa rom (idx + n) (address + of_nat n))"
      "unat (address + of_nat n) + (length rom - (idx + n)) \<le> 0x10000 \<longrightarrow>
        placed_from (unat (address + of_nat n)) (chunks isa rom (idx + n) (address + of_nat n))"
      using less [of "idx + n" "address + of_nat n"] c(4) False by simp_all
    have "take n (drop idx rom) @ drop (idx + n) rom = drop idx rom"
      by (metis append_take_drop_id drop_drop add.commute)
    moreover have "placed_from (unat address + n) (chunks isa rom (idx + n) (address + of_nat n))"
      if a: "unat address + (length rom - idx) \<le> 0x10000"
    proof (cases "idx + n = length rom")
      case True
      then show ?thesis by (simp add: chunks_end)
    next
      case more: False
      then have "unat address + n < 65536" using a c(5) by linarith
      then have "unat (address + of_nat n) = unat address + n"
        by (simp add: unat_word_ariths unat_of_nat)
      then show ?thesis using IH(3) a c(5) by simp
    qed
    ultimately show ?thesis using IH(1,2) c by simp
  qed
qed

lemma chunks_length_rom:
  assumes "widths_ok isa"
  shows "chunks_length (chunks isa rom 0 address) = length rom"
proof -
  have "chunks_length cs = length (concat (map c_bytes cs))" for cs
    by (simp add: chunks_length_def length_concat comp_def)
  then show ?thesis using chunks_facts [OF assms, of rom 0 address] by simp
qed

section \<open>The second pass\<close>

lemma overwrite_split:
  "k + length bs \<le> length xs \<Longrightarrow> overwrite xs k bs = take k xs @ bs @ drop (k + length bs) xs"
  by (rule nth_equalityI) (auto simp: nth_overwrite nth_append)

lemma encode_chunk:
  assumes "chunk_item c item" and "chunk_ok c" and "chunk_reassembles isa c"
    and "origin \<le> unat (c_address c)"
    and "unat (c_address c) - origin + length (c_bytes c) \<le> length (en_rom st)"
  shows "\<exists>st'. encode_item pass origin rel item st = Inr st' \<and>
    en_rom st' = overwrite (en_rom st) (unat (c_address c) - origin) (c_bytes c)"
proof -
  note bytes = chunk_item_bytes [OF assms(1-3)]
  have addr: "e_address item = c_address c" using assms(1) by (simp add: chunk_item_def)
  have pos: "0 < length (c_bytes c)" using assms(2) by (auto simp: chunk_ok_def split: option.splits)
  have "\<exists>st'. encode_item pass origin rel item st = Inr st'"
  proof (cases "c_info c")
    case None
    then obtain opnd where o: "e_kind item = Emit_Bytes" "e_operands item = [opnd]"
      using assms(1) by (auto simp: chunk_item_def)
    then have "is_ok (resolve_byte_operand pass opnd)"
      using bytes(1) [of pass] by (auto simp: item_bytes_def is_ok_def elim!: bind_ok_eq_InrE)
    moreover have "unat (c_address c) - origin < length (en_rom st)" using assms(5) pos by linarith
    ultimately show ?thesis
      using o assms(4)
      by (auto simp: encode_item_def addr Let_def encode_byte_def is_ok_def split: sum.splits)
  next
    case (Some info)
    have i: "e_kind item = Emit_Instruction" "e_mode item = i_mode info"
      "e_operand_bytes item = of_nat (mode_width (i_mode info))"
      "operand_fits (i_mode info) (chunk_value c) (e_operands item)"
      using assms(1) Some by (simp_all add: chunk_item_def)
    have len: "length (c_bytes c) = Suc (mode_width (i_mode info))"
      using assms(2) Some by (simp add: chunk_ok_def)
    obtain vs where vs: "operand_value pass item = Inr vs"
      using bytes(1) [of pass] i(1) by (auto simp: item_bytes_def elim!: bind_ok_eq_InrE)
    have ne: "e_operands item \<noteq> []" if "mode_width (i_mode info) \<noteq> 0"
      using i(4) that by (auto simp: operand_fits_def mode_width_def split: if_splits)
    consider "mode_width (i_mode info) = 0" | "mode_width (i_mode info) = 1" | "mode_width (i_mode info) = 2"
      using mode_width_le [of "i_mode info"] by linarith
    then show ?thesis
      by cases (use vs i(1-3) ne len assms(4,5) in
        \<open>auto simp: encode_item_def encode_instruction_item_def addr Let_def operand_value_def
          add_record_def set_rom_def elim!: bind_ok_eq_InrE split: if_splits\<close>)
  qed
  then obtain st' where st': "encode_item pass origin rel item st = Inr st'" by blast
  from encode_item_Inr [OF this] bytes pos addr show ?thesis using st' by auto
qed

lemma encode_chunks:
  "list_all2 chunk_item cs items \<Longrightarrow> list_all (\<lambda>c. chunk_ok c \<and> chunk_reassembles isa c) cs \<Longrightarrow>
   placed_from (origin + k) cs \<Longrightarrow> k + chunks_length cs \<le> length (en_rom st) \<Longrightarrow>
   \<exists>st'. fold_ok (encode_item pass origin rel) items st = Inr st' \<and>
     en_rom st' = take k (en_rom st) @ concat (map c_bytes cs) @ drop (k + chunks_length cs) (en_rom st)"
proof (induction cs arbitrary: items st k)
  case Nil
  then show ?case by (simp add: chunks_length_def)
next
  case (Cons c cs)
  from Cons.prems(1) obtain item items' where items: "items = item # items'" "chunk_item c item"
    "list_all2 chunk_item cs items'" by (auto simp: list_all2_Cons1)
  let ?n = "length (c_bytes c)"
  have len: "chunks_length (c # cs) = ?n + chunks_length cs" by (simp add: chunks_length_def)
  have addr: "unat (c_address c) - origin = k" "origin \<le> unat (c_address c)" using Cons.prems(3) by simp_all
  from encode_chunk [OF items(2), of isa origin st pass rel] Cons.prems(2,4) addr len
  obtain st1 where st1: "encode_item pass origin rel item st = Inr st1"
    "en_rom st1 = overwrite (en_rom st) k (c_bytes c)" by auto
  have rom: "en_rom st1 = take k (en_rom st) @ c_bytes c @ drop (k + ?n) (en_rom st)"
    unfolding st1(2) by (rule overwrite_split) (use Cons.prems(4) len in linarith)
  have "k + ?n + chunks_length cs \<le> length (en_rom st1)"
    using Cons.prems(4) unfolding st1(2) by (simp add: len add.assoc)
  with Cons.IH [OF items(3), of "k + ?n" st1] Cons.prems(2,3) obtain st' where
    st': "fold_ok (encode_item pass origin rel) items' st1 = Inr st'"
      "en_rom st' = take (k + ?n) (en_rom st1) @ concat (map c_bytes cs) @
        drop (k + ?n + chunks_length cs) (en_rom st1)" by (auto simp: add.assoc)
  have k: "min (length (en_rom st)) k = k" using Cons.prems(4) by simp
  have "take (k + ?n) (en_rom st1) = take k (en_rom st) @ c_bytes c"
    unfolding rom by (simp add: k)
  moreover have "drop (k + ?n + chunks_length cs) (en_rom st1) = drop (k + chunks_length (c # cs)) (en_rom st)"
    unfolding rom using k by (simp add: len ac_simps)
  ultimately show ?case using st1(1) st' by (simp add: items(1))
qed

section \<open>The whole listing\<close>

definition origin_shapes :: "disassemble_options \<Rightarrow> shape list" where
  "origin_shapes opts =
     (if emit_org opts then [Word Directive ''org'', Numeral False (ucast (dis_origin opts)), Plain Newline]
      else [])"

definition origin_statement :: "disassemble_options \<Rightarrow> statement list \<Rightarrow> bool" where
  "origin_statement opts ss =
     (if emit_org opts then
        (\<exists>opnd sp. ss = [Directive_Stmt Org [opnd] [] sp] \<and> o_kind opnd = Op_Number \<and>
           o_number opnd = ucast (dis_origin opts))
      else ss = [])"

lemma lexes_listing:
  assumes "list_all chunk_named cs"
  shows "lexes ((if emit_org opts then ''.org '' @ format_hex_word (dis_origin opts) @ [newline] else []) @
      concat (map (chunk_text opts) cs))
    (origin_shapes opts @ concat (map chunk_shapes cs) @ [Plain End_Of_File])"
proof (cases "emit_org opts")
  case False
  then show ?thesis using lexes_chunks [OF assms] by (simp add: origin_shapes_def)
next
  case True
  let ?s = "concat (map (chunk_text opts) cs)"
  let ?num = "format_hex_word (dis_origin opts)"
  let ?shs = "concat (map chunk_shapes cs) @ [Plain End_Of_File]"
  have "lexes (newline # ?s) (Plain Newline # ?shs)"
    by (rule lexes_token [OF reads_newline _ lexes_chunks [OF assms]]) simp
  then have "lexes (?num @ newline # ?s) (Numeral False (ucast (dis_origin opts)) # Plain Newline # ?shs)"
    by (rule lexes_token [OF reads_number_text(1) [OF number_text_formats(2)], rotated 2]) simp_all
  then have "lexes (CHR '' '' # ?num @ newline # ?s)
      (Numeral False (ucast (dis_origin opts)) # Plain Newline # ?shs)"
    by (rule lexes_blank) simp
  moreover have "is_word ''org''" "to_lower ''org'' = ''org''" by code_simp+
  then have "reads_token (CHR ''.'' # ''org'' @ CHR '' '' # ?num @ newline # ?s) (Word Directive ''org'')
      (CHR '' '' # ?num @ newline # ?s)"
    using reads_directive [of "''org''" "CHR '' '' # ?num @ newline # ?s"] by simp
  ultimately show ?thesis
    using True lexes_token [of _ "Word Directive ''org''" "CHR '' '' # ?num @ newline # ?s"]
    by (simp add: origin_shapes_def)
qed

lemma parse_listing:
  assumes "list_all2 fits (origin_shapes opts @ concat (map chunk_shapes cs) @ [Plain End_Of_File]) ts"
  shows "\<exists>os ss. parse ts = Inr (os @ ss) \<and> origin_statement opts os \<and> list_all2 chunk_statement cs ss"
proof (cases "emit_org opts")
  case False
  then show ?thesis using parse_chunks [of cs ts] assms by (auto simp: origin_shapes_def origin_statement_def)
next
  case True
  then obtain d t n us where us: "ts = d # t # n # us" "fits (Word Directive ''org'') d"
      "fits (Numeral False (ucast (dis_origin opts))) t" "t_kind n = Newline"
      "list_all2 fits (concat (map chunk_shapes cs) @ [Plain End_Of_File]) us"
    using assms by (auto simp: origin_shapes_def list_all2_Cons1)
  from parse_chunks [OF us(5)] obtain ss where ss: "parse us = Inr ss" "list_all2 chunk_statement cs ss"
    by blast
  have line: "parse_line ts = Inr ([Directive_Stmt Org [number_operand t] [] (t_span d)], us)"
    using parse_data_line [OF us(2) _ us(3,4), of us] by (simp add: us(1))
  have "parse ts = Inr (Directive_Stmt Org [number_operand t] [] (t_span d) # ss)"
    using line ss(1) us(2) by (subst parse.simps) (simp add: us(1))
  then show ?thesis
    using ss(2) True numeral_operand(2,3) [OF us(3)]
    by (intro exI [of _ "[Directive_Stmt Org [number_operand t] [] (t_span d)]"] exI [of _ ss])
      (simp add: origin_statement_def)
qed

lemma first_pass_origin:
  assumes "origin_statement opts os" and "opt_origin options = dis_origin opts"
  shows "fold_ok (first_pass_statement isa options) os (first_pass_init options) =
    Inr (first_pass_init options)"
proof (cases "emit_org opts")
  case True
  then obtain opnd sp where os: "os = [Directive_Stmt Org [opnd] [] sp]" "o_kind opnd = Op_Number"
      "o_number opnd = ucast (dis_origin opts)"
    using assms(1) by (auto simp: origin_statement_def)
  have "\<not> (0xFFFF < o_number opnd)" using ucast_u16_u32(2) by (simp add: os(3) not_less)
  then show ?thesis
    using os(2,3) assms(2) by (simp add: os(1) require_number_operand_def throw_if_def first_pass_init_def)
qed (use assms(1) in \<open>simp add: origin_statement_def\<close>)

lemma no_includes:
  assumes "origin_statement opts os" and "list_all2 chunk_statement cs ss"
  shows "list_all (\<lambda>s. include_path s = None) (os @ ss)"
proof -
  have "list_all (\<lambda>s. include_path s = None) ss"
    using assms(2) by (induction rule: list_all2_induct) (auto simp: chunk_statement_def split: option.splits)
  then show ?thesis using assms(1) by (auto simp: origin_statement_def split: if_splits)
qed

text \<open>Assembling the listing of a ROM.\<close>

lemma assemble_listing:
  assumes "widths_ok isa" and "list_all (chunk_reassembles isa) (chunks isa rom 0 (dis_origin opts))"
    and "unat (dis_origin opts) + length rom \<le> 0x10000" and "opt_origin options = dis_origin opts"
    and "unat (opt_rom_size options) = length rom" and "disassemble isa rom None opts = Inr src"
  shows "\<exists>result. assemble fuel isa fs current_path src file options = Some (Inr result) \<and>
    a_rom result = rom \<and> h_entry (a_header result) = dis_origin opts"
proof -
  define cs where "cs = chunks isa rom 0 (dis_origin opts)"
  have facts: "concat (map c_bytes cs) = rom" "placed_from (unat (dis_origin opts)) cs"
    "list_all (\<lambda>c. chunk_ok c \<and> (\<forall>info. c_info c = Some info \<longrightarrow> info \<in> set (isa_instructions isa))) cs"
    and len: "chunks_length cs = length rom"
    using chunks_facts [OF assms(1), of rom 0 "dis_origin opts"] chunks_length_rom [OF assms(1), of rom] assms(3)
    by (simp_all add: cs_def)
  have ok: "list_all (\<lambda>c. chunk_reassembles isa c \<and> chunk_ok c \<and>
      (\<forall>info. c_info c = Some info \<longrightarrow> info \<in> set (isa_instructions isa))) cs"
    using facts(3) assms(2) by (simp add: cs_def list_all_iff)
  have named: "list_all chunk_named cs"
    using ok by (auto simp: list_all_iff chunk_named_def chunk_reassembles_def split: option.splits)
  have src: "src = (if emit_org opts then ''.org '' @ format_hex_word (dis_origin opts) @ [newline] else []) @
      concat (map (chunk_text opts) cs)"
    using assms(6) disassemble_loop_chunks [OF assms(1), of rom opts 0]
    by (simp add: disassemble_def build_label_map_def cs_def)
  have "ahead (make_lexer src file) = src" by (simp add: ahead_def make_lexer_def)
  with lexes_listing [OF named] src obtain ts where
    ts: "lex_source (make_lexer src file) = Inr ts"
      "list_all2 fits (origin_shapes opts @ concat (map chunk_shapes cs) @ [Plain End_Of_File]) ts"
    unfolding lexes_def by metis
  from parse_listing [OF ts(2)] obtain os ss where
    ss: "parse ts = Inr (os @ ss)" "origin_statement opts os" "list_all2 chunk_statement cs ss" by blast
  let ?init = "first_pass_init options"
  have cursor: "fp_cursor ?init = unat (dis_origin opts)" "fp_items ?init = []"
    "fp_max_address ?init = dis_origin opts"
    by (simp_all add: first_pass_init_def assms(4))
  from first_pass_chunks [OF assms(1) ok ss(3), of ?init options] facts(2) assms(3) len cursor obtain pass where
    pass: "fold_ok (first_pass_statement isa options) ss ?init = Inr pass"
      "list_all2 chunk_item cs (fp_items pass)"
      "unat (fp_max_address pass) \<le> max (unat (dis_origin opts)) (unat (dis_origin opts) + length rom - 1)"
    by auto
  have first: "first_pass isa options (os @ ss) = Inr pass"
    by (simp add: first_pass_def fold_ok_append first_pass_origin [OF ss(2) assms(4)] pass(1))
  have "\<exists>result. encode pass options file = Inr result \<and> a_rom result = rom \<and>
      h_entry (a_header result) = dis_origin opts"
  proof -
    define rel where "rel = relative_to_root (if file = [] then ''unknown.asm'' else file)
        (parent_path (if file = [] then ''unknown.asm'' else file))"
    let ?st = "\<lparr>en_rom = replicate (unat (opt_rom_size options)) 0xFF, en_files = [], en_records = []\<rparr>"
    have "list_all (\<lambda>c. chunk_ok c \<and> chunk_reassembles isa c) cs" using ok by (simp add: list_all_iff)
    from encode_chunks [OF pass(2) this, of "unat (dis_origin opts)" 0 ?st pass rel] facts(2) len assms(5)
    obtain st' where st': "fold_ok (encode_item pass (unat (dis_origin opts)) rel) (fp_items pass) ?st = Inr st'"
        "en_rom st' = rom"
      by (auto simp: facts(1))
    have "\<not> unat (opt_rom_size options) < max (unat (fp_max_address pass)) (unat (dis_origin opts)) - unat (dis_origin opts)"
      using pass(3) assms(5) by linarith
    then show ?thesis
      using st' by (simp add: encode_def Let_def assms(4) rel_def)
  qed
  then show ?thesis
    using first ss(1) process_program_id [OF no_includes [OF ss(2,3)]]
    by (simp add: assemble_def ts(1) process_includes_def Let_def)
qed

text \<open>
  A listing that does not change: every chunk can be read again, and the ROM fits the address
  space from its origin on.
\<close>

definition listing_reassembles :: "isa_info \<Rightarrow> u8 list \<Rightarrow> u16 \<Rightarrow> bool" where
  "listing_reassembles isa rom origin =
     (widths_ok isa \<and> unat origin + length rom \<le> 0x10000 \<and>
      list_all (chunk_reassembles isa) (chunks isa rom 0 origin))"

lemma disassemble_returns:
  assumes "widths_ok isa"
  shows "\<exists>src. disassemble isa rom None opts = Inr src"
  using disassemble_loop_chunks [OF assms, of rom opts 0 "dis_origin opts"]
  by (simp add: disassemble_def build_label_map_def)

text \<open>
  The condition on small absolute operands is needed: such an operand is printed with four
  digits, and the assembler prefers the zero-page form of the mnemonic when there is one.
\<close>

lemma small_absolute_shrinks:
  assumes "operand_fits ABS v opnds" and "v \<le> 0xFF"
    and "find_by_mnemonic_and_mode isa m ZP = Some info" and "\<not> is_relative_mnemonic m"
  shows "select_instruction isa m opnds sp = Inr info"
  using assms
  by (auto simp: operand_fits_def select_instruction_def candidate_modes_def small_number_def)

end
