(* ===== verification/Tools_Roundtrip.thy ===== *)
theory Tools_Roundtrip
  imports Tools Disassembly_Roundtrip Asm_Passes
begin

text \<open>
  The tools over their files: the cartridge that the assembler writes is inspected as it was
  assembled, and its listing assembles to the same file.
\<close>

lemma default_standard: "standard_options default_options"
  by (simp add: standard_options_def default_options_def cartridge_size_ok_def is_power_of_two_def)

text \<open>What an assembled file is.\<close>

lemma assemble_result:
  assumes "assemble fuel isa fs current_path src file default_options = Some (Inr result)"
  shows "a_header result = default_header\<lparr>h_entry := 0x8000, h_rom_size := 0x8000\<rparr>"
    and "length (a_rom result) = 0x8000"
    and "load_cartridge path (Some (write_cartridge result)) = Inr \<lparr>l_header = a_header result, l_rom = a_rom result\<rparr>"
proof -
  obtain program pass where pass: "first_pass isa default_options program = Inr pass"
    and enc: "encode pass default_options file = Inr result"
    using assms by (auto simp: assemble_def Let_def elim!: run_bind_InrE bind_ok_eq_InrE)
  note r = encode_result [OF enc first_pass_items_size [OF pass]]
  show "a_header result = default_header\<lparr>h_entry := 0x8000, h_rom_size := 0x8000\<rparr>"
    by (simp add: r(2) default_options_def)
  show "length (a_rom result) = 0x8000"
    by (simp add: r(1) rom_image_def default_options_def)
  show "load_cartridge path (Some (write_cartridge result)) = Inr \<lparr>l_header = a_header result, l_rom = a_rom result\<rparr>"
    by (rule result_memory(2) [OF pass enc default_standard])
qed

lemma assembled_file_loads:
  assumes "assemble_file fuel isa fs current_path input default_options = Some (Inr result)"
  shows "load_cartridge path (Some (write_cartridge result)) = Inr \<lparr>l_header = a_header result, l_rom = a_rom result\<rparr>"
  using assms assemble_result(3) by (auto simp: assemble_file_def split: option.splits)

lemma inspect_assembled:
  assumes "assemble fuel isa fs current_path src file default_options = Some (Inr result)"
    and "disk out = Some (write_cartridge result)" and "out \<noteq> []"
  shows "inspect_main [''--rom'', out] disk =
    Some (Exit 0, inspect_header \<lparr>l_header = a_header result, l_rom = a_rom result\<rparr>)"
  using assms(2,3) assemble_result(3) [OF assms(1)]
  by (simp add: inspect_main_def optional_symbols_def)

lemma disasm_assembled:
  assumes "assemble fuel isa fs current_path src file default_options = Some (Inr result)"
    and "disk out = Some (write_cartridge result)" and "out \<noteq> []"
    and "disassemble isa (a_rom result) None default_disassemble_options = Inr listing"
  shows "disasm_main isa [''--rom'', out] disk = Some (Exit 0, listing)"
  using assms(2-4) assemble_result(3) [OF assms(1)]
  by (simp add: disasm_main_def optional_symbols_def default_disasm_args_def)

lemma tools_agree:
  assumes "asm_main fuel isa canonical current_path writable [input, out] disk = Some (Exit 0, disk1)"
    and "load_cartridge out (disk1 out) = Inr c" and "listing_reassembles isa (l_rom c) 0x8000"
    and "out \<noteq> []" and "writable out2"
  shows "\<exists>listing. disasm_main isa [''--rom'', out] disk1 = Some (Exit 0, listing) \<and>
    inspect_main [''--rom'', out] disk1 = Some (Exit 0, inspect_header c) \<and>
    asm_main fuel2 isa canonical2 current_path2 writable [path, out2] (disk1(path \<mapsto> file_bytes listing)) =
      Some (Exit 0, disk1(path \<mapsto> file_bytes listing, out2 \<mapsto> the (disk1 out)))"
proof -
  obtain result where "assemble_file fuel isa (disk_system canonical disk) current_path input default_options =
      Some (Inr result)" and disk1: "disk1 = disk(out \<mapsto> write_cartridge result)"
    by (rule asm_main_Inr [OF assms(1)])
  then obtain src where asm: "assemble fuel isa (disk_system canonical disk) current_path src input default_options =
      Some (Inr result)"
    by (auto simp: assemble_file_def split: option.splits)
  have out: "disk1 out = Some (write_cartridge result)" by (simp add: disk1)
  note r = assemble_result [OF asm]
  have c: "c = \<lparr>l_header = a_header result, l_rom = a_rom result\<rparr>"
    using assms(2) r(3) [of out] by (simp add: out)
  have w: "widths_ok isa" "list_all (chunk_reassembles isa) (chunks isa (a_rom result) 0 0x8000)"
    using assms(3) by (simp_all add: listing_reassembles_def c)
  obtain listing where listing: "disassemble isa (a_rom result) None default_disassemble_options = Inr listing"
    using disassemble_returns [OF w(1)] by blast
  let ?disk = "disk1(path \<mapsto> file_bytes listing)"
  have o: "dis_origin default_disassemble_options = 0x8000" "opt_origin default_options = 0x8000"
    "unat (opt_rom_size default_options) = 0x8000"
    by (simp_all add: default_disassemble_options_def default_options_def)
  from assemble_listing [OF w(1) _ _ _ _ listing, of default_options fuel2 "disk_system canonical2 ?disk"
      current_path2 path] w(2) o r(2)
  obtain result2 where asm2: "assemble fuel2 isa (disk_system canonical2 ?disk) current_path2 listing path default_options =
      Some (Inr result2)" and rom2: "a_rom result2 = a_rom result" by auto
  have same: "write_cartridge result2 = write_cartridge result"
    by (simp add: write_cartridge_def rom2 r(1) assemble_result(1) [OF asm2])
  have "assemble_file fuel2 isa (disk_system canonical2 ?disk) current_path2 path default_options = Some (Inr result2)"
    by (simp add: assemble_file_def disk_system_def disk_text_def asm2 [unfolded disk_system_def])
  from asm_main_returns [where writable = writable and out = out2, OF this assms(5)] same
  have "asm_main fuel2 isa canonical2 current_path2 writable [path, out2] ?disk =
      Some (Exit 0, ?disk(out2 \<mapsto> the (disk1 out)))" by (simp add: out)
  with disasm_assembled [where disk = disk1 and out = out, OF asm out assms(4) listing]
    inspect_assembled [where disk = disk1 and out = out, OF asm out assms(4)]
  show ?thesis by (auto simp: c)
qed

end
