(* ===== verification/Example_Assembly.thy ===== *)
theory Example_Assembly
  imports Asm_Passes
begin

text \<open>
  A small program with its instruction set, for the witnesses of the assembler's properties: a
  source text, its statements, and an include that includes itself.
\<close>

definition example_isa :: isa_info where
  "example_isa =
     \<lparr>isa_instructions =
        [\<lparr>i_mnemonic = ''LDA'', i_mode = IMM, i_opcode = 0x10\<rparr>,
         \<lparr>i_mnemonic = ''JMP'', i_mode = ABS, i_opcode = 0x30\<rparr>,
         \<lparr>i_mnemonic = ''BEQ'', i_mode = REL, i_opcode = 0x40\<rparr>],
      isa_operand_bytes = (\<lambda>m. case m of IMP \<Rightarrow> Some 0 | ABS \<Rightarrow> Some 2 | _ \<Rightarrow> Some 1)\<rparr>"

definition example_text :: string where
  "example_text = ''lda #5'' @ [newline] @ ''go: beq go ; spin'' @ [newline]"

definition example_span :: "nat \<Rightarrow> nat \<Rightarrow> nat \<Rightarrow> span" where
  "example_span l c n = \<lparr>span_file = ''f'', span_line = l, span_column = c, span_length = n\<rparr>"

definition number_five :: operand where
  "number_five = \<lparr>o_kind = Op_Number, o_number = 5, o_label = [], o_immediate = True,
     o_indirect = False, o_index = No_Index, o_span = example_span 1 5 2\<rparr>"

definition label_go :: operand where
  "label_go = \<lparr>o_kind = Op_Label, o_number = 0, o_label = ''go'', o_immediate = False,
     o_indirect = False, o_index = No_Index, o_span = example_span 2 9 2\<rparr>"

definition example_program_asm :: "statement list" where
  "example_program_asm =
     [Instruction_Stmt ''lda'' [number_five] (example_span 1 1 3),
      Label_Decl ''go'' (example_span 2 1 2),
      Instruction_Stmt ''beq'' [label_go] (example_span 2 5 3)]"

definition example_options :: assembler_options where
  "example_options = \<lparr>opt_origin = 0x8000, opt_rom_size = 8\<rparr>"

definition self_include :: file_system where
  "self_include = \<lparr>fs_canonical = (\<lambda>p. Some ''/a''),
     fs_read = (\<lambda>p. Some (''.include '' @ [CHR 0x22, CHR ''a'', CHR 0x22]))\<rparr>"

lemma example_parses:
  "bind_ok (lex_source (make_lexer example_text ''f'')) parse = Inr example_program_asm"
  by code_simp

lemma example_lexes: "is_ok (lex_source (make_lexer example_text ''f''))"
  by code_simp

definition example_items :: "emittable list" where
  "example_items =
     [\<lparr>e_address = 0x8000, e_span = example_span 1 1 3, e_text = ''lda 5'', e_kind = Emit_Instruction,
       e_mode = IMM, e_opcode = 0x10, e_operand_bytes = 1, e_operands = [number_five]\<rparr>,
      \<lparr>e_address = 0x8002, e_span = example_span 2 5 3, e_text = ''beq go'', e_kind = Emit_Instruction,
       e_mode = REL, e_opcode = 0x40, e_operand_bytes = 1, e_operands = [label_go]\<rparr>]"

definition example_pass :: first_pass_state where
  "example_pass = \<lparr>fp_items = example_items, fp_symbols = [(''go'', 0x8002)], fp_constants = [],
     fp_origin = 0x8000, fp_max_address = 0x8003, fp_cursor = 0x8004\<rparr>"

lemma example_select:
  "select_instruction example_isa ''lda'' [number_five] sp = Inr \<lparr>i_mnemonic = ''LDA'', i_mode = IMM, i_opcode = 0x10\<rparr>"
  "select_instruction example_isa ''beq'' [label_go] sp = Inr \<lparr>i_mnemonic = ''BEQ'', i_mode = REL, i_opcode = 0x40\<rparr>"
  by code_simp+

lemma example_texts:
  "format_instruction_text ''lda'' [number_five] = ''lda 5''"
  "format_instruction_text ''beq'' [label_go] = ''beq go''"
  by code_simp+

lemma example_operand_bytes: "isa_operand_bytes example_isa IMM = Some 1" "isa_operand_bytes example_isa REL = Some 1"
  by (simp_all add: example_isa_def)

lemma example_pass: "first_pass example_isa example_options example_program_asm = Inr example_pass"
  by (simp add: first_pass_def first_pass_init_def example_program_asm_def example_options_def
    example_select example_texts example_operand_bytes place_item_def validate_cursor_def
    update_max_address_def emplace_def example_pass_def example_items_def Let_def throw_if_def)

lemma example_resolves:
  "resolve_byte_operand example_pass number_five = Inr 5"
  "resolve_relative_operand example_pass label_go 0x8002 = Inr 0xFE"
  "branch_target example_pass label_go = Inr 0x8002"
  by (simp_all add: resolve_byte_operand_def number_five_def resolve_relative_operand_def
    branch_target_def label_go_def lookup_name_def example_pass_def)

lemma example_encodes: "is_ok (encode example_pass example_options ''f'')"
  using example_resolves
  by (simp add: encode_def Let_def example_pass_def example_items_def example_options_def
    encode_item_def encode_instruction_item_def)

lemma example_no_org: "list_all (\<lambda>s. \<not> is_org s) example_program_asm"
  by (simp add: example_program_asm_def)

lemma example_standard: "standard_options example_options"
  by (simp add: standard_options_def example_options_def cartridge_size_ok_def is_power_of_two_def)

section \<open>Includes\<close>

lemma self_include_loads:
  "load_and_parse self_include ''/a'' = Inr [Directive_Stmt Include [] ''a''
     \<lparr>span_file = ''/a'', span_line = 1, span_column = 1, span_length = 8\<rparr>]"
  by code_simp

lemma self_include_cycle: "include_cycle self_include {''/a''}"
  using self_include_loads by (fastforce simp: include_cycle_def self_include_def)

text \<open>A file with no includes of its own, under every name.\<close>

definition one_include :: file_system where
  "one_include = \<lparr>fs_canonical = (\<lambda>p. Some ''/b''), fs_read = (\<lambda>p. if p = ''/b'' then Some ''nop'' else None)\<rparr>"

lemma one_include_loads:
  "load_and_parse one_include ''/b'' = Inr [Instruction_Stmt ''nop'' []
     \<lparr>span_file = ''/b'', span_line = 1, span_column = 1, span_length = 3\<rparr>]"
  by code_simp

lemma one_include_ranked: "ranked one_include (\<lambda>p. 0)"
proof -
  have "p = ''/b''" if "load_and_parse one_include p = Inr ss" for p ss
    using that by (cases "p = ''/b''") (simp_all add: load_and_parse_def one_include_def)
  then show ?thesis using one_include_loads by (fastforce simp: ranked_def includes_below_def)
qed

end
