(* ===== verification/Debug_Roundtrip.thy ===== *)
theory Debug_Roundtrip
  imports Sim_Debug_Symbols
begin

text \<open>
  The JSON parser always returns, and what the assembler prints is read back: first the
  termination of the recursive descent, then how each printed form is parsed, and last the
  whole document.
\<close>

section \<open>The parser returns\<close>

lemma j_skip_length: "length (j_skip s) \<le> length s"
  by (induction s) auto

lemma j_consume_length: "j_consume c s = Inr s' \<Longrightarrow> c \<noteq> CHR 0x00 \<Longrightarrow> length s' < length s"
  by (cases s) (auto simp: j_consume_def j_peek_def split: if_splits)

lemma string_chars_length: "string_chars out s = Inr (v, s') \<Longrightarrow> length s' < length s"
proof (induction out s rule: string_chars.induct)
  case (2 out ch s)
  show ?case
  proof (cases "ch = CHR 0x22 \<or> ch \<noteq> CHR 0x5C")
    case True
    with 2 show ?thesis by (auto split: if_splits)
  next
    case False
    then have ch: "ch \<noteq> CHR 0x22" "ch = CHR 0x5C" by auto
    with "2.prems" obtain esc t where s: "s = esc # t" by (cases s) auto
    show ?thesis
    proof (cases "simple_escape esc")
      case (Some c)
      with 2 ch s show ?thesis by fastforce
    next
      case None
      with "2.prems" ch s obtain c u where u: "esc = CHR ''u''" "parse_unicode_escape t = Inr (c, u)"
        by (auto split: if_splits sum.splits)
      have "length s' < length u"
        using "2.IH"(1) [OF ch s None u(1) u(2) refl] "2.prems" ch s None u by simp
      with parse_unicode_escape_length [OF u(2)] s show ?thesis by simp
    qed
  qed
qed simp

lemma parse_string_length: "parse_string s = Inr (v, s') \<Longrightarrow> length s' < length s"
  by (auto simp: parse_string_def elim!: bind_ok_eq_InrE dest!: string_chars_length j_consume_length)

lemma length_dropWhile_less: "takeWhile p s \<noteq> [] \<Longrightarrow> length (dropWhile p s) < length s"
  by (cases s) (auto simp: length_dropWhile_le le_imp_less_Suc split: if_splits)

lemma parse_number_length:
  assumes "parse_number s = Inr (v, s')"
  shows "length s' < length s"
proof -
  define s1 where "s1 = (if j_peek s = CHR ''-'' then tl s else s)"
  have ne: "takeWhile is_digit s1 \<noteq> []" and s': "s' = dropWhile is_digit s1"
    using assms by (auto simp: parse_number_def s1_def Let_def split: if_splits elim!: bind_ok_eq_InrE)
  have "length s1 \<le> length s" by (simp add: s1_def)
  with length_dropWhile_less [OF ne] s' show ?thesis by simp
qed

text \<open>
  A parser of values is good up to a length when it returns there, with a shorter rest.
\<close>

definition value_parser :: "nat \<Rightarrow> (string \<Rightarrow> json j_result) \<Rightarrow> bool" where
  "value_parser l val =
     (\<forall>s. length s < l \<longrightarrow> val s \<noteq> None \<and> (\<forall>v s'. val s = Some (Inr (v, s')) \<longrightarrow> length s' < length s))"

lemma value_parserD:
  assumes "value_parser l val" and "length s < l"
  shows "val s \<noteq> None" and "val s = Some (Inr (v, s')) \<Longrightarrow> length s' < length s"
  using assms by (auto simp: value_parser_def)

lemma run_bind_eq_None: "run_bind r f = None \<longleftrightarrow> r = None \<or> (\<exists>x. r = Some (Inr x) \<and> f x = None)"
  by (cases r) (auto simp: run_bind_def split: sum.splits)

lemma parse_members_good:
  assumes "value_parser l val"
  shows "length s < l \<Longrightarrow> length s < n \<Longrightarrow> parse_members n val s obj \<noteq> None \<and>
    (\<forall>v s'. parse_members n val s obj = Some (Inr (v, s')) \<longrightarrow> length s' < length s)"
proof (induction n arbitrary: s obj)
  case (Suc n)
  show ?case
  proof (cases "parse_string (j_skip s)")
    case (Inr p)
    obtain name s1 where p: "p = (name, s1)" by fastforce
    have l1: "length s1 < length s"
      using parse_string_length [OF Inr [unfolded p]] j_skip_length [of s] by simp
    show ?thesis
    proof (cases "j_consume CHR '':'' (j_skip s1)")
      case c: (Inr s2)
      have l2: "length s2 < length s1" using j_consume_length [OF c] j_skip_length [of s1] by simp
      then have "length s2 < l" using l1 Suc.prems by simp
      note val = value_parserD [OF assms this]
      show ?thesis
      proof (cases "val s2")
        case None
        with val(1) show ?thesis by simp
      next
        case (Some r)
        show ?thesis
        proof (cases r)
          case (Inl e)
          with Some Inr p c show ?thesis by simp
        next
          case v: (Inr q)
          obtain w s3 where q: "q = (w, s3)" by fastforce
          have l3: "length s3 < length s2" using val(2) Some v q by simp
          show ?thesis
          proof (cases "j_peek (j_skip s3) = CHR ''}''")
            case True
            with Some Inr p c v q l1 l2 l3 j_skip_length [of s3] show ?thesis
              by (auto simp: Let_def elim!: bind_ok_eq_InrE dest!: j_consume_length)
          next
            case False
            show ?thesis
            proof (cases "j_consume CHR '','' (j_skip s3)")
              case (Inl e)
              with Some Inr p c v q False show ?thesis by (simp add: Let_def)
            next
              case k: (Inr s5)
              have l5: "length s5 < length s3" using j_consume_length [OF k] j_skip_length [of s3] by simp
              then have "length s5 < l" "length s5 < n" using l1 l2 l3 Suc.prems by linarith+
              from Suc.IH [OF this, of "emplace name w obj"] Some Inr p c v q False k l1 l2 l3 l5
              show ?thesis by (auto simp: Let_def)
            qed
          qed
        qed
      qed
    qed (use Inr p in simp)
  qed simp
qed simp

lemma parse_elements_good:
  assumes "value_parser l val"
  shows "length s < l \<Longrightarrow> length s < n \<Longrightarrow> parse_elements n val s vs \<noteq> None \<and>
    (\<forall>v s'. parse_elements n val s vs = Some (Inr (v, s')) \<longrightarrow> length s' < length s)"
proof (induction n arbitrary: s vs)
  case (Suc n)
  note val = value_parserD [OF assms Suc.prems(1)]
  show ?case
  proof (cases "val s")
    case None
    with val(1) show ?thesis by simp
  next
    case (Some r)
    show ?thesis
    proof (cases r)
      case (Inl e)
      with Some show ?thesis by simp
    next
      case v: (Inr q)
      obtain w s3 where q: "q = (w, s3)" by fastforce
      have l3: "length s3 < length s" using val(2) Some v q by simp
      show ?thesis
      proof (cases "j_peek (j_skip s3) = CHR '']''")
        case True
        with Some v q l3 j_skip_length [of s3] show ?thesis
          by (auto simp: Let_def elim!: bind_ok_eq_InrE dest!: j_consume_length)
      next
        case False
        show ?thesis
        proof (cases "j_consume CHR '','' (j_skip s3)")
          case (Inl e)
          with Some v q False show ?thesis by (simp add: Let_def)
        next
          case k: (Inr s5)
          have l5: "length s5 < length s3" using j_consume_length [OF k] j_skip_length [of s3] by simp
          then have "length s5 < l" "length s5 < n" using l3 Suc.prems by linarith+
          from Suc.IH [OF this, of "vs @ [w]"] Some v q False k l3 l5
          show ?thesis by (auto simp: Let_def)
        qed
      qed
    qed
  qed
qed simp

lemma bracket_good:
  assumes "r \<noteq> None" and "\<And>v s'. r = Some (Inr (v, s')) \<Longrightarrow> length s' < l"
  shows "run_bind r (\<lambda>(v, s'). Some (Inr (f v, s'))) \<noteq> None \<and>
    (\<forall>v s'. run_bind r (\<lambda>(v, s'). Some (Inr (f v, s'))) = Some (Inr (v, s')) \<longrightarrow> length s' < l)"
  using assms by (auto simp: run_bind_def split: option.splits sum.splits)

lemma parse_object_good:
  assumes "value_parser l val" and "length s \<le> l" and "length s \<le> n"
  shows "parse_object n val s \<noteq> None \<and>
    (\<forall>v s'. parse_object n val s = Some (Inr (v, s')) \<longrightarrow> length s' < length s)"
proof (cases "j_consume CHR ''{'' s")
  case (Inl e)
  then show ?thesis by (simp add: parse_object_def)
next
  case (Inr s1)
  have l1: "length s1 < length s" using j_consume_length [OF Inr] by simp
  have l2: "length (j_skip s1) \<le> length s1" by (rule j_skip_length)
  show ?thesis
  proof (cases "j_peek (j_skip s1) = CHR ''}''")
    case True
    with Inr l1 l2 show ?thesis
      by (auto simp: parse_object_def Let_def elim!: bind_ok_eq_InrE dest!: j_consume_length)
  next
    case False
    have m: "parse_members n val (j_skip s1) [] \<noteq> None \<and>
        (\<forall>v s'. parse_members n val (j_skip s1) [] = Some (Inr (v, s')) \<longrightarrow> length s' < length (j_skip s1))"
      using l1 l2 assms by (intro parse_members_good [OF assms(1)]) auto
    then have "run_bind (parse_members n val (j_skip s1) []) (\<lambda>(v, s'). Some (Inr (Json_Object v, s'))) \<noteq> None \<and>
        (\<forall>v s'. run_bind (parse_members n val (j_skip s1) []) (\<lambda>(v, s'). Some (Inr (Json_Object v, s'))) =
           Some (Inr (v, s')) \<longrightarrow> length s' < length s)"
      by (intro bracket_good) (use l1 l2 in fastforce)+
    with Inr False show ?thesis by (simp add: parse_object_def Let_def)
  qed
qed

lemma parse_array_good:
  assumes "value_parser l val" and "length s \<le> l" and "length s \<le> n"
  shows "parse_array n val s \<noteq> None \<and>
    (\<forall>v s'. parse_array n val s = Some (Inr (v, s')) \<longrightarrow> length s' < length s)"
proof (cases "j_consume CHR ''['' s")
  case (Inl e)
  then show ?thesis by (simp add: parse_array_def)
next
  case (Inr s1)
  have l1: "length s1 < length s" using j_consume_length [OF Inr] by simp
  have l2: "length (j_skip s1) \<le> length s1" by (rule j_skip_length)
  show ?thesis
  proof (cases "j_peek (j_skip s1) = CHR '']''")
    case True
    with Inr l1 l2 show ?thesis
      by (auto simp: parse_array_def Let_def elim!: bind_ok_eq_InrE dest!: j_consume_length)
  next
    case False
    have m: "parse_elements n val (j_skip s1) [] \<noteq> None \<and>
        (\<forall>v s'. parse_elements n val (j_skip s1) [] = Some (Inr (v, s')) \<longrightarrow> length s' < length (j_skip s1))"
      using l1 l2 assms by (intro parse_elements_good [OF assms(1)]) auto
    then have "run_bind (parse_elements n val (j_skip s1) []) (\<lambda>(v, s'). Some (Inr (Json_Array v, s'))) \<noteq> None \<and>
        (\<forall>v s'. run_bind (parse_elements n val (j_skip s1) []) (\<lambda>(v, s'). Some (Inr (Json_Array v, s'))) =
           Some (Inr (v, s')) \<longrightarrow> length s' < length s)"
      by (intro bracket_good) (use l1 l2 in fastforce)+
    with Inr False show ?thesis by (simp add: parse_array_def Let_def)
  qed
qed

lemma j_match_length: "j_match t s \<Longrightarrow> length t \<le> length s"
  by (auto simp: j_match_def dest!: arg_cong [of _ _ length])

lemma parse_value_good: "value_parser n (parse_value n)"
proof (induction n)
  case 0
  show ?case by (simp add: value_parser_def)
next
  case (Suc n)
  show ?case
    unfolding value_parser_def
  proof (intro allI impI)
    fix s0 :: string assume s0: "length s0 < Suc n"
    define s where "s = j_skip s0"
    have l: "length s \<le> length s0" by (simp add: s_def j_skip_length)
    with s0 have ln: "length s \<le> n" by simp
    note o = parse_object_good [OF Suc.IH ln ln] and a = parse_array_good [OF Suc.IH ln ln]
    have lit: "length (drop (length t) s) < length s0" if "j_match t s" "t \<noteq> []" for t
      using j_match_length [OF that(1)] that(2) l by (cases t) auto
    have "parse_value (Suc n) s0 \<noteq> None \<and>
        (\<forall>v s'. parse_value (Suc n) s0 = Some (Inr (v, s')) \<longrightarrow> length s' < length s0)"
      using o a l lit [of "''null''"] lit [of "''true''"] lit [of "''false''"]
      by (auto simp: Let_def s_def [symmetric] elim!: bind_ok_eq_InrE
        dest!: parse_string_length parse_number_length)
    then show "parse_value (Suc n) s0 \<noteq> None \<and>
        (\<forall>v s'. parse_value (Suc n) s0 = Some (Inr (v, s')) \<longrightarrow> length s' < length s0)" .
  qed
qed

lemma json_terminates: "parse_json s \<noteq> None"
proof -
  have "parse_value (json_fuel s) (j_skip s) \<noteq> None"
    using value_parserD(1) [OF parse_value_good] j_skip_length [of s] by (simp add: json_fuel_def del: parse_value.simps)
  then show ?thesis by (auto simp: parse_json_def run_bind_eq_None)
qed

lemma load_debug_symbols_returns: "load_debug_symbols path contents \<noteq> None"
proof (cases contents)
  case (Some doc)
  have "run_bind (parse_json doc) (\<lambda>root. Some (symbols_of_json root)) \<noteq> None"
    unfolding run_bind_eq_None using json_terminates [of doc] by simp
  with Some show ?thesis by (simp add: load_debug_symbols_def)
qed (simp add: load_debug_symbols_def)

section \<open>Printed forms\<close>

definition spaces :: "string \<Rightarrow> bool" where
  "spaces w = list_all is_json_space w"

lemma spaces_simps [simp]: "spaces []" "spaces (c # w) \<longleftrightarrow> is_json_space c \<and> spaces w"
  "spaces (v @ w) \<longleftrightarrow> spaces v \<and> spaces w"
  by (simp_all add: spaces_def)

lemma json_spaces [simp]: "is_json_space CHR '' ''" "is_json_space newline"
  by (simp_all add: is_json_space_def)

lemma j_skip_spaces [simp]: "spaces w \<Longrightarrow> j_skip (w @ s) = j_skip s"
  by (induction w) auto

lemma j_skip_id [simp]: "\<not> is_json_space c \<Longrightarrow> j_skip (c # s) = c # s"
  by simp

lemma j_skip_idem [simp]: "j_skip (j_skip s) = j_skip s"
  by (induction s) auto

lemma j_peek_Cons [simp]: "j_peek (c # s) = c"
  by (simp add: j_peek_def)

lemma j_consume_Cons [simp]: "j_consume c (c # s) = Inr s"
  by (simp add: j_consume_def)

lemma json_marks [simp]:
  "\<not> is_json_space CHR 0x22" "\<not> is_json_space CHR ''{''" "\<not> is_json_space CHR ''}''"
  "\<not> is_json_space CHR ''[''" "\<not> is_json_space CHR '']''" "\<not> is_json_space CHR '',''"
  "\<not> is_json_space CHR '':''"
  by (simp_all add: is_json_space_def)

lemma parse_value_skip: "parse_value n (j_skip s) = parse_value n s"
  by (cases n) simp_all

text \<open>What may follow a value: not a digit, which would extend a number.\<close>

definition no_digit :: "string \<Rightarrow> bool" where
  "no_digit s = (s = [] \<or> \<not> is_digit (hd s))"

definition reads :: "string \<Rightarrow> json \<Rightarrow> bool" where
  "reads s v = (\<forall>u n. no_digit u \<longrightarrow> length (s @ u) < n \<longrightarrow> parse_value n (s @ u) = Some (Inr (v, u)))"

lemma readsD: "reads s v \<Longrightarrow> no_digit u \<Longrightarrow> length (s @ u) < n \<Longrightarrow> parse_value n (s @ u) = Some (Inr (v, u))"
  by (simp add: reads_def)

lemma reads_spaces:
  assumes "reads s v" and "spaces w"
  shows "reads (w @ s) v"
  unfolding reads_def
proof (intro allI impI)
  fix u n assume "no_digit u" "length ((w @ s) @ u) < n"
  then have "parse_value n (s @ u) = Some (Inr (v, u))" using assms(1) by (simp add: reads_def)
  moreover have "parse_value n (w @ s @ u) = parse_value n (s @ u)"
    using assms(2) by (metis j_skip_spaces parse_value_skip)
  ultimately show "parse_value n ((w @ s) @ u) = Some (Inr (v, u))" by simp
qed

subsection \<open>Strings\<close>

lemma digit_char_0 [simp]: "digit_char 0 = CHR ''0''"
  by code_simp

lemma digit_value_0: "digit_value CHR ''0'' = 0"
  by code_simp

lemma pad_hex_digits: "pad_left 4 c [x] = [c, c, c, x]" "pad_left 4 c [x, y] = [c, c, x, y]"
  by (simp_all add: pad_left_def eval_nat_numeral)

lemma hex_control:
  assumes "n < 0x20"
  shows "pad_left 4 CHR ''0'' (hexadecimal n) =
    [CHR ''0'', CHR ''0'', digit_char (n div 16), digit_char (n mod 16)]"
proof (cases "n < 16")
  case True
  then have "hexadecimal n = [digit_char n]"
    unfolding hexadecimal_def by (subst digits_in.simps) simp
  moreover have "n div 16 = 0" "n mod 16 = n" using True by simp_all
  ultimately show ?thesis by (simp only: pad_hex_digits digit_char_0)
next
  case False
  with assms have "n div 16 < 16" by linarith
  then have "digits_in 16 (n div 16) = [digit_char (n div 16)]" by (subst digits_in.simps) simp
  then have "hexadecimal n = [digit_char (n div 16), digit_char (n mod 16)]"
    using False unfolding hexadecimal_def by (subst digits_in.simps) simp
  then show ?thesis by (simp only: pad_hex_digits)
qed

lemma four: "4 = Suc (Suc (Suc (Suc 0)))"
  by simp

lemma parse_unicode_control:
  assumes "of_char ch < (0x20 :: nat)"
  shows "parse_unicode_escape (pad_left 4 CHR ''0'' (hexadecimal (of_char ch)) @ s) = Inr (ch, s)"
proof -
  let ?n = "of_char ch :: nat"
  have d: "digit_value (digit_char (?n div 16)) = int (?n div 16)"
      "digit_value (digit_char (?n mod 16)) = int (?n mod 16)"
    using assms by simp_all
  have v: "int (?n div 16) * 16 + int (?n mod 16) = int ?n" by presburger
  have "unicode_digits 4 0 (pad_left 4 CHR ''0'' (hexadecimal ?n) @ s) =
      Inr (int (?n div 16) * 16 + int (?n mod 16), s)"
    unfolding hex_control [OF assms] unfolding four append.simps unicode_digits.simps d digit_value_0
    by simp
  then have "unicode_digits 4 0 (pad_left 4 CHR ''0'' (hexadecimal ?n) @ s) = Inr (int ?n, s)"
    unfolding v .
  moreover have "\<not> length (pad_left 4 CHR ''0'' (hexadecimal ?n) @ s) < 4"
    unfolding hex_control [OF assms] by simp
  moreover have "int ?n < 0x80" using assms by linarith
  ultimately show ?thesis
    by (simp only: parse_unicode_escape_def if_False bind_ok_Inr split_conv if_True nat_int char_of_char)
qed

lemma string_chars_escape_char: "string_chars out (escape_char ch @ s) = string_chars (out @ [ch]) s"
proof -
  consider "ch = CHR 0x22" | "ch = CHR 0x5C" | "ch = newline" | "ch = CHR 0x0D" | "ch = CHR 0x09"
    | "ch \<notin> {CHR 0x22, CHR 0x5C, newline, CHR 0x0D, CHR 0x09}" by auto
  then show ?thesis
  proof cases
    case 6
    show ?thesis
    proof (cases "of_char ch < (0x20 :: nat)")
      case True
      with 6 show ?thesis
        by (simp add: escape_char_def simple_escape_def parse_unicode_control)
    qed (use 6 in \<open>simp add: escape_char_def\<close>)
  qed (simp_all add: escape_char_def simple_escape_def)
qed

lemma string_chars_escape: "string_chars out (escape_json str @ CHR 0x22 # s) = Inr (out @ str, s)"
proof (induction str arbitrary: out)
  case Nil
  then show ?case by (simp add: escape_json_def)
next
  case (Cons c str)
  have "escape_json (c # str) = escape_char c @ escape_json str" by (simp add: escape_json_def)
  then show ?case using Cons [of "out @ [c]"] by (simp add: string_chars_escape_char del: string_chars.simps)
qed

lemma parse_quoted: "parse_string (quoted str @ s) = Inr (str, s)"
  using string_chars_escape [of "[]" str s] by (simp add: parse_string_def quoted_def)

lemma no_match_quote [simp]:
  "\<not> j_match ''null'' (c # s)" "\<not> j_match ''true'' (c # s)" "\<not> j_match ''false'' (c # s)"
  if "c \<notin> {CHR ''n'', CHR ''t'', CHR ''f''}"
  using that by (auto simp: j_match_def)

lemma reads_quoted: "reads (quoted str) (Json_String str)"
  unfolding reads_def
proof (intro allI impI)
  fix u :: string and n assume "length (quoted str @ u) < n"
  then obtain m where n: "n = Suc m" by (cases n) auto
  have "quoted str @ u = CHR 0x22 # escape_json str @ CHR 0x22 # u" by (simp add: quoted_def)
  then show "parse_value n (quoted str @ u) = Some (Inr (Json_String str, u))"
    using parse_quoted [of str u] by (simp add: n)
qed

lemma escape_json_plain:
  "list_all (\<lambda>c. c \<noteq> CHR 0x22 \<and> c \<noteq> CHR 0x5C \<and> 0x20 \<le> (of_char c :: nat)) s \<Longrightarrow> escape_json s = s"
  by (induction s) (auto simp: escape_json_def escape_char_def)

lemma alnum_plain: "is_alnum c \<Longrightarrow> c \<noteq> CHR 0x22 \<and> c \<noteq> CHR 0x5C \<and> 0x20 \<le> (of_char c :: nat)"
  by (auto simp: char_class_defs)

lemma quoted_hex_eq: "quoted_hex n = quoted (''0x'' @ hexadecimal n)"
proof -
  have "list_all (\<lambda>c. c \<noteq> CHR 0x22 \<and> c \<noteq> CHR 0x5C \<and> 0x20 \<le> (of_char c :: nat)) (hexadecimal n)"
    unfolding list_all_iff using alnum_plain hexadecimal_alnum by blast
  then have "escape_json (hexadecimal n) = hexadecimal n" by (rule escape_json_plain)
  then show ?thesis by (simp add: quoted_hex_def quoted_def escape_json_def escape_char_def)
qed

subsection \<open>Numbers\<close>

lemma takeWhile_no_digit: "no_digit u \<Longrightarrow> takeWhile is_digit u = [] \<and> dropWhile is_digit u = u"
  by (cases u) (auto simp: no_digit_def)

lemma decimal_not_Nil [simp]: "decimal n \<noteq> []"
  by (simp add: decimal_def)

lemma parse_number_decimal:
  assumes "no_digit u" and "n < 2 ^ 63"
  shows "parse_number (decimal n @ u) = Inr (int n, u)"
proof -
  obtain c cs where dec: "decimal n = c # cs" by (cases "decimal n") auto
  have "is_digit c" using decimal_digits [of c n] by (simp add: dec)
  then have neg: "j_peek (decimal n @ u) \<noteq> CHR ''-''" by (auto simp: dec char_class_defs)
  have tw: "takeWhile is_digit (decimal n @ u) = decimal n" "dropWhile is_digit (decimal n @ u) = u"
    using takeWhile_no_digit [OF assms(1)] decimal_digits
    by (simp_all add: takeWhile_append2 dropWhile_append2)
  have "fold_digits (10 :: int) 0 (decimal n) = int n"
    using fold_digits_digits_in [of 10 n, where 'a = int] by (simp add: decimal_def)
  then have "stoll False (decimal n) = Inr (int n)"
    using assms(2) by (simp add: stoll_def Let_def)
  with neg tw show ?thesis by (simp add: parse_number_def Let_def)
qed

lemma reads_decimal:
  assumes "n < 2 ^ 63"
  shows "reads (decimal n) (Json_Number (int n))"
  unfolding reads_def
proof (intro allI impI)
  fix u :: string and k assume u: "no_digit u" and "length (decimal n @ u) < k"
  then obtain m where k: "k = Suc m" by (cases k) auto
  obtain c cs where dec: "decimal n = c # cs" by (cases "decimal n") auto
  have c: "is_digit c" using decimal_digits [of c n] by (simp add: dec)
  then have "\<not> is_json_space c" "c \<notin> {CHR ''n'', CHR ''t'', CHR ''f'', CHR ''{'', CHR ''['', CHR 0x22}"
    by (auto simp: is_json_space_def char_class_defs)
  then show "parse_value k (decimal n @ u) = Some (Inr (Json_Number (int n), u))"
    using parse_number_decimal [OF u assms] c by (simp add: k dec)
qed

subsection \<open>Arrays and objects\<close>

lemma no_digit_marks [simp]:
  "no_digit (CHR '','' # s)" "no_digit (CHR '']'' # s)" "no_digit (CHR ''}'' # s)"
  by (simp_all add: no_digit_def char_class_defs)

lemma no_digit_spaces: "spaces w \<Longrightarrow> no_digit s \<Longrightarrow> no_digit (w @ s)"
  by (cases w) (auto simp: no_digit_def is_json_space_def char_class_defs)

lemma parse_elements_join:
  assumes "list_all2 reads es vs" and "es \<noteq> []" and "spaces w" and "spaces w2"
    and "length (join (CHR '','' # w) es @ w2 @ CHR '']'' # u) < m"
    and "length (join (CHR '','' # w) es @ w2 @ CHR '']'' # u) < n"
  shows "parse_elements n (parse_value m) (join (CHR '','' # w) es @ w2 @ CHR '']'' # u) acc =
    Some (Inr (acc @ vs, u))"
  using assms(1,2,5,6)
proof (induction es vs arbitrary: acc n rule: list_all2_induct)
  case Nil
  then show ?case by simp
next
  case (Cons e es v vs)
  obtain k where n: "n = Suc k" using Cons.prems(3) by (cases n) auto
  show ?case
  proof (cases "es = []")
    case True
    with Cons.hyps have vs: "vs = []" by simp
    have "no_digit (w2 @ CHR '']'' # u)" using assms(4) by (intro no_digit_spaces) simp_all
    from readsD [OF Cons.hyps(1) this, of m] Cons.prems True vs
    show ?thesis using assms(4) by (simp add: n Let_def)
  next
    case False
    let ?more = "join (CHR '','' # w) es @ w2 @ CHR '']'' # u"
    have eq: "join (CHR '','' # w) (e # es) @ w2 @ CHR '']'' # u = e @ CHR '','' # w @ ?more"
      using False by (cases es) simp_all
    have v: "parse_value m (e @ CHR '','' # w @ ?more) = Some (Inr (v, CHR '','' # w @ ?more))"
      by (rule readsD [OF Cons.hyps(1)]) (use Cons.prems(2) in \<open>simp_all add: eq\<close>)
    have ih: "parse_elements k (parse_value m) ?more (acc @ [v]) = Some (Inr ((acc @ [v]) @ vs, u))"
      by (rule Cons.IH) (use Cons.prems False n in \<open>simp_all add: eq\<close>)
    have "parse_elements k (parse_value m) (w @ ?more) (acc @ [v]) =
        parse_elements k (parse_value m) ?more (acc @ [v])"
      using assms(3) by (cases k) (simp_all add: parse_value_skip [symmetric, of _ "w @ _"] parse_value_skip)
    with ih v show ?thesis by (simp add: eq n Let_def)
  qed
qed

lemma reads_first:
  assumes "reads e v" and "no_digit u"
  shows "j_peek (j_skip (e @ u)) \<noteq> CHR '']''"
proof
  assume "j_peek (j_skip (e @ u)) = CHR '']''"
  then obtain s where "j_skip (e @ u) = CHR '']'' # s"
    by (cases "j_skip (e @ u)") (auto simp: j_peek_def)
  then have "parse_value (Suc (length (e @ u))) (e @ u) = j_fail ''unexpected character in JSON''"
    by (simp add: char_class_defs)
  moreover have "parse_value (Suc (length (e @ u))) (e @ u) = Some (Inr (v, u))"
    by (rule readsD [OF assms]) simp
  ultimately show False by simp
qed

lemma join_Cons_Nil: "join sep (e # es) = e @ (if es = [] then [] else sep @ join sep es)"
  by (cases es) simp_all

lemma parse_elements_skip: "parse_elements n (parse_value m) (j_skip s) acc = parse_elements n (parse_value m) s acc"
  by (cases n) (simp_all add: parse_value_skip)

lemma reads_array:
  assumes "list_all2 reads es vs" and "spaces w" and "spaces w1" and "spaces w2"
  shows "reads (CHR ''['' # w1 @ join (CHR '','' # w) es @ w2 @ [CHR '']'']) (Json_Array vs)"
  unfolding reads_def
proof (intro allI impI)
  fix u :: string and n
  let ?body = "join (CHR '','' # w) es @ w2 @ CHR '']'' # u"
  assume len: "length ((CHR ''['' # w1 @ join (CHR '','' # w) es @ w2 @ [CHR '']'']) @ u) < n"
  then obtain k where n: "n = Suc k" by (cases n) auto
  have "parse_array k (parse_value k) (CHR ''['' # w1 @ ?body) = Some (Inr (Json_Array vs, u))"
  proof (cases es)
    case Nil
    with assms(1,3,4) show ?thesis by (simp add: parse_array_def Let_def)
  next
    case (Cons e es')
    with assms(1) obtain v vs' where e: "reads e v" by (auto simp: list_all2_Cons1)
    have split: "?body = e @ (if es' = [] then w2 @ CHR '']'' # u
        else CHR '','' # w @ join (CHR '','' # w) es' @ w2 @ CHR '']'' # u)"
      by (simp add: Cons join_Cons_Nil)
    have "j_peek (j_skip ?body) \<noteq> CHR '']''"
      unfolding split by (rule reads_first [OF e]) (use assms(4) in \<open>simp add: no_digit_spaces\<close>)
    moreover have "parse_elements k (parse_value k) ?body [] = Some (Inr ([] @ vs, u))"
      by (rule parse_elements_join [OF assms(1) _ assms(2,4)]) (use Cons len n in simp_all)
    ultimately show ?thesis
      using assms(3) by (simp add: parse_array_def Let_def parse_elements_skip)
  qed
  then show "parse_value n ((CHR ''['' # w1 @ join (CHR '','' # w) es @ w2 @ [CHR '']'']) @ u) =
      Some (Inr (Json_Array vs, u))"
    by (simp add: n)
qed

text \<open>A printed member: white space, the quoted name, a colon and the text of the value.\<close>

definition member :: "string \<Rightarrow> string \<times> json \<Rightarrow> bool" where
  "member s kv = (\<exists>w t. s = w @ quoted (fst kv) @ CHR '':'' # t \<and> spaces w \<and> reads t (snd kv))"

definition emplace_all :: "(string \<times> json) list \<Rightarrow> (string \<times> json) list \<Rightarrow> (string \<times> json) list" where
  "emplace_all kvs obj = fold (\<lambda>(k, v). emplace k v) kvs obj"

lemma memberI: "spaces w \<Longrightarrow> reads t v \<Longrightarrow> member (w @ quoted k @ CHR '':'' # t) (k, v)"
  by (auto simp: member_def)

lemma quoted_Cons: "quoted k = CHR 0x22 # tl (quoted k)"
  by (simp add: quoted_def)

lemma j_skip_quoted [simp]: "j_skip (quoted k @ s) = quoted k @ s"
  by (subst (1 2) quoted_Cons) simp

lemma parse_members_join:
  assumes "list_all2 member es kvs" and "es \<noteq> []" and "spaces w" and "spaces w2"
    and "length (join (CHR '','' # w) es @ w2 @ CHR ''}'' # u) < m"
    and "length (join (CHR '','' # w) es @ w2 @ CHR ''}'' # u) < n"
  shows "parse_members n (parse_value m) (join (CHR '','' # w) es @ w2 @ CHR ''}'' # u) obj =
    Some (Inr (emplace_all kvs obj, u))"
  using assms(1,2,5,6)
proof (induction es kvs arbitrary: obj n rule: list_all2_induct)
  case Nil
  then show ?case by simp
next
  case (Cons e es kv kvs)
  obtain k where n: "n = Suc k" using Cons.prems(3) by (cases n) auto
  obtain name v where kv: "kv = (name, v)" by fastforce
  from Cons.hyps(1) obtain w0 t where e: "e = w0 @ quoted name @ CHR '':'' # t" "spaces w0" "reads t v"
    by (auto simp: member_def kv)
  have after: "parse_string (j_skip (e @ s)) = Inr (name, CHR '':'' # t @ s)" for s
    using e by (simp add: parse_quoted)
  show ?case
  proof (cases "es = []")
    case True
    with Cons.hyps have kvs: "kvs = []" by simp
    have "no_digit (w2 @ CHR ''}'' # u)" using assms(4) by (intro no_digit_spaces) simp_all
    from readsD [OF e(3) this, of m] Cons.prems True e(1)
    have "parse_value m (t @ w2 @ CHR ''}'' # u) = Some (Inr (v, w2 @ CHR ''}'' # u))" by simp
    then show ?thesis
      using assms(4) after True by (simp add: n kvs kv emplace_all_def Let_def)
  next
    case False
    let ?more = "join (CHR '','' # w) es @ w2 @ CHR ''}'' # u"
    have eq: "join (CHR '','' # w) (e # es) @ w2 @ CHR ''}'' # u = e @ CHR '','' # w @ ?more"
      using False by (cases es) simp_all
    have v: "parse_value m (t @ CHR '','' # w @ ?more) = Some (Inr (v, CHR '','' # w @ ?more))"
    proof (rule readsD [OF e(3)])
      have "length (e @ CHR '','' # w @ ?more) < m" using Cons.prems(2) unfolding eq .
      then show "length (t @ CHR '','' # w @ ?more) < m" by (simp add: e(1))
    qed simp
    have ih: "parse_members k (parse_value m) ?more (emplace name v obj) =
        Some (Inr (emplace_all kvs (emplace name v obj), u))"
      by (rule Cons.IH) (use Cons.prems False n in \<open>simp_all add: eq\<close>)
    have "parse_members k (parse_value m) (w @ ?more) (emplace name v obj) =
        parse_members k (parse_value m) ?more (emplace name v obj)"
      using assms(3) by (cases k) simp_all
    with ih v after show ?thesis by (simp add: eq n kv emplace_all_def Let_def)
  qed
qed

lemma member_first:
  assumes "member e kv"
  shows "j_peek (j_skip (e @ s)) = CHR 0x22"
  using assms by (auto simp: member_def) (subst quoted_Cons, simp)

lemma parse_members_skip: "parse_members n val (j_skip s) obj = parse_members n val s obj"
  by (cases n) simp_all

lemma reads_object:
  assumes "list_all2 member es kvs" and "spaces w" and "spaces w1" and "spaces w2"
  shows "reads (CHR ''{'' # w1 @ join (CHR '','' # w) es @ w2 @ [CHR ''}'']) (Json_Object (emplace_all kvs []))"
  unfolding reads_def
proof (intro allI impI)
  fix u :: string and n
  let ?body = "join (CHR '','' # w) es @ w2 @ CHR ''}'' # u"
  assume len: "length ((CHR ''{'' # w1 @ join (CHR '','' # w) es @ w2 @ [CHR ''}'']) @ u) < n"
  then obtain k where n: "n = Suc k" by (cases n) auto
  have "parse_object k (parse_value k) (CHR ''{'' # w1 @ ?body) = Some (Inr (Json_Object (emplace_all kvs []), u))"
  proof (cases es)
    case Nil
    with assms(1,3,4) show ?thesis by (simp add: parse_object_def Let_def emplace_all_def)
  next
    case (Cons e es')
    with assms(1) obtain kv where e: "member e kv" by (auto simp: list_all2_Cons1)
    have "j_peek (j_skip ?body) \<noteq> CHR ''}''"
      using member_first [OF e] by (simp add: Cons join_Cons_Nil)
    moreover have "parse_members k (parse_value k) ?body [] = Some (Inr (emplace_all kvs [], u))"
      by (rule parse_members_join [OF assms(1) _ assms(2,4)]) (use Cons len n in simp_all)
    ultimately show ?thesis
      using assms(3) by (simp add: parse_object_def Let_def parse_members_skip)
  qed
  then show "parse_value n ((CHR ''{'' # w1 @ join (CHR '','' # w) es @ w2 @ [CHR ''}'']) @ u) =
      Some (Inr (Json_Object (emplace_all kvs []), u))"
    by (simp add: n)
qed

lemma emplace_all_distinct:
  "distinct (map fst kvs) \<Longrightarrow> fst ` set kvs \<inter> fst ` set obj = {} \<Longrightarrow> emplace_all kvs obj = obj @ kvs"
proof (induction kvs arbitrary: obj)
  case Nil
  then show ?case by (simp add: emplace_all_def)
next
  case (Cons kv kvs)
  obtain k v where kv: "kv = (k, v)" by fastforce
  have "k \<notin> fst ` set obj" using Cons.prems(2) by (auto simp: kv)
  then have e: "emplace k v obj = obj @ [(k, v)]" by (rule emplace_new)
  have "emplace_all kvs (obj @ [(k, v)]) = (obj @ [(k, v)]) @ kvs"
    by (rule Cons.IH) (use Cons.prems in \<open>auto simp: kv\<close>)
  then show ?case by (simp add: emplace_all_def kv e)
qed

section \<open>The document of the assembler\<close>

definition plain_name :: "string \<Rightarrow> bool" where
  "plain_name s = list_all (\<lambda>c. c \<noteq> CHR 0x22 \<and> c \<noteq> CHR 0x5C \<and> 0x20 \<le> (of_char c :: nat)) s"

lemma keyed_member:
  assumes "plain_name k" and "spaces w" and "reads t v"
  shows "member (w @ member_key k @ t) (k, v)"
proof -
  have "escape_json k = k" using assms(1) by (intro escape_json_plain) (simp add: plain_name_def)
  then have "member_key k @ t = quoted k @ CHR '':'' # '' '' @ t"
    by (simp add: member_key_def quoted_def)
  moreover have "reads ('' '' @ t) v" by (rule reads_spaces [OF assms(3)]) simp
  ultimately show ?thesis using memberI [OF assms(2)] by metis
qed

lemma plain_names:
  "plain_name ''file''" "plain_name ''line''" "plain_name ''column''" "plain_name ''text''"
  "plain_name ''address''" "plain_name ''rom_offset''" "plain_name ''version''"
  "plain_name ''cartridge_version''" "plain_name ''entry''" "plain_name ''rom_size''"
  "plain_name ''source_root''" "plain_name ''source_files''" "plain_name ''symbols''"
  "plain_name ''pc_to_source''" "plain_name ''records''"
  by code_simp+

definition hex_json :: "u16 \<Rightarrow> json" where
  "hex_json a = Json_String (''0x'' @ hexadecimal (unat a))"

lemma reads_hex: "reads (quoted_hex (unat a)) (hex_json a)"
  unfolding quoted_hex_eq hex_json_def by (rule reads_quoted)

definition location_json :: "debug_record \<Rightarrow> (string \<times> json) list" where
  "location_json r =
     [(''file'', Json_String (d_file r)), (''line'', Json_Number (int (d_line r))),
      (''column'', Json_Number (int (d_column r))), (''text'', Json_String (d_text r))]"

definition record_ok :: "debug_record \<Rightarrow> bool" where
  "record_ok r = (1 \<le> d_line r \<and> d_line r < 2 ^ 31 \<and> 1 \<le> d_column r \<and> d_column r < 2 ^ 31)"

definition location_members :: "debug_record \<Rightarrow> string list" where
  "location_members r =
     [member_key ''file'' @ quoted (d_file r), member_key ''line'' @ decimal (d_line r),
      member_key ''column'' @ decimal (d_column r), member_key ''text'' @ quoted (d_text r)]"

lemma location_fields_join: "location_fields r = join (CHR '','' # '' '') (location_members r)"
  by (simp add: location_fields_def location_members_def)

lemma location_members_read:
  assumes "record_ok r"
  shows "list_all2 member (location_members r) (location_json r)"
  using assms keyed_member [where w = "[]"]
  by (simp add: location_members_def location_json_def plain_names reads_quoted reads_decimal record_ok_def)

lemma location_json_distinct: "emplace_all (location_json r) [] = location_json r"
  by (subst emplace_all_distinct) (simp_all add: location_json_def)

lemma pc_entry_member:
  assumes "record_ok r"
  shows "member (encode_pc_entry (a, r)) (''0x'' @ hexadecimal (unat a), Json_Object (location_json r))"
proof -
  have "reads (CHR ''{'' # [] @ join (CHR '','' # '' '') (location_members r) @ [] @ [CHR ''}''])
      (Json_Object (emplace_all (location_json r) []))"
    by (rule reads_object [OF location_members_read [OF assms]]) simp_all
  then have "reads ('' '' @ CHR ''{'' # location_fields r @ ''}'') (Json_Object (location_json r))"
    by (intro reads_spaces) (simp_all add: location_json_distinct location_fields_join)
  from memberI [OF _ this, of "''    ''"] show ?thesis
    by (simp add: encode_pc_entry_def quoted_hex_eq)
qed

definition record_json :: "debug_record \<Rightarrow> (string \<times> json) list" where
  "record_json r =
     (''address'', hex_json (d_address r)) # (''rom_offset'', Json_Number (uint (d_rom_offset r))) # location_json r"

lemma u32_small: "unat (v :: u32) < 2 ^ 63"
  using unat_u32_less [of v] by (rule less_trans) simp

lemma record_reads:
  assumes "record_ok r"
  shows "reads (encode_record r) (Json_Object (record_json r))"
proof -
  let ?ms = "(member_key ''address'' @ quoted_hex (unat (d_address r))) #
    (member_key ''rom_offset'' @ decimal (unat (d_rom_offset r))) # location_members r"
  have "reads (decimal (unat (d_rom_offset r))) (Json_Number (int (unat (d_rom_offset r))))"
    by (rule reads_decimal) (rule u32_small)
  then have "list_all2 member ?ms (record_json r)"
    using location_members_read [OF assms] keyed_member [where w = "[]"]
    by (simp add: record_json_def plain_names reads_hex)
  then have "reads (CHR ''{'' # [] @ join (CHR '','' # '' '') ?ms @ [] @ [CHR ''}''])
      (Json_Object (emplace_all (record_json r) []))"
    by (rule reads_object) simp_all
  moreover have "emplace_all (record_json r) [] = record_json r"
    by (subst emplace_all_distinct) (simp_all add: record_json_def location_json_def)
  ultimately have "reads (''    '' @ CHR ''{'' # join (CHR '','' # '' '') ?ms @ ''}'') (Json_Object (record_json r))"
    by (intro reads_spaces) simp_all
  then show ?thesis
    by (simp add: encode_record_def location_fields_join location_members_def)
qed

lemma symbol_member: "member (encode_symbol e) (fst e, hex_json (snd e))"
proof -
  have "reads ('' '' @ quoted_hex (unat (snd e))) (hex_json (snd e))"
    by (rule reads_spaces [OF reads_hex]) simp
  from memberI [OF _ this, of "''    ''" "fst e"] show ?thesis by (simp add: encode_symbol_def)
qed

text \<open>Lines of entries between brackets.\<close>

lemma entry_lines_join:
  "entry_lines es @ s = join (CHR '','' # [newline]) es @ (if es = [] then [] else [newline]) @ s"
  by (simp add: entry_lines_def)

lemma reads_object_lines:
  assumes "list_all2 member es kvs" and "spaces w2"
  shows "reads (CHR ''{'' # [newline] @ entry_lines es @ w2 @ ''}'') (Json_Object (emplace_all kvs []))"
  using reads_object [OF assms(1), of "[newline]" "[newline]" "(if es = [] then [] else [newline]) @ w2"] assms(2)
  unfolding entry_lines_join by simp

lemma reads_array_lines:
  assumes "list_all2 reads es vs" and "spaces w2"
  shows "reads (CHR ''['' # [newline] @ entry_lines es @ w2 @ '']'') (Json_Array vs)"
  using reads_array [OF assms(1), of "[newline]" "[newline]" "(if es = [] then [] else [newline]) @ w2"] assms(2)
  unfolding entry_lines_join by simp

definition symbols_json :: "(string \<times> u16) list \<Rightarrow> (string \<times> json) list" where
  "symbols_json symbols = map (\<lambda>e. (fst e, hex_json (snd e))) (ordered symbols)"

lemma distinct_symbols_json: "distinct (map fst symbols) \<Longrightarrow> distinct (map fst (symbols_json symbols))"
  using distinct_ordered [of symbols] by (simp add: symbols_json_def comp_def)

lemma ordered_eq_Nil [simp]: "ordered m = [] \<longleftrightarrow> m = []"
  by (metis set_empty set_ordered)

lemma symbols_reads:
  assumes "distinct (map fst symbols)"
  shows "reads (''{'' @ (if symbols = [] then [] else [newline] @ entry_lines (map encode_symbol (ordered symbols)) @ ''  '') @ ''}'')
    (Json_Object (symbols_json symbols))"
proof -
  have m: "list_all2 member (map encode_symbol (ordered symbols)) (symbols_json symbols)"
    by (simp add: symbols_json_def list_all2_map1 list_all2_map2 list.rel_refl_strong symbol_member)
  have e: "emplace_all (symbols_json symbols) [] = symbols_json symbols"
    using distinct_symbols_json [OF assms] by (subst emplace_all_distinct) simp_all
  show ?thesis
  proof (cases "symbols = []")
    case True
    with reads_object [of "[]" "[]" "[]" "[]" "[]"] show ?thesis
      by (simp add: symbols_json_def ordered_def emplace_all_def)
  next
    case False
    with reads_object_lines [OF m, of "''  ''"] show ?thesis by (simp add: e)
  qed
qed

definition pc_json :: "debug_record list \<Rightarrow> (string \<times> json) list" where
  "pc_json records =
     map (\<lambda>(a, r). (''0x'' @ hexadecimal (unat a), Json_Object (location_json r))) (ordered (pc_entries records))"

lemma hexadecimal_inject [simp]: "hexadecimal m = hexadecimal n \<longleftrightarrow> m = n"
proof
  assume "hexadecimal m = hexadecimal n"
  then have "fold_digits (16 :: int) 0 (hexadecimal m) = fold_digits 16 0 (hexadecimal n)" by simp
  then show "m = n"
    using fold_digits_digits_in [of 16 m, where 'a = int] fold_digits_digits_in [of 16 n, where 'a = int]
    by (simp add: hexadecimal_def)
qed simp

lemma pc_entries_snoc: "pc_entries (rs @ [r]) = emplace (d_address r) r (pc_entries rs)"
  by (simp add: pc_entries_def)

lemma distinct_pc_entries: "distinct (map fst (pc_entries rs))"
  by (induction rs rule: rev_induct) (simp add: pc_entries_def, simp add: pc_entries_snoc distinct_emplace)

lemma map_of_pc_entries: "map_of (pc_entries rs) a = List.find (\<lambda>r. d_address r = a) rs"
proof (induction rs rule: rev_induct)
  case Nil
  then show ?case by (simp add: pc_entries_def)
next
  case (snoc r rs)
  have "List.find (\<lambda>r. d_address r = a) (rs @ [r]) =
      (case List.find (\<lambda>r. d_address r = a) rs of None \<Rightarrow> if d_address r = a then Some r else None | Some x \<Rightarrow> Some x)"
    by (induction rs) auto
  with snoc show ?case by (auto simp: pc_entries_snoc map_of_emplace split: option.splits)
qed

lemma set_pc_entries: "e \<in> set (pc_entries rs) \<Longrightarrow> snd e \<in> set rs"
  by (induction rs rule: rev_induct)
    (auto simp: pc_entries_snoc emplace_def split: if_splits, simp add: pc_entries_def)

lemma distinct_inj_map: "inj f \<Longrightarrow> distinct xs \<Longrightarrow> distinct (map f xs)"
  by (auto simp: distinct_map inj_on_def)

lemma distinct_pc_json: "distinct (map fst (pc_json records))"
proof -
  have "map fst (pc_json records) = map (\<lambda>a. ''0x'' @ hexadecimal (unat a)) (map fst (ordered (pc_entries records)))"
    by (simp add: pc_json_def split_def)
  moreover have "inj (\<lambda>a :: u16. ''0x'' @ hexadecimal (unat a))"
    by (rule injI) (simp add: word_unat_eq_iff)
  ultimately show ?thesis
    using distinct_inj_map [OF _ distinct_ordered [OF distinct_pc_entries]] by metis
qed

lemma pc_reads:
  assumes "list_all record_ok records"
  shows "reads (''{'' @ [newline] @ entry_lines (map encode_pc_entry (ordered (pc_entries records))) @ ''  }'')
    (Json_Object (pc_json records))"
proof -
  have ok: "record_ok (snd e)" if "e \<in> set (ordered (pc_entries records))" for e
    using that assms set_pc_entries by (fastforce simp: list_all_iff)
  have m: "list_all2 member (map encode_pc_entry (ordered (pc_entries records))) (pc_json records)"
    unfolding pc_json_def list_all2_map1 list_all2_map2
    by (rule list.rel_refl_strong) (use ok pc_entry_member in \<open>auto split: prod.splits\<close>)
  have "emplace_all (pc_json records) [] = pc_json records"
    using distinct_pc_json by (subst emplace_all_distinct) simp_all
  with reads_object_lines [OF m, of "''  ''"] show ?thesis by simp
qed

lemma records_reads:
  assumes "list_all record_ok records"
  shows "reads (''['' @ [newline] @ entry_lines (map encode_record records) @ ''  ]'')
    (Json_Array (map (\<lambda>r. Json_Object (record_json r)) records))"
proof -
  have "list_all2 reads (map encode_record records) (map (\<lambda>r. Json_Object (record_json r)) records)"
    unfolding list_all2_map1 list_all2_map2
    by (rule list.rel_refl_strong) (use assms record_reads in \<open>auto simp: list_all_iff\<close>)
  from reads_array_lines [OF this, of "''  ''"] show ?thesis by simp
qed

lemma files_reads:
  "reads (''['' @ join '', '' (map quoted files) @ '']'') (Json_Array (map Json_String files))"
proof -
  have "list_all2 reads (map quoted files) (map Json_String files)"
    unfolding list_all2_map1 list_all2_map2 by (rule list.rel_refl_strong) (rule reads_quoted)
  from reads_array [OF this, of "'' ''" "[]" "[]"] show ?thesis by simp
qed

definition document_json ::
  "cartridge_header \<Rightarrow> string \<Rightarrow> string \<Rightarrow> string list \<Rightarrow> (string \<times> u16) list \<Rightarrow> debug_record list \<Rightarrow>
   (string \<times> json) list" where
  "document_json header schema root files symbols records =
     [(''version'', Json_String schema),
      (''cartridge_version'', Json_Number (int (unat (h_version header)))),
      (''entry'', hex_json (h_entry header)),
      (''rom_size'', Json_Number (int (unat (h_rom_size header)))),
      (''source_root'', Json_String root),
      (''source_files'', Json_Array (map Json_String files)),
      (''symbols'', Json_Object (symbols_json symbols)),
      (''pc_to_source'', Json_Object (pc_json records)),
      (''records'', Json_Array (map (\<lambda>r. Json_Object (record_json r)) records))]"

lemma u16_small: "unat (v :: u16) < 2 ^ 63"
  using unat_u16_less [of v] by (rule less_trans) simp

lemma document_reads:
  assumes "distinct (map fst symbols)" and "list_all record_ok records"
  shows "\<exists>doc. encode_debug_json header schema root files symbols records = doc @ [newline] \<and>
    reads doc (Json_Object (document_json header schema root files symbols records))"
proof -
  let ?w = "''  ''"
  let ?ms = "[?w @ member_key ''version'' @ quoted schema,
    ?w @ member_key ''cartridge_version'' @ decimal (unat (h_version header)),
    ?w @ member_key ''entry'' @ quoted_hex (unat (h_entry header)),
    ?w @ member_key ''rom_size'' @ decimal (unat (h_rom_size header)),
    ?w @ member_key ''source_root'' @ quoted root,
    ?w @ member_key ''source_files'' @ (''['' @ join '', '' (map quoted files) @ '']''),
    ?w @ member_key ''symbols'' @ (''{'' @ (if symbols = [] then [] else [newline] @
      entry_lines (map encode_symbol (ordered symbols)) @ ''  '') @ ''}''),
    ?w @ member_key ''pc_to_source'' @ (''{'' @ [newline] @
      entry_lines (map encode_pc_entry (ordered (pc_entries records))) @ ''  }''),
    ?w @ member_key ''records'' @ (''['' @ [newline] @ entry_lines (map encode_record records) @ ''  ]'')]"
  let ?kvs = "document_json header schema root files symbols records"
  have sp: "spaces ?w" by simp
  note m = keyed_member [OF _ sp]
  have "list_all2 member ?ms ?kvs"
    unfolding document_json_def list_all2_Cons list_all2_Nil2 list.simps
    by (intro conjI refl m plain_names reads_quoted reads_hex reads_decimal u16_small u32_small
      files_reads symbols_reads [OF assms(1)] pc_reads [OF assms(2)] records_reads [OF assms(2)])
  then have "reads (CHR ''{'' # [newline] @ join (CHR '','' # [newline]) ?ms @ [newline] @ [CHR ''}''])
      (Json_Object (emplace_all ?kvs []))"
    by (rule reads_object) simp_all
  moreover have "emplace_all ?kvs [] = ?kvs"
    by (subst emplace_all_distinct) (simp_all add: document_json_def)
  moreover have "encode_debug_json header schema root files symbols records =
      (CHR ''{'' # [newline] @ join (CHR '','' # [newline]) ?ms @ [newline] @ [CHR ''}'']) @ [newline]"
    by (simp add: encode_debug_json_def)
  ultimately show ?thesis by metis
qed

lemma parse_document:
  assumes "distinct (map fst symbols)" and "list_all record_ok records"
  shows "parse_json (encode_debug_json header schema root files symbols records) =
    Some (Inr (Json_Object (document_json header schema root files symbols records)))"
proof -
  from document_reads [OF assms] obtain doc where
    doc: "encode_debug_json header schema root files symbols records = doc @ [newline]"
      "reads doc (Json_Object (document_json header schema root files symbols records))" by blast
  have "parse_value (json_fuel (doc @ [newline])) (doc @ [newline]) =
      Some (Inr (Json_Object (document_json header schema root files symbols records), [newline]))"
    by (rule readsD [OF doc(2)]) (simp_all add: json_fuel_def no_digit_def char_class_defs)
  then show ?thesis
    unfolding doc(1) parse_json_def parse_value_skip by simp
qed

section \<open>Loading the document\<close>

lemma hexadecimal_first:
  "hexadecimal n = c # s \<Longrightarrow> \<not> is_c_space c \<and> c \<noteq> CHR ''-'' \<and> c \<noteq> CHR ''+''"
  using hexadecimal_alnum [of c n] by (auto simp: is_c_space_def char_class_defs)

lemma hexadecimal_digits: "c \<in> set (hexadecimal n) \<Longrightarrow> is_hex_digit c \<and> c \<noteq> CHR ''x'' \<and> c \<noteq> CHR ''X''"
proof -
  have x: "\<not> is_hex_digit CHR ''x''" "\<not> is_hex_digit CHR ''X''" by code_simp+
  assume "c \<in> set (hexadecimal n)"
  then have "is_hex_digit c"
    using digits_in_chars [of c 16 n] by (auto simp: hexadecimal_def is_hex_digit_def)
  with x show ?thesis by auto
qed

lemma stoul16_hexadecimal:
  assumes "n < 2 ^ 64"
  shows "stoul16 (hexadecimal n) = Some n"
proof -
  obtain c s where h: "hexadecimal n = c # s" by (cases "hexadecimal n") (auto simp: hexadecimal_def)
  have second: "hexadecimal n ! 1 \<noteq> CHR ''x'' \<and> hexadecimal n ! 1 \<noteq> CHR ''X''" if "length (hexadecimal n) > 2"
    using hexadecimal_digits [of "hexadecimal n ! 1" n] that by simp
  have tw: "takeWhile is_hex_digit (hexadecimal n) = hexadecimal n"
    using hexadecimal_digits by (simp add: takeWhile_eq_all_conv)
  have v: "fold_digits (16 :: int) 0 (hexadecimal n) = int n"
    using fold_digits_digits_in [of 16 n, where 'a = int] by (simp add: hexadecimal_def)
  have dw: "dropWhile is_c_space (hexadecimal n) = hexadecimal n"
    using hexadecimal_first [OF h] by (simp add: h)
  have sign: "hd (hexadecimal n) \<noteq> CHR ''-''" "hd (hexadecimal n) \<noteq> CHR ''+''" "hexadecimal n \<noteq> []"
    using hexadecimal_first [OF h] by (simp_all add: h)
  show ?thesis
    unfolding stoul16_def Let_def dw using sign second v assms by (auto simp: tw)
qed

lemma parse_hex_hexadecimal:
  "parse_hex_word (CHR ''0'' # CHR ''x'' # hexadecimal (unat a)) label = Inr a"
proof -
  have less: "unat a < 65536" by simp
  then have "unat a < 2 ^ 64" by (rule less_trans) simp
  from stoul16_hexadecimal [OF this] have s: "stoul16 (hexadecimal (unat a)) = Some (unat a)" .
  have u: "(of_nat (unat a) :: u32) = ucast a" by simp
  have "\<not> (ucast a :: u32) > 0xFFFF"
  proof -
    have "unat a \<le> 65535" using less by linarith
    then show ?thesis by (simp add: not_less word_le_nat_alt unsigned_ucast_eq take_bit_eq_mod)
  qed
  moreover have "(ucast (ucast a :: u32) :: u16) = a"
    by (rule bit_word_eqI) (simp add: bit_simps)
  ultimately show ?thesis by (simp add: parse_hex_word_def s u Let_def)
qed

definition location_of :: "debug_record \<Rightarrow> source_location" where
  "location_of r =
     \<lparr>loc_file = d_file r, loc_line = int (d_line r), loc_column = int (d_column r), loc_text = d_text r\<rparr>"

definition record_of :: "debug_record \<Rightarrow> symbol_record" where
  "record_of r =
     \<lparr>sr_address = d_address r, sr_rom_offset = d_rom_offset r, sr_location = location_of r\<rparr>"

lemma cast_int_small: "0 \<le> n \<Longrightarrow> n < 2 ^ 31 \<Longrightarrow> cast_int n = n"
  unfolding cast_int_def by (simp add: sint_sbintrunc' signed_take_bit_int_eq_self)

lemma load_location_json:
  assumes "record_ok r" and "set (location_json r) \<subseteq> set obj" and "distinct (map fst obj)"
  shows "load_location scope (Json_Object obj) = Inr (location_of r)"
proof -
  have f: "map_of obj ''file'' = Some (Json_String (d_file r))"
    "map_of obj ''line'' = Some (Json_Number (int (d_line r)))"
    "map_of obj ''column'' = Some (Json_Number (int (d_column r)))"
    "map_of obj ''text'' = Some (Json_String (d_text r))"
    using assms(2) by (simp_all add: map_of_eq_Some_iff [OF assms(3)] location_json_def)
  have "cast_int (int (d_line r)) = int (d_line r)" "cast_int (int (d_column r)) = int (d_column r)"
    using assms(1) by (auto intro!: cast_int_small simp: record_ok_def)
  then show ?thesis
    using f assms(1)
    by (simp add: load_location_def require_field_def require_object_def require_string_def
      require_number_def location_of_def record_ok_def)
qed

lemma distinct_record_json: "distinct (map fst (record_json r))" "distinct (map fst (location_json r))"
  by (simp_all add: record_json_def location_json_def)

lemma load_record_json:
  assumes "record_ok r" and "d_rom_offset r < rom_size"
  shows "load_record rom_size (Json_Object (record_json r)) = Inr (record_of r)"
proof -
  have loc: "load_location ''record'' (Json_Object (record_json r)) = Inr (location_of r)"
    by (rule load_location_json [OF assms(1) _ distinct_record_json(1)]) (auto simp: record_json_def)
  have "uint (d_rom_offset r) < uint rom_size" using assms(2) by (simp add: word_less_def)
  then show ?thesis
    using loc
    by (simp add: load_record_def require_field_def require_object_def require_string_def
      require_number_def record_json_def hex_json_def parse_hex_hexadecimal record_of_def)
qed

subsection \<open>Symbols and addresses\<close>

lemma subset_image_list: "set ys \<subseteq> f ` A \<Longrightarrow> \<exists>zs. ys = map f zs \<and> set zs \<subseteq> A"
proof (induction ys)
  case (Cons y ys)
  then obtain z zs where "y = f z" "z \<in> A" "ys = map f zs" "set zs \<subseteq> A" by auto
  then show ?case by (intro exI [of _ "z # zs"]) simp
qed simp

text \<open>The entries of a map in another order.\<close>

lemma reordered_map:
  assumes "distinct (map fst xs)" and "distinct (map fst (map f xs))" and "\<And>x. x \<in> set xs \<Longrightarrow> fst (g x) = fst x"
  obtains zs where "ordered (map f xs) = map f zs" and "set zs = set xs" and "distinct (map fst zs)"
    and "map_of (map g zs) = map_of (map g xs)"
proof -
  have "set (ordered (map f xs)) \<subseteq> f ` set xs" by simp
  then obtain zs where zs: "ordered (map f xs) = map f zs" "set zs \<subseteq> set xs"
    using subset_image_list by metis
  have dz: "distinct (map f zs)"
    using distinct_ordered [OF assms(2)] zs(1) by (metis distinct_map)
  then have "distinct zs" by (simp add: distinct_map)
  moreover have "length zs = length xs"
    using arg_cong [OF zs(1), of length] by (simp add: ordered_def)
  moreover have "distinct xs" using assms(1) by (simp add: distinct_map)
  ultimately have eq: "set zs = set xs"
    using zs(2) by (metis List.finite_set card_subset_eq distinct_card)
  have inj: "inj_on fst (set xs)" using assms(1) by (simp add: distinct_map)
  then have dfz: "distinct (map fst zs)" using \<open>distinct zs\<close> by (simp add: distinct_map eq)
  have "map fst (map g zs) = map fst zs" "map fst (map g xs) = map fst xs"
    using assms(3) eq by auto
  with dfz assms(1) have "distinct (map fst (map g zs))" "distinct (map fst (map g xs))"
    by (simp_all only:)
  then have "map_of (map g zs) = map_of (map g xs)"
    using map_of_inject_set [of "map g zs" "map g xs"] eq by (simp only: set_map)
  with zs(1) eq dfz show ?thesis using that by blast
qed

lemma load_symbol_hex: "load_symbol (k, hex_json a) acc = Inr (emplace k a acc)"
  by (simp add: load_symbol_def require_string_def hex_json_def parse_hex_hexadecimal)

lemma load_symbols_fold:
  "distinct (map fst zs) \<Longrightarrow> fst ` set zs \<inter> fst ` set acc = {} \<Longrightarrow>
   fold_ok load_symbol (map (\<lambda>e. (fst e, hex_json (snd e))) zs) acc = Inr (acc @ zs)"
proof (induction zs arbitrary: acc)
  case (Cons z zs)
  then have new: "fst z \<notin> fst ` set acc" by auto
  have "fold_ok load_symbol (map (\<lambda>e. (fst e, hex_json (snd e))) zs) (acc @ [z]) = Inr ((acc @ [z]) @ zs)"
    by (rule Cons.IH) (use Cons.prems in auto)
  with emplace_new [OF new, of "snd z"] show ?case by (simp add: load_symbol_hex)
qed simp

lemma load_symbols:
  assumes "distinct (map fst symbols)"
  shows "\<exists>zs. fold_ok load_symbol (ordered (symbols_json symbols)) [] = Inr zs \<and> map_of zs = map_of symbols"
proof -
  have d: "distinct (map fst (ordered symbols))" using distinct_ordered [OF assms] .
  obtain zs where zs: "ordered (symbols_json symbols) = map (\<lambda>e. (fst e, hex_json (snd e))) zs"
      "distinct (map fst zs)" "map_of (map id zs) = map_of (map id (ordered symbols))"
    using reordered_map [OF d, of "\<lambda>e. (fst e, hex_json (snd e))" id] d
    by (auto simp: symbols_json_def comp_def)
  have "fold_ok load_symbol (ordered (symbols_json symbols)) [] = Inr ([] @ zs)"
    unfolding zs(1) by (rule load_symbols_fold [OF zs(2)]) simp
  then show ?thesis using zs(3) map_of_ordered [OF assms] by simp
qed

abbreviation (input) "pc_form \<equiv> \<lambda>(a :: u16, r). (''0x'' @ hexadecimal (unat a), Json_Object (location_json r))"

lemma load_pc_entry_form:
  assumes "record_ok r" and "a \<notin> fst ` set acc"
  shows "load_pc_entry (pc_form (a, r)) acc = Inr (acc @ [(a, location_of r)])"
proof -
  have "load_location ''pc_to_source'' (Json_Object (location_json r)) = Inr (location_of r)"
    by (rule load_location_json [OF assms(1) _ distinct_record_json(2)]) simp
  moreover have "map_of acc a = None" using assms(2) by (simp add: map_of_eq_None_iff)
  ultimately show ?thesis
    using emplace_new [OF assms(2), of "location_of r"]
    by (simp add: load_pc_entry_def parse_hex_hexadecimal)
qed

lemma map_of_map_snd: "map_of (map (\<lambda>e. (fst e, f (snd e))) xs) a = map_option f (map_of xs a)"
  by (induction xs) auto

lemma load_pc_fold:
  "distinct (map fst zs) \<Longrightarrow> fst ` set zs \<inter> fst ` set acc = {} \<Longrightarrow> list_all (\<lambda>e. record_ok (snd e)) zs \<Longrightarrow>
   fold_ok load_pc_entry (map pc_form zs) acc = Inr (acc @ map (\<lambda>e. (fst e, location_of (snd e))) zs)"
proof (induction zs arbitrary: acc)
  case (Cons z zs)
  obtain a r where z: "z = (a, r)" by fastforce
  have new: "a \<notin> fst ` set acc" using Cons.prems(2) by (auto simp: z)
  have ok: "record_ok r" using Cons.prems(3) by (simp add: z)
  have "fold_ok load_pc_entry (map pc_form zs) (acc @ [(a, location_of r)]) =
      Inr ((acc @ [(a, location_of r)]) @ map (\<lambda>e. (fst e, location_of (snd e))) zs)"
    by (rule Cons.IH) (use Cons.prems in \<open>auto simp: z\<close>)
  with load_pc_entry_form [OF ok new] show ?case by (simp add: z)
qed simp

lemma load_pcs:
  assumes "list_all record_ok records"
  shows "\<exists>zs. fold_ok load_pc_entry (ordered (pc_json records)) [] = Inr zs \<and>
    (\<forall>a. map_of zs a = map_option location_of (List.find (\<lambda>r. d_address r = a) records))"
proof -
  let ?P = "ordered (pc_entries records)"
  have d: "distinct (map fst ?P)" by (rule distinct_ordered [OF distinct_pc_entries])
  obtain zs where zs: "ordered (pc_json records) = map pc_form zs" "set zs = set ?P" "distinct (map fst zs)"
      "map_of (map (\<lambda>e. (fst e, location_of (snd e))) zs) = map_of (map (\<lambda>e. (fst e, location_of (snd e))) ?P)"
    using reordered_map [OF d, of pc_form "\<lambda>e. (fst e, location_of (snd e))"] distinct_pc_json [of records]
    unfolding pc_json_def by auto
  have ok: "list_all (\<lambda>e. record_ok (snd e)) zs"
    using assms set_pc_entries zs(2) by (fastforce simp: list_all_iff)
  have run: "fold_ok load_pc_entry (ordered (pc_json records)) [] =
      Inr ([] @ map (\<lambda>e. (fst e, location_of (snd e))) zs)"
    unfolding zs(1) by (rule load_pc_fold [OF zs(3) _ ok]) simp
  then show ?thesis
    using zs(4) map_of_ordered [OF distinct_pc_entries]
    by (auto simp: map_of_map_snd map_of_pc_entries)
qed

text \<open>The document that the assembler writes is read back.\<close>

definition symbols_ok :: "cartridge_header \<Rightarrow> (string \<times> u16) list \<Rightarrow> debug_record list \<Rightarrow> bool" where
  "symbols_ok header symbols records =
     (0 < h_rom_size header \<and> distinct (map fst symbols) \<and>
      list_all (\<lambda>r. record_ok r \<and> d_rom_offset r < h_rom_size header) records)"

lemma map_ok_strings: "map_ok (\<lambda>item. require_string item label) (map Json_String files) = Inr files"
  by (induction files) (simp_all add: require_string_def)

lemma parse_files: "parse_string_array (Json_Array (map Json_String files)) label = Inr files"
  by (simp add: parse_string_array_def require_array_def map_ok_strings)

lemma symbols_roundtrip:
  assumes ok: "symbols_ok header symbols records"
  shows "\<exists>syms. load_debug_symbols path (Some (encode_debug_json header schema root files symbols records)) =
      Some (Inr syms) \<and>
    ds_version syms = schema \<and> ds_entry syms = h_entry header \<and> ds_rom_size syms = h_rom_size header \<and>
    ds_cartridge_version syms = ucast (h_version header) \<and> ds_source_root syms = root \<and>
    ds_source_files syms = files \<and> map_of (ds_symbols syms) = map_of symbols \<and>
    (\<forall>a. symbols_lookup syms a = map_option location_of (List.find (\<lambda>r. d_address r = a) records)) \<and>
    ds_records syms = map record_of records"
proof -
  have d: "distinct (map fst symbols)" and r: "list_all record_ok records" and pos: "0 < h_rom_size header"
    using ok by (simp_all add: symbols_ok_def list_all_iff)
  let ?kvs = "document_json header schema root files symbols records"
  obtain zs where zs: "fold_ok load_symbol (ordered (symbols_json symbols)) [] = Inr zs" "map_of zs = map_of symbols"
    using load_symbols [OF d] by blast
  obtain ps where ps: "fold_ok load_pc_entry (ordered (pc_json records)) [] = Inr ps"
      "\<forall>a. map_of ps a = map_option location_of (List.find (\<lambda>r. d_address r = a) records)"
    using load_pcs [OF r] by blast
  have rs: "map_ok (load_record (h_rom_size header)) (map (\<lambda>r. Json_Object (record_json r)) records) =
      Inr (map record_of records)"
  proof -
    have "map_ok (load_record (h_rom_size header)) (map (\<lambda>r. Json_Object (record_json r)) rs) = Inr (map record_of rs)"
      if "list_all (\<lambda>r. record_ok r \<and> d_rom_offset r < h_rom_size header) rs" for rs
      using that by (induction rs) (simp_all add: load_record_json)
    then show ?thesis using ok by (simp add: symbols_ok_def)
  qed
  have size: "\<not> int (unat (h_rom_size header)) \<le> 0" "(word_of_int (int (unat (h_rom_size header))) :: u32) = h_rom_size header"
  proof -
    have "0 < unat (h_rom_size header)" using pos by (simp add: word_less_nat_alt)
    then show "\<not> int (unat (h_rom_size header)) \<le> 0" by linarith
  qed simp
  have version: "load_cartridge_version ?kvs = Inr (ucast (h_version header))"
    by (simp add: load_cartridge_version_def document_json_def)
  have field: "require_field (Json_Object ?kvs) k = (case map_of ?kvs k of
      None \<Rightarrow> Inl (Symbols_Error (''missing debug symbol field: '' @ k)) | Some w \<Rightarrow> Inr w)" for k
    by (simp add: require_field_def require_object_def)
  have fields: "require_field (Json_Object ?kvs) ''version'' = Inr (Json_String schema)"
    "require_field (Json_Object ?kvs) ''entry'' = Inr (hex_json (h_entry header))"
    "require_field (Json_Object ?kvs) ''rom_size'' = Inr (Json_Number (int (unat (h_rom_size header))))"
    "require_field (Json_Object ?kvs) ''source_root'' = Inr (Json_String root)"
    "require_field (Json_Object ?kvs) ''source_files'' = Inr (Json_Array (map Json_String files))"
    "require_field (Json_Object ?kvs) ''symbols'' = Inr (Json_Object (symbols_json symbols))"
    "require_field (Json_Object ?kvs) ''pc_to_source'' = Inr (Json_Object (pc_json records))"
    "require_field (Json_Object ?kvs) ''records'' = Inr (Json_Array (map (\<lambda>r. Json_Object (record_json r)) records))"
    unfolding field by (simp_all add: document_json_def)
  have load: "symbols_of_json (Json_Object ?kvs) =
      Inr \<lparr>ds_version = schema, ds_entry = h_entry header, ds_rom_size = h_rom_size header,
        ds_cartridge_version = ucast (h_version header), ds_source_root = root, ds_source_files = files,
        ds_symbols = zs, ds_pc_to_source = ps, ds_records = map record_of records\<rparr>"
    unfolding symbols_of_json_def fields bind_ok_Inr
    using zs(1) ps(1) rs size version
    by (simp add: require_object_def require_string_def require_number_def require_array_def
      parse_files hex_json_def parse_hex_hexadecimal Let_def)
  have "load_debug_symbols path (Some (encode_debug_json header schema root files symbols records)) =
      Some (symbols_of_json (Json_Object ?kvs))"
    by (simp add: load_debug_symbols_def parse_document [OF d r])
  then show ?thesis using load zs(2) ps(2) by (simp add: symbols_lookup_def)
qed

text \<open>
  The value is cut to 32 bits before the range check, and what follows the digits is ignored.
\<close>

lemma stoul16_examples: "stoul16 ''100008000'' = Some 0x100008000" "stoul16 ''12 zz'' = Some 0x12"
  by (simp_all add: stoul16_def is_c_space_def is_hex_digit_def digit_value_def Let_def less_eq_char_def)

lemma hex_word_wraps:
  "parse_hex_word ''0x100008000'' l = Inr 0x8000" "parse_hex_word ''0x12 zz'' l = Inr 0x12"
  by (simp_all add: parse_hex_word_def stoul16_examples Let_def)

end
