(* ===== verification/Asm_Debug.thy ===== *)
theory Asm_Debug
  imports Asm_Passes Debug_Roundtrip
begin

text \<open>
  The debug document of an assembled program, loaded by the simulator: every address of the
  program leads to the line, column and text of its statement, and every label to its address.
\<close>

definition span_ok :: "span \<Rightarrow> bool" where
  "span_ok sp = (1 \<le> span_line sp \<and> span_line sp < 2 ^ 31 \<and> 1 \<le> span_column sp \<and> span_column sp < 2 ^ 31)"

lemma encode_document:
  assumes "encode pass options file = Inr result"
    and "list_all (\<lambda>item. 0 < item_size item) (fp_items pass)"
  obtains rel root files where
    "a_debug_json result = encode_debug_json (a_header result) ''v1'' root files (fp_symbols pass)
      (concat (map (item_records (unat (opt_origin options)) rel) (fp_items pass)))"
proof -
  let ?source = "if file = [] then ''unknown.asm'' else file"
  let ?rel = "relative_to_root ?source (parent_path ?source)"
  let ?st0 = "\<lparr>en_rom = replicate (unat (opt_rom_size options)) 0xFF, en_files = [], en_records = []\<rparr>"
  let ?items = "fold_ok (encode_item pass (unat (opt_origin options)) ?rel) (fp_items pass) ?st0"
  have fits: "\<not> max (unat (fp_max_address pass)) (unat (opt_origin options)) - unat (opt_origin options)
      > unat (opt_rom_size options)"
  proof
    assume "max (unat (fp_max_address pass)) (unat (opt_origin options)) - unat (opt_origin options)
      > unat (opt_rom_size options)"
    with assms(1) show False by (simp only: encode_def Let_def if_True) simp
  qed
  have enc: "bind_ok ?items (\<lambda>st. Inr
      \<lparr>a_header = default_header\<lparr>h_entry := opt_origin options, h_rom_size := of_nat (length (en_rom st))\<rparr>,
       a_rom = en_rom st,
       a_debug_json = encode_debug_json
         (default_header\<lparr>h_entry := opt_origin options, h_rom_size := of_nat (length (en_rom st))\<rparr>) ''v1''
         (if parent_path ?source = [] then ''.'' else parent_path ?source)
         (if en_files st = [] then track_source_file ?rel ?source [] else en_files st)
         (fp_symbols pass) (en_records st)\<rparr>) = Inr result"
    using assms(1) fits by (simp only: encode_def Let_def if_False)
  then obtain st where st: "?items = Inr st" by (elim bind_ok_eq_InrE)
  have records: "en_records st = concat (map (item_records (unat (opt_origin options)) ?rel) (fp_items pass))"
    using encode_items [OF st assms(2)] by simp
  note result = enc [unfolded st bind_ok_Inr sum.inject, symmetric]
  show ?thesis
    by (rule that [of _ _ ?rel]) (simp only: result records assembler_result.select_convs)
qed

text \<open>Records of a program.\<close>

lemma item_records_ok:
  assumes "span_ok (e_span item)" and "placed_in pass origin n item" and "n = unat rom_size"
    and "r \<in> set (item_records origin rel item)"
  shows "record_ok r \<and> d_rom_offset r < rom_size"
proof -
  obtain i where i: "i < item_size item" "r = item_record origin rel item i"
    using assms(4) by (auto simp: item_records_def)
  let ?k = "unat (e_address item) - origin + i"
  have "?k < unat rom_size" using assms(2,3) i(1) by (auto simp: placed_in_def)
  moreover from this have "?k < 4294967296" using unat_u32_less by (rule less_trans)
  then have "unat (of_nat ?k :: u32) = ?k" by (simp only: unat_of_nat) (simp del: of_nat_add)
  ultimately have "(of_nat ?k :: u32) < rom_size" unfolding word_less_nat_alt by (simp only:)
  then show ?thesis using assms(1) by (simp add: i(2) item_record_def record_ok_def span_ok_def)
qed

text \<open>The first record of an address belongs to the item that occupies it.\<close>

definition below :: "nat \<Rightarrow> emittable list \<Rightarrow> bool" where
  "below n items = list_all (\<lambda>item. unat (e_address item) + item_size item \<le> n) items"

lemma record_address:
  assumes "unat (e_address item) + item_size item \<le> 65536" and "i < item_size item"
  shows "unat (d_address (item_record origin rel item i)) = unat (e_address item) + i"
proof -
  have "i < 65536" "unat (e_address item) + i < 65536" using assms by linarith+
  then show ?thesis by (simp add: item_record_def unat_word_ariths unat_of_nat)
qed

lemma find_append:
  "List.find P (xs @ ys) = (case List.find P xs of None \<Rightarrow> List.find P ys | Some x \<Rightarrow> Some x)"
  by (induction xs) auto

lemma find_item_record:
  assumes "items_ordered items" and "below 65536 items" and "item \<in> set items" and "j < item_size item"
  shows "List.find (\<lambda>r. d_address r = e_address item + of_nat j) (concat (map (item_records origin rel) items)) =
    Some (item_record origin rel item j)"
  using assms(1-3)
proof (induction items)
  case Nil
  then show ?case by simp
next
  case (Cons it items)
  have size: "unat (e_address x) + item_size x \<le> 65536" if "x \<in> set (it # items)" for x
    using Cons.prems(2) that by (auto simp: below_def list_all_iff)
  have target: "e_address item + of_nat j = d_address (item_record origin rel item j)"
    by (simp add: item_record_def)
  have addr: "unat (d_address (item_record origin rel item j)) = unat (e_address item) + j"
    by (rule record_address [OF size [OF Cons.prems(3)] assms(4)])
  show ?case
  proof (cases "item \<in> set items")
    case True
    have "unat (e_address it) + item_size it \<le> unat (e_address item)"
      using Cons.prems(1) True by (simp add: items_ordered_def)
    then have "d_address r \<noteq> e_address item + of_nat j" if "r \<in> set (item_records origin rel it)" for r
    proof -
      from that obtain i where i: "i < item_size it" "r = item_record origin rel it i"
        by (auto simp: item_records_def)
      have "unat (d_address r) = unat (e_address it) + i"
        unfolding i(2) by (rule record_address [OF size i(1)]) simp
      with \<open>_ \<le> unat (e_address item)\<close> addr i(1) have "unat (d_address r) < unat (d_address (item_record origin rel item j))"
        by linarith
      then show ?thesis unfolding target by auto
    qed
    then have "List.find (\<lambda>r. d_address r = e_address item + of_nat j) (item_records origin rel it) = None"
      by (simp add: find_None_iff)
    then show ?thesis
      using Cons True by (simp add: find_append items_ordered_def below_def)
  next
    case False
    with Cons.prems(3) have it: "it = item" by simp
    have "List.find (\<lambda>r. d_address r = e_address item + of_nat j) (item_records origin rel item) =
        Some (item_record origin rel item j)"
    proof -
      have "d_address (item_record origin rel item i) = e_address item + of_nat j \<longleftrightarrow> i = j"
        if "i < item_size item" for i
        using record_address [OF size [OF Cons.prems(3)] that] addr
        unfolding target by (auto simp: word_unat_eq_iff)
      then show ?thesis
        unfolding item_records_def find_Some_iff
        by (intro exI [of _ j]) (use assms(4) in auto)
    qed
    then show ?thesis by (simp add: it find_append)
  qed
qed

lemma program_debug_symbols:
  assumes pass: "first_pass isa options program = Inr pass"
    and no_org: "list_all (\<lambda>s. \<not> is_org s) program"
    and enc: "encode pass options file = Inr result" and size: "0 < opt_rom_size options"
    and spans: "list_all (\<lambda>item. span_ok (e_span item)) (fp_items pass)"
  shows "\<exists>syms. load_debug_symbols path (Some (a_debug_json result)) = Some (Inr syms) \<and>
    ds_entry syms = opt_origin options \<and> map_of (ds_symbols syms) = map_of (fp_symbols pass) \<and>
    (\<forall>item\<in>set (fp_items pass). \<forall>j<item_size item. \<exists>loc.
       symbols_lookup syms (e_address item + of_nat j) = Some loc \<and>
       loc_line loc = int (span_line (e_span item)) \<and> loc_column loc = int (span_column (e_span item)) \<and>
       loc_text loc = e_text item)"
proof -
  note sizes = first_pass_items_size [OF pass]
  note r = encode_result [OF enc sizes]
  obtain rel root files where doc: "a_debug_json result =
      encode_debug_json (a_header result) ''v1'' root files (fp_symbols pass)
        (concat (map (item_records (unat (opt_origin options)) rel) (fp_items pass)))"
    using encode_document [OF enc sizes] by blast
  let ?records = "concat (map (item_records (unat (opt_origin options)) rel) (fp_items pass))"
  have "list_all (\<lambda>rec. record_ok rec \<and> d_rom_offset rec < opt_rom_size options) ?records"
    using item_records_ok [OF _ _ refl, where rel = rel] r(3) spans
    by (fastforce simp: list_all_iff)
  then have "symbols_ok (a_header result) (fp_symbols pass) ?records"
    using size first_pass_result_ok [OF pass] by (simp add: symbols_ok_def r(2) first_pass_ok_def)
  from symbols_roundtrip [OF this, of path "''v1''" root files] obtain syms where
    syms: "load_debug_symbols path (Some (a_debug_json result)) = Some (Inr syms)"
      "ds_entry syms = h_entry (a_header result)" "map_of (ds_symbols syms) = map_of (fp_symbols pass)"
      "\<forall>a. symbols_lookup syms a = map_option location_of (List.find (\<lambda>r. d_address r = a) ?records)"
    unfolding doc by blast
  have ord: "items_ordered (fp_items pass)"
    using first_pass_ordered [OF pass [unfolded first_pass_def] no_org]
    by (simp add: first_pass_init_def items_ordered_def)
  have top: "unat (fp_max_address pass) + 1 \<le> 65536"
    using unat_u16_less [of "fp_max_address pass"] by linarith
  have "below 65536 (fp_items pass)"
    using first_pass_result_ok [OF pass] top by (fastforce simp: below_def first_pass_ok_def list_all_iff)
  note find = find_item_record [OF ord this]
  have "\<exists>loc. symbols_lookup syms (e_address item + of_nat j) = Some loc \<and>
      loc_line loc = int (span_line (e_span item)) \<and> loc_column loc = int (span_column (e_span item)) \<and>
      loc_text loc = e_text item" if "item \<in> set (fp_items pass)" "j < item_size item" for item j
    using syms(4) find [OF that, where rel = rel and origin = "unat (opt_origin options)"]
    by (simp add: location_of_def item_record_def)
  with syms r(2) show ?thesis by auto
qed

end
