(* ===== verification/Micro_Dump.thy ===== *)
theory Micro_Dump
  imports Micro_Decoder
begin

text \<open>
  What the dumps of the microcode decoder contain: the keys of the table, grouped by opcode and
  status in increasing order. The dump of a program is the sequence of the dumps of its
  instructions, and each step shows the controls that the compiler was given.
\<close>

section \<open>Grouping a set of pairs\<close>

lemma sorted_concat_Pair:
  fixes as :: "'a::linorder list" and g :: "'a \<Rightarrow> 'b::linorder list"
  assumes "sorted_wrt (<) as" and "\<And>a. a \<in> set as \<Longrightarrow> sorted_wrt (<) (g a)"
  shows "sorted_wrt (<) (concat (map (\<lambda>a. map (Pair a) (g a)) as))"
  using assms
proof (induction as)
  case (Cons a as)
  have "sorted_wrt (<) (map (Pair a) (g a))"
    using Cons.prems(2) [of a] by (simp add: sorted_wrt_map)
  with Cons show ?case by (auto simp: sorted_wrt_append)
qed simp

lemma sorted_list_of_pairs:
  fixes K :: "('a::linorder \<times> 'b::linorder) set"
  assumes "finite K"
  shows "sorted_list_of_set K =
    concat (map (\<lambda>a. map (Pair a) (sorted_list_of_set (K `` {a}))) (sorted_list_of_set (fst ` K)))"
    (is "_ = ?xs")
proof -
  have fin: "finite (K `` {a})" for a
    using assms by (rule finite_Image)
  have "set ?xs = K" using assms fin by (auto simp: image_iff Image_iff)
  moreover have "sorted_wrt (<) ?xs" by (rule sorted_concat_Pair) simp_all
  then have "sorted ?xs" "distinct ?xs" by (simp_all only: strict_sorted_iff)
  then have "sorted_list_of_set (set ?xs) = ?xs" by (rule sorted_list_of_set.idem_if_sorted_distinct)
  ultimately show ?thesis by (simp only:)
qed

text \<open>The keys of a table, as triples in the order of the dumps.\<close>

definition key_set :: "microcode_program \<Rightarrow> (u8 \<times> u8 \<times> u8) set" where
  "key_set p = program_order ` set (collect_keys p)"

definition table_opcodes :: "microcode_program \<Rightarrow> u8 list" where
  "table_opcodes p = sorted_list_of_set (fst ` key_set p)"

definition opcode_statuses :: "microcode_program \<Rightarrow> u8 \<Rightarrow> u8 list" where
  "opcode_statuses p op = sorted_list_of_set (fst ` (key_set p `` {op}))"

definition status_steps :: "microcode_program \<Rightarrow> u8 \<Rightarrow> u8 \<Rightarrow> u8 list" where
  "status_steps p op status = sorted_list_of_set ((key_set p `` {op}) `` {status})"

lemma finite_key_set [simp]: "finite (key_set p)"
  by (simp add: key_set_def)

lemma mem_table_opcodes: "op \<in> set (table_opcodes p) \<longleftrightarrow> op \<in> fst ` key_set p"
  by (simp add: table_opcodes_def)

lemma program_order_make_key [simp]: "program_order (make_key op n status) = (op, status, n)"
  by (simp add: program_order_def make_key_def)

lemma make_key_fields [simp]:
  "key_opcode (make_key op n status) = op" "key_status (make_key op n status) = status"
  "key_step (make_key op n status) = n"
  by (simp_all add: make_key_def)

lemma inj_program_order: "inj_on program_order A"
  by (rule inj_onI) (simp add: program_order_def)

lemma sort_key_set:
  assumes "inj_on f (set xs)" and "distinct xs"
  shows "map f (sort_key f xs) = sorted_list_of_set (f ` set xs)"
  by (rule sorted_distinct_set_unique) (use assms in \<open>simp_all add: distinct_map\<close>)

text \<open>A table as a map: no key twice, and no bits above the three bytes.\<close>

definition table_ok :: "microcode_program \<Rightarrow> bool" where
  "table_ok p =
     (distinct (map fst (table p)) \<and> list_all (\<lambda>e. encode_key (decode_key (fst e)) = fst e) (table p))"

lemma collect_keys_distinct: "table_ok p \<Longrightarrow> distinct (collect_keys p)"
proof -
  assume ok: "table_ok p"
  have "map encode_key (collect_keys p) = map fst (table p)"
    using ok by (simp add: table_ok_def collect_keys_def list_all_iff)
  then have "distinct (map encode_key (collect_keys p))" using ok by (simp add: table_ok_def)
  then show ?thesis by (simp add: distinct_map)
qed

lemma collect_keys_iff:
  assumes "table_ok p"
  shows "k \<in> set (collect_keys p) \<longleftrightarrow> map_of (table p) (encode_key k) \<noteq> None"
proof -
  have "k \<in> set (collect_keys p) \<longleftrightarrow> encode_key k \<in> fst ` set (table p)"
    using assms by (force simp: collect_keys_def table_ok_def list_all_iff decode_encode_key)
  then show ?thesis by (simp add: map_of_eq_None_iff)
qed

lemma key_set_iff:
  assumes "table_ok p"
  shows "(op, status, n) \<in> key_set p \<longleftrightarrow> map_of (table p) (encode_key (make_key op n status)) \<noteq> None"
proof -
  have "(op, status, n) \<in> key_set p \<longleftrightarrow> program_order (make_key op n status) \<in> program_order ` set (collect_keys p)"
    by (simp add: key_set_def)
  also have "\<dots> \<longleftrightarrow> make_key op n status \<in> set (collect_keys p)"
    by (rule inj_image_mem_iff [OF inj_program_order])
  finally have "(op, status, n) \<in> key_set p \<longleftrightarrow> make_key op n status \<in> set (collect_keys p)" .
  then show ?thesis by (simp add: collect_keys_iff [OF assms])
qed

lemma sorted_keys:
  assumes "table_ok p"
  shows "sort_key program_order (collect_keys p) =
    concat (map (\<lambda>op. concat (map (\<lambda>status. map (\<lambda>n. make_key op n status) (status_steps p op status))
      (opcode_statuses p op))) (table_opcodes p))" (is "?ks = ?xs")
proof (rule map_injective [of program_order])
  show "inj program_order" by (rule inj_program_order)
  have "map program_order ?ks = sorted_list_of_set (key_set p)"
    unfolding key_set_def by (rule sort_key_set [OF inj_program_order collect_keys_distinct [OF assms]])
  also have "\<dots> = concat (map (\<lambda>op. map (Pair op) (concat (map (\<lambda>status. map (Pair status) (status_steps p op status))
      (opcode_statuses p op)))) (table_opcodes p))"
    by (subst sorted_list_of_pairs)
      (simp_all add: table_opcodes_def opcode_statuses_def status_steps_def sorted_list_of_pairs finite_Image)
  also have "\<dots> = map program_order ?xs"
    by (simp add: map_concat o_def)
  finally show "map program_order ?ks = map program_order ?xs" .
qed

section \<open>The loops\<close>

definition controls_at :: "microcode_program \<Rightarrow> u8 \<Rightarrow> u8 \<Rightarrow> u8 \<Rightarrow> string list" where
  "controls_at p op status n =
     decode_control_word p (the (map_of (table p) (encode_key (make_key op n status))))"

definition steps_text :: "dump_layout \<Rightarrow> microcode_program \<Rightarrow> u8 \<Rightarrow> u8 \<Rightarrow> u8 list \<Rightarrow> string" where
  "steps_text l p op status ns = concat (map (\<lambda>n. step_lines l n (controls_at p op status n)) ns)"

definition statuses_text :: "dump_layout \<Rightarrow> microcode_program \<Rightarrow> u8 \<Rightarrow> u8 list \<Rightarrow> string" where
  "statuses_text l p op sts =
     concat (map (\<lambda>status. status_lines l status @ steps_text l p op status (status_steps p op status)) sts)"

definition opcode_text :: "dump_layout \<Rightarrow> microcode_program \<Rightarrow> u8 \<Rightarrow> string" where
  "opcode_text l p op = opcode_lines l op @ statuses_text l p op (opcode_statuses p op)"

definition opcode_keys :: "microcode_program \<Rightarrow> u8 \<Rightarrow> u8 list \<Rightarrow> microcode_key list" where
  "opcode_keys p op sts =
     concat (map (\<lambda>status. map (\<lambda>n. make_key op n status) (status_steps p op status)) sts)"

lemma dump_step_in_table:
  assumes "map_of (table p) (encode_key (make_key op n status)) \<noteq> None"
  shows "dump_step l p (make_key op n status) st =
    Inr (st\<lparr>dumped := dumped st @ step_lines l n (controls_at p op status n)\<rparr>)"
  using assms by (auto simp: dump_step_def step_controls_def controls_at_def)

lemma dump_steps:
  assumes "current_status st = status"
    and "list_all (\<lambda>n. map_of (table p) (encode_key (make_key op n status)) \<noteq> None) ns"
  shows "dump_instruction_loop l p (map (\<lambda>n. make_key op n status) ns) st =
    Inr (st\<lparr>dumped := dumped st @ steps_text l p op status ns\<rparr>)"
  using assms
proof (induction ns arbitrary: st)
  case (Cons n ns)
  let ?st = "st\<lparr>dumped := dumped st @ step_lines l n (controls_at p op status n)\<rparr>"
  have "dump_step l p (make_key op n status) st = Inr ?st"
    using Cons.prems by (intro dump_step_in_table) simp
  moreover have "dump_status l (make_key op n status) st = st"
    using Cons.prems by (simp add: dump_status_def)
  ultimately show ?case
    using Cons.IH [of ?st] Cons.prems by (simp add: dump_instruction_loop_def steps_text_def)
qed (simp add: dump_instruction_loop_def steps_text_def)

lemma dump_new_status:
  assumes "current_status st \<noteq> status" and "ns \<noteq> []"
    and "list_all (\<lambda>n. map_of (table p) (encode_key (make_key op n status)) \<noteq> None) ns"
  shows "dump_instruction_loop l p (map (\<lambda>n. make_key op n status) ns) st =
    Inr (st\<lparr>current_status := status, dumped := dumped st @ status_lines l status @ steps_text l p op status ns\<rparr>)"
proof -
  let ?st = "st\<lparr>current_status := status, dumped := dumped st @ status_lines l status\<rparr>"
  obtain n ns' where ns: "ns = n # ns'" using assms(2) by (cases ns) auto
  have "dump_status l (make_key op n status) st = dump_status l (make_key op n status) ?st"
    using assms(1) by (simp add: dump_status_def)
  then have "dump_instruction_loop l p (map (\<lambda>n. make_key op n status) ns) st =
      dump_instruction_loop l p (map (\<lambda>n. make_key op n status) ns) ?st"
    by (simp add: dump_instruction_loop_def ns)
  also have "\<dots> = Inr (?st\<lparr>dumped := dumped ?st @ steps_text l p op status ns\<rparr>)"
    by (rule dump_steps [OF _ assms(3)]) simp
  finally show ?thesis by simp
qed

lemma dump_instruction_loop_append:
  "dump_instruction_loop l p (ks @ ks') st =
   bind_ok (dump_instruction_loop l p ks st) (dump_instruction_loop l p ks')"
  unfolding dump_instruction_loop_def [abs_def] by (rule fold_ok_append)

text \<open>The statuses listed under an opcode, each with its steps.\<close>

lemma status_steps_ok:
  assumes "table_ok p" and "status \<in> set (opcode_statuses p op)"
  shows "status_steps p op status \<noteq> []"
    and "list_all (\<lambda>n. map_of (table p) (encode_key (make_key op n status)) \<noteq> None) (status_steps p op status)"
proof -
  have fin: "finite (key_set p `` {op})" "finite ((key_set p `` {op}) `` {status})"
    by (simp_all add: finite_Image)
  from assms(2) obtain n where "(op, status, n) \<in> key_set p"
    using fin by (auto simp: opcode_statuses_def)
  then have "n \<in> set (status_steps p op status)" using fin by (simp add: status_steps_def)
  then show "status_steps p op status \<noteq> []" by auto
  show "list_all (\<lambda>n. map_of (table p) (encode_key (make_key op n status)) \<noteq> None) (status_steps p op status)"
    using fin key_set_iff [OF assms(1)] by (simp add: status_steps_def list_all_iff)
qed

lemma dump_statuses:
  assumes ok: "table_ok p"
  shows "distinct sts \<Longrightarrow> set sts \<subseteq> set (opcode_statuses p op) \<Longrightarrow>
    sts \<noteq> [] \<longrightarrow> hd sts \<noteq> current_status st \<Longrightarrow>
    \<exists>c. dump_instruction_loop l p (opcode_keys p op sts) st =
      Inr (st\<lparr>current_status := c, dumped := dumped st @ statuses_text l p op sts\<rparr>)"
proof (induction sts arbitrary: st)
  case Nil
  show ?case
    by (intro exI [of _ "current_status st"])
      (simp add: opcode_keys_def statuses_text_def dump_instruction_loop_def)
next
  case (Cons status sts)
  note steps = status_steps_ok [OF ok, of status op]
  let ?st = "st\<lparr>current_status := status,
    dumped := dumped st @ status_lines l status @ steps_text l p op status (status_steps p op status)\<rparr>"
  have head: "dump_instruction_loop l p (map (\<lambda>n. make_key op n status) (status_steps p op status)) st = Inr ?st"
    using Cons.prems by (intro dump_new_status steps) auto
  have "sts \<noteq> [] \<longrightarrow> hd sts \<noteq> current_status ?st"
    using Cons.prems(1) by (cases sts) auto
  then obtain c where "dump_instruction_loop l p (opcode_keys p op sts) ?st =
      Inr (?st\<lparr>current_status := c, dumped := dumped ?st @ statuses_text l p op sts\<rparr>)"
    using Cons.IH [of ?st] Cons.prems by auto
  then show ?case
    unfolding opcode_keys_def list.map concat.simps dump_instruction_loop_append head bind_ok_Inr
    by (auto simp: statuses_text_def opcode_keys_def)
qed

text \<open>With the opcode as the current one, the two loops agree.\<close>

lemma dump_program_loop_same:
  "list_all (\<lambda>k. key_opcode k = current_opcode st) ks \<Longrightarrow>
   dump_program_loop l p ks st = dump_instruction_loop l p ks st"
proof (induction ks arbitrary: st)
  case (Cons k ks)
  have same: "dump_opcode l k st = st" using Cons.prems by (simp add: dump_opcode_def)
  show ?case
  proof (cases "dump_step l p k (dump_status l k st)")
    case (Inl e)
    then show ?thesis by (simp add: dump_program_loop_def dump_instruction_loop_def same)
  next
    case (Inr t)
    then have "current_opcode t = current_opcode st"
      by (auto simp: dump_step_def dump_status_def elim!: bind_ok_eq_InrE)
    then have "dump_program_loop l p ks t = dump_instruction_loop l p ks t"
      using Cons by simp
    with Inr show ?thesis by (simp add: dump_program_loop_def dump_instruction_loop_def same)
  qed
qed (simp add: dump_program_loop_def dump_instruction_loop_def)

text \<open>An opcode other than the current one: its header and its statuses.\<close>

definition starts_ok :: "microcode_program \<Rightarrow> u8 \<Rightarrow> bool" where
  "starts_ok p op = (hd (opcode_statuses p op) \<noteq> 255)"

lemma opcode_statuses_distinct [simp]: "distinct (opcode_statuses p op)"
  by (simp add: opcode_statuses_def)

lemma opcode_statuses_not_Nil: "op \<in> set (table_opcodes p) \<Longrightarrow> opcode_statuses p op \<noteq> []"
  by (auto simp: opcode_statuses_def table_opcodes_def finite_Image)

lemma key_opcode_keys: "list_all (\<lambda>k. key_opcode k = op) (opcode_keys p op sts)"
  by (auto simp: opcode_keys_def list_all_iff)

lemma opcode_keys_Cons:
  assumes "table_ok p" and "op \<in> set (table_opcodes p)"
  obtains n ks where "opcode_keys p op (opcode_statuses p op) =
    make_key op n (hd (opcode_statuses p op)) # ks"
proof -
  obtain status sts where st: "opcode_statuses p op = status # sts"
    using opcode_statuses_not_Nil [OF assms(2)] by (cases "opcode_statuses p op") auto
  then obtain n ns where "status_steps p op status = n # ns"
    using status_steps_ok(1) [OF assms(1), of status op] by (cases "status_steps p op status") auto
  with st that show ?thesis by (simp add: opcode_keys_def)
qed

lemma dump_new_opcode:
  assumes ok: "table_ok p" and op: "op \<in> set (table_opcodes p)" "starts_ok p op"
    and new: "current_opcode st \<noteq> op"
  shows "\<exists>c. dump_program_loop l p (opcode_keys p op (opcode_statuses p op)) st =
    Inr \<lparr>current_opcode = op, current_status = c,
      dumped = dumped st @ (if current_opcode st \<noteq> 255 then opcode_separator l else []) @ opcode_text l p op\<rparr>"
proof -
  let ?ks = "opcode_keys p op (opcode_statuses p op)"
  let ?st = "\<lparr>current_opcode = op, current_status = 255,
    dumped = dumped st @ (if current_opcode st \<noteq> 255 then opcode_separator l else []) @ opcode_lines l op\<rparr>"
  obtain n ks where ks: "?ks = make_key op n (hd (opcode_statuses p op)) # ks"
    by (rule opcode_keys_Cons [OF ok op(1)])
  have "dump_opcode l (make_key op n (hd (opcode_statuses p op))) st = ?st"
    "dump_opcode l (make_key op n (hd (opcode_statuses p op))) ?st = ?st"
    using new by (simp_all add: dump_opcode_def)
  then have "dump_program_loop l p ?ks st = dump_program_loop l p ?ks ?st"
    unfolding ks by (simp add: dump_program_loop_def)
  also have "\<dots> = dump_instruction_loop l p ?ks ?st"
    by (rule dump_program_loop_same) (simp add: key_opcode_keys)
  finally show ?thesis
    using dump_statuses [OF ok, of "opcode_statuses p op" op ?st l] op(2)
    by (auto simp: starts_ok_def opcode_text_def)
qed

lemma dump_program_loop_append:
  "dump_program_loop l p (ks @ ks') st = bind_ok (dump_program_loop l p ks st) (dump_program_loop l p ks')"
  unfolding dump_program_loop_def [abs_def] by (rule fold_ok_append)

definition program_keys :: "microcode_program \<Rightarrow> u8 list \<Rightarrow> microcode_key list" where
  "program_keys p ops = concat (map (\<lambda>op. opcode_keys p op (opcode_statuses p op)) ops)"

lemma not_255_less: "\<not> 255 < (w :: u8)"
proof -
  have "(255 :: u8) = - 1" by simp
  then show ?thesis by (simp only: not_less word_n1_ge)
qed

lemma dump_next_opcodes:
  assumes ok: "table_ok p"
  shows "sorted_wrt (<) (current_opcode st # ops) \<Longrightarrow> set ops \<subseteq> set (table_opcodes p) \<Longrightarrow>
    list_all (starts_ok p) ops \<Longrightarrow>
    \<exists>t. dump_program_loop l p (program_keys p ops) st = Inr t \<and>
      dumped t = dumped st @ concat (map (\<lambda>op. opcode_separator l @ opcode_text l p op) ops)"
proof (induction ops arbitrary: st)
  case Nil
  then show ?case by (simp add: program_keys_def dump_program_loop_def)
next
  case (Cons op ops)
  have "current_opcode st < op" using Cons.prems(1) by simp
  then have ne: "current_opcode st \<noteq> op" "current_opcode st \<noteq> 255"
    using not_255_less [of op] by auto
  obtain c where head: "dump_program_loop l p (opcode_keys p op (opcode_statuses p op)) st =
      Inr \<lparr>current_opcode = op, current_status = c,
        dumped = dumped st @ opcode_separator l @ opcode_text l p op\<rparr>"
    using dump_new_opcode [OF ok, of op st l] Cons.prems ne by auto
  let ?st = "\<lparr>current_opcode = op, current_status = c, dumped = dumped st @ opcode_separator l @ opcode_text l p op\<rparr>"
  obtain t where "dump_program_loop l p (program_keys p ops) ?st = Inr t"
    "dumped t = dumped ?st @ concat (map (\<lambda>op. opcode_separator l @ opcode_text l p op) ops)"
    using Cons.IH [of ?st] Cons.prems by auto
  then show ?case
    by (simp add: program_keys_def dump_program_loop_append head)
qed

lemma join_Cons: "join sep (x # xs) = x @ concat (map (\<lambda>y. sep @ y) xs)"
  by (induction xs arbitrary: x) simp_all

lemma dump_opcodes:
  assumes ok: "table_ok p" and "table_opcodes p \<noteq> [] \<longrightarrow> hd (table_opcodes p) \<noteq> 255"
    and "list_all (starts_ok p) (table_opcodes p)"
  shows "\<exists>t. dump_program_loop l p (sort_key program_order (collect_keys p)) (dump_start out) = Inr t \<and>
    dumped t = out @ join (opcode_separator l) (map (opcode_text l p) (table_opcodes p))"
proof -
  have keys: "sort_key program_order (collect_keys p) = program_keys p (table_opcodes p)"
    by (simp add: sorted_keys [OF ok] program_keys_def opcode_keys_def)
  show ?thesis
  proof (cases "table_opcodes p")
    case Nil
    then show ?thesis by (simp add: keys program_keys_def dump_program_loop_def dump_start_def)
  next
    case (Cons op ops)
    have sorted: "sorted_wrt (<) (op # ops)"
      using strict_sorted_list_of_set [of "fst ` key_set p"] unfolding Cons [unfolded table_opcodes_def] .
    obtain c where head: "dump_program_loop l p (opcode_keys p op (opcode_statuses p op)) (dump_start out) =
        Inr \<lparr>current_opcode = op, current_status = c, dumped = out @ opcode_text l p op\<rparr>"
      using dump_new_opcode [OF ok, of op "dump_start out" l] assms(2,3) Cons by (auto simp: dump_start_def)
    let ?st = "\<lparr>current_opcode = op, current_status = c, dumped = out @ opcode_text l p op\<rparr>"
    obtain t where "dump_program_loop l p (program_keys p ops) ?st = Inr t"
      "dumped t = dumped ?st @ concat (map (\<lambda>op. opcode_separator l @ opcode_text l p op) ops)"
      using dump_next_opcodes [OF ok, of ?st ops l] sorted assms(3) Cons by auto
    then show ?thesis
      unfolding keys Cons by (simp add: program_keys_def dump_program_loop_append head join_Cons o_def)
  qed
qed

section \<open>The dumps\<close>

lemma program_dump:
  assumes "table_ok p" and "table_opcodes p \<noteq> [] \<longrightarrow> hd (table_opcodes p) \<noteq> 255"
    and "list_all (starts_ok p) (table_opcodes p)"
  shows "dump_program p = Inr (join [newline] (map (opcode_text (text_layout p) p) (table_opcodes p)))"
  using dump_opcodes [OF assms, of "text_layout p" "[]"]
  by (auto simp: dump_program_def text_layout_def)

text \<open>
  The table with 255 as its first opcode has no other, and its dump is that of its statuses: the
  loop takes 255 for the opcode it has already shown.
\<close>

lemma table_opcodes_255: "table_opcodes p \<noteq> [255] \<longleftrightarrow> (table_opcodes p \<noteq> [] \<longrightarrow> hd (table_opcodes p) \<noteq> 255)"
proof (cases "table_opcodes p")
  case (Cons op ops)
  have "sorted_wrt (<) (op # ops)"
    using strict_sorted_list_of_set [of "fst ` key_set p"] unfolding Cons [unfolded table_opcodes_def] .
  then have "ops = []" if "op = 255" using that not_255_less by (cases ops) auto
  then show ?thesis using Cons by auto
qed simp

lemma program_dump_255:
  assumes ok: "table_ok p" and ops: "table_opcodes p = [255]" and starts: "list_all (starts_ok p) (table_opcodes p)"
  shows "dump_program p = Inr (statuses_text (text_layout p) p 255 (opcode_statuses p 255))"
proof -
  have keys: "sort_key program_order (collect_keys p) = opcode_keys p 255 (opcode_statuses p 255)"
    by (simp add: sorted_keys [OF ok] opcode_keys_def ops)
  have "dump_program_loop (text_layout p) p (opcode_keys p 255 (opcode_statuses p 255)) (dump_start []) =
      dump_instruction_loop (text_layout p) p (opcode_keys p 255 (opcode_statuses p 255)) (dump_start [])"
    by (rule dump_program_loop_same) (simp add: dump_start_def key_opcode_keys)
  with dump_statuses [OF ok, of "opcode_statuses p 255" 255 "dump_start []" "text_layout p"] starts ops show ?thesis
    by (auto simp: dump_program_def keys dump_start_def starts_ok_def)
qed

lemma collect_keys_empty: "collect_keys p = [] \<longleftrightarrow> table_opcodes p = []"
  by (simp add: table_opcodes_def key_set_def)

lemma program_yaml_dump:
  assumes "table_ok p" and "table_opcodes p \<noteq> [] \<longrightarrow> hd (table_opcodes p) \<noteq> 255"
    and "list_all (starts_ok p) (table_opcodes p)"
  shows "dump_program_yaml p =
    Inr (if table_opcodes p = [] then ''opcodes: {}'' @ [newline]
         else ''opcodes:'' @ [newline] @ concat (map (opcode_text (program_yaml_layout p) p) (table_opcodes p)))"
proof -
  have "sort_key program_order (collect_keys p) = [] \<longleftrightarrow> table_opcodes p = []"
    unfolding collect_keys_empty [symmetric] by (metis length_sort length_0_conv)
  moreover have "join [] xs = concat xs" for xs by (cases xs) (simp_all add: join_Cons)
  ultimately show ?thesis
    using dump_opcodes [OF assms, of "program_yaml_layout p" "''opcodes:'' @ [newline]"]
    by (auto simp: dump_program_yaml_def Let_def program_yaml_layout_def yaml_layout_def)
qed

lemma inj_instruction_order: "inj_on instruction_order {k. key_opcode k = op}"
  by (rule inj_onI) (simp add: instruction_order_def)

lemma instruction_keys:
  assumes "table_ok p"
  shows "sort_key instruction_order (filter (\<lambda>k. key_opcode k = op) (collect_keys p)) =
    opcode_keys p op (opcode_statuses p op)" (is "?ks = ?xs")
proof (rule inj_on_map_eq_map [THEN iffD1])
  let ?fs = "filter (\<lambda>k. key_opcode k = op) (collect_keys p)"
  show "inj_on instruction_order (set ?ks \<union> set ?xs)"
    by (rule inj_on_subset [OF inj_instruction_order [of op]])
      (use key_opcode_keys [of op p "opcode_statuses p op"] in \<open>auto simp: list_all_iff\<close>)
  have "map instruction_order ?ks = sorted_list_of_set (instruction_order ` set ?fs)"
    by (rule sort_key_set)
      (auto intro: inj_on_subset [OF inj_instruction_order [of op]] simp: collect_keys_distinct [OF assms])
  also have "instruction_order ` set ?fs = key_set p `` {op}"
    by (force simp: key_set_def program_order_def instruction_order_def)
  also have "sorted_list_of_set (key_set p `` {op}) =
      concat (map (\<lambda>status. map (Pair status) (status_steps p op status)) (opcode_statuses p op))"
    by (subst sorted_list_of_pairs) (simp_all add: opcode_statuses_def status_steps_def finite_Image)
  also have "\<dots> = map instruction_order ?xs"
    by (simp add: opcode_keys_def map_concat o_def instruction_order_def)
  finally show "map instruction_order ?ks = map instruction_order ?xs" .
qed

lemma opcode_filter_empty:
  "filter (\<lambda>k. key_opcode k = op) (collect_keys p) = [] \<longleftrightarrow> op \<notin> set (table_opcodes p)"
  by (auto simp: filter_empty_conv table_opcodes_def key_set_def program_order_def image_iff)

lemma dump_instruction_statuses:
  assumes "table_ok p" and "op \<in> set (table_opcodes p) \<Longrightarrow> starts_ok p op" and "op \<in> set (table_opcodes p)"
  shows "\<exists>t. dump_instruction_loop l p
      (sort_key instruction_order (filter (\<lambda>k. key_opcode k = op) (collect_keys p)))
      (dump_start (opcode_lines l op)) = Inr t \<and> dumped t = opcode_text l p op"
  using dump_statuses [OF assms(1), of "opcode_statuses p op" op "dump_start (opcode_lines l op)" l] assms(2,3)
  by (auto simp: instruction_keys [OF assms(1)] dump_start_def starts_ok_def opcode_text_def)

lemma instruction_dump:
  assumes "table_ok p" and "op \<in> set (table_opcodes p) \<Longrightarrow> starts_ok p op"
  shows "dump_instruction p op =
      Inr (if op \<in> set (table_opcodes p) then opcode_text (text_layout p) p op
           else ''opcode '' @ decimal (unat op) @ '': (no microcode)'' @ [newline])"
    and "dump_instruction_yaml p op =
      Inr (if op \<in> set (table_opcodes p) then opcode_text (instruction_yaml_layout p) p op
           else ''opcode_'' @ decimal (unat op) @ '': null'' @ [newline])"
  using dump_instruction_statuses [OF assms, where l = "text_layout p"]
    dump_instruction_statuses [OF assms, where l = "instruction_yaml_layout p"]
  by (auto simp: dump_instruction_def dump_instruction_yaml_def Let_def opcode_filter_empty)

section \<open>Compiled programs\<close>

lemma encoded_table_ok:
  assumes "encode_program c s = Inr p"
  shows "table_ok p"
proof -
  have "encode_key (decode_key k) = k" if "(k, w) \<in> set (table p)" for k w
  proof -
    have "map_of (table p) k = Some w" using that encode_program_distinct [OF assms] by simp
    then obtain key where "k = encode_key key"
      using encode_program_sound [OF assms] by (auto simp: table_sound_def)
    then show ?thesis by (simp add: decode_encode_key)
  qed
  then show ?thesis
    using encode_program_distinct [OF assms] by (auto simp: table_ok_def list_all_iff)
qed

text \<open>
  Every opcode of a compiled table has a step at status 0, because the variants of an
  instruction cover every status and start with the preamble.
\<close>

lemma dedup_from_not_Nil: "dedup_from t ts \<noteq> []"
  by (induction t ts rule: dedup_from.induct) auto

lemma dedup_steps_Nil_iff: "dedup_steps ts = [] \<longleftrightarrow> ts = []"
  by (cases ts) (simp_all add: dedup_steps_def dedup_from_not_Nil)

lemma final_steps_not_Nil: "fetch_preamble s \<noteq> [] \<Longrightarrow> final_steps c s v \<noteq> []"
  by (simp add: final_steps_def dedup_steps_Nil_iff)

lemma compiled_step_at:
  assumes "compile (cpu_compiler isa) s = Inr p" and "fetch_preamble s \<noteq> []"
    and "i \<in> set (instructions s)" and "v \<in> set (variants i)" and "variant_matches cpu_status_encoder v st"
  shows "(opcode i, st, 0) \<in> key_set p"
proof -
  obtain s' where e: "encode_program (cpu_compiler isa) s' = Inr p" by (rule compile_encoded [OF assms(1)])
  have "0 < length (final_steps (cpu_compiler isa) s v)" using final_steps_not_Nil [OF assms(2)] by simp
  from compile_table [OF assms(1,3-5) this] have
    "map_of (table p) (encode_key (make_key (opcode i) 0 st)) \<noteq> None" by auto
  then show ?thesis by (simp add: key_set_iff [OF encoded_table_ok [OF e]])
qed

lemma validated_variant:
  assumes c: "compile (cpu_compiler isa) s = Inr p" and i: "i \<in> set (instructions s)" "variants i \<noteq> []"
  obtains v where "v \<in> set (variants i)" and "variant_matches cpu_status_encoder v st"
proof -
  let ?c = "cpu_compiler isa"
  have "sequencing_ok ?c" by (simp add: sequencing_ok_def cpu_compiler_def)
  with c obtain s' u where s': "instructions s' = final_instructions ?c s"
    "run_all_validators ?c s' = Inr u"
    by (rule compile_final)
  let ?i = "i\<lparr>variants := map (\<lambda>v. v\<lparr>steps := final_steps ?c s v\<rparr>) (variants i)\<rparr>"
  have mem: "?i \<in> set (instructions s')" using i by (auto simp: s'(1) final_instructions_def)
  have "is_ok (status_validator cpu_status_encoder s')"
    using run_all_validators_ok(4) [OF s'(2)] by (simp add: cpu_compiler_def)
  then obtain w where "fold_ok (\<lambda>i u. validate_status cpu_status_encoder i) (instructions s') () = Inr w"
    by (auto simp: status_validator_def elim: is_okE)
  from fold_ok_reaches [OF this mem, of "\<lambda>_ _. True"] have "is_ok (validate_status cpu_status_encoder ?i)"
    by (auto simp: is_ok_def)
  from validate_status_unique [OF this, of st] i(2) obtain k where
    "k < length (variants i)" "variant_matches cpu_status_encoder (variants ?i ! k) st" by auto
  then have "variant_matches cpu_status_encoder (variants i ! k) st" by (simp add: variant_matches_def)
  with \<open>k < length (variants i)\<close> that show ?thesis by (metis nth_mem)
qed

lemma hd_sorted_list_le: "finite A \<Longrightarrow> x \<in> A \<Longrightarrow> hd (sorted_list_of_set A) \<le> (x :: 'a::linorder)"
  by (metis Min_le empty_iff sorted_list_of_set_nonempty list.sel(1))

lemma compiled_opcode:
  assumes c: "compile (cpu_compiler isa) s = Inr p" and op: "op \<in> set (table_opcodes p)"
  obtains i where "i \<in> set (instructions s)" and "variants i \<noteq> []" and "opcode i = op"
proof -
  have "sequencing_ok (cpu_compiler isa)" by (simp add: sequencing_ok_def cpu_compiler_def)
  with c obtain s' u where s': "instructions s' = final_instructions (cpu_compiler isa) s"
    "encode_program (cpu_compiler isa) s' = Inr p" by (rule compile_final)
  obtain status n where "(op, status, n) \<in> key_set p"
    using op by (auto simp: mem_table_opcodes)
  then obtain w where w: "map_of (table p) (encode_key (make_key op n status)) = Some w"
    using key_set_iff [OF encoded_table_ok [OF s'(2)]] by auto
  have "table_sound (cpu_compiler isa) s' (table p)" by (rule encode_program_sound [OF s'(2)])
  with w have "\<exists>i\<in>set (instructions s'). \<exists>v\<in>set (variants i). \<exists>j st.
      encode_key (make_key op n status) = encode_key (make_key (opcode i) (of_nat j) st)"
    unfolding table_sound_def by blast
  then obtain i v where "i \<in> set (instructions s')" "v \<in> set (variants i)" "opcode i = op" by auto
  then have "\<exists>i\<in>set (instructions s). variants i \<noteq> [] \<and> opcode i = op"
    unfolding s'(1) by (force simp: final_instructions_def)
  with that show ?thesis by blast
qed

lemma compiled_table_ok:
  assumes "compile (cpu_compiler isa) s = Inr p"
  shows "table_ok p"
proof -
  obtain s' where "encode_program (cpu_compiler isa) s' = Inr p" by (rule compile_encoded [OF assms])
  then show ?thesis by (rule encoded_table_ok)
qed

lemma compiled_starts_ok:
  assumes c: "compile (cpu_compiler isa) s = Inr p" and pre: "fetch_preamble s \<noteq> []"
    and op: "op \<in> set (table_opcodes p)"
  shows "starts_ok p op"
proof -
  obtain i where i: "i \<in> set (instructions s)" "variants i \<noteq> []" "opcode i = op"
    by (rule compiled_opcode [OF c op])
  obtain v where v: "v \<in> set (variants i)" "variant_matches cpu_status_encoder v 0"
    by (rule validated_variant [OF c i(1,2)])
  have "0 \<in> fst ` (key_set p `` {op})"
    using compiled_step_at [OF c pre i(1) v] i(3) by force
  then have "hd (opcode_statuses p op) \<le> 0"
    unfolding opcode_statuses_def by (intro hd_sorted_list_le) (simp_all add: finite_Image)
  then show ?thesis by (auto simp: starts_ok_def)
qed

text \<open>The opcodes of the table are those of the instructions that have a variant.\<close>

lemma compiled_opcodes:
  assumes c: "compile (cpu_compiler isa) s = Inr p" and pre: "fetch_preamble s \<noteq> []"
  shows "set (table_opcodes p) = opcode ` {i \<in> set (instructions s). variants i \<noteq> []}"
proof (intro set_eqI iffI)
  fix op assume "op \<in> set (table_opcodes p)"
  from compiled_opcode [OF c this] show "op \<in> opcode ` {i \<in> set (instructions s). variants i \<noteq> []}"
    by blast
next
  fix op assume "op \<in> opcode ` {i \<in> set (instructions s). variants i \<noteq> []}"
  then obtain i where i: "i \<in> set (instructions s)" "variants i \<noteq> []" "opcode i = op" by blast
  obtain v where v: "v \<in> set (variants i)" "variant_matches cpu_status_encoder v 0"
    by (rule validated_variant [OF c i(1,2)])
  show "op \<in> set (table_opcodes p)"
    using compiled_step_at [OF c pre i(1) v] i(3) by (force simp: mem_table_opcodes)
qed

lemma compiled_program_dump:
  assumes c: "compile (cpu_compiler isa) s = Inr p" and pre: "fetch_preamble s \<noteq> []"
  shows "dump_program p = Inr (if table_opcodes p = [255]
    then statuses_text (text_layout p) p 255 (opcode_statuses p 255)
    else join [newline] (map (opcode_text (text_layout p) p) (table_opcodes p)))"
proof -
  note ok = compiled_table_ok [OF c]
  have starts: "list_all (starts_ok p) (table_opcodes p)"
    using compiled_starts_ok [OF c pre] by (simp add: list_all_iff)
  show ?thesis
  proof (cases "table_opcodes p = [255]")
    case True
    then show ?thesis using program_dump_255 [OF ok] starts by simp
  next
    case False
    then show ?thesis using program_dump [OF ok _ starts] table_opcodes_255 [of p] by simp
  qed
qed

lemma compiled_instruction_dump:
  assumes c: "compile (cpu_compiler isa) s = Inr p" and pre: "fetch_preamble s \<noteq> []"
  shows "dump_instruction p op = Inr (if op \<in> set (table_opcodes p) then opcode_text (text_layout p) p op
      else ''opcode '' @ decimal (unat op) @ '': (no microcode)'' @ [newline])"
  by (rule instruction_dump(1) [OF compiled_table_ok [OF c]]) (rule compiled_starts_ok [OF c pre])

text \<open>What a step of the dump shows.\<close>

lemma decode_control_word_hdl:
  assumes "control_paths p = map ctl_path hdl_controls" and "control_encode hdl_encoder ks = Inr w"
    and "set ks \<subseteq> set hdl_controls"
  shows "decode_control_word p w = map ctl_path (filter (\<lambda>k. k \<in> set ks) hdl_controls)"
  using control_decode_encode [OF assms(3,2)]
  by (simp add: decode_control_word_def control_decode_def assms(1) hdl_encoder_def)

lemma compiled_controls_at:
  assumes c: "compile (cpu_compiler isa) s = Inr p"
    and i: "i \<in> set (instructions s)" "v \<in> set (variants i)" "variant_matches cpu_status_encoder v st"
      "j < length (final_steps (cpu_compiler isa) s v)"
  shows "controls_at p (opcode i) st (of_nat j) =
      map ctl_path (filter (\<lambda>k. k \<in> set (controls (final_steps (cpu_compiler isa) s v ! j))) hdl_controls)"
    and "of_nat j \<in> set (status_steps p (opcode i) st)"
proof -
  obtain s' where e: "encode_program (cpu_compiler isa) s' = Inr p" by (rule compile_encoded [OF c])
  have paths: "control_paths p = map ctl_path hdl_controls"
    using encode_program_tables [OF e] by (simp add: cpu_compiler_def hdl_encoder_def)
  obtain w where w: "map_of (table p) (encode_key (make_key (opcode i) (of_nat j) st)) = Some w"
    "control_encode hdl_encoder (controls (final_steps (cpu_compiler isa) s v ! j)) = Inr w"
    "set (controls (final_steps (cpu_compiler isa) s v ! j)) \<subseteq> set hdl_controls"
    using compile_table [OF c i] by metis
  show "controls_at p (opcode i) st (of_nat j) =
      map ctl_path (filter (\<lambda>k. k \<in> set (controls (final_steps (cpu_compiler isa) s v ! j))) hdl_controls)"
    by (simp add: controls_at_def w(1) decode_control_word_hdl [OF paths w(2,3)])
  have "(opcode i, st, of_nat j) \<in> key_set p"
    using w(1) by (simp add: key_set_iff [OF encoded_table_ok [OF e]])
  then show "of_nat j \<in> set (status_steps p (opcode i) st)"
    by (simp add: status_steps_def finite_Image)
qed

text \<open>The value 255 stands for none, so a table that starts with it loses its header.\<close>

lemma dump_hides_header:
  "dump_program \<lparr>table = [(encode_key (make_key 255 0 0), 0)], control_paths = [], status_bits = []\<rparr> =
   Inr (''  status default:'' @ [newline] @ ''    step 0: []'' @ [newline])"
  by code_simp

end
