(* ===== verification/Sim_Boot.thy ===== *)
theory Sim_Boot
  imports Asm_Passes Sim_Runner
begin

text \<open>
  From an assembled program to a running processor: the constructor accepts every compiled
  microprogram with every ROM of an accepted size, the run starts at the entry of the cartridge
  with the first byte of the program in the instruction register, and a bounded run ends with
  the exit code of its outcome.
\<close>

section \<open>Construction\<close>

lemma index_controls_distinct:
  assumes "distinct (map fst idx @ map ctl_path ks)"
  shows "index_controls ks idx = Inr (idx @ map (\<lambda>k. (ctl_path k, k)) ks)"
  using assms
proof (induction ks arbitrary: idx)
  case (Cons k ks)
  then have "map_of idx (ctl_path k) = None" by (auto simp: map_of_eq_None_iff)
  with Cons show ?case by simp
qed simp

lemma index_hdl_controls:
  "index_controls hdl_controls [] = Inr (map (\<lambda>k. (ctl_path k, k)) hdl_controls)"
  using index_controls_distinct [of "[]" hdl_controls] distinct_hdl_control_paths by simp

text \<open>
  The validation accepts the list of registered paths that starts with the paths of the schematic
  in their order, with every one of them in the index, and no other.
\<close>

lemma validate_against_hdl_iff:
  "validate_against_hdl idx paths hdl_paths = Inr () \<longleftrightarrow>
     take (length hdl_paths) paths = hdl_paths \<and> set hdl_paths \<subseteq> fst ` set idx"
proof -
  have member: "map_of idx (hdl_paths ! i) \<noteq> None \<longleftrightarrow> hdl_paths ! i \<in> fst ` set idx" for i
    by (simp add: map_of_eq_None_iff)
  have prefix: "take (length hdl_paths) paths = hdl_paths \<longleftrightarrow>
      length hdl_paths \<le> length paths \<and> (\<forall>i<length hdl_paths. paths ! i = hdl_paths ! i)"
    by (auto simp: list_eq_iff_nth_eq min_def)
  show ?thesis
  proof (cases "length paths < length hdl_paths")
    case True
    then show ?thesis by (auto simp: validate_against_hdl_def)
  next
    case False
    then have "validate_against_hdl idx paths hdl_paths = Inr () \<longleftrightarrow>
        (\<forall>i<length hdl_paths. hdl_paths ! i \<in> fst ` set idx \<and> paths ! i = hdl_paths ! i)"
      using member by (auto simp: validate_against_hdl_def fold_ok_unit_iff split: if_splits)
    also have "\<dots> \<longleftrightarrow> take (length hdl_paths) paths = hdl_paths \<and> set hdl_paths \<subseteq> fst ` set idx"
      using False by (auto simp: prefix subset_iff in_set_conv_nth)
    finally show ?thesis .
  qed
qed

lemma validate_hdl_controls:
  "validate_against_hdl (map (\<lambda>k. (ctl_path k, k)) ks) (map ctl_path ks) (map ctl_path ks) = Inr ()"
  by (auto simp: validate_against_hdl_iff image_image)

lemma ctl_path_not_Nil: "ctl_path k \<noteq> []"
proof (cases k)
  case (Ctl c k')
  have "op_name k' \<noteq> []" by (cases k') simp_all
  with Ctl show ?thesis by (simp add: build_path_def)
qed

lemma resolve_indexed:
  assumes "distinct (map ctl_path ks)" and "k \<in> set ks"
  shows "resolve_control (map (\<lambda>k. (ctl_path k, k)) ks) (ctl_path k) = Inr k"
proof -
  have "map_of (map (\<lambda>k. (ctl_path k, k)) ks) (ctl_path k) = Some k"
    by (rule map_of_is_SomeI) (use assms in \<open>auto simp: o_def\<close>)
  then show ?thesis by (simp add: resolve_control_def ctl_path_not_Nil)
qed

text \<open>The index accepts a list of controls exactly when no two share a path.\<close>

lemma index_controls_ok_iff: "is_ok (index_controls ks []) \<longleftrightarrow> distinct (map ctl_path ks)"
proof -
  have "is_ok (index_controls ks idx) \<longleftrightarrow> distinct (map ctl_path ks) \<and> fst ` set idx \<inter> ctl_path ` set ks = {}" for idx
  proof (induction ks arbitrary: idx)
    case (Cons k ks)
    show ?case
    proof (cases "map_of idx (ctl_path k)")
      case None
      then have "ctl_path k \<notin> fst ` set idx" by (simp add: map_of_eq_None_iff)
      moreover have "is_ok (index_controls (k # ks) idx) \<longleftrightarrow> is_ok (index_controls ks (idx @ [(ctl_path k, k)]))"
        using None by simp
      ultimately show ?thesis using Cons.IH [of "idx @ [(ctl_path k, k)]"] by auto
    next
      case (Some k')
      then have "ctl_path k \<in> fst ` set idx" by (auto dest: map_of_SomeD intro: rev_image_eqI)
      with Some show ?thesis by auto
    qed
  qed simp
  from this [of "[]"] show ?thesis by simp
qed

text \<open>The processor as the constructor leaves it.\<close>

definition fresh_cpu :: "instruction_memory \<Rightarrow> memory \<Rightarrow> cpu" where
  "fresh_cpu im m =
     \<lparr>cur_phase = Phase_None, sig = (\<lambda>_. False), data_bus = bus_idle, address_bus = bus_idle,
      byte_regs = (\<lambda>_. 0)(Ir := 0x02, Sc := 0), word_regs = (\<lambda>_. 0),
      inject_interrupt = False, mem = m, instruction_mem = Some im, halted = False,
      crashed = False, cycle_count = 0, ipc_valid = False, trace = trace_init\<rparr>"

lemma make_cpu_ok:
  assumes "make_instruction_memory hdl_controls p = Inr im"
    and "bind_ok (build_regions rom []) make_memory = Inr m"
  shows "make_cpu p rom [] = Inr (fresh_cpu im m)"
proof -
  obtain rs where rs: "build_regions rom [] = Inr rs" "make_memory rs = Inr m"
    using assms(2) by (elim bind_ok_eq_InrE)
  show ?thesis
    by (simp add: make_cpu_def rs sim_control_order index_hdl_controls validate_hdl_controls assms(1)
      fresh_cpu_def Let_def)
qed

lemma compiled_cpu:
  assumes "compile (cpu_compiler isa) s = Inr p" and "cartridge_size_ok (length rom)"
  obtains im where "make_cpu p rom [] = Inr (fresh_cpu im (cartridge_memory rom))"
proof -
  obtain im where "make_instruction_memory hdl_controls p = Inr im"
    using compiled_lookup [OF assms(1)] by metis
  from make_cpu_ok [OF this build_cartridge_memory [OF assms(2)]] show ?thesis by (rule that)
qed

section \<open>Start and run\<close>

lemma boot_cartridge:
  assumes "cartridge_size_ok (length rom)" and "mem s = cartridge_memory rom"
  shows "boot 0x8000 s = Inr (set_byte Ir (rom ! 0) (set_byte Sc 0 (set_word Pc 0x8000 s)))"
proof -
  have "read_at 0x8000 (cartridge_memory rom) = Inr (rom ! 0, cartridge_memory rom)"
    using read_cartridge_memory [OF assms(1), of "0x8000"] cartridge_size_bounds [OF assms(1)] by simp
  then show ?thesis
    by (simp add: boot_def set_byte_def set_word_def assms(2) Let_def)
qed

lemma bounded_exit_code:
  assumes "run_until_halt_max n s = Some (Inr (res, t))"
  shows "exit_code expects (result_reason res) =
    (if \<not> halted t then 4 else if expects then (if crashed t then 0 else 2) else if crashed t then 2 else 0)"
  using assms by (auto simp: run_until_halt_max_def exit_code_def elim!: bind_ok_eq_InrE split: if_splits)

definition plain_argument :: "string \<Rightarrow> bool" where
  "plain_argument path =
     (path \<noteq> [] \<and> path \<notin> {''--expect-crash'', ''--max-cycles'', ''--debug'', ''--trace-depth'', ''--log-level''})"

lemma bounded_arguments:
  assumes "plain_argument path" and "stoll_arg v = Some n"
  shows "run_arguments [''--max-cycles'', v, path] =
    Inr (default_run_args\<lparr>max_cycles_arg := n, cartridge_path := path\<rparr>)"
  using assms by (simp add: run_arguments_def plain_argument_def default_run_args_def)

lemma program_runs:
  assumes micro: "compile (cpu_compiler ops) iset = Inr p"
    and pass: "first_pass isa options program = Inr pass"
    and enc: "encode pass options file = Inr result" and std: "standard_options options"
    and args: "files path = Some (write_cartridge result)" "plain_argument path"
      "stoll_arg v = Some n" "0 \<le> n"
  shows "\<exists>s r. bind_ok (make_cpu p (a_rom result) []) (boot (opt_origin options)) = Inr s \<and>
    word_regs s Pc = opt_origin options \<and> ir_value s = a_rom result ! 0 \<and> byte_regs s Sc = 0 \<and>
    mem s = cartridge_memory (a_rom result) \<and> \<not> halted s \<and>
    run_until_halt_max (word_of_int n) s = Some r \<and>
    run_main p files texts [''--max-cycles'', v, path] =
      Some (Exit (case r of Inl e \<Rightarrow> 1
        | Inr (res, t) \<Rightarrow> if \<not> halted t then 4 else if crashed t then 2 else 0), [])"
proof -
  note m = result_memory [OF pass enc std]
  have origin: "opt_origin options = 0x8000" using std by (simp add: standard_options_def)
  obtain im where cpu: "make_cpu p (a_rom result) [] = Inr (fresh_cpu im (cartridge_memory (a_rom result)))"
    by (rule compiled_cpu [OF micro m(1)])
  define s where "s = set_byte Ir (a_rom result ! 0) (set_byte Sc 0 (set_word Pc 0x8000
    (fresh_cpu im (cartridge_memory (a_rom result)))))"
  have boot: "bind_ok (make_cpu p (a_rom result) []) (boot 0x8000) = Inr s"
    using boot_cartridge [OF m(1)] by (simp add: cpu s_def fresh_cpu_def)
  obtain r where r: "run_until_halt_max (word_of_int n) s = Some r"
    using run_until_halt_max_returns by blast
  let ?a = "default_run_args\<lparr>max_cycles_arg := n, cartridge_path := path\<rparr>"
  have a: "cartridge_path ?a = path" "run_symbols ?a texts = Some (Inr None)" "trace_setup ?a s = s"
    "expect_crash ?a = False" "failure_dump ?a syms reason t = []"
    "run_bounded n s = Some r" for syms reason t
    using r args(4) by (simp_all add: run_symbols_def trace_setup_def failure_dump_def run_bounded_def
      default_run_args_def Let_def)
  have "run_main p files texts [''--max-cycles'', v, path] = run_cartridge p files texts ?a"
    by (simp add: run_main_def bounded_arguments [OF args(2,3)])
  also have "\<dots> = Some (Exit (case r of Inl e \<Rightarrow> 1
      | Inr (res, t) \<Rightarrow> if \<not> halted t then 4 else if crashed t then 2 else 0), [])"
    using bounded_exit_code [of _ s _ _ False] r
    by (auto simp: run_cartridge_def args(1) m(2,3) origin boot a simp del: bind_ok_def split: sum.splits)
  finally show ?thesis using boot r
    by (intro exI [of _ s] exI [of _ r])
      (simp add: origin s_def set_byte_def set_word_def fresh_cpu_def ir_value_def)
qed

end
