(* ===== verification/Example_Tools.thy ===== *)
theory Example_Tools
  imports Example_Assembly Asm_Debug Micro_Dump Sim_Boot Disassembly_Roundtrip
begin

text \<open>The example microprogram and program for the witnesses of the tools' properties.\<close>

lemma example_preamble: "fetch_preamble example_source \<noteq> []"
  by (simp add: example_source_def plain_steps_def)

lemma example_no_opcode_7: "7 \<notin> set (table_opcodes example_program)"
proof
  assume "7 \<in> set (table_opcodes example_program)"
  then obtain i where "i \<in> set (instructions example_source)" "opcode i = 7"
    using compiled_opcode [OF example_program] by blast
  then show False by (auto simp: example_source_def)
qed

text \<open>A ROM with two instructions, a branch backwards and a data byte that is no opcode.\<close>

definition example_rom :: "u8 list" where
  "example_rom = [0x10, 5, 0x30, 0x02, 0x80, 0x40, 0xFC, 0xFF]"

lemma example_chunks:
  "chunks example_isa example_rom 0 0x8000 =
    [\<lparr>c_address = 0x8000, c_info = Some \<lparr>i_mnemonic = ''LDA'', i_mode = IMM, i_opcode = 0x10\<rparr>, c_bytes = [0x10, 5]\<rparr>,
     \<lparr>c_address = 0x8002, c_info = Some \<lparr>i_mnemonic = ''JMP'', i_mode = ABS, i_opcode = 0x30\<rparr>,
       c_bytes = [0x30, 0x02, 0x80]\<rparr>,
     \<lparr>c_address = 0x8005, c_info = Some \<lparr>i_mnemonic = ''BEQ'', i_mode = REL, i_opcode = 0x40\<rparr>, c_bytes = [0x40, 0xFC]\<rparr>,
     \<lparr>c_address = 0x8007, c_info = None, c_bytes = [0xFF]\<rparr>]"
  by code_simp

lemma example_listing: "listing_reassembles example_isa example_rom 0x8000"
proof -
  have "widths_ok example_isa" by code_simp
  moreover have "list_all (chunk_reassembles example_isa) (chunks example_isa example_rom 0 0x8000)"
    unfolding example_chunks by code_simp
  ultimately show ?thesis by (simp add: listing_reassembles_def example_rom_def)
qed

end
