(* ===== verification/Demo.thy ===== *)
theory Demo
  imports Sim_Run Sim_Runner
begin

text \<open>
  The demo window (\<open>frontend/src/demo_runner.cpp\<close>, \<open>sdl_backend.cpp\<close>, \<open>main.cpp\<close>):
  the command line, the construction of the processor with its two devices, the events of a
  frame, the frames until the end, and the drawing calls of the backend. SDL is a library: its
  key codes are a parameter, the events that it delivers are one list per frame, and its start
  succeeds or fails. Delays and the window are left out.
\<close>

section \<open>Keys\<close>

record sdl_keys =
  k_up :: int
  k_down :: int
  k_left :: int
  k_right :: int
  k_space :: int
  k_return :: int
  k_escape :: int
  k_0 :: int
  k_9 :: int
  k_a :: int
  k_z :: int

definition map_key :: "sdl_keys \<Rightarrow> int \<Rightarrow> u8" where
  "map_key ks key =
     (if key = k_up ks then 0x01
      else if key = k_down ks then 0x02
      else if key = k_left ks then 0x03
      else if key = k_right ks then 0x04
      else if key = k_space ks then 0x20
      else if key = k_return ks then 0x0D
      else if key = k_escape ks then 0x1B
      else if k_0 ks \<le> key \<and> key \<le> k_9 ks then word_of_int (0x30 + (key - k_0 ks))
      else if k_a ks \<le> key \<and> key \<le> k_z ks then word_of_int (0x41 + (key - k_a ks))
      else 0x00)"

definition map_key_to_state :: "sdl_keys \<Rightarrow> int \<Rightarrow> u8" where
  "map_key_to_state ks key =
     (if key = k_up ks then 0x01
      else if key = k_down ks then 0x02
      else if key = k_left ks then 0x04
      else if key = k_right ks then 0x08
      else if key = k_space ks then 0x10
      else if key = k_escape ks then 0x20
      else 0)"

section \<open>Events\<close>

text \<open>A key press with its repeat flag, a release, the end of the program, anything else.\<close>

datatype sdl_event = Quit_event | Key_down int bool | Key_up int | Other_event

text \<open>The device behind the pointer that the region factory stored: that of the third region.\<close>

definition input_of :: "memory \<Rightarrow> input_device option" where
  "input_of m = (case region_module (m ! 2) of Input d \<Rightarrow> Some d | _ \<Rightarrow> None)"

definition put_input :: "input_device \<Rightarrow> memory \<Rightarrow> memory" where
  "put_input d m = m[2 := (m ! 2)\<lparr>region_module := Input d\<rparr>]"

definition on_input :: "(input_device \<Rightarrow> input_device) \<Rightarrow> cpu \<Rightarrow> cpu" where
  "on_input f s =
     (case input_of (mem s) of None \<Rightarrow> s | Some d \<Rightarrow> s\<lparr>mem := put_input (f d) (mem s)\<rparr>)"

definition handle_event :: "sdl_keys \<Rightarrow> sdl_event \<Rightarrow> cpu \<Rightarrow> cpu" where
  "handle_event ks ev s =
     (case ev of
        Key_down key repeat \<Rightarrow>
          (let state_bit = map_key_to_state ks key;
               s1 = (if state_bit \<noteq> 0 then on_input (set_key_down state_bit) s else s) in
           if \<not> repeat then
             (let code = map_key ks key in if code \<noteq> 0x00 then on_input (inject_key code) s1 else s1)
           else s1)
      | Key_up key \<Rightarrow>
          (let state_bit = map_key_to_state ks key in
           if state_bit \<noteq> 0 then on_input (set_key_up state_bit) s else s)
      | _ \<Rightarrow> s)"

text \<open>The poll loop stops at the end event; what is behind it stays in the queue.\<close>

fun poll_events :: "sdl_keys \<Rightarrow> sdl_event list \<Rightarrow> cpu \<Rightarrow> bool \<times> cpu" where
  "poll_events ks [] s = (True, s)"
| "poll_events ks (ev # evs) s =
     (if ev = Quit_event then (False, s) else poll_events ks evs (handle_event ks ev s))"

section \<open>Construction\<close>

record demo_options =
  demo_rom :: string
  fps :: int
  scale :: int
  cycles_per_frame :: int
  debug_on_crash :: bool
  trace_size :: nat

definition default_demo_options :: demo_options where
  "default_demo_options =
     \<lparr>demo_rom = [], fps = 30, scale = 2, cycles_per_frame = 0, debug_on_crash = False, trace_size = 0\<rparr>"

datatype demo_error = Invalid_Options | Sdl_Failure | Load_Failed load_error | Simulation_Failed sim_error

definition demo_setup :: "demo_options \<Rightarrow> demo_error + demo_options" where
  "demo_setup opts =
     (let opts1 = (if cycles_per_frame opts \<le> 0 \<and> fps opts > 0
                   then opts\<lparr>cycles_per_frame := 100000 div fps opts\<rparr> else opts) in
      if fps opts1 \<le> 0 \<or> scale opts1 \<le> 0 then Inl Invalid_Options else Inr opts1)"

definition lift_sim :: "sim_error + 'a \<Rightarrow> demo_error + 'a" where
  "lift_sim r = (case r of Inl e \<Rightarrow> Inl (Simulation_Failed e) | Inr v \<Rightarrow> Inr v)"

definition demo_regions :: "sim_error + region list" where
  "demo_regions =
     bind_ok (make_region 0x4000 (Input input_device_init)) (\<lambda>input.
     bind_ok (make_region 0x4100 (Vgc vgc_init)) (\<lambda>vgc. Inr [input, vgc]))"

definition make_demo ::
  "microcode_program \<Rightarrow> (string \<Rightarrow> u8 list option) \<Rightarrow> bool \<Rightarrow> demo_options \<Rightarrow>
   demo_error + (demo_options \<times> cpu)" where
  "make_demo p files sdl_starts opts0 =
     bind_ok (demo_setup opts0) (\<lambda>opts.
     if \<not> sdl_starts then Inl Sdl_Failure
     else
       case load_cartridge (demo_rom opts) (files (demo_rom opts)) of
         Inl e \<Rightarrow> Inl (Load_Failed e)
       | Inr c \<Rightarrow>
           bind_ok (lift_sim (bind_ok demo_regions (make_cpu p (l_rom c)))) (\<lambda>s.
           bind_ok (lift_sim (boot (h_entry (l_header c)) s)) (\<lambda>s1.
           Inr (opts, if trace_size opts > 0 then enable_trace (trace_size opts) s1 else s1))))"

section \<open>Frames\<close>

text \<open>
  One turn of the loop: whether it goes on, the log, and the processor. The second argument of
  \<open>RunUntilHalt\<close> is the unsigned number of cycles.
\<close>

definition demo_frame ::
  "sdl_keys \<Rightarrow> demo_options \<Rightarrow> sdl_event list \<Rightarrow> cpu \<Rightarrow> (sim_error + (bool \<times> string \<times> cpu)) option" where
  "demo_frame ks opts evs s =
     (let (running, s1) = poll_events ks evs s in
      run_bind (run_until_halt_max (word_of_int (cycles_per_frame opts)) s1) (\<lambda>(res, s2).
        Some (Inr (running \<and> \<not> halted s2,
          if result_reason res = Reason_crash \<and> debug_on_crash opts
          then format_debug_dump None s2 ''crash'' else [], s2))))"

partial_function (option) demo_loop ::
  "sdl_keys \<Rightarrow> demo_options \<Rightarrow> (nat \<Rightarrow> sdl_event list) \<Rightarrow> nat \<Rightarrow> string \<Rightarrow> cpu \<Rightarrow>
   (sim_error + (string \<times> cpu)) option" where
  "demo_loop ks opts events n log s =
     (case demo_frame ks opts (events n) s of
        None \<Rightarrow> None
      | Some (Inl e) \<Rightarrow> Some (Inl e)
      | Some (Inr (running, out, s1)) \<Rightarrow>
          if running then demo_loop ks opts events (n + 1) (log @ out) s1
          else Some (Inr (log @ out, s1)))"

section \<open>The command line\<close>

definition parse_i64 :: "string \<Rightarrow> int option" where
  "parse_i64 value =
     (let s1 = dropWhile is_c_space value;
          s2 = (if s1 \<noteq> [] \<and> (hd s1 = CHR ''-'' \<or> hd s1 = CHR ''+'') then tl s1 else s1) in
      if dropWhile is_digit s2 \<noteq> [] then None else stoll_arg value)"

text \<open>An option with a number that has to pass a test.\<close>

definition number_option :: "(int \<Rightarrow> bool) \<Rightarrow> string list \<Rightarrow> outcome + (int \<times> string list)" where
  "number_option ok args =
     (case args of
        [] \<Rightarrow> Inl (Exit 1)
      | v # args' \<Rightarrow>
          (case parse_i64 v of
             None \<Rightarrow> Inl (Exit 1)
           | Some n \<Rightarrow> if ok n then Inr (n, args') else Inl (Exit 1)))"

lemma number_option_shorter [termination_simp]:
  "number_option ok args = Inr (n, args') \<Longrightarrow> length args' < Suc (length args)"
  by (auto simp: number_option_def split: list.splits option.splits if_splits)

fun parse_demo_args :: "string list \<Rightarrow> demo_options \<Rightarrow> outcome + demo_options" where
  "parse_demo_args [] a = Inr a"
| "parse_demo_args (arg # args) a =
     (if arg = ''--rom'' then
        (case args of [] \<Rightarrow> Inl (Exit 1) | v # args' \<Rightarrow> parse_demo_args args' (a\<lparr>demo_rom := v\<rparr>))
      else if arg = ''--fps'' then
        (case number_option (\<lambda>n. n > 0) args of
           Inl out \<Rightarrow> Inl out
         | Inr (n, args') \<Rightarrow> parse_demo_args args' (a\<lparr>fps := cast_int n\<rparr>))
      else if arg = ''--scale'' then
        (case number_option (\<lambda>n. n > 0) args of
           Inl out \<Rightarrow> Inl out
         | Inr (n, args') \<Rightarrow> parse_demo_args args' (a\<lparr>scale := cast_int n\<rparr>))
      else if arg = ''--cycles-per-frame'' then
        (case number_option (\<lambda>n. n > 0) args of
           Inl out \<Rightarrow> Inl out
         | Inr (n, args') \<Rightarrow> parse_demo_args args' (a\<lparr>cycles_per_frame := n\<rparr>))
      else if arg = ''--debug-on-crash'' then parse_demo_args args (a\<lparr>debug_on_crash := True\<rparr>)
      else if arg = ''--trace-size'' then
        (case number_option (\<lambda>n. n \<ge> 0) args of
           Inl out \<Rightarrow> Inl out
         | Inr (n, args') \<Rightarrow> parse_demo_args args' (a\<lparr>trace_size := nat n\<rparr>))
      else Inl (Exit 1))"

text \<open>The outcome and the log of a run; no value when the window is never closed.\<close>

definition demo_main ::
  "microcode_program \<Rightarrow> (string \<Rightarrow> u8 list option) \<Rightarrow> bool \<Rightarrow> sdl_keys \<Rightarrow> (nat \<Rightarrow> sdl_event list) \<Rightarrow>
   string list \<Rightarrow> (outcome \<times> string) option" where
  "demo_main p files sdl_starts ks events args =
     (case parse_demo_args args default_demo_options of
        Inl out \<Rightarrow> Some (out, [])
      | Inr a \<Rightarrow>
          if demo_rom a = [] then Some (Exit 1, [])
          else
            case make_demo p files sdl_starts a of
              Inl e \<Rightarrow> Some (if e = Load_Failed Read_Out_Of_Bounds then Undefined_Behaviour else Exit 1, [])
            | Inr (opts, s) \<Rightarrow>
                (case demo_loop ks opts events 0 [] s of
                   None \<Rightarrow> None
                 | Some (Inl e) \<Rightarrow> Some (Exit 1, [])
                 | Some (Inr (log, s1)) \<Rightarrow> Some (Exit (if crashed s1 then 2 else 0), log)))"

section \<open>Drawing\<close>

text \<open>The renderer calls of \<open>SdlBackend\<close>.\<close>

datatype render_call =
    Set_draw_color u8 u8 u8 u8
  | Render_clear
  | Render_point int int
  | Render_line int int int int
  | Render_present

definition render_color :: "u8 \<Rightarrow> render_call" where
  "render_color intensity =
     (let level = intensity AND 0x03;
          green = (if level = 0 then 0 else if level = 1 then 64 else if level = 2 then 128
                   else if level = 3 then 255 else 0) in
      Set_draw_color 0 green 0 255)"

fun render_calls :: "backend_call \<Rightarrow> render_call list" where
  "render_calls (Call_clear i) = [render_color i, Render_clear]"
| "render_calls (Call_point x y i) = [render_color i, Render_point (uint x) (uint y)]"
| "render_calls (Call_line x0 y0 x1 y1 i) =
     [render_color i, Render_line (uint x0) (uint y0) (uint x1) (uint y1)]"
| "render_calls Call_present = [Render_present]"

section \<open>What the events do\<close>

text \<open>
  The codes of the presses that are not repeats, in order, and whether the key of a bit is held:
  the last event of such a key decides.
\<close>

definition pressed_codes :: "sdl_keys \<Rightarrow> sdl_event list \<Rightarrow> u8 list" where
  "pressed_codes ks evs =
     concat (map (\<lambda>ev. case ev of
       Key_down key repeat \<Rightarrow> if \<not> repeat \<and> map_key ks key \<noteq> 0 then [map_key ks key] else []
     | _ \<Rightarrow> []) evs)"

definition key_event :: "sdl_keys \<Rightarrow> nat \<Rightarrow> sdl_event \<Rightarrow> bool option" where
  "key_event ks n ev =
     (case ev of
        Key_down key _ \<Rightarrow> if bit (map_key_to_state ks key) n then Some True else None
      | Key_up key \<Rightarrow> if bit (map_key_to_state ks key) n then Some False else None
      | _ \<Rightarrow> None)"

definition held_after :: "sdl_keys \<Rightarrow> sdl_event list \<Rightarrow> nat \<Rightarrow> bool \<Rightarrow> bool" where
  "held_after ks evs n held =
     (case List.map_filter (key_event ks n) evs of [] \<Rightarrow> held | bs \<Rightarrow> last bs)"

definition device_event :: "sdl_keys \<Rightarrow> sdl_event \<Rightarrow> input_device \<Rightarrow> input_device" where
  "device_event ks ev d =
     (case ev of
        Key_down key repeat \<Rightarrow>
          (let d1 = set_key_down (map_key_to_state ks key) d in
           if \<not> repeat \<and> map_key ks key \<noteq> 0 then inject_key (map_key ks key) d1 else d1)
      | Key_up key \<Rightarrow> set_key_up (map_key_to_state ks key) d
      | _ \<Rightarrow> d)"

lemma put_input_input:
  assumes "input_of m = Some d"
  shows "put_input d m = m" and "put_input d2 (put_input d1 m) = put_input d2 m"
    and "2 < length m \<Longrightarrow> input_of (put_input d1 m) = Some d1"
proof -
  have r: "region_module (m ! 2) = Input d" using assms by (auto simp: input_of_def split: mem_module.splits)
  then have "(m ! 2)\<lparr>region_module := Input d\<rparr> = m ! 2" by simp
  then show "put_input d m = m" by (simp add: put_input_def)
  show "put_input d2 (put_input d1 m) = put_input d2 m"
    by (cases "2 < length m") (simp_all add: put_input_def list_update_beyond)
  show "2 < length m \<Longrightarrow> input_of (put_input d1 m) = Some d1"
    by (simp add: input_of_def put_input_def)
qed

lemma on_input_Some:
  "input_of (mem s) = Some d \<Longrightarrow> on_input f s = s\<lparr>mem := put_input (f d) (mem s)\<rparr>"
  by (simp add: on_input_def)

lemma set_key_zero [simp]: "set_key_down 0 d = d" "set_key_up 0 d = d"
  by (simp_all add: set_key_down_def set_key_up_def)

lemma handle_event_device:
  assumes "input_of (mem s) = Some d" and "2 < length (mem s)"
  shows "handle_event ks ev s = s\<lparr>mem := put_input (device_event ks ev d) (mem s)\<rparr>"
  using assms put_input_input [OF assms(1)]
  by (cases ev) (auto simp: handle_event_def device_event_def on_input_def Let_def)

lemma poll_events_device:
  assumes "input_of (mem s) = Some d" and "2 < length (mem s)"
  shows "poll_events ks evs s =
    (Quit_event \<notin> set evs,
     s\<lparr>mem := put_input (fold (device_event ks) (takeWhile (\<lambda>e. e \<noteq> Quit_event) evs) d) (mem s)\<rparr>)"
  using assms
proof (induction evs arbitrary: s d)
  case Nil
  then show ?case by (simp add: put_input_input(1))
next
  case (Cons ev evs)
  show ?case
  proof (cases "ev = Quit_event")
    case True
    then show ?thesis using Cons.prems by (simp add: put_input_input(1))
  next
    case False
    let ?s = "s\<lparr>mem := put_input (device_event ks ev d) (mem s)\<rparr>"
    have s: "input_of (mem ?s) = Some (device_event ks ev d)" "2 < length (mem ?s)"
      using put_input_input(3) [OF Cons.prems] Cons.prems(2) by (simp_all add: put_input_def)
    from Cons.IH [OF s] False show ?thesis
      by (simp add: handle_event_device [OF Cons.prems] put_input_input(2) [OF Cons.prems(1)])
  qed
qed

lemma device_event_wf: "input_wf d \<Longrightarrow> input_wf (device_event ks ev d)"
  by (cases ev) (simp_all add: device_event_def Let_def set_key_wf inject_key_wf)

lemma set_key_content [simp]:
  "input_content (set_key_down b d) = input_content d" "input_content (set_key_up b d) = input_content d"
  by (simp_all add: input_content_def set_key_down_def set_key_up_def)

lemma inject_key_state [simp]: "key_state (inject_key k d) = key_state d"
  by (simp add: inject_key_def)

lemma device_event_content:
  assumes "input_wf d"
  shows "input_content (device_event ks ev d) = take queue_size (input_content d @ pressed_codes ks [ev])"
proof -
  have "length (input_content d) \<le> queue_size" using assms by (simp add: input_wf_def)
  then show ?thesis
    using assms
    by (cases ev) (auto simp: device_event_def Let_def pressed_codes_def inject_key_content set_key_wf)
qed

lemma device_events:
  "input_wf d \<Longrightarrow>
   input_wf (fold (device_event ks) evs d) \<and>
   input_content (fold (device_event ks) evs d) = take queue_size (input_content d @ pressed_codes ks evs)"
proof (induction evs arbitrary: d)
  case Nil
  then show ?case by (simp add: pressed_codes_def input_wf_def)
next
  case (Cons ev evs)
  have "pressed_codes ks (ev # evs) = pressed_codes ks [ev] @ pressed_codes ks evs"
    by (simp add: pressed_codes_def)
  with Cons.IH [OF device_event_wf [OF Cons.prems]] show ?case
    by (simp add: device_event_content [OF Cons.prems] min_def)
qed

lemma device_event_state:
  "bit (key_state (device_event ks ev d)) n =
    (case key_event ks n ev of None \<Rightarrow> bit (key_state d) n | Some b \<Rightarrow> b)"
  by (cases ev) (auto simp: device_event_def key_event_def Let_def set_key_down_def set_key_up_def bit_simps
    dest: bit_imp_le_length)

lemma device_events_state:
  "bit (key_state (fold (device_event ks) evs d)) n = held_after ks evs n (bit (key_state d) n)"
proof (induction evs arbitrary: d)
  case Nil
  then show ?case by (simp add: held_after_def map_filter_simps)
next
  case (Cons ev evs)
  then show ?case
    by (auto simp: held_after_def device_event_state map_filter_simps split: option.splits list.splits)
qed

section \<open>The end of the demo\<close>

lemma demo_frame_returns: "\<exists>r. demo_frame ks opts evs s = Some r"
proof -
  obtain running s1 where p: "poll_events ks evs s = (running, s1)" by fastforce
  obtain r where "run_until_halt_max (word_of_int (cycles_per_frame opts)) s1 = Some r"
    using run_until_halt_max_returns by blast
  then show ?thesis by (cases r) (auto simp: demo_frame_def p)
qed

lemma poll_events_quit: "fst (poll_events ks evs s) \<longleftrightarrow> Quit_event \<notin> set evs"
  by (induction evs arbitrary: s) auto

lemma demo_frame_quit:
  assumes "demo_frame ks opts evs s = Some (Inr (running, out, s1))"
  shows "running \<longleftrightarrow> Quit_event \<notin> set evs \<and> \<not> halted s1"
  using assms poll_events_quit [of ks evs s]
  by (auto simp: demo_frame_def split: prod.splits elim!: run_bind_InrE)

text \<open>A window that is closed in some frame ends the loop, at the latest with that frame.\<close>

lemma demo_loop_returns:
  "n \<le> m \<Longrightarrow> Quit_event \<in> set (events m) \<Longrightarrow> \<exists>r. demo_loop ks opts events n log s = Some r"
proof (induction "m - n" arbitrary: n log s)
  case 0
  then have "n = m" by simp
  obtain r where r: "demo_frame ks opts (events n) s = Some r" using demo_frame_returns by blast
  then show ?case
    using demo_frame_quit [of ks opts "events n" s] 0 \<open>n = m\<close>
    by (subst demo_loop.simps) (auto split: sum.splits)
next
  case (Suc k)
  then have "k = m - (n + 1)" "n + 1 \<le> m" by simp_all
  from Suc.hyps(1) [OF this Suc.prems(2)] have next_frames: "\<exists>r. demo_loop ks opts events (n + 1) l t = Some r" for l t .
  obtain r where r: "demo_frame ks opts (events n) s = Some r" using demo_frame_returns by blast
  then show ?case using next_frames by (subst demo_loop.simps) (auto split: sum.splits)
qed

text \<open>
  At more than 100000 frames per second the default number of cycles is 0, and the processor
  never runs.
\<close>

lemma too_many_frames:
  assumes "demo_setup opts = Inr opts'" and "cycles_per_frame opts \<le> 0" and "100000 < fps opts"
  shows "cycles_per_frame opts' = 0"
    and "demo_frame ks opts' [] s = Some (Inr (\<not> halted s, [], s)) \<or> halted s"
proof -
  show z: "cycles_per_frame opts' = 0"
    using assms by (auto simp: demo_setup_def Let_def split: if_splits)
  have "run_loop_max (cycle_count s) 0 s = Some (Inr s)" by (subst run_loop_max.simps) simp
  then show "demo_frame ks opts' [] s = Some (Inr (\<not> halted s, [], s)) \<or> halted s"
    by (simp add: demo_frame_def z run_until_halt_max_def)
qed

section \<open>The demo at its start\<close>

lemma demo_regions_ok:
  "demo_regions = Inr [\<lparr>region_offset = 0x4000, region_module = Input input_device_init\<rparr>,
     \<lparr>region_offset = 0x4100, region_module = Vgc vgc_init\<rparr>]"
  by (simp add: demo_regions_def make_region_def is_power_of_two_def input_mmio_size_def vgc_mmio_size_def)

lemma read_at_input:
  assumes "read_at a m = Inr (v, m')" and "input_of m = Some d" and "input_content d = []"
  shows "input_of m' = Some d \<and> length m' = length m"
proof -
  have idle: "input_read n d = (w, d') \<Longrightarrow> d' = d" for n w d'
    using assms(3) by (auto simp: input_read_def input_pop_empty split: if_splits)
  have two: "region_module (m ! 2) = Input d" using assms(2) by (auto simp: input_of_def split: mem_module.splits)
  show ?thesis
  proof (cases "find_region m a")
    case None
    then show ?thesis using assms(1,2) by (simp add: read_at_def)
  next
    case (Some i)
    then obtain md where md: "module_read (region_translate (m ! i) a) (region_module (m ! i)) = Inr (v, md)"
        "m' = m[i := (m ! i)\<lparr>region_module := md\<rparr>]"
      using assms(1) by (auto simp: read_at_def region_read_def split: if_splits elim!: bind_ok_eq_InrE)
    have "region_module (m' ! 2) = Input d"
    proof (cases "i = 2")
      case True
      then have "md = Input d" using md(1) two idle by (auto split: prod.splits)
      then show ?thesis using find_region_Some [OF Some] True by (simp add: md(2))
    next
      case False
      then show ?thesis by (simp add: md(2) two)
    qed
    then show ?thesis by (simp add: input_of_def md(2))
  qed
qed

lemma make_cpu_mem:
  assumes "make_cpu p rom extra = Inr s"
  shows "build_regions rom extra = Inr (mem s)"
proof -
  obtain regions m where m: "build_regions rom extra = Inr regions" "make_memory regions = Inr m" "mem s = m"
    using assms unfolding make_cpu_def Let_def by (elim bind_ok_eq_InrE) auto
  then show ?thesis by (auto simp: make_memory_def split: list.splits)
qed

lemma make_demo_input:
  assumes "make_demo p files sdl_starts opts0 = Inr (opts, s)"
  shows "input_of (mem s) = Some input_device_init \<and> 2 < length (mem s)"
proof -
  obtain rom s0 s1 entry where s0: "make_cpu p rom [\<lparr>region_offset = 0x4000, region_module = Input input_device_init\<rparr>,
      \<lparr>region_offset = 0x4100, region_module = Vgc vgc_init\<rparr>] = Inr s0"
    and s1: "boot entry s0 = Inr s1" and s: "mem s = mem s1"
    using assms
    by (auto simp: make_demo_def demo_regions_ok lift_sim_def enable_trace_def split: sum.splits if_splits
      elim!: bind_ok_eq_InrE)
  have m: "input_of (mem s0) = Some input_device_init" "length (mem s0) = 4"
  proof -
    have "\<exists>r0 r1. [r0, r1, \<lparr>region_offset = 0x4000, region_module = Input input_device_init\<rparr>,
        \<lparr>region_offset = 0x4100, region_module = Vgc vgc_init\<rparr>] = mem s0"
      using make_cpu_mem [OF s0] unfolding build_regions_def by (elim bind_ok_eq_InrE) auto
    then obtain r0 r1 where "mem s0 = [r0, r1, \<lparr>region_offset = 0x4000, region_module = Input input_device_init\<rparr>,
        \<lparr>region_offset = 0x4100, region_module = Vgc vgc_init\<rparr>]"
      by metis
    then show "input_of (mem s0) = Some input_device_init" "length (mem s0) = 4"
      by (simp_all add: input_of_def)
  qed
  obtain v m' where read: "read_at entry (mem s0) = Inr (v, m')" "mem s1 = m'"
    using s1 by (auto simp: boot_def set_byte_def set_word_def Let_def elim!: bind_ok_eq_InrE)
  from read_at_input [OF read(1) m(1) input_init_content] m(2) show ?thesis by (simp add: s read(2))
qed

lemma number_option_Inl: "number_option ok args = Inl out \<Longrightarrow> out = Exit 1"
  by (auto simp: number_option_def split: list.splits option.splits if_splits)

lemma demo_args_fail: "parse_demo_args args a = Inl out \<Longrightarrow> out = Exit 1"
proof (induction args a arbitrary: out rule: parse_demo_args.induct)
  case (2 arg args a)
  from "2.prems" show ?case
    by (simp only: parse_demo_args.simps split: if_split_asm)
      (auto split: list.splits sum.splits prod.splits dest: number_option_Inl intro: "2.IH")
qed simp

text \<open>
  The undefined read comes from the sizes in the header of the cartridge: together they are more
  than the file has, but their sum in 32 bits is not.
\<close>

definition cartridge_overruns :: "u8 list option \<Rightarrow> bool" where
  "cartridge_overruns contents =
     (case contents of
        None \<Rightarrow> False
      | Some data \<Rightarrow>
          (case (read_u16 data 6, read_u32 data 10) of
             (Inr hsize, Inr rom_size) \<Rightarrow>
               unat (ucast hsize + rom_size) \<le> length data \<and> length data < unat hsize + unat rom_size
           | _ \<Rightarrow> False))"

lemma read_out_of_bounds_only:
  "read_u16 data i \<noteq> Inl Read_Out_Of_Bounds" "read_u32 data i \<noteq> Inl Read_Out_Of_Bounds"
  by (simp_all add: read_u16_def read_u32_def throw_if_def)

lemma load_cartridge_overrun:
  "load_cartridge path contents = Inl Read_Out_Of_Bounds \<Longrightarrow> cartridge_overruns contents"
  using read_out_of_bounds_only
  by (auto simp: load_cartridge_def read_file_def cartridge_overruns_def bind_ok_def Let_def
    split: option.splits sum.splits if_splits)

lemma make_demo_overrun:
  "make_demo p files sdl_starts opts0 = Inl (Load_Failed Read_Out_Of_Bounds) \<Longrightarrow>
   cartridge_overruns (files (demo_rom opts0))"
  by (rule load_cartridge_overrun [of "demo_rom opts0"])
    (auto simp: make_demo_def demo_setup_def lift_sim_def Let_def bind_ok_def split: if_splits sum.splits)

lemma demo_main_returns:
  assumes "Quit_event \<in> set (events m)"
  shows "\<exists>out log. demo_main p files sdl_starts ks events args = Some (out, log) \<and>
    (out \<in> {Exit 0, Exit 1, Exit 2} \<or>
     out = Undefined_Behaviour \<and> (\<exists>a. parse_demo_args args default_demo_options = Inr a \<and>
       cartridge_overruns (files (demo_rom a))))"
proof -
  have loop: "\<exists>r. demo_loop ks opts events 0 [] s = Some r" for opts s
    by (rule demo_loop_returns [of 0 m]) (simp_all add: assms)
  note args = demo_args_fail
  show ?thesis
  proof (cases "parse_demo_args args default_demo_options")
    case (Inl out)
    then show ?thesis using args by (simp add: demo_main_def)
  next
    case (Inr a)
    show ?thesis
    proof (cases "make_demo p files sdl_starts a")
      case (Inl e)
      then show ?thesis using Inr make_demo_overrun [of p files sdl_starts a]
        by (auto simp: demo_main_def)
    next
      case demo: (Inr made)
      obtain opts s where made: "made = (opts, s)" by fastforce
      obtain r where "demo_loop ks opts events 0 [] s = Some r" using loop by blast
      then show ?thesis using Inr demo by (cases r) (auto simp: demo_main_def made)
    qed
  qed
qed

end
