(* ===== verification/Example_Files.thy ===== *)
theory Example_Files
  imports Tools_Roundtrip Example_Tools Demo Example_Machine
begin

text \<open>
  The example program in a file, assembled with the default options: the cartridge, and the
  listing that the disassembler prints of it; key codes for the demo.
\<close>

lemma example_default_pass: "first_pass example_isa default_options example_program_asm = Inr example_pass"
  by (simp add: first_pass_def first_pass_init_def example_program_asm_def default_options_def
    example_select example_texts example_operand_bytes place_item_def validate_cursor_def
    update_max_address_def emplace_def example_pass_def example_items_def Let_def throw_if_def)

lemma example_default_encodes: "is_ok (encode example_pass default_options ''f'')"
  using example_resolves
  by (simp add: encode_def Let_def example_pass_def example_items_def default_options_def
    encode_item_def encode_instruction_item_def)

definition example_image :: "u8 list" where
  "example_image = [0x10, 5, 0x40, 0xFE] @ replicate 32764 0xFF"

lemma example_rom_image: "rom_image example_pass default_options = example_image"
proof -
  have fill: "replicate 0x8000 (0xFF :: u8) = replicate 4 0xFF @ replicate 32764 0xFF"
    by (simp only: replicate_add [symmetric]) simp
  obtain i0 i1 where items: "example_items = [i0, i1]" "e_address i0 = 0x8000" "e_address i1 = 0x8002"
      "the_bytes example_pass i0 = [0x10, 5]" "the_bytes example_pass i1 = [0x40, 0xFE]"
    using example_resolves by (simp add: the_bytes_def item_bytes_def operand_value_def example_items_def)
  have opts: "unat (opt_origin default_options) = 0x8000" "unat (opt_rom_size default_options) = 0x8000"
    by (simp_all add: default_options_def)
  have pass: "fp_items example_pass = [i0, i1]"
    using items(1) by (simp add: example_pass_def)
  have four: "replicate 4 (0xFF :: u8) = [0xFF, 0xFF, 0xFF, 0xFF]" by (simp add: numeral_eq_Suc)
  show ?thesis
    unfolding rom_image_def opts fill four pass
    by (simp add: write_item_def items(2-5) example_image_def)
qed

lemma chunks_Some:
  assumes "decode_at isa rom idx = Some (info, bytes)" and "idx < length rom"
    and "idx' = idx + 1 + length bytes" and "address' = address + 1 + of_nat (length bytes)"
  shows "chunks isa rom idx address =
    \<lparr>c_address = address, c_info = Some info, c_bytes = rom ! idx # bytes\<rparr> # chunks isa rom idx' address'"
  unfolding assms(3,4) using assms(1,2) by (subst chunks.simps) simp

lemma data_chunks:
  "(\<And>i. idx \<le> i \<Longrightarrow> i < length rom \<Longrightarrow> get_instruction isa (rom ! i) = None) \<Longrightarrow>
   list_all (\<lambda>c. c_info c = None) (chunks isa rom idx address)"
proof (induction isa rom idx address rule: chunks.induct)
  case (1 isa rom idx address)
  show ?case
  proof (cases "length rom \<le> idx")
    case False
    then have none: "decode_at isa rom idx = None" using "1.prems" by (simp add: decode_at_def)
    have "list_all (\<lambda>c. c_info c = None) (chunks isa rom (idx + 1) (address + 1))"
      by (rule "1.IH"(1)) (use False none "1.prems" in auto)
    then show ?thesis using False by (subst chunks.simps) (simp add: none)
  qed (simp add: chunks_end)
qed

lemma example_image_listing: "listing_reassembles example_isa example_image 0x8000"
proof -
  have len: "length example_image = 32768" by (simp add: example_image_def)
  have nth: "example_image ! 0 = 0x10" "example_image ! 1 = 5" "example_image ! 2 = 0x40" "example_image ! 3 = 0xFE"
    by (simp_all add: example_image_def)
  have rest: "example_image ! i = 0xFF" if "4 \<le> i" "i < 32768" for i
    using that by (simp add: example_image_def nth_append)
  have find: "get_instruction example_isa 0x10 = Some \<lparr>i_mnemonic = ''LDA'', i_mode = IMM, i_opcode = 0x10\<rparr>"
    "get_instruction example_isa 0x40 = Some \<lparr>i_mnemonic = ''BEQ'', i_mode = REL, i_opcode = 0x40\<rparr>"
    "get_instruction example_isa 0xFF = None"
    by code_simp+
  have take: "take 1 (drop 1 example_image) = [5]" "take 1 (drop 3 example_image) = [0xFE]"
    by (simp_all add: example_image_def)
  have dec: "decode_at example_isa example_image 0 = Some (\<lparr>i_mnemonic = ''LDA'', i_mode = IMM, i_opcode = 0x10\<rparr>, [5])"
    "decode_at example_isa example_image 2 = Some (\<lparr>i_mnemonic = ''BEQ'', i_mode = REL, i_opcode = 0x40\<rparr>, [0xFE])"
    using take by (simp_all add: decode_at_def nth find len Let_def example_operand_bytes)
  have tail: "list_all (\<lambda>c. c_info c = None) (chunks example_isa example_image 4 0x8004)"
    by (rule data_chunks) (simp add: len rest find)
  have cs: "chunks example_isa example_image 0 0x8000 =
    \<lparr>c_address = 0x8000, c_info = Some \<lparr>i_mnemonic = ''LDA'', i_mode = IMM, i_opcode = 0x10\<rparr>, c_bytes = [0x10, 5]\<rparr> #
    \<lparr>c_address = 0x8002, c_info = Some \<lparr>i_mnemonic = ''BEQ'', i_mode = REL, i_opcode = 0x40\<rparr>, c_bytes = [0x40, 0xFE]\<rparr> #
    chunks example_isa example_image 4 0x8004"
    using chunks_Some [OF dec(1), where idx' = 2 and address = "0x8000" and address' = "0x8002"]
      chunks_Some [OF dec(2), where idx' = 4 and address = "0x8002" and address' = "0x8004"]
    by (simp add: len nth)
  have "list_all (chunk_reassembles example_isa) (chunks example_isa example_image 4 0x8004)"
    using tail by (auto simp: list_all_iff chunk_reassembles_def)
  moreover have "widths_ok example_isa" by code_simp
  moreover have "chunk_reassembles example_isa
      \<lparr>c_address = 0x8000, c_info = Some \<lparr>i_mnemonic = ''LDA'', i_mode = IMM, i_opcode = 0x10\<rparr>, c_bytes = [0x10, 5]\<rparr>"
    "chunk_reassembles example_isa
      \<lparr>c_address = 0x8002, c_info = Some \<lparr>i_mnemonic = ''BEQ'', i_mode = REL, i_opcode = 0x40\<rparr>, c_bytes = [0x40, 0xFE]\<rparr>"
    by code_simp+
  ultimately show ?thesis by (simp add: listing_reassembles_def len cs)
qed

text \<open>A disk with the source, and what the assembler leaves on it.\<close>

definition example_disk :: disk where
  "example_disk = (\<lambda>_. None)(''f'' \<mapsto> file_bytes example_text)"

lemma example_assembles:
  "\<exists>result. assemble_file 0 example_isa (disk_system (\<lambda>_. None) example_disk) [] ''f'' default_options =
    Some (Inr result) \<and> a_rom result = example_image"
proof -
  obtain result where r: "encode example_pass default_options ''f'' = Inr result"
    using example_default_encodes by (rule is_okE)
  have parses: "bind_ok (lex_source (make_lexer example_text ''f'')) parse = Inr example_program_asm"
    by (rule example_parses)
  have "list_all (\<lambda>s. include_path s = None) example_program_asm"
    by (simp add: example_program_asm_def)
  note p = process_program_id [OF this]
  have "assemble 0 example_isa (disk_system (\<lambda>_. None) example_disk) [] example_text ''f'' default_options =
      Some (Inr result)"
    by (simp add: assemble_def parses process_includes_def p example_default_pass r Let_def del: bind_ok_def)
  moreover have "a_rom result = example_image"
    using encode_result(1) [OF r first_pass_items_size [OF example_default_pass]] example_rom_image by simp
  ultimately show ?thesis by (simp add: assemble_file_def disk_system_def disk_text_def example_disk_def)
qed

section \<open>Keys\<close>

definition example_keys :: sdl_keys where
  "example_keys =
     \<lparr>k_up = 1, k_down = 2, k_left = 3, k_right = 4, k_space = 32, k_return = 13, k_escape = 27,
      k_0 = 48, k_9 = 57, k_a = 97, k_z = 122\<rparr>"

lemma example_keys_codes:
  "pressed_codes example_keys [Key_down 1 False, Key_up 1, Key_down 110 False, Key_down 110 True] = [0x01, 0x4E]"
  by (simp add: pressed_codes_def map_key_def example_keys_def)

end
