(* ===== verification/Isa_Spec.thy ===== *)
theory Isa_Spec
  imports Sim_Tick
begin

text \<open>
  The instruction set as a programmer sees it: registers, flags, the memory map, and what each
  instruction of \<open>isa/instructions.yaml\<close> does to them, in the order of its memory accesses.
  It is the specification the processor and its microcode are proved against; nothing here
  mentions buses, controls or ticks.
\<close>

section \<open>Instructions\<close>

datatype index = In_a | In_x | In_y

datatype mem_mode =
    At_zero_page | At_zero_page_x | At_zero_page_y | At_absolute | At_absolute_x | At_absolute_y
  | At_indexed_indirect | At_indirect_indexed

datatype instr_operand = Immediate | In_memory mem_mode

datatype arith = Op_adc | Op_sbc | Op_and | Op_ora | Op_eor

datatype modify = Op_asl | Op_lsr | Op_rol | Op_ror | Op_inc | Op_dec

datatype (plugins only: code size) instr =
    I_hlt | I_nop | I_crs
  | I_load index instr_operand | I_store index mem_mode
  | I_arith arith instr_operand | I_compare index instr_operand | I_bit mem_mode
  | I_modify modify mem_mode | I_modify_register modify index
  | I_transfer index index | I_tsx | I_txs
  | I_branch flag bool | I_jeq | I_jmp | I_jmp_indirect | I_jsr | I_rts
  | I_pha | I_pla | I_php | I_plp
  | I_brk | I_irq | I_rti
  | I_clc | I_sec | I_clv

section \<open>The state of the programmer's model\<close>

record isa =
  isa_a :: u8
  isa_x :: u8
  isa_y :: u8
  isa_sp :: u8
  isa_st :: u8
  isa_pc :: u16
  isa_mem :: memory
  isa_line :: bool
  isa_halted :: bool
  isa_crashed :: bool

primrec isa_get :: "index \<Rightarrow> isa \<Rightarrow> u8" where
  "isa_get In_a u = isa_a u"
| "isa_get In_x u = isa_x u"
| "isa_get In_y u = isa_y u"

primrec isa_put :: "index \<Rightarrow> u8 \<Rightarrow> isa \<Rightarrow> isa" where
  "isa_put In_a v u = u\<lparr>isa_a := v\<rparr>"
| "isa_put In_x v u = u\<lparr>isa_x := v\<rparr>"
| "isa_put In_y v u = u\<lparr>isa_y := v\<rparr>"

definition isa_flag :: "flag \<Rightarrow> bool \<Rightarrow> isa \<Rightarrow> isa" where
  "isa_flag f b u = u\<lparr>isa_st := status_set f b (isa_st u)\<rparr>"

text \<open>Zero and negative after a result.\<close>

definition isa_tested :: "u8 \<Rightarrow> isa \<Rightarrow> isa" where
  "isa_tested v u = isa_flag Negative (bit v 7) (isa_flag Zero (v = 0) u)"

definition isa_load :: "index \<Rightarrow> u8 \<Rightarrow> isa \<Rightarrow> isa" where
  "isa_load i v u = isa_tested v (isa_put i v u)"

section \<open>Memory accesses\<close>

definition isa_read :: "u16 \<Rightarrow> isa \<Rightarrow> sim_error + (u8 \<times> isa)" where
  "isa_read a u = bind_ok (read_at a (isa_mem u)) (\<lambda>(v, m). Inr (v, u\<lparr>isa_mem := m\<rparr>))"

definition isa_write :: "u16 \<Rightarrow> u8 \<Rightarrow> isa \<Rightarrow> sim_error + isa" where
  "isa_write a v u = bind_ok (write_at a v (isa_mem u)) (\<lambda>m. Inr (u\<lparr>isa_mem := m\<rparr>))"

definition isa_next :: "isa \<Rightarrow> sim_error + (u8 \<times> isa)" where
  "isa_next u = bind_ok (isa_read (isa_pc u) u) (\<lambda>(v, u). Inr (v, u\<lparr>isa_pc := isa_pc u + 1\<rparr>))"

definition isa_next_word :: "isa \<Rightarrow> sim_error + (u16 \<times> isa)" where
  "isa_next_word u = bind_ok (isa_next u) (\<lambda>(lo, u).
     bind_ok (isa_next u) (\<lambda>(hi, u). Inr (word_of_bytes hi lo, u)))"

definition isa_read_word :: "u16 \<Rightarrow> u16 \<Rightarrow> isa \<Rightarrow> sim_error + (u16 \<times> isa)" where
  "isa_read_word a a' u = bind_ok (isa_read a u) (\<lambda>(lo, u).
     bind_ok (isa_read a' u) (\<lambda>(hi, u). Inr (word_of_bytes hi lo, u)))"

text \<open>The stack grows down through the page 1.\<close>

definition isa_push :: "u8 \<Rightarrow> isa \<Rightarrow> sim_error + isa" where
  "isa_push v u = bind_ok (isa_write (word_of_bytes 1 (isa_sp u)) v u) (\<lambda>u.
     Inr (u\<lparr>isa_sp := isa_sp u - 1\<rparr>))"

definition isa_pull :: "isa \<Rightarrow> sim_error + (u8 \<times> isa)" where
  "isa_pull u = isa_read (word_of_bytes 1 (isa_sp u + 1)) (u\<lparr>isa_sp := isa_sp u + 1\<rparr>)"

definition isa_push_pc :: "isa \<Rightarrow> sim_error + isa" where
  "isa_push_pc u = bind_ok (isa_push (word_high (isa_pc u)) u) (\<lambda>u. isa_push (word_low (isa_pc u)) u)"

definition isa_pull_pc :: "isa \<Rightarrow> sim_error + isa" where
  "isa_pull_pc u = bind_ok (isa_pull u) (\<lambda>(lo, u). bind_ok (isa_pull u) (\<lambda>(hi, u).
     Inr (u\<lparr>isa_pc := word_of_bytes hi lo\<rparr>)))"

section \<open>Addressing modes\<close>

text \<open>The zero page wraps: an index or the second byte of a pointer never leaves it.\<close>

definition zero_page :: "u8 \<Rightarrow> u16" where
  "zero_page n = word_of_bytes 0 n"

primrec isa_address :: "mem_mode \<Rightarrow> isa \<Rightarrow> sim_error + (u16 \<times> isa)" where
  "isa_address At_zero_page u = bind_ok (isa_next u) (\<lambda>(n, u). Inr (zero_page n, u))"
| "isa_address At_zero_page_x u = bind_ok (isa_next u) (\<lambda>(n, u). Inr (zero_page (n + isa_x u), u))"
| "isa_address At_zero_page_y u = bind_ok (isa_next u) (\<lambda>(n, u). Inr (zero_page (n + isa_y u), u))"
| "isa_address At_absolute u = isa_next_word u"
| "isa_address At_absolute_x u = bind_ok (isa_next_word u) (\<lambda>(a, u). Inr (a + ucast (isa_x u), u))"
| "isa_address At_absolute_y u = bind_ok (isa_next_word u) (\<lambda>(a, u). Inr (a + ucast (isa_y u), u))"
| "isa_address At_indexed_indirect u = bind_ok (isa_next u) (\<lambda>(n, u).
     isa_read_word (zero_page (n + isa_x u)) (zero_page (n + isa_x u + 1)) u)"
| "isa_address At_indirect_indexed u = bind_ok (isa_next u) (\<lambda>(n, u).
     bind_ok (isa_read_word (zero_page n) (zero_page (n + 1)) u) (\<lambda>(a, u).
     Inr (a + ucast (isa_y u), u)))"

primrec isa_operand :: "instr_operand \<Rightarrow> isa \<Rightarrow> sim_error + (u8 \<times> isa)" where
  "isa_operand Immediate u = isa_next u"
| "isa_operand (In_memory m) u = bind_ok (isa_address m u) (\<lambda>(a, u). isa_read a u)"

section \<open>Arithmetic\<close>

definition clear_cv :: "u8 \<Rightarrow> u8" where
  "clear_cv st = status_set Overflow False (status_set Carry False st)"

text \<open>
  A result and the status: the sum of naturals and of signed bytes decide carry and overflow of
  an addition; a subtraction leaves overflow alone; logic and shifts clear it.
\<close>

primrec isa_arith :: "arith \<Rightarrow> u8 \<Rightarrow> u8 \<Rightarrow> u8 \<Rightarrow> u8 \<times> u8" where
  "isa_arith Op_adc a v st =
     (let n = unat a + unat v + carry_nat st; i = sint a + sint v + int (carry_nat st)
      in (of_nat n, status_set Overflow (i < -128 \<or> 127 < i) (status_set Carry (256 \<le> n) st)))"
| "isa_arith Op_sbc a v st =
     (let borrow = 1 - carry_nat st
      in (a - v - of_nat borrow, status_set Carry (unat v + borrow \<le> unat a) st))"
| "isa_arith Op_and a v st = (a AND v, clear_cv st)"
| "isa_arith Op_ora a v st = (a OR v, clear_cv st)"
| "isa_arith Op_eor a v st = (a XOR v, clear_cv st)"

primrec isa_modify :: "modify \<Rightarrow> u8 \<Rightarrow> u8 \<Rightarrow> u8 \<times> u8" where
  "isa_modify Op_asl v st = (push_bit 1 v, status_set Carry (bit v 7) (clear_cv st))"
| "isa_modify Op_lsr v st = (drop_bit 1 v, status_set Carry (bit v 0) (clear_cv st))"
| "isa_modify Op_rol v st =
     (push_bit 1 v OR (if status_value Carry st then 1 else 0), status_set Carry (bit v 7) (clear_cv st))"
| "isa_modify Op_ror v st =
     (drop_bit 1 v OR (if status_value Carry st then 0x80 else 0), status_set Carry (bit v 0) (clear_cv st))"
| "isa_modify Op_inc v st = (v + 1, st)"
| "isa_modify Op_dec v st = (v - 1, st)"

section \<open>Instructions at work\<close>

definition isa_interrupt :: "bool \<Rightarrow> isa \<Rightarrow> sim_error + isa" where
  "isa_interrupt brk u =
     bind_ok (isa_push_pc (isa_flag Interrupt_disable True u)) (\<lambda>u.
     bind_ok (isa_push (status_set Brk brk (isa_st u)) u) (\<lambda>u.
     bind_ok (isa_read_word 0xFFFE 0xFFFF (isa_flag Brk False u)) (\<lambda>(a, u).
     Inr (u\<lparr>isa_pc := a\<rparr>))))"

primrec isa_exec :: "instr \<Rightarrow> isa \<Rightarrow> sim_error + isa" where
  "isa_exec I_hlt u = Inr (u\<lparr>isa_halted := True\<rparr>)"
| "isa_exec I_nop u = Inr u"
| "isa_exec I_crs u = Inr (u\<lparr>isa_halted := True, isa_crashed := True\<rparr>)"
| "isa_exec (I_load i opnd) u = bind_ok (isa_operand opnd u) (\<lambda>(v, u). Inr (isa_load i v u))"
| "isa_exec (I_store i m) u = bind_ok (isa_address m u) (\<lambda>(a, u). isa_write a (isa_get i u) u)"
| "isa_exec (I_arith f opnd) u = bind_ok (isa_operand opnd u) (\<lambda>(v, u).
     let (r, st) = isa_arith f (isa_a u) v (isa_st u) in Inr (isa_load In_a r (u\<lparr>isa_st := st\<rparr>)))"
| "isa_exec (I_compare i opnd) u = bind_ok (isa_operand opnd u) (\<lambda>(v, u).
     Inr (isa_tested (isa_get i u - v) (isa_flag Carry (v \<le> isa_get i u) u)))"
| "isa_exec (I_bit m) u = bind_ok (isa_operand (In_memory m) u) (\<lambda>(v, u).
     Inr (isa_tested (isa_a u AND v) u))"
| "isa_exec (I_modify f m) u = bind_ok (isa_address m u) (\<lambda>(a, u). bind_ok (isa_read a u) (\<lambda>(v, u).
     let (r, st) = isa_modify f v (isa_st u) in
     bind_ok (isa_write a r u) (\<lambda>u. Inr (isa_tested r (u\<lparr>isa_st := st\<rparr>)))))"
| "isa_exec (I_modify_register f i) u =
     (let (r, st) = isa_modify f (isa_get i u) (isa_st u) in Inr (isa_load i r (u\<lparr>isa_st := st\<rparr>)))"
| "isa_exec (I_transfer i j) u = Inr (isa_load j (isa_get i u) u)"
| "isa_exec I_tsx u = Inr (isa_load In_x (isa_sp u) u)"
| "isa_exec I_txs u = Inr (u\<lparr>isa_sp := isa_x u\<rparr>)"
| "isa_exec (I_branch f b) u = bind_ok (isa_next u) (\<lambda>(n, u).
     Inr (if status_value f (isa_st u) = b then u\<lparr>isa_pc := isa_pc u + of_int (sint n)\<rparr> else u))"
| "isa_exec I_jeq u = bind_ok (isa_next_word u) (\<lambda>(a, u).
     Inr (if status_value Zero (isa_st u) then u\<lparr>isa_pc := a\<rparr> else u))"
| "isa_exec I_jmp u = bind_ok (isa_next_word u) (\<lambda>(a, u). Inr (u\<lparr>isa_pc := a\<rparr>))"
| "isa_exec I_jmp_indirect u = bind_ok (isa_next_word u) (\<lambda>(a, u).
     bind_ok (isa_read_word a (a + 1) u) (\<lambda>(a, u). Inr (u\<lparr>isa_pc := a\<rparr>)))"
| "isa_exec I_jsr u = bind_ok (isa_next_word u) (\<lambda>(a, u).
     bind_ok (isa_push_pc u) (\<lambda>u. Inr (u\<lparr>isa_pc := a\<rparr>)))"
| "isa_exec I_rts u = isa_pull_pc u"
| "isa_exec I_pha u = isa_push (isa_a u) u"
| "isa_exec I_pla u = bind_ok (isa_pull u) (\<lambda>(v, u). Inr (isa_load In_a v u))"
| "isa_exec I_php u = isa_push (isa_st u) u"
| "isa_exec I_plp u = bind_ok (isa_pull u) (\<lambda>(v, u). Inr (u\<lparr>isa_st := v\<rparr>))"
| "isa_exec I_brk u = isa_interrupt True u"
| "isa_exec I_irq u = isa_interrupt False u"
| "isa_exec I_rti u = bind_ok (isa_pull u) (\<lambda>(v, u). isa_pull_pc (u\<lparr>isa_st := v\<rparr>))"
| "isa_exec I_clc u = Inr (isa_flag Carry False u)"
| "isa_exec I_sec u = Inr (isa_flag Carry True u)"
| "isa_exec I_clv u = Inr (isa_flag Overflow False u)"

section \<open>Steps and runs\<close>

type_synonym isa_table = "(u8 \<times> instr) list"

text \<open>
  One instruction: the opcode is fetched; a pending, enabled interrupt replaces it by 0. A
  fetched byte or a replacement outside the table has no meaning (\<open>None\<close>); a failing memory
  access ends the step with its error. The interrupt line follows the devices.
\<close>

definition isa_line_next :: "isa \<Rightarrow> isa" where
  "isa_line_next u = u\<lparr>isa_line := irq_after (isa_mem u) (isa_line u)\<rparr>"

definition isa_decoded :: "isa \<Rightarrow> u8 \<Rightarrow> u8" where
  "isa_decoded u v =
     (if isa_line u \<and> \<not> status_value Interrupt_disable (isa_st u) then 0 else v)"

definition isa_step :: "isa_table \<Rightarrow> isa \<Rightarrow> (sim_error + isa) option" where
  "isa_step tab u =
     (if isa_halted u then Some (Inr u)
      else case isa_next u of
        Inl e \<Rightarrow> Some (Inl e)
      | Inr (v, u') \<Rightarrow>
          (if map_of tab v = None then None
           else map_option (\<lambda>i. bind_ok (isa_exec i u') (\<lambda>u. Inr (isa_line_next u)))
                  (map_of tab (isa_decoded u v))))"

text \<open>A bounded number of steps, ended by a state without a step or by an error.\<close>

fun iterate :: "('a \<Rightarrow> ('e + 'a) option) \<Rightarrow> nat \<Rightarrow> 'a \<Rightarrow> ('e + 'a) option" where
  "iterate step 0 u = Some (Inr u)"
| "iterate step (Suc n) u =
     (case step u of
        None \<Rightarrow> None
      | Some (Inl e) \<Rightarrow> Some (Inl e)
      | Some (Inr u') \<Rightarrow> iterate step n u')"

definition isa_run :: "isa_table \<Rightarrow> nat \<Rightarrow> isa \<Rightarrow> (sim_error + isa) option" where
  "isa_run tab = iterate (isa_step tab)"

end
