(* ===== verification/Tick_Refinement.thy ===== *)
theory Tick_Refinement
  imports Isa_Spec
begin

text \<open>
  The contract between a machine that ticks and a model that steps: from every state of the
  invariant, a step of the model is as many ticks as it costs, with the same outcome, and the
  clock of the machine counts them. Runs of steps are then runs of ticks.
\<close>

text \<open>The cost of a run, up to the step that fails.\<close>

fun iterate_cost :: "('a \<Rightarrow> ('e + 'a) option) \<Rightarrow> ('a \<Rightarrow> nat) \<Rightarrow> nat \<Rightarrow> 'a \<Rightarrow> nat" where
  "iterate_cost step cost 0 u = 0"
| "iterate_cost step cost (Suc n) u =
     cost u + (case step u of Some (Inr u') \<Rightarrow> iterate_cost step cost n u' | _ \<Rightarrow> 0)"

locale tick_refinement =
  fixes step :: "'a \<Rightarrow> ('e + 'a) option" and cost :: "'a \<Rightarrow> nat"
    and run :: "nat \<Rightarrow> 'c \<Rightarrow> 'e + 'c" and view :: "'c \<Rightarrow> 'a" and inv :: "'c \<Rightarrow> bool"
    and clock :: "'c \<Rightarrow> 'k::comm_semiring_1"
  assumes run_0: "run 0 s = Inr s"
    and run_add: "run (m + n) s = bind_ok (run m s) (run n)"
    and step_refined: "inv s \<Longrightarrow> step (view s) = Some r \<Longrightarrow>
      case r of Inl e \<Rightarrow> run (cost (view s)) s = Inl e
      | Inr u \<Rightarrow> \<exists>t. run (cost (view s)) s = Inr t \<and> view t = u \<and> inv t \<and>
          clock t = clock s + of_nat (cost (view s))"
begin

lemma iterate_refined:
  "inv s \<Longrightarrow> iterate step n (view s) = Some r \<Longrightarrow>
   case r of Inl e \<Rightarrow> run (iterate_cost step cost n (view s)) s = Inl e
   | Inr u \<Rightarrow> \<exists>t. run (iterate_cost step cost n (view s)) s = Inr t \<and> view t = u \<and> inv t \<and>
       clock t = clock s + of_nat (iterate_cost step cost n (view s))"
proof (induction n arbitrary: s)
  case 0
  then show ?case by (auto simp: run_0)
next
  case (Suc n)
  obtain r1 where r1: "step (view s) = Some r1"
    using Suc.prems(2) by (auto split: option.splits)
  note refined = step_refined [OF Suc.prems(1) r1]
  show ?case
  proof (cases r1)
    case (Inl e)
    then show ?thesis using refined r1 Suc.prems(2) by auto
  next
    case (Inr u)
    then obtain t where t: "run (cost (view s)) s = Inr t" "view t = u" "inv t"
      "clock t = clock s + of_nat (cost (view s))" using refined by auto
    have "iterate step n (view t) = Some r" using Suc.prems(2) by (simp add: r1 Inr t(2))
    from Suc.IH [OF t(3) this] show ?thesis
      by (simp add: r1 Inr t(1,2,4) run_add add.assoc split: sum.splits)
  qed
qed

end

end
