(* ===== verification/Isa_Microcode.thy ===== *)
theory Isa_Microcode
  imports Isa_Spec
begin

text \<open>
  The microprograms of \<open>microcode/microcode.yaml\<close>, from which the build generates the
  compiler's input: every step is a list of controls, every instruction a list of steps, in
  one variant per status it distinguishes. The entries are regular, so a program is composed
  of the steps of its addressing mode and those of its operation.
\<close>

section \<open>Steps\<close>

datatype alu_fn =
    F_add | F_sub | F_inc | F_and | F_or | F_xor | F_asl | F_lsr | F_rol | F_ror | F_dec | F_bit

datatype (plugins only: code size) micro =
    Pc_to_mar | Mar_to_pc | Mar_to_tmp | Tmp_to_pc
  | Operand_to index | Operand_to_rhs | Operand_low | Operand_low_saved | Operand_high
  | Operand_skipped | Operand_branch
  | Mem_to index | Mem_to_rhs | Mem_to_lhs | Mem_to_result | Mem_to_mar_high | Mem_to_status
  | Mem_to_pc bool
  | Index_to_mem index | Index_to_lhs index | Index_to_offset index | Index_to index index
  | Compute alu_fn | Result_to index | Result_to_mem | Result_tested | Result_to_mar_low
  | Mar_high_reset | Mar_add_offset | Mar_increment | Mar_vector
  | Stack_to_mar | Sp_increment | Sp_to_x | X_to_sp | Push_a | Push_status | Push_pc bool
  | Flag_to flag bool | Empty_step | Halt_step | Crash_step

primrec index_comp :: "index \<Rightarrow> comp" where
  "index_comp In_a = Reg_a"
| "index_comp In_x = Reg_x"
| "index_comp In_y = Reg_y"

primrec alu_fn_controls :: "alu_fn \<Rightarrow> ctl list" where
  "alu_fn_controls F_add = [Ctl Alu Opcode_bit_0]"
| "alu_fn_controls F_sub = [Ctl Alu Opcode_bit_1]"
| "alu_fn_controls F_inc = [Ctl Alu Opcode_bit_0, Ctl Alu Opcode_bit_1]"
| "alu_fn_controls F_and = [Ctl Alu Opcode_bit_2]"
| "alu_fn_controls F_or = [Ctl Alu Opcode_bit_0, Ctl Alu Opcode_bit_2]"
| "alu_fn_controls F_xor = [Ctl Alu Opcode_bit_1, Ctl Alu Opcode_bit_2]"
| "alu_fn_controls F_asl = [Ctl Alu Opcode_bit_0, Ctl Alu Opcode_bit_1, Ctl Alu Opcode_bit_2]"
| "alu_fn_controls F_lsr = [Ctl Alu Opcode_bit_3]"
| "alu_fn_controls F_rol = [Ctl Alu Opcode_bit_0, Ctl Alu Opcode_bit_3]"
| "alu_fn_controls F_ror = [Ctl Alu Opcode_bit_1, Ctl Alu Opcode_bit_3]"
| "alu_fn_controls F_dec = [Ctl Alu Opcode_bit_0, Ctl Alu Opcode_bit_1, Ctl Alu Opcode_bit_3]"
| "alu_fn_controls F_bit = [Ctl Alu Opcode_bit_2, Ctl Alu Opcode_bit_3]"

primrec micro_controls :: "micro \<Rightarrow> ctl list" where
  "micro_controls Pc_to_mar = [Ctl Pc Write, Ctl Mar Read]"
| "micro_controls Mar_to_pc = [Ctl Mar Write, Ctl Pc Read]"
| "micro_controls Mar_to_tmp = [Ctl Mar Write, Ctl Reg_tmp Read]"
| "micro_controls Tmp_to_pc = [Ctl Reg_tmp Write, Ctl Pc Read]"
| "micro_controls (Operand_to i) =
     [Ctl Memory Write, Ctl (index_comp i) Read, Ctl Analyzer Read, Ctl Pc Increment]"
| "micro_controls Operand_to_rhs = [Ctl Memory Write, Ctl Alu_rhs Read, Ctl Pc Increment]"
| "micro_controls Operand_low = [Ctl Memory Write, Ctl Mar_low Read, Ctl Pc Increment]"
| "micro_controls Operand_low_saved =
     [Ctl Memory Write, Ctl Mar_low Read, Ctl Alu_result Read, Ctl Pc Increment]"
| "micro_controls Operand_high = [Ctl Memory Write, Ctl Mar_high Read, Ctl Pc Increment]"
| "micro_controls Operand_skipped = [Ctl Memory Write, Ctl Pc Increment]"
| "micro_controls Operand_branch =
     [Ctl Memory Write, Ctl Pc Increment, Ctl Pc_signed_offset Read, Ctl Pc Add_signed_offset]"
| "micro_controls (Mem_to i) = [Ctl Memory Write, Ctl (index_comp i) Read, Ctl Analyzer Read]"
| "micro_controls Mem_to_rhs = [Ctl Memory Write, Ctl Alu_rhs Read]"
| "micro_controls Mem_to_lhs = [Ctl Memory Write, Ctl Alu_lhs Read]"
| "micro_controls Mem_to_result = [Ctl Memory Write, Ctl Alu_result Read]"
| "micro_controls Mem_to_mar_high = [Ctl Memory Write, Ctl Mar_high Read]"
| "micro_controls Mem_to_status = [Ctl Memory Write, Ctl Status Read]"
| "micro_controls (Mem_to_pc high) = [Ctl Memory Write, Ctl (if high then Pc_high else Pc_low) Read]"
| "micro_controls (Index_to_mem i) = [Ctl (index_comp i) Write, Ctl Memory Read]"
| "micro_controls (Index_to_lhs i) = [Ctl (index_comp i) Write, Ctl Alu_lhs Read]"
| "micro_controls (Index_to_offset i) = [Ctl (index_comp i) Write, Ctl Mar_offset Read]"
| "micro_controls (Index_to i j) =
     [Ctl (index_comp i) Write, Ctl (index_comp j) Read, Ctl Analyzer Read]"
| "micro_controls (Compute f) = alu_fn_controls f"
| "micro_controls (Result_to i) = [Ctl Alu_result Write, Ctl (index_comp i) Read, Ctl Analyzer Read]"
| "micro_controls Result_to_mem = [Ctl Alu_result Write, Ctl Memory Read, Ctl Analyzer Read]"
| "micro_controls Result_tested = [Ctl Alu_result Write, Ctl Analyzer Read]"
| "micro_controls Result_to_mar_low = [Ctl Alu_result Write, Ctl Mar_low Read]"
| "micro_controls Mar_high_reset = [Ctl Mar_high Reset]"
| "micro_controls Mar_add_offset = [Ctl Mar Add_offset]"
| "micro_controls Mar_increment = [Ctl Mar Increment]"
| "micro_controls Mar_vector = [Ctl Mar Interrupt_vector]"
| "micro_controls Stack_to_mar = [Ctl Reg_sp Write, Ctl Mar_low Read, Ctl Mar Stack_page]"
| "micro_controls Sp_increment = [Ctl Reg_sp Increment]"
| "micro_controls Sp_to_x = [Ctl Reg_sp Write, Ctl Reg_x Read, Ctl Analyzer Read]"
| "micro_controls X_to_sp = [Ctl Reg_x Write, Ctl Reg_sp Read]"
| "micro_controls Push_a = [Ctl Reg_a Write, Ctl Memory Read, Ctl Reg_sp Decrement]"
| "micro_controls Push_status = [Ctl Status Write, Ctl Memory Read, Ctl Reg_sp Decrement]"
| "micro_controls (Push_pc high) =
     [Ctl (if high then Pc_high else Pc_low) Write, Ctl Memory Read, Ctl Reg_sp Decrement]"
| "micro_controls (Flag_to f b) = [Ctl (Flag f) (if b then Set_flag else Clear_flag)]"
| "micro_controls Empty_step = []"
| "micro_controls Halt_step = [Ctl Cpu_root Halt]"
| "micro_controls Crash_step = [Ctl Cpu_root Crash]"

section \<open>Addressing modes\<close>

definition absolute_micro :: "micro list" where
  "absolute_micro = [Pc_to_mar, Operand_low_saved, Pc_to_mar, Operand_high, Result_to_mar_low]"

primrec address_micro :: "mem_mode \<Rightarrow> micro list" where
  "address_micro At_zero_page = [Pc_to_mar, Operand_low, Mar_high_reset]"
| "address_micro At_zero_page_x =
     [Pc_to_mar, Operand_low, Index_to_offset In_x, Mar_add_offset, Mar_high_reset]"
| "address_micro At_zero_page_y =
     [Pc_to_mar, Operand_low, Index_to_offset In_y, Mar_add_offset, Mar_high_reset]"
| "address_micro At_absolute = absolute_micro"
| "address_micro At_absolute_x = absolute_micro @ [Index_to_offset In_x, Mar_add_offset]"
| "address_micro At_absolute_y = absolute_micro @ [Index_to_offset In_y, Mar_add_offset]"
| "address_micro At_indexed_indirect =
     [Pc_to_mar, Operand_low, Index_to_offset In_x, Mar_add_offset, Mar_high_reset, Mem_to_result,
      Mar_increment, Mar_high_reset, Mem_to_mar_high, Result_to_mar_low]"
| "address_micro At_indirect_indexed =
     [Pc_to_mar, Operand_low, Mar_high_reset, Mem_to_result, Mar_increment, Mar_high_reset,
      Mem_to_mar_high, Result_to_mar_low, Index_to_offset In_y, Mar_add_offset]"

text \<open>An operand for the right-hand side of the arithmetic unit.\<close>

primrec rhs_micro :: "instr_operand \<Rightarrow> micro list" where
  "rhs_micro Immediate = [Pc_to_mar, Operand_to_rhs]"
| "rhs_micro (In_memory m) = address_micro m @ [Mem_to_rhs]"

primrec load_micro :: "index \<Rightarrow> instr_operand \<Rightarrow> micro list" where
  "load_micro i Immediate = [Pc_to_mar, Operand_to i]"
| "load_micro i (In_memory m) = address_micro m @ [Mem_to i]"

section \<open>Instructions\<close>

primrec arith_fn :: "arith \<Rightarrow> alu_fn" where
  "arith_fn Op_adc = F_add"
| "arith_fn Op_sbc = F_sub"
| "arith_fn Op_and = F_and"
| "arith_fn Op_ora = F_or"
| "arith_fn Op_eor = F_xor"

primrec modify_fn :: "modify \<Rightarrow> alu_fn" where
  "modify_fn Op_asl = F_asl"
| "modify_fn Op_lsr = F_lsr"
| "modify_fn Op_rol = F_rol"
| "modify_fn Op_ror = F_ror"
| "modify_fn Op_inc = F_inc"
| "modify_fn Op_dec = F_dec"

definition push_pc_micro :: "micro list" where
  "push_pc_micro = [Stack_to_mar, Push_pc True, Stack_to_mar, Push_pc False]"

definition pull_micro :: "micro \<Rightarrow> micro list" where
  "pull_micro m = [Sp_increment, Stack_to_mar, m]"

definition vector_micro :: "micro list" where
  "vector_micro = [Mar_vector, Mem_to_pc False, Mar_increment, Mem_to_pc True]"

text \<open>The flag that selects between two variants of an instruction, and its value in the first.\<close>

definition instr_condition :: "instr \<Rightarrow> (flag \<times> bool) option" where
  "instr_condition i =
     (case i of I_branch f b \<Rightarrow> Some (f, b) | I_jeq \<Rightarrow> Some (Zero, True) | _ \<Rightarrow> None)"

text \<open>The steps after the fetch preamble, for a value of the selecting flag.\<close>

primrec instr_micro :: "instr \<Rightarrow> bool \<Rightarrow> micro list" where
  "instr_micro I_hlt c = [Halt_step]"
| "instr_micro I_nop c = [Empty_step]"
| "instr_micro I_crs c = [Crash_step]"
| "instr_micro (I_load i opnd) c = load_micro i opnd"
| "instr_micro (I_store i m) c = address_micro m @ [Index_to_mem i]"
| "instr_micro (I_arith f opnd) c =
     rhs_micro opnd @ [Index_to_lhs In_a, Compute (arith_fn f), Result_to In_a]"
| "instr_micro (I_compare i opnd) c =
     rhs_micro opnd @ [Index_to_lhs i, Flag_to Carry True, Compute F_sub, Result_tested]"
| "instr_micro (I_bit m) c =
     rhs_micro (In_memory m) @ [Index_to_lhs In_a, Compute F_bit, Result_tested]"
| "instr_micro (I_modify f m) c =
     address_micro m @ [Mem_to_lhs, Compute (modify_fn f), Result_to_mem]"
| "instr_micro (I_modify_register f i) c = [Index_to_lhs i, Compute (modify_fn f), Result_to i]"
| "instr_micro (I_transfer i j) c = [Index_to i j]"
| "instr_micro I_tsx c = [Sp_to_x]"
| "instr_micro I_txs c = [X_to_sp]"
| "instr_micro (I_branch f b) c =
     [Pc_to_mar, if c = b then Operand_branch else Operand_skipped]"
| "instr_micro I_jeq c =
     (if c then absolute_micro @ [Mar_to_pc]
      else [Pc_to_mar, Operand_low, Pc_to_mar, Operand_high])"
| "instr_micro I_jmp c = absolute_micro @ [Mar_to_pc]"
| "instr_micro I_jmp_indirect c =
     absolute_micro @ [Mem_to_pc False, Mar_increment, Mem_to_pc True]"
| "instr_micro I_jsr c = absolute_micro @ [Mar_to_tmp] @ push_pc_micro @ [Tmp_to_pc]"
| "instr_micro I_rts c = pull_micro (Mem_to_pc False) @ pull_micro (Mem_to_pc True)"
| "instr_micro I_pha c = [Stack_to_mar, Push_a]"
| "instr_micro I_pla c = pull_micro (Mem_to In_a)"
| "instr_micro I_php c = [Stack_to_mar, Push_status]"
| "instr_micro I_plp c = pull_micro Mem_to_status"
| "instr_micro I_brk c =
     [Flag_to Interrupt_disable True] @ push_pc_micro @
     [Stack_to_mar, Flag_to Brk True, Push_status, Flag_to Brk False] @ vector_micro"
| "instr_micro I_irq c =
     [Flag_to Interrupt_disable True] @ push_pc_micro @
     [Stack_to_mar, Flag_to Brk False, Push_status] @ vector_micro"
| "instr_micro I_rti c =
     pull_micro Mem_to_status @ pull_micro (Mem_to_pc False) @ pull_micro (Mem_to_pc True)"
| "instr_micro I_clc c = [Flag_to Carry False]"
| "instr_micro I_sec c = [Flag_to Carry True]"
| "instr_micro I_clv c = [Flag_to Overflow False]"

section \<open>The instruction table\<close>

text \<open>The opcodes of \<open>isa/instructions.yaml\<close>, in its order.\<close>

definition isa_table :: "isa_table" where
  "isa_table =
     [(0x01, I_hlt), (0x02, I_nop), (0x10, I_load In_a Immediate),
      (0x11, I_compare In_a Immediate), (0x12, I_jeq), (0x20, I_arith Op_adc Immediate),
      (0x21, I_arith Op_sbc Immediate), (0x22, I_arith Op_and Immediate),
      (0x23, I_arith Op_ora Immediate), (0x24, I_arith Op_eor Immediate),
      (0x25, I_modify_register Op_asl In_a), (0x26, I_modify_register Op_lsr In_a),
      (0x27, I_modify_register Op_rol In_a), (0x28, I_modify_register Op_ror In_a),
      (0x30, I_transfer In_a In_x), (0x31, I_transfer In_x In_a), (0x32, I_load In_x Immediate),
      (0x33, I_transfer In_a In_y), (0x34, I_transfer In_y In_a), (0x35, I_load In_y Immediate),
      (0x40, I_load In_a (In_memory At_zero_page)), (0x41, I_store In_a At_zero_page),
      (0x42, I_load In_x (In_memory At_zero_page)), (0x43, I_store In_x At_zero_page),
      (0x4E, I_load In_y (In_memory At_zero_page)), (0x4F, I_store In_y At_zero_page),
      (0x44, I_arith Op_adc (In_memory At_zero_page)),
      (0x45, I_arith Op_sbc (In_memory At_zero_page)),
      (0x46, I_arith Op_and (In_memory At_zero_page)),
      (0x47, I_arith Op_ora (In_memory At_zero_page)),
      (0x48, I_arith Op_eor (In_memory At_zero_page)),
      (0x49, I_compare In_a (In_memory At_zero_page)), (0x4A, I_modify Op_asl At_zero_page),
      (0x4B, I_modify Op_lsr At_zero_page), (0x4C, I_modify Op_rol At_zero_page),
      (0x4D, I_modify Op_ror At_zero_page), (0x50, I_load In_a (In_memory At_absolute)),
      (0x51, I_store In_a At_absolute), (0x52, I_load In_x (In_memory At_absolute)),
      (0x53, I_store In_x At_absolute), (0x5E, I_load In_y (In_memory At_absolute)),
      (0x5F, I_store In_y At_absolute), (0x54, I_arith Op_adc (In_memory At_absolute)),
      (0x55, I_arith Op_sbc (In_memory At_absolute)),
      (0x56, I_arith Op_and (In_memory At_absolute)),
      (0x57, I_arith Op_ora (In_memory At_absolute)),
      (0x58, I_arith Op_eor (In_memory At_absolute)),
      (0x59, I_compare In_a (In_memory At_absolute)), (0x5A, I_modify Op_asl At_absolute),
      (0x5B, I_modify Op_lsr At_absolute), (0x5C, I_modify Op_rol At_absolute),
      (0x5D, I_modify Op_ror At_absolute), (0x60, I_modify_register Op_inc In_x),
      (0x61, I_modify_register Op_dec In_x), (0x66, I_modify_register Op_inc In_y),
      (0x67, I_modify_register Op_dec In_y), (0x62, I_modify Op_inc At_zero_page),
      (0x63, I_modify Op_dec At_zero_page), (0x64, I_modify Op_inc At_absolute),
      (0x65, I_modify Op_dec At_absolute), (0x70, I_branch Zero True),
      (0x71, I_branch Zero False), (0x72, I_branch Carry True), (0x73, I_branch Carry False),
      (0x74, I_branch Negative True), (0x75, I_branch Negative False),
      (0x76, I_branch Overflow True), (0x77, I_branch Overflow False),
      (0x80, I_load In_a (In_memory At_zero_page_x)), (0x81, I_store In_a At_zero_page_x),
      (0x82, I_load In_y (In_memory At_zero_page_x)), (0x83, I_store In_y At_zero_page_x),
      (0x84, I_arith Op_adc (In_memory At_zero_page_x)),
      (0x85, I_arith Op_sbc (In_memory At_zero_page_x)),
      (0x86, I_arith Op_and (In_memory At_zero_page_x)),
      (0x87, I_arith Op_ora (In_memory At_zero_page_x)),
      (0x88, I_arith Op_eor (In_memory At_zero_page_x)),
      (0x89, I_compare In_a (In_memory At_zero_page_x)), (0x8A, I_modify Op_asl At_zero_page_x),
      (0x8B, I_modify Op_lsr At_zero_page_x), (0x8C, I_modify Op_rol At_zero_page_x),
      (0x8D, I_modify Op_ror At_zero_page_x), (0x8E, I_modify Op_inc At_zero_page_x),
      (0x8F, I_modify Op_dec At_zero_page_x), (0x90, I_load In_x (In_memory At_zero_page_y)),
      (0x91, I_store In_x At_zero_page_y), (0xA0, I_load In_a (In_memory At_absolute_x)),
      (0xA1, I_store In_a At_absolute_x), (0xA2, I_load In_y (In_memory At_absolute_x)),
      (0xA3, I_store In_y At_absolute_x), (0xA4, I_arith Op_adc (In_memory At_absolute_x)),
      (0xA5, I_arith Op_sbc (In_memory At_absolute_x)),
      (0xA6, I_arith Op_and (In_memory At_absolute_x)),
      (0xA7, I_arith Op_ora (In_memory At_absolute_x)),
      (0xA8, I_arith Op_eor (In_memory At_absolute_x)),
      (0xA9, I_compare In_a (In_memory At_absolute_x)), (0xAA, I_modify Op_asl At_absolute_x),
      (0xAB, I_modify Op_lsr At_absolute_x), (0xAC, I_modify Op_rol At_absolute_x),
      (0xAD, I_modify Op_ror At_absolute_x), (0xAE, I_modify Op_inc At_absolute_x),
      (0xAF, I_modify Op_dec At_absolute_x), (0xB0, I_load In_a (In_memory At_absolute_y)),
      (0xB1, I_store In_a At_absolute_y), (0xB2, I_load In_x (In_memory At_absolute_y)),
      (0xB3, I_store In_x At_absolute_y), (0xB4, I_arith Op_adc (In_memory At_absolute_y)),
      (0xB5, I_arith Op_sbc (In_memory At_absolute_y)),
      (0xB6, I_arith Op_and (In_memory At_absolute_y)),
      (0xB7, I_arith Op_ora (In_memory At_absolute_y)),
      (0xB8, I_arith Op_eor (In_memory At_absolute_y)),
      (0xB9, I_compare In_a (In_memory At_absolute_y)), (0xC0, I_pha), (0xC1, I_pla),
      (0xC2, I_php), (0xC3, I_plp), (0xC4, I_tsx), (0xC5, I_txs), (0xC6, I_jsr), (0xC7, I_rts),
      (0xC8, I_clc), (0xC9, I_sec), (0xCA, I_clv), (0xCB, I_compare In_x Immediate),
      (0xCC, I_compare In_x (In_memory At_zero_page)),
      (0xCD, I_compare In_x (In_memory At_absolute)), (0xCE, I_compare In_y Immediate),
      (0xCF, I_compare In_y (In_memory At_zero_page)),
      (0xD0, I_compare In_y (In_memory At_absolute)), (0xD1, I_bit At_zero_page),
      (0xD2, I_bit At_absolute), (0xD3, I_jmp), (0xD4, I_jmp_indirect),
      (0xD5, I_load In_a (In_memory At_indexed_indirect)),
      (0xD6, I_store In_a At_indexed_indirect),
      (0xD7, I_arith Op_adc (In_memory At_indexed_indirect)),
      (0xD8, I_arith Op_sbc (In_memory At_indexed_indirect)),
      (0xD9, I_arith Op_and (In_memory At_indexed_indirect)),
      (0xDA, I_arith Op_ora (In_memory At_indexed_indirect)),
      (0xDB, I_arith Op_eor (In_memory At_indexed_indirect)),
      (0xDC, I_compare In_a (In_memory At_indexed_indirect)),
      (0xDD, I_load In_a (In_memory At_indirect_indexed)),
      (0xDE, I_store In_a At_indirect_indexed),
      (0xDF, I_arith Op_adc (In_memory At_indirect_indexed)),
      (0xE0, I_arith Op_sbc (In_memory At_indirect_indexed)),
      (0xE1, I_arith Op_and (In_memory At_indirect_indexed)),
      (0xE2, I_arith Op_ora (In_memory At_indirect_indexed)),
      (0xE3, I_arith Op_eor (In_memory At_indirect_indexed)),
      (0xE4, I_compare In_a (In_memory At_indirect_indexed)), (0xE5, I_brk), (0x00, I_irq),
      (0xE6, I_rti), (0xFF, I_crs)]"


section \<open>The compiler's input\<close>

definition micro_steps :: "micro list \<Rightarrow> step list" where
  "micro_steps ms = map (\<lambda>m. \<lparr>stage = 0, controls = micro_controls m\<rparr>) ms"

definition instr_variants :: "instr \<Rightarrow> variant list" where
  "instr_variants i =
     (case instr_condition i of
        None \<Rightarrow> [\<lparr>status_conditions = [], steps = micro_steps (instr_micro i True)\<rparr>]
      | Some (f, first) \<Rightarrow>
          map (\<lambda>b. \<lparr>status_conditions = [(flag_name f, b)], steps = micro_steps (instr_micro i b)\<rparr>)
            [first, \<not> first])"

definition fetch_micro :: "step list" where
  "fetch_micro =
     map (\<lambda>ks. \<lparr>stage = 0, controls = ks\<rparr>)
       [[Ctl Pc Write, Ctl Mar Read, Ctl Controller Instruction_start],
        [Ctl Memory Write, Ctl Ir Read], [Ctl Pc Increment]]"

definition isa_source :: "isa_table \<Rightarrow> instruction_set" where
  "isa_source tab =
     \<lparr>fetch_preamble = fetch_micro,
      instructions = map (\<lambda>(op, i). \<lparr>opcode = op, variants = instr_variants i\<rparr>) tab\<rparr>"

end
