(* ===== verification/Isa_Steps.thy ===== *)
theory Isa_Steps
  imports Isa_Microcode Sim_Fetch
begin

text \<open>
  What each microcode step does to the registers and the memory, computed from the tick of the
  processor over the step's controls.
\<close>

section \<open>Registers and memory\<close>

record core =
  c_byte :: "comp \<Rightarrow> u8"
  c_word :: "comp \<Rightarrow> u16"
  c_mem :: memory
  c_halted :: bool
  c_crashed :: bool

definition core_of :: "cpu \<Rightarrow> core" where
  "core_of s = \<lparr>c_byte = byte_regs s, c_word = word_regs s, c_mem = mem s,
                c_halted = halted s, c_crashed = crashed s\<rparr>"

definition put_core :: "core \<Rightarrow> cpu \<Rightarrow> cpu" where
  "put_core c s = s\<lparr>byte_regs := c_byte c, word_regs := c_word c, mem := c_mem c,
                    halted := c_halted c, crashed := c_crashed c\<rparr>"

definition c_set :: "comp \<Rightarrow> u8 \<Rightarrow> core \<Rightarrow> core" where
  "c_set r v c = c\<lparr>c_byte := (c_byte c)(r := v)\<rparr>"

definition c_wset :: "comp \<Rightarrow> u16 \<Rightarrow> core \<Rightarrow> core" where
  "c_wset r v c = c\<lparr>c_word := (c_word c)(r := v)\<rparr>"

definition c_wlow :: "comp \<Rightarrow> u8 \<Rightarrow> core \<Rightarrow> core" where
  "c_wlow r v c = c_wset r (word_of_bytes (word_high (c_word c r)) v) c"

definition c_whigh :: "comp \<Rightarrow> u8 \<Rightarrow> core \<Rightarrow> core" where
  "c_whigh r v c = c_wset r (word_of_bytes v (word_low (c_word c r))) c"

text \<open>The analyzer latches the byte it tests.\<close>

definition c_test :: "u8 \<Rightarrow> core \<Rightarrow> core" where
  "c_test v c = c_set Status (analyze v (c_byte c Status)) (c_set Analyzer v c)"

definition c_pc_step :: "core \<Rightarrow> core" where
  "c_pc_step c = c_wset Pc (c_word c Pc + 1) c"

definition c_fetch :: "core \<Rightarrow> (u8 \<Rightarrow> core \<Rightarrow> core) \<Rightarrow> sim_error + core" where
  "c_fetch c f = bind_ok (read_at (c_word c Mar) (c_mem c)) (\<lambda>(v, m). Inr (f v (c\<lparr>c_mem := m\<rparr>)))"

definition c_store :: "u8 \<Rightarrow> core \<Rightarrow> sim_error + core" where
  "c_store v c = bind_ok (write_at (c_word c Mar) v (c_mem c)) (\<lambda>m. Inr (c\<lparr>c_mem := m\<rparr>))"

definition c_push :: "u8 \<Rightarrow> core \<Rightarrow> sim_error + core" where
  "c_push v c = bind_ok (c_store v c) (\<lambda>c. Inr (c_set Reg_sp (c_byte c Reg_sp - 1) c))"

primrec alu_fn_code :: "alu_fn \<Rightarrow> u8" where
  "alu_fn_code F_add = 1"
| "alu_fn_code F_sub = 2"
| "alu_fn_code F_inc = 3"
| "alu_fn_code F_and = 4"
| "alu_fn_code F_or = 5"
| "alu_fn_code F_xor = 6"
| "alu_fn_code F_asl = 7"
| "alu_fn_code F_lsr = 8"
| "alu_fn_code F_rol = 9"
| "alu_fn_code F_ror = 0xA"
| "alu_fn_code F_dec = 0xB"
| "alu_fn_code F_bit = 0xC"

primrec micro_effect :: "micro \<Rightarrow> core \<Rightarrow> sim_error + core" where
  "micro_effect Pc_to_mar c = Inr (c_wset Mar (c_word c Pc) c)"
| "micro_effect Mar_to_pc c = Inr (c_wset Pc (c_word c Mar) c)"
| "micro_effect Mar_to_tmp c = Inr (c_wset Reg_tmp (c_word c Mar) c)"
| "micro_effect Tmp_to_pc c = Inr (c_wset Pc (c_word c Reg_tmp) c)"
| "micro_effect (Operand_to i) c = c_fetch c (\<lambda>v c. c_pc_step (c_test v (c_set (index_comp i) v c)))"
| "micro_effect Operand_to_rhs c = c_fetch c (\<lambda>v c. c_pc_step (c_set Alu_rhs v c))"
| "micro_effect Operand_low c = c_fetch c (\<lambda>v c. c_pc_step (c_wlow Mar v c))"
| "micro_effect Operand_low_saved c =
     c_fetch c (\<lambda>v c. c_pc_step (c_wlow Mar v (c_set Alu_result v c)))"
| "micro_effect Operand_high c = c_fetch c (\<lambda>v c. c_pc_step (c_whigh Mar v c))"
| "micro_effect Operand_skipped c = c_fetch c (\<lambda>v. c_pc_step)"
| "micro_effect Operand_branch c = c_fetch c (\<lambda>v c.
     c_wset Pc (add_signed_offset v (c_word c Pc + 1)) (c_set Pc_signed_offset v c))"
| "micro_effect (Mem_to i) c = c_fetch c (\<lambda>v c. c_test v (c_set (index_comp i) v c))"
| "micro_effect Mem_to_rhs c = c_fetch c (c_set Alu_rhs)"
| "micro_effect Mem_to_lhs c = c_fetch c (c_set Alu_lhs)"
| "micro_effect Mem_to_result c = c_fetch c (c_set Alu_result)"
| "micro_effect Mem_to_mar_high c = c_fetch c (c_whigh Mar)"
| "micro_effect Mem_to_status c = c_fetch c (c_set Status)"
| "micro_effect (Mem_to_pc high) c = c_fetch c (if high then c_whigh Pc else c_wlow Pc)"
| "micro_effect (Index_to_mem i) c = c_store (c_byte c (index_comp i)) c"
| "micro_effect (Index_to_lhs i) c = Inr (c_set Alu_lhs (c_byte c (index_comp i)) c)"
| "micro_effect (Index_to_offset i) c = Inr (c_set Mar_offset (c_byte c (index_comp i)) c)"
| "micro_effect (Index_to i j) c =
     Inr (c_test (c_byte c (index_comp i)) (c_set (index_comp j) (c_byte c (index_comp i)) c))"
| "micro_effect (Compute f) c =
     (let (res, st) = alu_exec (alu_fn_code f) (c_byte c Alu_lhs) (c_byte c Alu_rhs)
                        (c_byte c Alu_result, c_byte c Status)
      in Inr (c_set Status st (c_set Alu_result res c)))"
| "micro_effect (Result_to i) c =
     Inr (c_test (c_byte c Alu_result) (c_set (index_comp i) (c_byte c Alu_result) c))"
| "micro_effect Result_to_mem c =
     bind_ok (c_store (c_byte c Alu_result) c) (\<lambda>c. Inr (c_test (c_byte c Alu_result) c))"
| "micro_effect Result_tested c = Inr (c_test (c_byte c Alu_result) c)"
| "micro_effect Result_to_mar_low c = Inr (c_wlow Mar (c_byte c Alu_result) c)"
| "micro_effect Mar_high_reset c = Inr (c_whigh Mar 0 c)"
| "micro_effect Mar_add_offset c = Inr (c_wset Mar (mar_add_offset (c_byte c Mar_offset) (c_word c Mar)) c)"
| "micro_effect Mar_increment c = Inr (c_wset Mar (c_word c Mar + 1) c)"
| "micro_effect Mar_vector c = Inr (c_wset Mar 0xFFFE c)"
| "micro_effect Stack_to_mar c = Inr (c_wset Mar (word_of_bytes 1 (c_byte c Reg_sp)) c)"
| "micro_effect Sp_increment c = Inr (c_set Reg_sp (c_byte c Reg_sp + 1) c)"
| "micro_effect Sp_to_x c = Inr (c_test (c_byte c Reg_sp) (c_set Reg_x (c_byte c Reg_sp) c))"
| "micro_effect X_to_sp c = Inr (c_set Reg_sp (c_byte c Reg_x) c)"
| "micro_effect Push_a c = c_push (c_byte c Reg_a) c"
| "micro_effect Push_status c = c_push (c_byte c Status) c"
| "micro_effect (Push_pc high) c = c_push (if high then word_high (c_word c Pc) else word_low (c_word c Pc)) c"
| "micro_effect (Flag_to f b) c = Inr (c_set Status (status_set f b (c_byte c Status)) c)"
| "micro_effect Empty_step c = Inr c"
| "micro_effect Halt_step c = Inr (c\<lparr>c_halted := True\<rparr>)"
| "micro_effect Crash_step c = Inr (c\<lparr>c_halted := True, c_crashed := True\<rparr>)"

section \<open>The tick of a step\<close>

text \<open>The controls of a compiled step: those of the source and the one for the step counter.\<close>

definition sequenced :: "bool \<Rightarrow> ctl list \<Rightarrow> ctl list" where
  "sequenced final ks =
     filter (\<lambda>k. k = Ctl Sc (if final then Reset else Increment) \<or> k \<in> set ks) hdl_controls"

definition step_on :: "bool \<Rightarrow> core \<Rightarrow> core" where
  "step_on final c = c_set Sc (if final then 0 else c_byte c Sc + 1) c"

definition performs :: "ctl list \<Rightarrow> (core \<Rightarrow> sim_error + core) \<Rightarrow> bool" where
  "performs ks f \<longleftrightarrow>
     (\<forall>final s. idle s \<and> \<not> halted s \<longrightarrow>
        step_effect (sequenced final ks) s =
          bind_ok (f (core_of s)) (\<lambda>c. Inr (settle (irq_up s) (put_core (step_on final c) s))))"

lemma sc_controls: "Ctl Sc Increment \<in> set hdl_controls" "Ctl Sc Reset \<in> set hdl_controls"
proof -
  have "list_all (\<lambda>k. k \<in> set hdl_controls) [Ctl Sc Increment, Ctl Sc Reset]" by code_simp
  then show "Ctl Sc Increment \<in> set hdl_controls" "Ctl Sc Reset \<in> set hdl_controls"
    by simp_all
qed

lemma sequenced_set:
  assumes "step_controls_ok ks"
  shows "set (sequenced final ks) = insert (Ctl Sc (if final then Reset else Increment)) (set ks)"
  using assms sc_controls by (auto simp: sequenced_def step_controls_ok_def list_all_iff)

lemma sequenced_ok: "step_controls_ok ks \<Longrightarrow> step_controls_ok (sequenced final ks)"
  unfolding step_controls_ok_def [of "sequenced final ks"] list_all_iff
  by (auto simp: sequenced_set sc_controls) (auto simp: step_controls_ok_def list_all_iff)

lemma performsI:
  assumes "step_controls_ok ks"
    and "\<And>final s. idle s \<Longrightarrow> \<not> halted s \<Longrightarrow>
      bind_ok (step_phases (step_sig (irq_up s) (Ctl Sc (if final then Reset else Increment) # ks)) s)
        (\<lambda>t. Inr (settle (irq_up s) t)) =
      bind_ok (f (core_of s)) (\<lambda>c. Inr (settle (irq_up s) (put_core (step_on final c) s)))"
  shows "performs ks f"
  unfolding performs_def
proof (intro allI impI, elim conjE)
  fix final s assume s: "idle s" "\<not> halted s"
  have "step_sig b (sequenced final ks) = step_sig b (Ctl Sc (if final then Reset else Increment) # ks)" for b
    using sequenced_set [OF assms(1)] by (auto simp: step_sig_def)
  with assms(2) [OF s] show "step_effect (sequenced final ks) s =
      bind_ok (f (core_of s)) (\<lambda>c. Inr (settle (irq_up s) (put_core (step_on final c) s)))"
    by (intro step_settles [OF sequenced_ok [OF assms(1)] s(1)]) simp
qed

lemmas core_simps =
  core_of_def put_core_def c_set_def c_wset_def c_wlow_def c_whigh_def c_test_def c_pc_step_def
  c_fetch_def c_store_def c_push_def step_on_def

text \<open>Every control of a step is a control of the schematic.\<close>

lemma micro_controls_hdl:
  "list_all (\<lambda>k. k \<in> set hdl_controls)
     (concat (map (\<lambda>c. [Ctl c Read, Ctl c Write])
       [Pc, Mar, Reg_tmp, Reg_a, Reg_x, Reg_y, Reg_sp, Alu_lhs, Alu_rhs, Alu_result, Mar_low,
        Mar_high, Mar_offset, Pc_low, Pc_high, Pc_signed_offset, Status, Memory, Analyzer]) @
      concat (map (\<lambda>f. [Ctl (Flag f) Set_flag, Ctl (Flag f) Clear_flag]) all_flags) @
      [Ctl Pc Increment, Ctl Pc Add_signed_offset, Ctl Mar Increment, Ctl Mar Add_offset,
       Ctl Mar Stack_page, Ctl Mar Interrupt_vector, Ctl Mar_high Reset, Ctl Reg_sp Increment,
       Ctl Reg_sp Decrement, Ctl Cpu_root Halt, Ctl Cpu_root Crash, Ctl Alu Opcode_bit_0,
       Ctl Alu Opcode_bit_1, Ctl Alu Opcode_bit_2, Ctl Alu Opcode_bit_3])"
  by code_simp

lemma index_controls_hdl:
  "Ctl (index_comp i) Read \<in> set hdl_controls" "Ctl (index_comp i) Write \<in> set hdl_controls"
  using micro_controls_hdl by (cases i; simp)+

lemma flag_controls_hdl:
  "Ctl (Flag f) Set_flag \<in> set hdl_controls" "Ctl (Flag f) Clear_flag \<in> set hdl_controls"
  using micro_controls_hdl set_all_flags by (auto simp: list_all_iff)

lemma micro_controls_ok [simp]: "step_controls_ok (micro_controls m)"
proof (cases m)
  case (Compute f)
  then show ?thesis using micro_controls_hdl by (cases f) (simp_all add: step_controls_ok_def)
qed (use micro_controls_hdl in
      \<open>simp_all add: step_controls_ok_def flag_controls_hdl index_controls_hdl\<close>)

text \<open>Only components take part in a phase, in the order of the processor's children.\<close>

definition comp_order :: "comp list" where
  "comp_order = concat (map (\<lambda>n. case n of Control_node k \<Rightarrow> [] | Comp_node c \<Rightarrow> [c]) sim_children)"

lemma comp_order_eq:
  "comp_order =
     [Data_bus, Address_bus, Reg_a, Reg_x, Reg_y, Reg_sp, Reg_tmp, Alu, Alu_lhs,
      Alu_rhs, Alu_result, Pc, Pc_low, Pc_high, Pc_signed_offset, Status,
      Flag Negative, Flag Overflow, Flag Unused, Flag Brk, Flag Decimal,
      Flag Interrupt_disable, Flag Zero, Flag Carry, Analyzer, Controller, Ir,
      Sc, Ipc, Memory, Mar, Mar_low, Mar_high, Mar_offset]"
  by code_simp

lemma filter_comps:
  assumes "\<And>k. \<not> P (Control_node k)"
  shows "filter P sim_children = map Comp_node (filter (\<lambda>c. P (Comp_node c)) comp_order)"
proof -
  have "filter P ns = map Comp_node (filter (\<lambda>c. P (Comp_node c))
      (concat (map (\<lambda>n. case n of Control_node k \<Rightarrow> [] | Comp_node c \<Rightarrow> [c]) ns)))" for ns
    using assms by (induction ns) (auto split: node.splits)
  then show ?thesis by (simp add: comp_order_def)
qed

lemma active_comps:
  "filter (active_write cs) sim_children = map Comp_node (filter (\<lambda>c. cs (Ctl c Write)) comp_order)"
  "filter (active_read cs) sim_children = map Comp_node (filter (\<lambda>c. cs (Ctl c Read)) comp_order)"
  "filter (active_process cs) sim_children =
     map Comp_node (filter (\<lambda>c. list_ex cs (process_controls c)) comp_order)"
  by (simp_all add: filter_comps)

lemmas step_simps =
  step_phases_def Let_def active_comps comp_order_eq step_sig_apply process_controls_def
  child_simps when_asserted_ok asserted_ok address_write_def address_read_def data_write_def
  data_read_def process_defs cpu_process_def
  idle_sels core_simps settle_simps memory_read_value_def port_value_def

lemmas performs_microI = performsI [OF micro_controls_ok]

lemma performs_transfer:
  "performs (micro_controls Pc_to_mar) (micro_effect Pc_to_mar)"
  "performs (micro_controls Mar_to_pc) (micro_effect Mar_to_pc)"
  "performs (micro_controls Mar_to_tmp) (micro_effect Mar_to_tmp)"
  "performs (micro_controls Tmp_to_pc) (micro_effect Tmp_to_pc)"
  "performs (micro_controls Result_tested) (micro_effect Result_tested)"
  "performs (micro_controls Result_to_mar_low) (micro_effect Result_to_mar_low)"
  "performs (micro_controls Mar_high_reset) (micro_effect Mar_high_reset)"
  "performs (micro_controls Mar_add_offset) (micro_effect Mar_add_offset)"
  "performs (micro_controls Mar_increment) (micro_effect Mar_increment)"
  "performs (micro_controls Mar_vector) (micro_effect Mar_vector)"
  "performs (micro_controls Stack_to_mar) (micro_effect Stack_to_mar)"
  "performs (micro_controls Sp_increment) (micro_effect Sp_increment)"
  "performs (micro_controls Sp_to_x) (micro_effect Sp_to_x)"
  "performs (micro_controls X_to_sp) (micro_effect X_to_sp)"
  "performs (micro_controls Empty_step) (micro_effect Empty_step)"
  "performs (micro_controls Halt_step) (micro_effect Halt_step)"
  "performs (micro_controls Crash_step) (micro_effect Crash_step)"
  by ((rule performs_microI, auto simp: step_simps)[1])+

lemma performs_index:
  "performs (micro_controls (Index_to_lhs i)) (micro_effect (Index_to_lhs i))"
  "performs (micro_controls (Index_to_offset i)) (micro_effect (Index_to_offset i))"
  "performs (micro_controls (Result_to i)) (micro_effect (Result_to i))"
  by ((cases i; rule performs_microI, auto simp: step_simps)[1])+

lemma performs_copy: "performs (micro_controls (Index_to i j)) (micro_effect (Index_to i j))"
  by (cases i; cases j; rule performs_microI, auto simp: step_simps)

lemma performs_compute: "performs (micro_controls (Compute f)) (micro_effect (Compute f))"
  by (cases f; rule performs_microI, auto simp: step_simps alu_opcode_def split: prod.splits)

lemma performs_flag: "performs (micro_controls (Flag_to f b)) (micro_effect (Flag_to f b))"
  by (cases f; cases b; rule performs_microI, auto simp: step_simps status_tick_process_def)

lemma performs_fetch:
  "performs (micro_controls Operand_to_rhs) (micro_effect Operand_to_rhs)"
  "performs (micro_controls Operand_low) (micro_effect Operand_low)"
  "performs (micro_controls Operand_low_saved) (micro_effect Operand_low_saved)"
  "performs (micro_controls Operand_high) (micro_effect Operand_high)"
  "performs (micro_controls Operand_skipped) (micro_effect Operand_skipped)"
  "performs (micro_controls Operand_branch) (micro_effect Operand_branch)"
  "performs (micro_controls Mem_to_rhs) (micro_effect Mem_to_rhs)"
  "performs (micro_controls Mem_to_lhs) (micro_effect Mem_to_lhs)"
  "performs (micro_controls Mem_to_result) (micro_effect Mem_to_result)"
  "performs (micro_controls Mem_to_mar_high) (micro_effect Mem_to_mar_high)"
  "performs (micro_controls Mem_to_status) (micro_effect Mem_to_status)"
  by ((rule performs_microI, auto simp: step_simps bind_ok_def split: sum.splits)[1])+

lemma performs_fetch_index:
  "performs (micro_controls (Operand_to i)) (micro_effect (Operand_to i))"
  "performs (micro_controls (Mem_to i)) (micro_effect (Mem_to i))"
  by ((cases i; rule performs_microI, auto simp: step_simps bind_ok_def split: sum.splits)[1])+

lemma performs_pc: "performs (micro_controls (Mem_to_pc h)) (micro_effect (Mem_to_pc h))"
  by (cases h; rule performs_microI, auto simp: step_simps bind_ok_def split: sum.splits)

lemma performs_store:
  "performs (micro_controls Result_to_mem) (micro_effect Result_to_mem)"
  "performs (micro_controls Push_a) (micro_effect Push_a)"
  "performs (micro_controls Push_status) (micro_effect Push_status)"
  by ((rule performs_microI, auto simp: step_simps bind_ok_def split: sum.splits)[1])+

lemma performs_store_index:
  "performs (micro_controls (Index_to_mem i)) (micro_effect (Index_to_mem i))"
  by (cases i; rule performs_microI, auto simp: step_simps bind_ok_def split: sum.splits)

lemma performs_push: "performs (micro_controls (Push_pc h)) (micro_effect (Push_pc h))"
  by (cases h; rule performs_microI, auto simp: step_simps bind_ok_def split: sum.splits)

lemma micro_performs: "performs (micro_controls m) (micro_effect m)"
  by (cases m) (simp_all only: performs_transfer performs_index performs_copy performs_compute
    performs_flag performs_fetch performs_fetch_index performs_pc performs_store
    performs_store_index performs_push)

end
