(* ===== verification/Isa_Execution.thy ===== *)
theory Isa_Execution
  imports Isa_Steps Sim_Run
begin

text \<open>
  The microprograms against the programmer's model: the steps of an addressing mode leave its
  effective address in the memory address register, the steps of an operation have the
  operation's effect, and a whole microprogram is the instruction.
\<close>

section \<open>Microprograms\<close>

primrec run_micro :: "micro list \<Rightarrow> core \<Rightarrow> sim_error + core" where
  "run_micro [] c = Inr c"
| "run_micro (m # ms) c = bind_ok (micro_effect m c) (run_micro ms)"

lemma bind_ok_prod: "bind_ok (case x of (a, b) \<Rightarrow> f a b) g = (case x of (a, b) \<Rightarrow> bind_ok (f a b) g)"
  by (cases x) simp

lemma bind_ok_id: "bind_ok r Inr = r"
  by (cases r) simp_all

lemma run_micro_append: "run_micro (ms @ ns) c = bind_ok (run_micro ms c) (run_micro ns)"
proof (induction ms arbitrary: c)
  case (Cons m ms)
  then have "run_micro (ms @ ns) = (\<lambda>c. bind_ok (run_micro ms c) (run_micro ns))" by blast
  then show ?case by (simp add: bind_ok_assoc)
qed simp

text \<open>The programmer's view of the registers.\<close>

definition isa_of :: "bool \<Rightarrow> core \<Rightarrow> isa" where
  "isa_of b c =
     \<lparr>isa_a = c_byte c Reg_a, isa_x = c_byte c Reg_x, isa_y = c_byte c Reg_y,
      isa_sp = c_byte c Reg_sp, isa_st = c_byte c Status, isa_pc = c_word c Pc,
      isa_mem = c_mem c, isa_line = b, isa_halted = c_halted c, isa_crashed = c_crashed c\<rparr>"

definition does :: "micro list \<Rightarrow> (isa \<Rightarrow> sim_error + isa) \<Rightarrow> bool" where
  "does ms g \<longleftrightarrow> (\<forall>b c. bind_ok (run_micro ms c) (\<lambda>c'. Inr (isa_of b c')) = g (isa_of b c))"

definition locates :: "micro list \<Rightarrow> (isa \<Rightarrow> sim_error + (u16 \<times> isa)) \<Rightarrow> bool" where
  "locates ms g \<longleftrightarrow>
     (\<forall>b c. bind_ok (run_micro ms c) (\<lambda>c'. Inr (c_word c' Mar, isa_of b c')) = g (isa_of b c))"

definition acts :: "micro list \<Rightarrow> (u16 \<Rightarrow> isa \<Rightarrow> sim_error + isa) \<Rightarrow> bool" where
  "acts ms h \<longleftrightarrow>
     (\<forall>b c. bind_ok (run_micro ms c) (\<lambda>c'. Inr (isa_of b c')) = h (c_word c Mar) (isa_of b c))"

lemma locates_acts:
  assumes "locates ms g" and "acts ns h"
  shows "does (ms @ ns) (\<lambda>u. bind_ok (g u) (\<lambda>(a, u). h a u))"
  unfolding does_def
proof (intro allI)
  fix b c
  have "bind_ok (run_micro (ms @ ns) c) (\<lambda>c'. Inr (isa_of b c')) =
      bind_ok (run_micro ms c) (\<lambda>c'. h (c_word c' Mar) (isa_of b c'))"
    using assms(2) by (simp add: run_micro_append bind_ok_assoc acts_def)
  also have "\<dots> = bind_ok (bind_ok (run_micro ms c) (\<lambda>c'. Inr (c_word c' Mar, isa_of b c')))
      (\<lambda>(a, u). h a u)"
    by (simp add: bind_ok_assoc)
  also have "\<dots> = bind_ok (g (isa_of b c)) (\<lambda>(a, u). h a u)"
    using assms(1) by (simp add: locates_def)
  finally show "bind_ok (run_micro (ms @ ns) c) (\<lambda>c'. Inr (isa_of b c')) =
      bind_ok (g (isa_of b c)) (\<lambda>(a, u). h a u)" .
qed

lemma does_append:
  assumes "does ms g" and "does ns h"
  shows "does (ms @ ns) (\<lambda>u. bind_ok (g u) h)"
  unfolding does_def
proof (intro allI)
  fix b c
  have "bind_ok (run_micro (ms @ ns) c) (\<lambda>c'. Inr (isa_of b c')) =
      bind_ok (bind_ok (run_micro ms c) (\<lambda>c'. Inr (isa_of b c'))) h"
    using assms(2) by (simp add: run_micro_append bind_ok_assoc does_def)
  also have "\<dots> = bind_ok (g (isa_of b c)) h"
    using assms(1) by (simp add: does_def)
  finally show "bind_ok (run_micro (ms @ ns) c) (\<lambda>c'. Inr (isa_of b c')) = bind_ok (g (isa_of b c)) h" .
qed

section \<open>Addresses\<close>

lemma word_low_add: "word_low (w + ucast off) = word_low w + off"
  by (simp add: word_unat_eq_iff unat_word_low unat_word_ariths mod_add_left_eq mod_mod_cancel)

lemma word_low_Suc: "word_low (w + 1) = word_low w + 1"
  using word_low_add [of w 1] by simp

lemma add_signed_offset_int: "add_signed_offset off pc = pc + of_int (sint off)"
proof -
  have "uint (of_int (sint off) :: u16) = sint off mod 65536"
    by (simp only: unsigned_of_int take_bit_eq_mod) simp
  then have "uint (pc + of_int (sint off)) = (uint pc + sint off) mod 65536"
    by (simp only: uint_word_ariths) (simp add: mod_add_right_eq)
  then show ?thesis
    using add_signed_offset_eq [of off pc] by (simp add: word_uint_eq_iff)
qed

lemmas isa_simps =
  isa_of_def isa_read_def isa_write_def isa_next_def isa_next_word_def isa_read_word_def
  isa_push_def isa_pull_def isa_push_pc_def isa_pull_pc_def isa_flag_def isa_tested_def
  isa_load_def analyze_def and_0x80_bit zero_page_def

lemmas run_simps =
  c_set_def c_wset_def c_wlow_def c_whigh_def c_test_def c_pc_step_def c_fetch_def c_store_def
  c_push_def bind_ok_assoc bind_ok_prod

lemma address_locates: "locates (address_micro m) (isa_address m)"
  by (cases m) (simp_all add: locates_def absolute_micro_def isa_simps run_simps
    mar_add_offset_eq word_low_add word_low_Suc)

lemma index_effects:
  "isa_get i (isa_of b c) = c_byte c (index_comp i)"
  by (cases i) (simp_all add: isa_of_def)

lemma load_acts: "acts [Mem_to i] (\<lambda>a u. bind_ok (isa_read a u) (\<lambda>(v, u). Inr (isa_load i v u)))"
  by (cases i) (simp_all add: acts_def isa_simps run_simps)

lemma store_acts: "acts [Index_to_mem i] (\<lambda>a u. isa_write a (isa_get i u) u)"
  by (cases i) (simp_all add: acts_def isa_simps run_simps)


lemma operand_index: "does (load_micro i opnd) (\<lambda>u. bind_ok (isa_operand opnd u) (\<lambda>(v, u). Inr (isa_load i v u)))"
proof (cases opnd)
  case Immediate
  then show ?thesis by (cases i) (simp_all add: does_def isa_simps run_simps)
next
  case (In_memory m)
  then show ?thesis using locates_acts [OF address_locates load_acts, of m i]
    by (simp add: bind_ok_assoc bind_ok_prod)
qed

section \<open>Arithmetic\<close>

lemma alu_arith: "alu_exec (alu_fn_code (arith_fn f)) a v (x, st) = isa_arith f a v st"
proof (cases f)
  case Op_adc
  have "alu_exec 1 a v (x, st) = isa_arith Op_adc a v st"
  proof (rule prod_eqI)
    show "fst (alu_exec 1 a v (x, st)) = fst (isa_arith Op_adc a v st)"
      using alu_add_result [of a v x st] by (simp add: Let_def word_unat_eq_iff unat_of_nat del: of_nat_add)
    show "snd (alu_exec 1 a v (x, st)) = snd (isa_arith Op_adc a v st)"
      using alu_add_carry [of a v x st] alu_add_overflow [of a v x st]
      by (intro status_eqI) (simp add: Let_def alu_add_eq split: if_splits)
  qed
  with Op_adc show ?thesis by simp
next
  case Op_sbc
  have "alu_exec 2 a v (x, st) = isa_arith Op_sbc a v st"
  proof (rule prod_eqI)
    show "fst (alu_exec 2 a v (x, st)) = fst (isa_arith Op_sbc a v st)"
      using alu_sub_result [of a v x st]
      by (simp add: Let_def word_uint_eq_iff uint_word_ariths carry_nat_def mod_diff_left_eq split: if_splits)
    show "snd (alu_exec 2 a v (x, st)) = snd (isa_arith Op_sbc a v st)"
      using alu_sub_carry [of a v x st] by (intro status_eqI) (simp add: Let_def alu_sub_eq)
  qed
  with Op_sbc show ?thesis by simp
qed (simp_all add: alu_and_eq alu_or_eq alu_xor_eq clear_cv_def)

lemma alu_modify: "alu_exec (alu_fn_code (modify_fn f)) v r (x, st) = isa_modify f v st"
  by (cases f) (auto simp: alu_asl_eq alu_lsr_eq alu_rol_eq alu_ror_eq alu_inc_eq alu_dec_eq
    clear_cv_def intro!: status_eqI)

lemma alu_compare:
  "alu_exec 2 a v (x, status_set Carry True st) = (a - v, status_set Carry (v \<le> a) st)"
proof -
  have "alu_exec 2 a v (x, status_set Carry True st) = isa_arith Op_sbc a v (status_set Carry True st)"
    using alu_arith [of Op_sbc] by simp
  also have "\<dots> = (a - v, status_set Carry (v \<le> a) st)"
    by (auto simp: carry_nat_def Let_def word_le_nat_alt intro!: status_eqI)
  finally show ?thesis .
qed

section \<open>Instructions\<close>

definition rhs_ready :: "micro list \<Rightarrow> (u8 \<Rightarrow> isa \<Rightarrow> sim_error + isa) \<Rightarrow> bool" where
  "rhs_ready ms h \<longleftrightarrow>
     (\<forall>b c. bind_ok (run_micro ms c) (\<lambda>c'. Inr (isa_of b c')) = h (c_byte c Alu_rhs) (isa_of b c))"

lemma rhs_does:
  assumes "rhs_ready ms h"
  shows "does (rhs_micro opnd @ ms) (\<lambda>u. bind_ok (isa_operand opnd u) (\<lambda>(v, u). h v u))"
proof (cases opnd)
  case Immediate
  have h: "bind_ok (run_micro ms c) (\<lambda>c'. Inr (isa_of b c')) = h (c_byte c Alu_rhs) (isa_of b c)" for b c
    using assms by (simp add: rhs_ready_def)
  show ?thesis by (simp add: Immediate does_def isa_simps run_simps h [unfolded isa_of_def])
next
  case (In_memory m)
  have h: "bind_ok (run_micro ms c) (\<lambda>c'. Inr (isa_of b c')) = h (c_byte c Alu_rhs) (isa_of b c)" for b c
    using assms by (simp add: rhs_ready_def)
  have "acts (Mem_to_rhs # ms) (\<lambda>a u. bind_ok (isa_read a u) (\<lambda>(v, u). h v u))"
    by (simp add: acts_def isa_simps run_simps h [unfolded isa_of_def])
  from locates_acts [OF address_locates [of m] this] show ?thesis
    by (simp add: In_memory bind_ok_assoc bind_ok_prod)
qed

lemma arith_rhs:
  "rhs_ready [Index_to_lhs In_a, Compute (arith_fn f), Result_to In_a]
     (\<lambda>v u. let (r, st) = isa_arith f (isa_a u) v (isa_st u) in Inr (isa_load In_a r (u\<lparr>isa_st := st\<rparr>)))"
  by (simp add: rhs_ready_def isa_simps run_simps alu_arith split: prod.splits)

lemma compare_rhs:
  "rhs_ready [Index_to_lhs i, Flag_to Carry True, Compute F_sub, Result_tested]
     (\<lambda>v u. Inr (isa_tested (isa_get i u - v) (isa_flag Carry (v \<le> isa_get i u) u)))"
  by (cases i) (simp_all add: rhs_ready_def isa_simps run_simps alu_compare split: prod.splits)

lemma bit_rhs:
  "rhs_ready [Index_to_lhs In_a, Compute F_bit, Result_tested]
     (\<lambda>v u. Inr (isa_tested (isa_a u AND v) u))"
  by (simp add: rhs_ready_def isa_simps run_simps alu_bit_eq split: prod.splits)

lemma modify_acts:
  "acts [Mem_to_lhs, Compute (modify_fn f), Result_to_mem]
     (\<lambda>a u. bind_ok (isa_read a u) (\<lambda>(v, u). let (r, st) = isa_modify f v (isa_st u) in
        bind_ok (isa_write a r u) (\<lambda>u. Inr (isa_tested r (u\<lparr>isa_st := st\<rparr>)))))"
  by (simp add: acts_def isa_simps run_simps alu_modify split: prod.splits)

lemma modify_register_does:
  "does [Index_to_lhs i, Compute (modify_fn f), Result_to i]
     (\<lambda>u. let (r, st) = isa_modify f (isa_get i u) (isa_st u) in Inr (isa_load i r (u\<lparr>isa_st := st\<rparr>)))"
  by (cases i) (simp_all add: does_def isa_simps run_simps alu_modify split: prod.splits)

text \<open>The variant of an instruction that the status selects.\<close>

definition instr_selects :: "instr \<Rightarrow> u8 \<Rightarrow> bool" where
  "instr_selects i st = (case instr_condition i of None \<Rightarrow> True | Some (f, _) \<Rightarrow> status_value f st)"

lemmas program_simps =
  isa_simps run_simps absolute_micro_def push_pc_micro_def pull_micro_def vector_micro_def

lemma jumps_do:
  "does (instr_micro I_jmp c) (isa_exec I_jmp)"
  "does (instr_micro I_jmp_indirect c) (isa_exec I_jmp_indirect)"
  "does (instr_micro I_jsr c) (isa_exec I_jsr)"
  "does (instr_micro I_rts c) (isa_exec I_rts)"
  by (simp_all add: does_def program_simps)

lemma interrupts_do:
  "does (instr_micro I_brk c) (isa_exec I_brk)"
  "does (instr_micro I_irq c) (isa_exec I_irq)"
  "does (instr_micro I_rti c) (isa_exec I_rti)"
  by (simp_all add: does_def program_simps isa_interrupt_def)

lemma stack_do:
  "does (instr_micro I_pha c) (isa_exec I_pha)" "does (instr_micro I_pla c) (isa_exec I_pla)"
  "does (instr_micro I_php c) (isa_exec I_php)" "does (instr_micro I_plp c) (isa_exec I_plp)"
  "does (instr_micro I_tsx c) (isa_exec I_tsx)" "does (instr_micro I_txs c) (isa_exec I_txs)"
  by (simp_all add: does_def program_simps)

lemma flags_do:
  "does (instr_micro I_clc c) (isa_exec I_clc)" "does (instr_micro I_sec c) (isa_exec I_sec)"
  "does (instr_micro I_clv c) (isa_exec I_clv)" "does (instr_micro I_nop c) (isa_exec I_nop)"
  "does (instr_micro I_hlt c) (isa_exec I_hlt)" "does (instr_micro I_crs c) (isa_exec I_crs)"
  by (simp_all add: does_def program_simps)

lemma transfer_does: "does (instr_micro (I_transfer i j) c) (isa_exec (I_transfer i j))"
  by (cases i; cases j) (simp_all add: does_def program_simps)

lemma operands_do:
  "does (instr_micro (I_load i opnd) c) (isa_exec (I_load i opnd))"
  "does (instr_micro (I_store i m) c) (isa_exec (I_store i m))"
  "does (instr_micro (I_arith f opnd) c) (isa_exec (I_arith f opnd))"
  "does (instr_micro (I_compare i opnd) c) (isa_exec (I_compare i opnd))"
  "does (instr_micro (I_bit m) c) (isa_exec (I_bit m))"
  "does (instr_micro (I_modify g m) c) (isa_exec (I_modify g m))"
  "does (instr_micro (I_modify_register g i) c) (isa_exec (I_modify_register g i))"
  using operand_index [of i opnd] locates_acts [OF address_locates store_acts, of m i]
    rhs_does [OF arith_rhs, of opnd f] rhs_does [OF compare_rhs, of opnd i]
    rhs_does [OF bit_rhs, of "In_memory m"] locates_acts [OF address_locates modify_acts, of m g]
    modify_register_does [of i g]
  by (simp_all add: does_def del: run_micro.simps rhs_micro.simps isa_operand.simps)

lemma instr_unconditional:
  assumes "instr_condition i = None"
  shows "does (instr_micro i c) (isa_exec i)"
  using assms by (cases i) (simp_all only: jumps_do interrupts_do stack_do flags_do transfer_does
    operands_do, simp_all add: instr_condition_def)

lemma instr_conditional:
  "bind_ok (run_micro (instr_micro (I_branch f b) (status_value f (c_byte c Status))) c)
     (\<lambda>c'. Inr (isa_of l c')) = isa_exec (I_branch f b) (isa_of l c)"
  "bind_ok (run_micro (instr_micro I_jeq (status_value Zero (c_byte c Status))) c)
     (\<lambda>c'. Inr (isa_of l c')) = isa_exec I_jeq (isa_of l c)"
  by (simp_all add: program_simps add_signed_offset_int)

lemma instr_executes:
  "bind_ok (run_micro (instr_micro i (instr_selects i (c_byte c Status))) c) (\<lambda>c'. Inr (isa_of l c')) =
     isa_exec i (isa_of l c)"
proof (cases "instr_condition i")
  case None
  then show ?thesis using instr_unconditional [OF None] by (simp add: does_def)
next
  case (Some fb)
  then consider f b where "i = I_branch f b" | "i = I_jeq"
    by (cases i) (simp_all add: instr_condition_def)
  then show ?thesis
    by cases (simp_all only: instr_selects_def instr_condition_def instr.case option.case
      prod.case instr_conditional)
qed

end
