(* ===== verification/Isa_Refinement.thy ===== *)
theory Isa_Refinement
  imports Tick_Refinement Isa_Execution Sim_Boot
begin

text \<open>
  The processor implements the programmer's model: with the microcode of a table of
  instructions compiled and loaded, the ticks of an instruction leave the registers, the
  memory and the interrupt line as the instruction specifies, errors included.
\<close>

section \<open>The interrupt line\<close>

definition has_input :: "memory \<Rightarrow> bool" where
  "has_input rs \<longleftrightarrow> list_ex (\<lambda>r. case region_module r of Input d \<Rightarrow> True | _ \<Rightarrow> False) rs"

lemma irq_after_input: "has_input rs \<Longrightarrow> irq_after rs b = irq_after rs b'"
proof (induction rs arbitrary: b b')
  case (Cons r rs)
  then show ?case
    by (cases "region_module r") (simp_all add: has_input_def irq_after_def)
qed (simp add: has_input_def)

lemma irq_after_no_input: "\<not> has_input rs \<Longrightarrow> irq_after rs b = b"
proof (induction rs arbitrary: b)
  case (Cons r rs)
  then show ?case
    by (cases "region_module r") (simp_all add: has_input_def irq_after_def)
qed (simp add: irq_after_def)

lemma irq_after_again: "has_input m' = has_input m \<Longrightarrow> irq_after m' (irq_after m b) = irq_after m' b"
  by (cases "has_input m") (auto simp: irq_after_no_input dest: irq_after_input)

lemma has_input_update:
  "i < length rs \<Longrightarrow>
   (case region_module r of Input d \<Rightarrow> True | _ \<Rightarrow> False) =
     (case region_module (rs ! i) of Input d \<Rightarrow> True | _ \<Rightarrow> False) \<Longrightarrow>
   has_input (rs[i := r]) = has_input rs"
  unfolding has_input_def list_ex_length by (metis length_list_update nth_list_update)

lemma read_at_has_input: "read_at a rs = Inr (v, rs') \<Longrightarrow> has_input rs' = has_input rs"
proof -
  have m: "(case m' of Input d \<Rightarrow> True | _ \<Rightarrow> False) = (case m of Input d \<Rightarrow> True | _ \<Rightarrow> False)"
    if "module_read x m = Inr (v, m')" for x m m'
    using that by (cases m) (auto elim!: bind_ok_eq_InrE split: prod.splits)
  assume "read_at a rs = Inr (v, rs')"
  then show ?thesis
    by (auto simp: read_at_def region_read_def split: option.splits if_splits elim!: bind_ok_eq_InrE
      intro!: has_input_update dest: find_region_Some m)
qed

lemma write_at_has_input: "write_at a v rs = Inr rs' \<Longrightarrow> has_input rs' = has_input rs"
proof -
  have m: "(case m' of Input d \<Rightarrow> True | _ \<Rightarrow> False) = (case m of Input d \<Rightarrow> True | _ \<Rightarrow> False)"
    if "module_write x v m = Inr m'" for x m m'
    using that by (cases m) (auto elim!: bind_ok_eq_InrE)
  assume "write_at a v rs = Inr rs'"
  then show ?thesis
    by (auto simp: write_at_def region_write_def split: option.splits if_splits elim!: bind_ok_eq_InrE
      intro!: has_input_update dest: find_region_Some m)
qed

section \<open>What every step keeps\<close>

lemma fetch_keeps:
  assumes "c_fetch c f = Inr c'" and "\<And>v m. P (c_mem c) \<Longrightarrow> read_at (c_word c Mar) (c_mem c) = Inr (v, m) \<Longrightarrow> Q (f v (c\<lparr>c_mem := m\<rparr>))"
    and "P (c_mem c)"
  shows "Q c'"
  using assms by (auto simp: c_fetch_def elim!: bind_ok_eq_InrE)

definition core_kept :: "core \<Rightarrow> core \<Rightarrow> bool" where
  "core_kept c c' \<longleftrightarrow> memory_wf (c_mem c') \<and> has_input (c_mem c') = has_input (c_mem c) \<and>
     c_byte c' Ir = c_byte c Ir"

lemma index_comp_distinct [simp]: "index_comp i \<noteq> Ir" "index_comp i \<noteq> Sc" "index_comp i \<noteq> Status"
   "Ir \<noteq> index_comp i" "Sc \<noteq> index_comp i" "Status \<noteq> index_comp i"
  by (cases i; simp)+

lemma micro_keeps:
  assumes "micro_effect m c = Inr c'" and "memory_wf (c_mem c)"
  shows "core_kept c c'"
  using assms
  by (cases m) (auto simp: core_kept_def c_set_def c_wset_def c_wlow_def c_whigh_def c_test_def
    c_pc_step_def c_fetch_def c_store_def c_push_def Let_def elim!: bind_ok_eq_InrE split: prod.splits if_splits
    dest: read_at_wf read_at_has_input write_at_wf write_at_has_input)

definition halting :: "micro \<Rightarrow> bool" where
  "halting m \<longleftrightarrow> m = Halt_step \<or> m = Crash_step"

lemma micro_runs_on:
  assumes "micro_effect m c = Inr c'" and "\<not> halting m"
  shows "c_halted c' = c_halted c"
  using assms
  by (cases m) (auto simp: halting_def c_set_def c_wset_def c_wlow_def c_whigh_def c_test_def
    c_pc_step_def c_fetch_def c_store_def c_push_def Let_def elim!: bind_ok_eq_InrE split: prod.splits if_splits)

text \<open>No step looks at the step counter.\<close>

lemma past_sc:
  "r \<noteq> Sc \<Longrightarrow> c_set r v (c_set Sc n c) = c_set Sc n (c_set r v c)"
  "c_wset r w (c_set Sc n c) = c_set Sc n (c_wset r w c)"
  "r \<noteq> Sc \<Longrightarrow> c_byte (c_set Sc n c) r = c_byte c r"
  "c_word (c_set Sc n c) = c_word c" "c_mem (c_set Sc n c) = c_mem c"
  "(c_set Sc n c)\<lparr>c_mem := mm\<rparr> = c_set Sc n (c\<lparr>c_mem := mm\<rparr>)"
  "(c_set Sc n c)\<lparr>c_halted := b\<rparr> = c_set Sc n (c\<lparr>c_halted := b\<rparr>)"
  "(c_set Sc n c)\<lparr>c_crashed := b\<rparr> = c_set Sc n (c\<lparr>c_crashed := b\<rparr>)"
  by (simp_all add: c_set_def c_wset_def fun_upd_twist)

lemma micro_effect_sc:
  "micro_effect m (c_set Sc n c) = bind_ok (micro_effect m c) (\<lambda>c'. Inr (c_set Sc n c'))"
  by (cases m) (simp_all add: past_sc c_wlow_def c_whigh_def c_test_def c_pc_step_def c_fetch_def
    c_store_def c_push_def Let_def bind_ok_assoc bind_ok_prod split: prod.splits)

lemma run_micro_sc:
  "run_micro ms (c_set Sc n c) = bind_ok (run_micro ms c) (\<lambda>c'. Inr (c_set Sc n c'))"
  by (induction ms arbitrary: c) (simp_all add: micro_effect_sc bind_ok_assoc)

section \<open>Ticks of a microprogram\<close>

text \<open>The steps are loaded from a step number on, for the status values a predicate holds of.\<close>

primrec loaded :: "instruction_memory \<Rightarrow> u8 \<Rightarrow> (u8 \<Rightarrow> bool) \<Rightarrow> nat \<Rightarrow> micro list \<Rightarrow> bool" where
  "loaded im op P i [] \<longleftrightarrow> True"
| "loaded im op P i (m # ms) \<longleftrightarrow>
     (\<forall>st. P st \<longrightarrow> lookup im op (of_nat i) (status_encode (im_status im) st) =
        Inr (sequenced (ms = []) (micro_controls m))) \<and> loaded im op P (Suc i) ms"

lemma core_of_put [simp]: "core_of (put_core c s) = c"
  by (simp add: core_of_def put_core_def)

lemma core_of_settle [simp]: "core_of (settle b s) = core_of s"
  by (simp add: core_of_def settle_def)

lemma irq_up_settle [simp]: "irq_up (settle b s) = irq_after (mem s) b"
  by (simp add: irq_up_def settle_def idle_sig_def)

lemma put_core_sels [simp]:
  "mem (put_core c s) = c_mem c" "instruction_mem (put_core c s) = instruction_mem s"
  "halted (put_core c s) = c_halted c" "byte_regs (put_core c s) = c_byte c"
  "inject_interrupt (put_core c s) = inject_interrupt s"
  by (simp_all add: put_core_def)

lemma core_of_sels [simp]:
  "c_byte (core_of s) = byte_regs s" "c_word (core_of s) = word_regs s" "c_mem (core_of s) = mem s"
  "c_halted (core_of s) = halted s"
  by (simp_all add: core_of_def)

lemma step_on_sels [simp]:
  "c_mem (step_on b c) = c_mem c" "c_halted (step_on b c) = c_halted c"
  "r \<noteq> Sc \<Longrightarrow> c_byte (step_on b c) r = c_byte c r"
  "c_byte (step_on b c) Sc = (if b then 0 else c_byte c Sc + 1)"
  by (simp_all add: step_on_def c_set_def)

lemma tick_micro:
  assumes "ready im op i s"
    and "lookup im op (of_nat i) (status_encode (im_status im) (status_reg s)) =
      Inr (sequenced final (micro_controls m))"
  shows "tick s = bind_ok (micro_effect m (core_of s))
    (\<lambda>c. Inr (settle (irq_up s) (put_core (step_on final c) s)))"
proof -
  have "tick s = step_effect (sequenced final (micro_controls m)) s"
    by (rule tick_step_effect) (use assms in \<open>auto simp: ready_def\<close>)
  also have "\<dots> = bind_ok (micro_effect m (core_of s))
      (\<lambda>c. Inr (settle (irq_up s) (put_core (step_on final c) s)))"
    using micro_performs [of m] assms(1) by (auto simp: performs_def ready_def)
  finally show ?thesis .
qed

lemma ready_settle:
  assumes "ready im op i s" and "core_kept (core_of s) c" and "\<not> c_halted c" and "c_byte c Sc = byte_regs s Sc"
  shows "ready im op (if final then 0 else Suc i) (settle b (put_core (step_on final c) s))"
  using assms by (auto simp: ready_def core_kept_def ir_value_def)

lemma micro_effect_keeps_sc: "micro_effect m c = Inr c' \<Longrightarrow> c_byte c' Sc = c_byte c Sc"
  using micro_effect_sc [of m "c_byte c Sc" c] by (simp add: c_set_def) (metis core.cases_scheme core.select_convs(1) core.update_convs(1) fun_upd_same fun_upd_triv)

lemma run_micro_keeps:
  "run_micro ms c = Inr c' \<Longrightarrow> memory_wf (c_mem c) \<Longrightarrow> core_kept c c'"
proof (induction ms arbitrary: c)
  case (Cons m ms)
  then obtain c1 where "micro_effect m c = Inr c1" "run_micro ms c1 = Inr c'"
    by (auto elim: bind_ok_eq_InrE)
  with micro_keeps [of m c c1] Cons.IH [of c1] Cons.prems(2) show ?case by (simp add: core_kept_def)
qed (simp add: core_kept_def)

definition reaches :: "instruction_memory \<Rightarrow> u8 \<Rightarrow> nat \<Rightarrow> cpu \<Rightarrow> core \<Rightarrow> bool" where
  "reaches im op n s c \<longleftrightarrow>
     (\<exists>t. ticks n s = Inr t \<and> core_of t = c_set Sc 0 c \<and>
        cycle_count t = cycle_count s + of_nat n \<and>
        irq_up t = irq_after (c_mem c) (irq_up s) \<and> (\<not> c_halted c \<longrightarrow> ready im op 0 t))"

lemma c_set_sc_sels [simp]:
  "c_mem (c_set Sc n c) = c_mem c" "c_halted (c_set Sc n c) = c_halted c"
  "c_set Sc n (c_set Sc k c) = c_set Sc n c" "c_word (c_set Sc n c) = c_word c"
  by (simp_all add: c_set_def)

lemma micro_ticks:
  assumes "loaded im op P i ms" and "ready im op i s" and "ms \<noteq> []" and "P (status_reg s)"
    and "\<And>m c c'. m \<in> set ms \<Longrightarrow> P (c_byte c Status) \<Longrightarrow> micro_effect m c = Inr c' \<Longrightarrow>
      P (c_byte c' Status)"
    and "\<forall>m\<in>set (butlast ms). \<not> halting m"
  shows "case run_micro ms (core_of s) of
      Inl e \<Rightarrow> ticks (length ms) s = Inl e
    | Inr c \<Rightarrow> reaches im op (length ms) s c"
  using assms
proof (induction ms arbitrary: i s)
  case (Cons m ms)
  have tick: "tick s = bind_ok (micro_effect m (core_of s))
      (\<lambda>c. Inr (settle (irq_up s) (put_core (step_on (ms = []) c) s)))"
    using tick_micro [OF Cons.prems(2), of "ms = []" m] Cons.prems(1,4) by simp
  show ?case
  proof (cases "micro_effect m (core_of s)")
    case (Inl e)
    then show ?thesis by (simp add: tick)
  next
    case (Inr c)
    define t where "t = settle (irq_up s) (put_core (step_on (ms = []) c) s)"
    have t: "tick s = Inr t" by (simp add: tick Inr t_def)
    then have cycle: "cycle_count t = cycle_count s + 1"
      using tick_cycle [OF t] Cons.prems(2) by (simp add: ready_def)
    have c: "core_of t = step_on (ms = []) c" "irq_up t = irq_after (c_mem c) (irq_up s)"
      by (simp_all add: t_def)
    note kept = micro_keeps [OF Inr, simplified, OF ready_wf [OF Cons.prems(2)]]
    have r: "\<not> c_halted c \<Longrightarrow> ready im op (if ms = [] then 0 else Suc i) t"
      using ready_settle [OF Cons.prems(2) kept, of "ms = []" "irq_up s"] micro_effect_keeps_sc [OF Inr]
      by (auto simp: t_def)
    show ?thesis
    proof (cases "ms = []")
      case True
      then show ?thesis using t c r cycle by (simp add: Inr reaches_def step_on_def)
    next
      case False
      then have nh: "\<not> halting m" "\<forall>m\<in>set (butlast ms). \<not> halting m" using Cons.prems(6) by auto
      have "\<not> c_halted c" using micro_runs_on [OF Inr nh(1)] Cons.prems(2) by (simp add: ready_def)
      then have ready: "ready im op (Suc i) t" using r False by simp
      have P: "P (status_reg t)"
        using Cons.prems(5) [of m "core_of s" c] Cons.prems(4) Inr by (simp add: t_def)
      have l: "loaded im op P (Suc i) ms" using Cons.prems(1) by simp
      have keep: "P (c_byte c' Status)"
        if "m' \<in> set ms" "P (c_byte c0 Status)" "micro_effect m' c0 = Inr c'" for m' c0 c'
        using Cons.prems(5) that by (metis list.set_intros(2))
      note IH = Cons.IH [OF l ready False P keep nh(2)]
      define n where "n = c_byte c Sc + 1"
      have run: "run_micro ms (core_of t) = bind_ok (run_micro ms c) (\<lambda>c'. Inr (c_set Sc n c'))"
        using False by (simp add: c step_on_def run_micro_sc n_def)
      show ?thesis
      proof (cases "run_micro ms c")
        case (Inl e)
        then show ?thesis using IH by (simp add: run t Inr)
      next
        case r': (Inr c')
        have "core_kept c c'" using run_micro_keeps [OF r'] kept by (simp add: core_kept_def)
        then have "irq_after (c_mem c') (irq_up t) = irq_after (c_mem c') (irq_up s)"
          by (simp add: c core_kept_def irq_after_again)
        then show ?thesis using IH cycle by (simp add: run r' t Inr reaches_def add.assoc)
      qed
    qed
  qed
qed simp

text \<open>The steps of an instruction keep the flag that selects its variant.\<close>

definition selected :: "instr \<Rightarrow> bool \<Rightarrow> u8 \<Rightarrow> bool" where
  "selected i b st \<longleftrightarrow> instr_selects i st = b"

lemma status_kept:
  assumes "micro_effect m c = Inr c'"
    and "m \<in> {Pc_to_mar, Operand_branch, Operand_skipped, Operand_low, Operand_low_saved,
      Operand_high, Result_to_mar_low, Mar_to_pc}"
  shows "c_byte c' Status = c_byte c Status"
  using assms by (auto simp: c_set_def c_wset_def c_wlow_def c_whigh_def c_pc_step_def c_fetch_def
    elim!: bind_ok_eq_InrE)

lemma instr_keeps_selected:
  assumes "m \<in> set (instr_micro i b)" and "selected i b (c_byte c Status)" and "micro_effect m c = Inr c'"
  shows "selected i b (c_byte c' Status)"
proof (cases "instr_condition i")
  case None
  then show ?thesis using assms(2) by (simp add: selected_def instr_selects_def)
next
  case (Some fb)
  then consider f v where "i = I_branch f v" | "i = I_jeq"
    by (cases i) (simp_all add: instr_condition_def)
  then have "m \<in> {Pc_to_mar, Operand_branch, Operand_skipped, Operand_low, Operand_low_saved,
      Operand_high, Result_to_mar_low, Mar_to_pc}"
    using assms(1) by cases (auto simp: absolute_micro_def split: if_splits)
  then show ?thesis using status_kept [OF assms(3)] assms(2) by simp
qed

lemma instr_micro_nonempty: "instr_micro i b \<noteq> []"
proof (cases i)
  case (I_load r opnd)
  then show ?thesis by (cases opnd) simp_all
qed (simp_all add: pull_micro_def)

lemma address_not_halting: "Halt_step \<notin> set (address_micro a)" "Crash_step \<notin> set (address_micro a)"
  by (cases a; simp add: absolute_micro_def)+

lemma instr_not_halting: "\<forall>m\<in>set (butlast (instr_micro i b)). \<not> halting m"
proof (cases i)
  case (I_load r opnd)
  then show ?thesis by (cases opnd) (auto simp: halting_def address_not_halting butlast_append dest: in_set_butlastD)
next
  case (I_arith f opnd)
  then show ?thesis by (cases opnd) (auto simp: halting_def address_not_halting butlast_append)
next
  case (I_compare r opnd)
  then show ?thesis by (cases opnd) (auto simp: halting_def address_not_halting butlast_append)
qed (auto simp: halting_def address_not_halting butlast_append absolute_micro_def push_pc_micro_def pull_micro_def vector_micro_def)

section \<open>Fetch\<close>

lemma fetch_ticks:
  assumes r: "ready im op 0 s" and read: "isa_next (isa_of (irq_up s) (core_of s)) = Inr (v, u)"
    and mc: "microcoded im op fetch_steps"
      "microcoded im (fetched_opcode s (byte_regs s Ir)) fetch_steps"
      "microcoded im (fetched_opcode s v) fetch_steps"
  shows "\<exists>t. ticks 3 s = Inr t \<and> ready im (fetched_opcode s v) 3 t \<and> byte_regs t Ir = v \<and>
    isa_of (irq_up s) (core_of t) = u \<and> irq_up t = irq_after (mem t) (irq_up s) \<and>
    has_input (mem t) = has_input (mem s)"
proof -
  obtain m where m: "read_at (word_regs s Pc) (mem s) = Inr (v, m)"
    and u: "u = isa_of (irq_up s) (core_of s)\<lparr>isa_mem := m, isa_pc := word_regs s Pc + 1\<rparr>"
    using read by (auto simp: isa_next_def isa_read_def isa_of_def elim!: bind_ok_eq_InrE)
  have sc: "byte_regs s Sc = 0" and wf: "memory_wf (mem s)" "memory_wf m"
    using r ready_wf [OF r] read_at_wf [OF _ m] by (auto simp: ready_def)
  let ?q = "fetched_opcode s (byte_regs s Ir)"
  define s1 where "s1 = settle (irq_up s) (start_instruction (irq_up s) (next_sc (set_word Mar (word_regs s Pc) s)))"
  have t1: "tick s = Inr s1"
    using tick_microcoded [OF mc(1) _ r] eff_fetch_1 [OF ready_idle [OF r]]
    by (simp add: s1_def fetch_steps_def)
  have r1: "ready im ?q 1 s1"
    using r sc wf by (simp add: s1_def ready_def ir_value_def fetched_opcode_def)
  have m1: "read_at (word_regs s1 Mar) (mem s1) = Inr (v, m)"
    using m by (simp add: s1_def)
  define s2 where "s2 = settle (irq_up s1) (next_sc (set_byte Ir v (s1\<lparr>mem := m\<rparr>)))"
  have t2: "tick s1 = Inr s2"
    using tick_microcoded [OF mc(2) _ r1] eff_fetch_2 [OF ready_idle [OF r1] m1]
    by (simp add: s2_def fetch_steps_def)
  have r2: "ready im (fetched_opcode s v) 2 s2"
    using r1 sc wf by (simp add: s2_def s1_def ready_def ir_value_def fetched_opcode_def)
  define s3 where "s3 = settle (irq_up s2) (next_sc (set_word Pc (word_regs s2 Pc + 1) s2))"
  have t3: "tick s2 = Inr s3"
    using tick_microcoded [OF mc(3) _ r2] eff_fetch_3 [OF ready_idle [OF r2]]
    by (simp add: s3_def fetch_steps_def)
  have r3: "ready im (fetched_opcode s v) 3 s3"
    using r2 ready_wf [OF r2] by (auto simp: s3_def ready_def ir_value_def)
  have hi: "has_input m = has_input (mem s)" using read_at_has_input [OF m] .
  have mems: "mem s1 = mem s" "mem s2 = m" "mem s3 = m" by (simp_all add: s1_def s2_def s3_def)
  have irq: "irq_up s3 = irq_after m (irq_up s)"
    using hi by (simp add: s3_def s2_def s1_def irq_after_again)
  have regs: "byte_regs s3 = (byte_regs s)(Ir := v, Sc := 3)"
    "word_regs s3 = (word_regs s)(Ipc := word_regs s Pc, Mar := word_regs s Pc, Pc := word_regs s Pc + 1)"
    "halted s3 = halted s" "crashed s3 = crashed s"
    using sc by (simp_all add: s3_def s2_def s1_def fun_eq_iff)
  have "ticks 3 s = Inr s3" by (simp add: numeral_3_eq_3 t1 t2 t3)
  then show ?thesis using r3 regs irq mems hi
    by (intro exI [of _ s3]) (simp add: u isa_of_def core_of_def)
qed

section \<open>The compiled microcode\<close>

lemma dedup_from_controls:
  "distinct_adj (map controls (t # ts)) \<Longrightarrow> dedup_from t ts = t # ts"
  by (induction t ts rule: dedup_from.induct) (auto simp: steps_are_identical_def)

definition sc_free :: "step \<Rightarrow> bool" where
  "sc_free t \<longleftrightarrow> Ctl Sc Increment \<notin> set (controls t) \<and> Ctl Sc Reset \<notin> set (controls t)"

lemma controls_sequence_steps:
  assumes "\<forall>t\<in>set ts. sc_free t"
  shows "map controls (sequence_steps (Ctl Sc Increment) (Ctl Sc Reset) ts) =
    map (\<lambda>t. controls t @ [Ctl Sc Increment]) (butlast ts) @ map (\<lambda>t. controls t @ [Ctl Sc Reset]) (if ts = [] then [] else [last ts])"
  using assms
  by (induction "Ctl Sc Increment" "Ctl Sc Reset" ts rule: sequence_steps.induct)
    (auto simp: add_control_def sc_free_def)

lemma distinct_adj_map_append:
  "distinct_adj (map (\<lambda>x. f x @ [a]) xs) = distinct_adj (map f xs)"
  by (induction xs rule: induct_list012) simp_all

lemma sequence_steps_distinct:
  assumes "\<forall>t\<in>set ts. sc_free t" and "distinct_adj (map controls ts)"
  shows "dedup_steps (sequence_steps (Ctl Sc Increment) (Ctl Sc Reset) ts) =
    sequence_steps (Ctl Sc Increment) (Ctl Sc Reset) ts" (is "dedup_steps ?ss = _")
proof -
  have "distinct_adj (map controls (butlast ts))"
    using assms(2) by (cases ts rule: rev_cases) (auto simp: distinct_adj_append_iff)
  then have "distinct_adj (map controls ?ss)"
    by (auto simp: controls_sequence_steps [OF assms(1)] distinct_adj_append_iff
      distinct_adj_map_append last_map)
  then show ?thesis
    by (cases ?ss) (simp_all add: dedup_steps_def dedup_from_controls)
qed

lemma micro_sc_free: "Ctl Sc Increment \<notin> set (micro_controls m)" "Ctl Sc Reset \<notin> set (micro_controls m)"
proof -
  have "Ctl Sc k \<notin> set (micro_controls m)" for k
  proof (cases m)
    case (Compute f)
    then show ?thesis by (cases f) simp_all
  qed simp_all
  then show "Ctl Sc Increment \<notin> set (micro_controls m)" "Ctl Sc Reset \<notin> set (micro_controls m)"
    by blast+
qed

text \<open>No two adjacent steps of a program are the same, so the compiler drops none.\<close>

definition opens_transfer :: "micro \<Rightarrow> bool" where
  "opens_transfer m \<longleftrightarrow>
     hd (micro_controls m) \<in> {Ctl Memory Write, Ctl Reg_a Write, Ctl Reg_x Write, Ctl Reg_y Write}"

lemma address_distinct:
  assumes "distinct_adj (map micro_controls (m # ms))" and "opens_transfer m"
  shows "distinct_adj ([Ctl Pc Increment] # map micro_controls (address_micro a @ m # ms))"
proof -
  have "micro_controls m \<notin> {[Ctl Mar_high Reset], [Ctl Alu_result Write, Ctl Mar_low Read], [Ctl Mar Add_offset]}"
    using assms(2) by (auto simp: opens_transfer_def)
  with assms(1) show ?thesis by (cases a) (auto simp: absolute_micro_def)
qed

lemma opens_transfer_simps:
  "opens_transfer (Mem_to r)" "opens_transfer Mem_to_rhs" "opens_transfer Mem_to_lhs"
  "opens_transfer (Index_to_mem r)"
  by (cases r; simp add: opens_transfer_def)+

lemma micro_controls_distinct:
  "distinct_adj (map controls (fetch_micro @ micro_steps (instr_micro i b)))"
proof -
  have fn: "alu_fn_controls f \<noteq> Ctl c Write # ks" for f c ks by (cases f) simp_all
  note fn = fn fn [symmetric]
  have rhs: "distinct_adj ([Ctl Pc Increment] # map micro_controls (rhs_micro opnd @ Index_to_lhs r # ms))"
    if "distinct_adj (map micro_controls (Index_to_lhs r # ms))" for opnd r ms
  proof (cases opnd)
    case Immediate
    with that show ?thesis by (cases ms) simp_all
  next
    case (In_memory m)
    with that address_distinct [of Mem_to_rhs "Index_to_lhs r # ms" m] show ?thesis
      by (cases r) (simp_all add: opens_transfer_simps)
  qed
  have "distinct_adj ([Ctl Pc Increment] # map micro_controls (instr_micro i b))"
  proof (cases i)
    case (I_load r opnd)
    then show ?thesis
      using address_distinct [of "Mem_to r" "[]"] by (cases opnd) (simp_all add: opens_transfer_simps)
  next
    case (I_store r m)
    then show ?thesis
      using address_distinct [of "Index_to_mem r" "[]"] by (simp add: opens_transfer_simps)
  next
    case (I_arith f opnd)
    then show ?thesis
      using rhs [of In_a "[Compute (arith_fn f), Result_to In_a]" opnd] by (simp add: fn)
  next
    case (I_compare r opnd)
    then show ?thesis 
      using rhs [of r "[Flag_to Carry True, Compute F_sub, Result_tested]" opnd] by simp
  next
    case (I_bit m)
    then show ?thesis 
      using rhs [of In_a "[Compute F_bit, Result_tested]" "In_memory m"] by simp
  next
    case (I_modify f m)
    then show ?thesis 
      using address_distinct [of Mem_to_lhs "[Compute (modify_fn f), Result_to_mem]" m]
      by (simp add: opens_transfer_simps fn)
  next
    case (I_modify_register f r)
    then show ?thesis by (cases r) (simp_all add: fn)
  next
    case (I_transfer r q)
    then show ?thesis by (cases r) simp_all
  qed (simp_all add: absolute_micro_def push_pc_micro_def pull_micro_def vector_micro_def)
  then show ?thesis by (simp add: fetch_micro_def micro_steps_def o_def)
qed

lemma flag_name_inject: "flag_name f = flag_name g \<longleftrightarrow> f = g"
  by (cases f; cases g) simp_all

lemma instr_micro_unconditional:
  "instr_condition i = None \<Longrightarrow> instr_micro i b = instr_micro i True"
  by (cases i) (simp_all add: instr_condition_def)

lemma instr_variant:
  assumes "selected i b st"
  obtains v where "v \<in> set (instr_variants i)" and "steps v = micro_steps (instr_micro i b)"
    and "variant_matches cpu_status_encoder v st"
proof (cases "instr_condition i")
  case None
  then show ?thesis
    by (intro that [of "\<lparr>status_conditions = [], steps = micro_steps (instr_micro i True)\<rparr>"])
      (simp_all add: instr_variants_def instr_micro_unconditional [OF None, of b] variant_matches_def
        cpu_status_encoder_def matches_cpu_status)
next
  case (Some fb)
  obtain f g where fg: "fb = (f, g)" by (cases fb)
  have b: "status_value f st = b" using assms by (simp add: selected_def instr_selects_def Some fg)
  show ?thesis
    by (rule that [of "\<lparr>status_conditions = [(flag_name f, b)], steps = micro_steps (instr_micro i b)\<rparr>"])
      (use b in \<open>cases "b = g"; auto simp: instr_variants_def Some fg variant_matches_def
        cpu_status_encoder_def matches_cpu_status flag_name_inject status_value_bit split: if_splits\<close>)+
qed

definition program_steps :: "micro list \<Rightarrow> step list" where
  "program_steps ms = fetch_micro @ map (\<lambda>t. t\<lparr>stage := stage t + 1\<rparr>) (micro_steps ms)"

lemma length_fetch_micro: "length fetch_micro = 3"
  by (simp add: fetch_micro_def)

lemma program_steps_sels:
  "map controls (program_steps ms) = map controls fetch_micro @ map micro_controls ms"
  "length (program_steps ms) = 3 + length ms"
  "j < length ms \<Longrightarrow> controls (program_steps ms ! (3 + j)) = micro_controls (ms ! j)"
  "j < 3 \<Longrightarrow> program_steps ms ! j = fetch_micro ! j"
proof -
  show "map controls (program_steps ms) = map controls fetch_micro @ map micro_controls ms"
    "length (program_steps ms) = 3 + length ms"
    "j < length ms \<Longrightarrow> controls (program_steps ms ! (3 + j)) = micro_controls (ms ! j)"
    "j < 3 \<Longrightarrow> program_steps ms ! j = fetch_micro ! j"
    by (simp_all add: program_steps_def micro_steps_def nth_append length_fetch_micro)
qed

lemma program_sc_free: "t \<in> set (program_steps ms) \<Longrightarrow> sc_free t"
  by (auto simp: program_steps_def fetch_micro_def micro_steps_def sc_free_def micro_sc_free)

lemma isa_final_steps:
  assumes "steps v = micro_steps (instr_micro i b)"
  shows "final_steps (cpu_compiler ops) (isa_source tab) v =
    sequence_steps (Ctl Sc Increment) (Ctl Sc Reset) (program_steps (instr_micro i b))"
proof -
  have "final_steps (cpu_compiler ops) (isa_source tab) v =
      dedup_steps (sequence_steps (Ctl Sc Increment) (Ctl Sc Reset) (program_steps (instr_micro i b)))"
    by (simp add: final_steps_def isa_source_def cpu_compiler_def assms program_steps_def fetch_micro_def)
  also have "\<dots> = sequence_steps (Ctl Sc Increment) (Ctl Sc Reset) (program_steps (instr_micro i b))"
    by (rule sequence_steps_distinct)
      (use micro_controls_distinct [of i b] program_sc_free in
        \<open>auto simp: program_steps_sels(1) micro_steps_def o_def\<close>)
  finally show ?thesis .
qed

lemma sequenced_lookup:
  "filter (\<lambda>k. k \<in> set (controls (add_control (if final then Ctl Sc Reset else Ctl Sc Increment) t))) hdl_controls =
     sequenced final (controls t)"
  by (simp add: sequenced_def)

lemma fetch_sequenced: "map (\<lambda>t. sequenced False (controls t)) fetch_micro = fetch_steps"
  by code_simp

lemma loaded_nth:
  "loaded im op P i ms \<longleftrightarrow> (\<forall>j<length ms. \<forall>st. P st \<longrightarrow>
     lookup im op (of_nat (i + j)) (status_encode (im_status im) st) =
       Inr (sequenced (Suc j = length ms) (micro_controls (ms ! j))))"
proof (induction ms arbitrary: i)
  case (Cons m ms)
  show ?case unfolding loaded.simps Cons.IH
    by (auto simp: All_less_Suc2 ac_simps)
qed simp

lemma compiled_program:
  assumes "compile (cpu_compiler ops) (isa_source tab) = Inr p"
  obtains im where "make_instruction_memory hdl_controls p = Inr im"
    and "\<And>op i b st j. (op, i) \<in> set tab \<Longrightarrow> selected i b st \<Longrightarrow>
      j < length (program_steps (instr_micro i b)) \<Longrightarrow>
      lookup im op (of_nat j) st =
        Inr (sequenced (Suc j = length (program_steps (instr_micro i b)))
          (controls (program_steps (instr_micro i b) ! j)))"
    and "im_status im = all_flags"
proof -
  obtain im where im: "make_instruction_memory hdl_controls p = Inr im" "im_status im = all_flags"
    "\<And>i v st j. i \<in> set (instructions (isa_source tab)) \<Longrightarrow> v \<in> set (variants i) \<Longrightarrow>
      variant_matches cpu_status_encoder v st \<Longrightarrow>
      j < length (final_steps (cpu_compiler ops) (isa_source tab) v) \<Longrightarrow>
      lookup im (opcode i) (of_nat j) st =
        Inr (filter (\<lambda>k. k \<in> set (controls (final_steps (cpu_compiler ops) (isa_source tab) v ! j))) hdl_controls)"
    using compiled_lookup [OF assms] by metis
  have "lookup im op (of_nat j) st =
      Inr (sequenced (Suc j = length (program_steps (instr_micro i b)))
        (controls (program_steps (instr_micro i b) ! j)))"
    if t: "(op, i) \<in> set tab" and sel: "selected i b st"
      and j: "j < length (program_steps (instr_micro i b))" for op i b st j
  proof -
    obtain v where v: "v \<in> set (instr_variants i)" "steps v = micro_steps (instr_micro i b)"
      "variant_matches cpu_status_encoder v st"
      using instr_variant [OF sel] .
    note final = isa_final_steps [OF v(2), of ops tab]
    have "\<lparr>opcode = op, variants = instr_variants i\<rparr> \<in> set (instructions (isa_source tab))"
      using t by (force simp: isa_source_def)
    from im(3) [OF this, of v st j] v j show ?thesis
      by (simp add: final sequence_steps_nth sequenced_lookup del: in_add_control)
  qed
  with im show ?thesis using that by blast
qed

text \<open>Every instruction of the table is loaded behind the fetch preamble.\<close>

definition table_loaded :: "instruction_memory \<Rightarrow> isa_table \<Rightarrow> bool" where
  "table_loaded im tab \<longleftrightarrow>
     (\<forall>(op, i)\<in>set tab. microcoded im op fetch_steps \<and>
        (\<forall>b. loaded im op (selected i b) 3 (instr_micro i b)))"

lemma compiled_table_loaded:
  assumes "compile (cpu_compiler ops) (isa_source tab) = Inr p"
  obtains im where "make_instruction_memory hdl_controls p = Inr im" and "table_loaded im tab"
proof -
  obtain im where im: "make_instruction_memory hdl_controls p = Inr im"
    "\<And>op i b st j. (op, i) \<in> set tab \<Longrightarrow> selected i b st \<Longrightarrow>
      j < length (program_steps (instr_micro i b)) \<Longrightarrow>
      lookup im op (of_nat j) st =
        Inr (sequenced (Suc j = length (program_steps (instr_micro i b)))
          (controls (program_steps (instr_micro i b) ! j)))"
    "im_status im = all_flags"
    using compiled_program [OF assms] by metis
  have fetch: "microcoded im op fetch_steps" if t: "(op, i) \<in> set tab" for op i
    unfolding microcoded_def
  proof (intro allI impI)
    fix j st assume "j < length fetch_steps"
    then have j: "j < 3" by (simp add: fetch_steps_def)
    have "fetch_steps ! j = sequenced False (controls (fetch_micro ! j))"
      using j by (simp add: fetch_sequenced [symmetric] length_fetch_micro)
    moreover have "Suc j \<noteq> 3 + length (instr_micro i (instr_selects i st))"
      using j instr_micro_nonempty [of i "instr_selects i st"] by (cases "instr_micro i (instr_selects i st)") auto
    ultimately show "lookup im op (of_nat j) st = Inr (fetch_steps ! j)"
      using im(2) [OF t, of "instr_selects i st" st j] j
      by (simp add: selected_def program_steps_sels)
  qed
  have "loaded im op (selected i b) 3 (instr_micro i b)" if t: "(op, i) \<in> set tab" for op i b
    unfolding loaded_nth im(3)
    using im(2) [OF t, of b _ "3 + j" for j] by (auto simp: program_steps_sels)
  with fetch have "table_loaded im tab" by (auto simp: table_loaded_def)
  with im(1) show ?thesis by (rule that)
qed

section \<open>Instructions\<close>

text \<open>Between two instructions of a table.\<close>

definition between :: "instruction_memory \<Rightarrow> isa_table \<Rightarrow> cpu \<Rightarrow> bool" where
  "between im tab s \<longleftrightarrow>
     ready im (ir_value s) 0 s \<and> ir_value s \<in> fst ` set tab \<and> byte_regs s Ir \<in> fst ` set tab"

definition isa_view :: "cpu \<Rightarrow> isa" where
  "isa_view s = isa_of (irq_up s) (core_of s)"

text \<open>The ticks of the next instruction: the preamble, then the steps of the selected variant.\<close>

definition isa_cycles :: "isa_table \<Rightarrow> isa \<Rightarrow> nat" where
  "isa_cycles tab u =
     (if isa_halted u then 0
      else case isa_next u of
        Inl e \<Rightarrow> 0
      | Inr (v, u') \<Rightarrow>
          (case map_of tab (isa_decoded u v) of
             None \<Rightarrow> 0
           | Some i \<Rightarrow> 3 + length (instr_micro i (instr_selects i (isa_st u)))))"

text \<open>The ticks of a run.\<close>

definition isa_time :: "isa_table \<Rightarrow> nat \<Rightarrow> isa \<Rightarrow> nat" where
  "isa_time tab = iterate_cost (isa_step tab) (isa_cycles tab)"

lemma isa_view_reached:
  assumes "reaches im op n t c" and "irq_up t = irq_after (mem t) l" and "has_input (c_mem c) = has_input (mem t)"
  shows "\<exists>r. ticks n t = Inr r \<and> isa_view r = isa_line_next (isa_of l c) \<and>
    (\<not> c_halted c \<longrightarrow> ready im op 0 r) \<and> byte_regs r Ir = c_byte c Ir \<and> halted r = c_halted c \<and>
    cycle_count r = cycle_count t + of_nat n"
proof -
  obtain r where r: "ticks n t = Inr r" "core_of r = c_set Sc 0 c" "cycle_count r = cycle_count t + of_nat n"
    "irq_up r = irq_after (c_mem c) (irq_up t)" "\<not> c_halted c \<longrightarrow> ready im op 0 r"
    using assms(1) by (auto simp: reaches_def)
  have core: "byte_regs r = c_byte (c_set Sc 0 c)" "mem r = c_mem c" "halted r = c_halted c"
    using arg_cong [OF r(2), of c_byte] arg_cong [OF r(2), of c_mem] arg_cong [OF r(2), of c_halted] by simp_all
  have "irq_up r = irq_after (c_mem c) l"
    using r(4) assms(2,3) by (simp add: irq_after_again)
  then have "isa_view r = isa_line_next (isa_of l c)"
    by (simp add: isa_view_def isa_of_def r(2) isa_line_next_def c_set_def)
  then show ?thesis using r core by (intro exI [of _ r]) (simp add: c_set_def)
qed

lemma isa_view_halted: "isa_halted (isa_view s) = halted s"
  by (simp add: isa_view_def isa_of_def)

lemma is_ok_isa_next: "memory_wf (isa_mem u) \<Longrightarrow> is_ok (isa_next u)"
  using read_at_ok [of "isa_mem u" "isa_pc u"]
  by (auto simp: isa_next_def isa_read_def is_ok_def bind_ok_def split: sum.splits)

lemma isa_next_sels:
  "isa_next u = Inr (v, u') \<Longrightarrow> isa_st u' = isa_st u \<and> isa_halted u' = isa_halted u"
  by (auto simp: isa_next_def isa_read_def elim!: bind_ok_eq_InrE)

lemma ticks_cycles:
  "ticks n s = Inr t \<Longrightarrow> \<not> halted t \<Longrightarrow> cycle_count t = cycle_count s + of_nat n"
proof (induction n arbitrary: s)
  case (Suc n)
  obtain u where u: "tick s = Inr u" "ticks n u = Inr t" using Suc.prems(1) by (auto elim: bind_ok_eq_InrE)
  have "\<not> halted s"
  proof
    assume "halted s"
    then have "ticks k s = Inr s" for k by (induction k) (simp_all add: tick_def)
    with Suc.prems \<open>halted s\<close> show False by (metis sum.inject(2))
  qed
  then show ?case using Suc.IH [OF u(2) Suc.prems(2)] tick_cycle [OF u(1)] by (simp add: add.assoc)
qed simp

text \<open>One instruction of the model is the ticks of its microprogram.\<close>

lemma instruction_ticks:
  assumes tab: "table_loaded im tab" and s: "between im tab s"
    and step: "isa_step tab (isa_view s) = Some r"
  shows "case r of
      Inl e \<Rightarrow> ticks (isa_cycles tab (isa_view s)) s = Inl e
    | Inr u \<Rightarrow> \<exists>t. ticks (isa_cycles tab (isa_view s)) s = Inr t \<and> isa_view t = u \<and>
        (\<not> halted t \<longrightarrow> between im tab t) \<and>
        cycle_count t = cycle_count s + of_nat (isa_cycles tab (isa_view s))"
proof -
  have r: "ready im (ir_value s) 0 s" and nh: "\<not> halted s"
    using s by (auto simp: between_def ready_def)
  have mc: "op \<in> fst ` set tab \<Longrightarrow> microcoded im op fetch_steps" for op
    using tab by (auto simp: table_loaded_def)
  obtain v u where next_: "isa_next (isa_view s) = Inr (v, u)"
    using is_ok_isa_next [of "isa_view s"] ready_wf [OF r]
    by (auto simp: is_ok_def isa_view_def isa_of_def split: sum.splits)
  have dec: "isa_decoded (isa_view s) w = fetched_opcode s w" for w
    by (simp add: isa_decoded_def fetched_opcode_def isa_view_def isa_of_def)
  obtain i where i: "map_of tab (fetched_opcode s v) = Some i" "map_of tab v \<noteq> None"
    and res: "r = bind_ok (isa_exec i u) (\<lambda>u. Inr (isa_line_next u))"
    using step nh by (auto simp: isa_step_def next_ dec isa_view_halted split: if_splits)
  have v: "v \<in> fst ` set tab" "fetched_opcode s v \<in> fst ` set tab"
    using i by (auto simp: map_of_eq_None_iff dest: map_of_SomeD intro: rev_image_eqI)
  have q: "fetched_opcode s (byte_regs s Ir) \<in> fst ` set tab"
    using s v(2) by (auto simp: between_def fetched_opcode_def split: if_splits)
  obtain t where t: "ticks 3 s = Inr t" "ready im (fetched_opcode s v) 3 t" "byte_regs t Ir = v"
    "isa_of (irq_up s) (core_of t) = u" "irq_up t = irq_after (mem t) (irq_up s)"
    using fetch_ticks [OF r next_ [unfolded isa_view_def] mc mc mc] s q v(2)
    by (auto simp: between_def)
  define b where "b = instr_selects i (status_reg t)"
  let ?ms = "instr_micro i b"
  have loaded: "loaded im (fetched_opcode s v) (selected i b) 3 ?ms"
    using tab map_of_SomeD [OF i(1)] by (auto simp: table_loaded_def)
  have run: "case run_micro ?ms (core_of t) of
      Inl e \<Rightarrow> ticks (length ?ms) t = Inl e
    | Inr c \<Rightarrow> reaches im (fetched_opcode s v) (length ?ms) t c"
    by (rule micro_ticks [OF loaded t(2) instr_micro_nonempty _ instr_keeps_selected instr_not_halting])
      (simp_all add: selected_def b_def)
  have exec: "bind_ok (run_micro ?ms (core_of t)) (\<lambda>c. Inr (isa_of (irq_up s) c)) = isa_exec i u"
    using instr_executes [of i "core_of t" "irq_up s"] by (simp add: b_def t(4))
  have "status_reg t = isa_st u" by (simp add: t(4) [symmetric] isa_of_def core_of_def)
  then have cycles: "isa_cycles tab (isa_view s) = 3 + length ?ms"
    using isa_next_sels [OF next_] nh by (simp add: isa_cycles_def next_ dec i(1) b_def isa_view_halted)
  then have ticks: "ticks (isa_cycles tab (isa_view s)) s = ticks (length ?ms) t"
    by (simp add: ticks_add t(1))
  show ?thesis
  proof (cases "run_micro ?ms (core_of t)")
    case (Inl e)
    then have "isa_exec i u = Inl e" using exec by simp
    then show ?thesis using run ticks by (simp add: res Inl)
  next
    case (Inr c)
    then have e: "isa_exec i u = Inr (isa_of (irq_up s) c)" using exec by simp
    have kept: "core_kept (core_of t) c" using run_micro_keeps [OF Inr] ready_wf [OF t(2)] by simp
    obtain w where w: "ticks (length ?ms) t = Inr w" "isa_view w = isa_line_next (isa_of (irq_up s) c)"
      "\<not> c_halted c \<longrightarrow> ready im (fetched_opcode s v) 0 w" "byte_regs w Ir = c_byte c Ir"
      "halted w = c_halted c" "cycle_count w = cycle_count t + of_nat (length ?ms)"
      using isa_view_reached [OF _ t(5), of im _ _ c] run kept by (auto simp: Inr core_kept_def)
    have "between im tab w" if "\<not> halted w"
      using that w(3,4,5) kept t(3) v by (auto simp: between_def core_kept_def ready_def)
    moreover have "cycle_count t = cycle_count s + 3"
      using ticks_cycles [OF t(1)] t(2) by (simp add: ready_def)
    ultimately show ?thesis using w ticks
      by (simp add: res e cycles add.assoc)
  qed
qed

text \<open>Running the microcode of a table: halted, or between two of its instructions.\<close>

definition running :: "isa_table \<Rightarrow> cpu \<Rightarrow> bool" where
  "running tab s \<longleftrightarrow> (\<exists>im. table_loaded im tab \<and> (halted s \<or> between im tab s))"

interpretation processor:
  tick_refinement "isa_step tab" "isa_cycles tab" ticks isa_view "running tab" cycle_count for tab
proof
  fix s r assume s: "running tab s" and r: "isa_step tab (isa_view s) = Some r"
  let ?n = "isa_cycles tab (isa_view s)"
  show "case r of Inl e \<Rightarrow> ticks ?n s = Inl e
    | Inr u \<Rightarrow> \<exists>t. ticks ?n s = Inr t \<and> isa_view t = u \<and> running tab t \<and>
        cycle_count t = cycle_count s + of_nat ?n"
  proof (cases "halted s")
    case True
    then have "r = Inr (isa_view s)" "?n = 0"
      using r by (simp_all add: isa_step_def isa_view_halted isa_cycles_def)
    then show ?thesis using s by simp
  next
    case False
    with s obtain im where im: "table_loaded im tab" "between im tab s" by (auto simp: running_def)
    from instruction_ticks [OF im r] show ?thesis
      using im(1) by (auto simp: running_def split: sum.splits)
  qed
qed (simp_all add: ticks_add)

end
