(* ===== verification/Isa_Compile.thy ===== *)
theory Isa_Compile
  imports Isa_Refinement
begin

text \<open>
  The microcode compiler accepts the microcode of every table of instructions with distinct
  opcodes: all six validators after every pass, and the encoder.
\<close>

section \<open>Steps\<close>

lemma comp_path_inject:
  assumes "comp_path c = comp_path d" and "c \<noteq> Cpu_root" and "d \<noteq> Cpu_root"
  shows "c = d"
proof -
  have "distinct (map comp_path comp_order)" by code_simp
  moreover have "c \<in> set comp_order" if "c \<noteq> Cpu_root" for c
  proof (cases c)
    case (Flag f)
    then show ?thesis by (cases f) (simp_all add: comp_order_eq)
  qed (use that in \<open>simp_all add: comp_order_eq\<close>)
  ultimately show ?thesis using assms by (auto simp: distinct_map inj_on_def)
qed

lemma op_name_inject: "op_name k = op_name l \<longleftrightarrow> k = l"
  by (cases k; cases l) simp_all

definition conflict_free :: "ctl list \<Rightarrow> bool" where
  "conflict_free ks \<longleftrightarrow>
     (\<forall>c. \<not> (Ctl c Read \<in> set ks \<and> Ctl c Write \<in> set ks) \<and>
          \<not> (Ctl c Set_flag \<in> set ks \<and> Ctl c Clear_flag \<in> set ks) \<and>
          \<not> (Ctl c Increment \<in> set ks \<and> Ctl c Decrement \<in> set ks))"

lemma root_operation: "get_operation (ctl_path (Ctl Cpu_root op)) = []"
proof -
  have "comp_path Cpu_root = []" by (simp add: comp_path_empty_iff)
  then show ?thesis using no_dot_op_name [of op]
    by (simp add: build_path_def get_operation_def has_dot_def)
qed

lemma component_operationsE:
  assumes "op_name op \<in> set (component_operations t p)"
  obtains c where "Ctl c op \<in> set (controls t)" and "comp_path c = p" and "c \<noteq> Cpu_root"
proof -
  from assms obtain k where k: "k \<in> set (controls t)" "get_component_path (ctl_path k) = p"
    "get_operation (ctl_path k) = op_name op"
    by (auto simp: component_operations_def control_info_def)
  obtain c op' where c: "k = Ctl c op'" by (cases k)
  have root: "c \<noteq> Cpu_root"
  proof
    assume "c = Cpu_root"
    then have "op_name op = []" using k(3) root_operation c by simp
    then show False by (cases op) simp_all
  qed
  show ?thesis
    using k get_parts_ctl [OF root, of op'] root
    by (intro that [of c]) (simp_all add: c op_name_inject del: ctl_path.simps)
qed

lemma conflict_free_step:
  assumes "conflict_free (controls t)"
  shows "is_ok (conflict_validate_step t i)"
proof -
  have no: "\<not> (op_name k \<in> set (component_operations t p) \<and> op_name l \<in> set (component_operations t p))"
    if "(k, l) \<in> {(Read, Write), (Set_flag, Clear_flag), (Increment, Decrement)}" for k l p
  proof
    assume "op_name k \<in> set (component_operations t p) \<and> op_name l \<in> set (component_operations t p)"
    then obtain c d where "Ctl c k \<in> set (controls t)" "Ctl d l \<in> set (controls t)"
      "comp_path c = comp_path d" "c \<noteq> Cpu_root" "d \<noteq> Cpu_root"
      by (metis component_operationsE)
    with comp_path_inject [of c d] assms that show False by (auto simp: conflict_free_def)
  qed
  show ?thesis
    using no [of Read Write] no [of Set_flag Clear_flag] no [of Increment Decrement]
    by (auto simp: conflict_validate_step_def fold_ok_unit_is_ok Let_def)
qed

lemma sequenced_step_ok:
  assumes "step_controls_ok (controls t)" and "bus_disciplined (controls t)"
    and "conflict_free (controls t)" and "k = Ctl Sc Increment \<or> k = Ctl Sc Reset"
    and "sc_free t" and "Ctl Sc Decrement \<notin> set (controls t)"
  shows "is_ok (bus_validate_step (bus_map visit_cpu) (add_control k t) i)"
    and "is_ok (conflict_validate_step (add_control k t) i)"
    and "set (controls (add_control k t)) \<subseteq> set hdl_controls"
proof -
  have ks: "controls (add_control k t) = controls t @ [k]"
    using assms(4,5) by (auto simp: add_control_def sc_free_def)
  have hdl: "set (controls t @ [k]) \<subseteq> set hdl_controls"
    using assms(1,4) sc_controls by (auto simp: step_controls_ok_def list_all_iff)
  then show "set (controls (add_control k t)) \<subseteq> set hdl_controls" by (simp add: ks)
  have "bus_info k = None" using assms(4) by (auto simp: bus_info_def Let_def)
  then have "bus_disciplined (controls t @ [k])" using assms(2) by (simp add: bus_disciplined_def)
  with bus_validate_step_ok [of "add_control k t" i] hdl
  show "is_ok (bus_validate_step (bus_map visit_cpu) (add_control k t) i)" by (simp add: ks)
  show "is_ok (conflict_validate_step (add_control k t) i)"
    by (rule conflict_free_step) (use assms(3,4,6) in \<open>auto simp: ks conflict_free_def\<close>)
qed

definition instr_ok :: "instr \<Rightarrow> bool" where
  "instr_ok i \<longleftrightarrow> (\<forall>j. i \<noteq> I_transfer j j)"

definition source_step_ok :: "step \<Rightarrow> bool" where
  "source_step_ok t \<longleftrightarrow> step_controls_ok (controls t) \<and> bus_disciplined (controls t) \<and>
     conflict_free (controls t) \<and> sc_free t \<and> Ctl Sc Decrement \<notin> set (controls t)"

lemma index_comp_bus [simp]: "comp_bus (index_comp i) = Byte_bus"
  by (cases i) simp_all

lemma index_comp_other:
  "c \<in> {Memory, Alu_lhs, Mar_offset, Alu_result, Analyzer, Pc} \<Longrightarrow> index_comp i \<noteq> c"
  by (cases i) auto

lemmas index_comp_others = index_comp_other index_comp_other [symmetric]

lemma micro_disciplined: "bus_disciplined (micro_controls m)"
proof (cases m)
  case (Compute f)
  then show ?thesis by (cases f) (simp_all add: bus_disciplined_def bus_info_def)
qed (auto simp: bus_disciplined_def bus_info_def Let_def bus_type_all split: if_splits bus_type.splits)

lemma micro_conflict_free: "(\<forall>j. m \<noteq> Index_to j j) \<Longrightarrow> conflict_free (micro_controls m)"
proof (cases m)
  case (Compute f)
  then show ?thesis by (cases f) (simp_all add: conflict_free_def)
next
  case (Index_to i j)
  assume "\<forall>j. m \<noteq> Index_to j j"
  with Index_to show ?thesis by (cases i; cases j) (auto simp: conflict_free_def)
qed (auto simp: conflict_free_def index_comp_others split: if_splits)

lemma micro_no_sc_decrement: "Ctl Sc Decrement \<notin> set (micro_controls m)"
proof (cases m)
  case (Compute f)
  then show ?thesis by (cases f) simp_all
next
  case (Index_to i j)
  then show ?thesis by (cases i; cases j) simp_all
qed simp_all

lemma micro_step_ok:
  assumes "\<forall>j. m \<noteq> Index_to j j" and "controls t = micro_controls m"
  shows "source_step_ok t"
  using assms micro_conflict_free [OF assms(1)]
  by (simp add: source_step_ok_def micro_disciplined sc_free_def micro_sc_free micro_no_sc_decrement)

lemma fetch_step_ok: "t \<in> set fetch_micro \<Longrightarrow> source_step_ok t"
proof -
  have "list_all (\<lambda>t. step_controls_ok (controls t)) fetch_micro" by code_simp
  then show "t \<in> set fetch_micro \<Longrightarrow> source_step_ok t"
    by (auto simp: fetch_micro_def source_step_ok_def bus_disciplined_def bus_info_def bus_type_all
      conflict_free_def sc_free_def)
qed

lemma address_no_copy: "Index_to j j \<notin> set (address_micro a)"
  by (cases a) (simp_all add: absolute_micro_def)

lemma instr_no_copy: "instr_ok i \<Longrightarrow> Index_to j j \<notin> set (instr_micro i b)"
proof (cases i)
  case (I_load r opnd)
  then show ?thesis by (cases opnd) (simp_all add: address_no_copy)
next
  case (I_arith f opnd)
  then show ?thesis by (cases opnd) (simp_all add: address_no_copy)
next
  case (I_compare r opnd)
  then show ?thesis by (cases opnd) (simp_all add: address_no_copy)
qed (auto simp: instr_ok_def address_no_copy absolute_micro_def push_pc_micro_def pull_micro_def vector_micro_def)

lemma program_step_ok: "instr_ok i \<Longrightarrow> t \<in> set (program_steps (instr_micro i b)) \<Longrightarrow> source_step_ok t"
proof -
  assume i: "instr_ok i" and "t \<in> set (program_steps (instr_micro i b))"
  then consider "t \<in> set fetch_micro" | m where "m \<in> set (instr_micro i b)" "controls t = micro_controls m"
    by (auto simp: program_steps_def micro_steps_def)
  then show "source_step_ok t"
  proof cases
    case 2
    then have "\<forall>j. m \<noteq> Index_to j j" using instr_no_copy [OF i] by blast
    with 2 show ?thesis by (intro micro_step_ok)
  qed (rule fetch_step_ok)
qed

lemma address_length: "length (address_micro a) \<le> 10"
  by (cases a) (simp_all add: absolute_micro_def)

lemma instr_length: "length (instr_micro i b) \<le> 20"
proof (cases i)
  case (I_load r opnd)
  then show ?thesis using address_length by (cases opnd) (simp_all add: le_trans [OF address_length])
next
  case (I_arith f opnd)
  then show ?thesis using address_length by (cases opnd) (simp_all add: le_trans [OF address_length])
next
  case (I_compare r opnd)
  then show ?thesis using address_length by (cases opnd) (simp_all add: le_trans [OF address_length])
qed (simp_all add: le_trans [OF address_length] absolute_micro_def push_pc_micro_def pull_micro_def vector_micro_def)

section \<open>Status coverage\<close>

lemma cover_statuses_accepts:
  "distinct sts \<Longrightarrow> set sts \<inter> set cov = {} \<Longrightarrow> cover_statuses op sts cov = Inr (rev sts @ cov)"
  by (induction op sts cov rule: cover_statuses.induct) auto

lemma flag_expands:
  obtains sts where "expand_partial cpu_status_encoder [(flag_name f, b)] = Inr sts"
    and "distinct sts" and "set sts = {st. bit st (flag_bit f) = b}"
proof -
  have "is_ok (expand_partial cpu_status_encoder [(flag_name f, b)])"
    by (subst expand_partial_ok)
      (cases f; simp add: cpu_status_encoder_def build_status_bits_def all_flags_def)+
  then obtain sts where sts: "expand_partial cpu_status_encoder [(flag_name f, b)] = Inr sts"
    by (rule is_okE)
  have wf: "status_bits_wf (encoder_bits cpu_status_encoder)"
    by (simp add: cpu_status_encoder_def build_status_bits_wf)
  have "set sts = {st. bit st (flag_bit f) = b}"
    using expand_partial_exact(1) [OF wf sts]
    by (auto simp: cpu_status_encoder_def matches_cpu_status flag_name_inject split: if_splits)
  with sts expand_partial_exact(2) [OF wf sts] show ?thesis by (rule that)
qed

lemma validate_flag_pair:
  assumes "map status_conditions vs = [[(flag_name f, b)], [(flag_name f, \<not> b)]]"
  shows "is_ok (validate_status cpu_status_encoder \<lparr>opcode = op, variants = vs\<rparr>)"
proof -
  obtain v w where vs: "vs = [v, w]" "status_conditions v = [(flag_name f, b)]"
    "status_conditions w = [(flag_name f, \<not> b)]"
    using assms by (auto simp: map_eq_Cons_conv)
  obtain xs where xs: "expand_partial cpu_status_encoder [(flag_name f, b)] = Inr xs"
    "distinct xs" "set xs = {st. bit st (flag_bit f) = b}" by (rule flag_expands)
  obtain ys where ys: "expand_partial cpu_status_encoder [(flag_name f, \<not> b)] = Inr ys"
    "distinct ys" "set ys = {st. bit st (flag_bit f) = (\<not> b)}" by (rule flag_expands)
  have disj: "set ys \<inter> set xs = {}" "set xs \<union> set ys = UNIV" by (auto simp: xs(3) ys(3))
  have cover: "fold_ok (cover_variant cpu_status_encoder op) vs [] = Inr (rev ys @ rev xs)"
    using xs(2) ys(2) disj(1)
    by (simp add: vs cover_variant_def xs(1) ys(1) cover_statuses_accepts)
  have "length (rev ys @ rev xs) = card (set xs \<union> set ys)"
    using xs(2) ys(2) disj(1) by (simp add: card_Un_disjoint distinct_card Int_commute)
  also have "\<dots> = 256" by (simp add: disj(2) card_word)
  finally have "length (rev ys @ rev xs) = 256" .
  moreover have "length (encoder_bits cpu_status_encoder) = 8"
    by (simp add: cpu_status_encoder_def build_status_bits_def all_flags_def)
  ultimately show ?thesis using cover
    by (simp add: validate_status_def vs(1) is_ok_def)
qed

section \<open>The validators\<close>

definition isa_sequenced :: "isa_table \<Rightarrow> instruction_set" where
  "isa_sequenced tab =
     sequence_transformer (Ctl Sc Increment) (Ctl Sc Reset) (fetch_transformer (isa_source tab))"

definition table_wf :: "isa_table \<Rightarrow> bool" where
  "table_wf tab \<longleftrightarrow> distinct (map fst tab) \<and> (\<forall>(op, i)\<in>set tab. instr_ok i)"

definition final_program :: "instr \<Rightarrow> bool \<Rightarrow> step list" where
  "final_program i b =
     sequence_steps (Ctl Sc Increment) (Ctl Sc Reset) (program_steps (instr_micro i b))"

definition program_variants :: "instr \<Rightarrow> variant list" where
  "program_variants i =
     map (\<lambda>v. v\<lparr>steps := sequence_steps (Ctl Sc Increment) (Ctl Sc Reset)
       (fetch_micro @ map (\<lambda>t. t\<lparr>stage := stage t + 1\<rparr>) (steps v))\<rparr>) (instr_variants i)"

lemma fetch_micro_nonempty: "fetch_micro \<noteq> []"
  by (simp add: fetch_micro_def)

lemma instructions_isa_sequenced:
  "instructions (isa_sequenced tab) = map (\<lambda>(op, i). \<lparr>opcode = op, variants = program_variants i\<rparr>) tab"
  by (auto simp: isa_sequenced_def instructions_sequenced isa_source_def program_variants_def
    fetch_micro_nonempty)

lemma program_variants_steps:
  "v \<in> set (program_variants i) \<Longrightarrow> \<exists>b. steps v = final_program i b"
  by (auto simp: program_variants_def instr_variants_def final_program_def program_steps_def
    split: option.splits prod.splits)

lemma all_variants_steps:
  assumes "instructions s = instructions (isa_sequenced tab)" and "v \<in> set (all_variants s)"
  obtains op i b where "(op, i) \<in> set tab" and "steps v = final_program i b"
  using assms program_variants_steps
  by (fastforce simp: all_variants_def instructions_isa_sequenced)

lemma final_program_step:
  assumes "t \<in> set (final_program i b)"
  obtains u k where "t = add_control k u" and "u \<in> set (program_steps (instr_micro i b))"
    and "k = Ctl Sc Increment \<or> k = Ctl Sc Reset"
proof -
  obtain j where "j < length (program_steps (instr_micro i b))" "t = final_program i b ! j"
    using assms by (auto simp: final_program_def in_set_conv_nth)
  then show ?thesis
    by (intro that [of "if Suc j = length (program_steps (instr_micro i b)) then Ctl Sc Reset else Ctl Sc Increment"
        "program_steps (instr_micro i b) ! j"])
      (simp_all add: final_program_def sequence_steps_nth)
qed

lemma final_step_ok:
  assumes "instr_ok i" and "t \<in> set (final_program i b)"
  shows "is_ok (bus_validate_step (bus_map visit_cpu) t j)" and "is_ok (conflict_validate_step t j)"
    and "set (controls t) \<subseteq> set hdl_controls"
proof -
  obtain u k where u: "t = add_control k u" "u \<in> set (program_steps (instr_micro i b))"
    "k = Ctl Sc Increment \<or> k = Ctl Sc Reset"
    using final_program_step [OF assms(2)] .
  have "source_step_ok u" using program_step_ok [OF assms(1) u(2)] .
  with sequenced_step_ok [of u k] u(3)
  show "is_ok (bus_validate_step (bus_map visit_cpu) t j)" "is_ok (conflict_validate_step t j)"
    "set (controls t) \<subseteq> set hdl_controls"
    by (simp_all add: source_step_ok_def u(1))
qed

lemma final_program_stages: "is_ok (validate_stages (final_program i b))"
proof -
  let ?ms = "instr_micro i b"
  have seq: "map stage (sequence_steps inc res ts) = map stage ts" for inc res ts
    by (induction inc res ts rule: sequence_steps.induct) simp_all
  have st: "map stage (final_program i b) = [0, 0, 0] @ replicate (length ?ms) 1"
    by (simp add: final_program_def seq program_steps_def fetch_micro_def micro_steps_def
      map_replicate_const o_def)
  obtain n where n: "length ?ms = Suc n"
    using instr_micro_nonempty [of i b] by (cases ?ms) auto
  obtain t ts where ts: "final_program i b = t # ts" "stage t = 0"
    using st by (cases "final_program i b") auto
  have "is_ok (stages_monotonic (-1) 0 (final_program i b))"
    by (simp add: stages_monotonic_ok st sorted_append)
  moreover have "sort (remdups (map stage (final_program i b))) = [0, 1 :: int]"
  proof -
    have "remdups ([0, 0, 0] @ replicate (Suc n) 1) = [0, 1 :: int]"
      by (induction n) auto
    then show ?thesis by (simp add: st n)
  qed
  ultimately show ?thesis by (simp add: validate_stages_def ts is_ok_bind_unit bind_ok_id)
qed

lemma program_variants_status:
  "is_ok (validate_status cpu_status_encoder \<lparr>opcode = op, variants = program_variants i\<rparr>)"
proof (cases "instr_condition i")
  case None
  then show ?thesis by (simp add: validate_status_def program_variants_def instr_variants_def)
next
  case (Some fb)
  obtain f b where "fb = (f, b)" by (cases fb)
  with Some show ?thesis
    by (intro validate_flag_pair [of _ f b]) (simp add: program_variants_def instr_variants_def)
qed

lemma isa_seen_accepts:
  "distinct (map opcode is) \<Longrightarrow> opcode ` set is \<inter> set seen = {} \<Longrightarrow> opcode ` set is \<subseteq> set isa \<Longrightarrow>
   isa_seen isa is seen = Inr (rev (map opcode is) @ seen)"
  by (induction isa "is" seen rule: isa_seen.induct) auto

text \<open>What a preamble must satisfy.\<close>

definition preamble_ok :: "step list \<Rightarrow> bool" where
  "preamble_ok ts \<longleftrightarrow> is_ok (validate_stages ts) \<and>
     list_all (\<lambda>t. set (controls t) \<subseteq> set hdl_controls \<and> bus_disciplined (controls t) \<and>
       conflict_free (controls t)) ts"

lemma preamble_steps:
  assumes "preamble_ok ts" and "t \<in> set ts"
  shows "is_ok (bus_validate_step (bus_map visit_cpu) t i)" and "is_ok (conflict_validate_step t i)"
  using assms bus_validate_step_ok [of t i] conflict_free_step [of t i]
  by (auto simp: preamble_ok_def list_all_iff)

lemma isa_validates:
  assumes tab: "table_wf tab" and ops: "set ops = fst ` set tab"
    and s: "instructions s = instructions (isa_sequenced tab)" and pre: "preamble_ok (fetch_preamble s)"
  shows "run_all_validators (cpu_compiler ops) s = Inr ()"
proof -
  have ok: "instr_ok i" if "(op, i) \<in> set tab" for op i
    using tab that by (auto simp: table_wf_def)
  have steps: "is_ok (bus_validate_step (bus_map visit_cpu) (steps v ! j) j)"
    "is_ok (conflict_validate_step (steps v ! j) j)" "is_ok (validate_stages (steps v))"
    if v: "v \<in> set (all_variants s)" and j: "j < length (steps v)" for v j
  proof -
    obtain op i b where i: "(op, i) \<in> set tab" "steps v = final_program i b"
      using all_variants_steps [OF s v] .
    have "steps v ! j \<in> set (final_program i b)" using j by (simp add: i(2)[symmetric])
    from final_step_ok [OF ok [OF i(1)] this] final_program_stages [of i b]
    show "is_ok (bus_validate_step (bus_map visit_cpu) (steps v ! j) j)"
      "is_ok (conflict_validate_step (steps v ! j) j)" "is_ok (validate_stages (steps v))"
      by (simp_all add: i(2))
  qed
  have bus: "bus_validator s = Inr ()" "control_conflict_validator s = Inr ()"
    unfolding is_ok_iff_Inr_unit [symmetric]
    using steps preamble_steps [OF pre]
    by (auto simp: bus_validator_def control_conflict_validator_def validate_steps_ok for_each_step_ok)
  have stages: "stage_validator s = Inr ()"
  proof -
    have "is_ok (validate_stages (steps v))" if i: "i \<in> set (instructions s)" "v \<in> set (variants i)" for i v
    proof -
      have "v \<in> set (all_variants s)" using i by (auto simp: all_variants_def)
      from steps(3) [OF this, of 0] show ?thesis
        by (cases "steps v") (auto simp: validate_stages_def)
    qed
    then show ?thesis unfolding is_ok_iff_Inr_unit [symmetric]
      using pre by (simp add: stage_validator_def is_ok_bind_unit for_each_variant_ok preamble_ok_def)
  qed
  have status: "status_validator cpu_status_encoder s = Inr ()"
    unfolding is_ok_iff_Inr_unit [symmetric] status_validator_def fold_ok_unit_is_ok
    using program_variants_status by (auto simp: s instructions_isa_sequenced)
  have opcodes: "map opcode (instructions s) = map fst tab"
    by (auto simp: s instructions_isa_sequenced)
  have "opcode ` set (instructions s) = fst ` set tab"
    using arg_cong [OF opcodes, of set] by simp
  then have seen: "isa_seen ops (instructions s) [] = Inr (rev (map opcode (instructions s)) @ [])"
    by (intro isa_seen_accepts) (use tab ops in \<open>simp_all add: opcodes table_wf_def\<close>)
  have "length (remdups ops) = length tab"
    using tab ops
    by (metis length_map list.set_map length_remdups_card_conv distinct_card table_wf_def)
  then have coverage: "isa_coverage_validator ops s = Inr ()"
    using arg_cong [OF opcodes, of length] by (simp add: isa_coverage_validator_def seen)
  have "sequence_validator (Ctl Sc Increment) (Ctl Sc Reset) s =
      sequence_validator (Ctl Sc Increment) (Ctl Sc Reset) (isa_sequenced tab)"
    by (simp add: sequence_validator_def for_each_variant_def s)
  then have seq: "sequence_validator (Ctl Sc Increment) (Ctl Sc Reset) s = Inr ()"
    by (simp add: isa_sequenced_def sequence_transformer_validates)
  show ?thesis
    by (simp add: run_all_validators_def cpu_compiler_def bus stages status coverage seq)
qed

section \<open>Compilation\<close>

lemma isa_optimized:
  "instructions (empty_step_optimizer (isa_sequenced tab)) = instructions (isa_sequenced tab)"
  "instructions (duplicate_step_optimizer (empty_step_optimizer (isa_sequenced tab))) =
     instructions (isa_sequenced tab)"
  "instructions (step_merging_optimizer (duplicate_step_optimizer (empty_step_optimizer (isa_sequenced tab)))) =
     instructions (isa_sequenced tab)"
proof -
  let ?inc = "Ctl Sc Increment" and ?res = "Ctl Sc Reset"
  let ?s2 = "isa_sequenced tab"
  have ph: "ctl_phase ?inc = Phase_Process" "ctl_phase ?res = Phase_Process" by simp_all
  have seq: "sequence_validator ?inc ?res s = Inr ()" if "instructions s = instructions ?s2" for s
  proof -
    have "sequence_validator ?inc ?res s = sequence_validator ?inc ?res ?s2"
      by (simp add: sequence_validator_def for_each_variant_def that)
    then show ?thesis by (simp add: isa_sequenced_def sequence_transformer_validates)
  qed
  show e: "instructions (empty_step_optimizer ?s2) = instructions ?s2"
    by (rule empty_step_optimizer_sequenced [OF seq [OF refl] ph])
  have "dedup_steps (steps v) = steps v" if v: "v \<in> set (all_variants ?s2)" for v
  proof -
    obtain op i b where i: "(op, i) \<in> set tab" "steps v = final_program i b"
      using all_variants_steps [OF refl v] .
    have "dedup_steps (final_program i b) = final_program i b"
      unfolding final_program_def
      by (rule sequence_steps_distinct)
        (use micro_controls_distinct [of i b] program_sc_free in
          \<open>auto simp: program_steps_sels(1) micro_steps_def o_def\<close>)
    then show ?thesis by (simp add: i(2))
  qed
  then have "instructions (optimize_all dedup_steps ?s2) = instructions ?s2" by (rule optimize_all_id_on)
  then show d: "instructions (duplicate_step_optimizer (empty_step_optimizer ?s2)) = instructions ?s2"
    unfolding duplicate_step_optimizer_def using instructions_optimize_cong [OF e] by metis
  show "instructions (step_merging_optimizer (duplicate_step_optimizer (empty_step_optimizer ?s2))) =
      instructions ?s2"
    using step_merging_optimizer_sequenced [OF seq [OF d] ph] d by simp
qed

lemma preamble_okI:
  "validate_stages ts = Inr () \<Longrightarrow> (\<And>t. t \<in> set ts \<Longrightarrow> source_step_ok t) \<Longrightarrow> preamble_ok ts"
  by (auto simp: preamble_ok_def list_all_iff source_step_ok_def step_controls_ok_def)

lemma preambles_ok:
  "preamble_ok fetch_micro" "preamble_ok (remove_empty_steps fetch_micro)"
  "preamble_ok (dedup_steps (remove_empty_steps fetch_micro))"
  "preamble_ok (merge_all_steps (dedup_steps (remove_empty_steps fetch_micro)))"
proof -
  let ?m = "\<lparr>stage = 0, controls = [Ctl Memory Write, Ctl Ir Read, Ctl Pc Increment]\<rparr>"
  have eqs: "remove_empty_steps fetch_micro = fetch_micro" "dedup_steps fetch_micro = fetch_micro"
    "merge_all_steps fetch_micro = [hd fetch_micro, ?m]"
    by code_simp+
  have ir: "step_controls_ok (controls ?m)" by code_simp
  have stages: "validate_stages [hd fetch_micro, ?m] = Inr ()" by code_simp
  have "source_step_ok ?m"
    using ir by (simp add: source_step_ok_def bus_disciplined_def bus_info_def bus_type_all conflict_free_def sc_free_def)
  moreover have "source_step_ok (hd fetch_micro)" by (rule fetch_step_ok) (simp add: fetch_micro_def)
  ultimately have m: "preamble_ok [hd fetch_micro, ?m]"
    by (intro preamble_okI [OF stages]) auto
  have "preamble_ok fetch_micro"
    by (rule preamble_okI) (code_simp, rule fetch_step_ok)
  with m show "preamble_ok fetch_micro" "preamble_ok (remove_empty_steps fetch_micro)"
    "preamble_ok (dedup_steps (remove_empty_steps fetch_micro))"
    "preamble_ok (merge_all_steps (dedup_steps (remove_empty_steps fetch_micro)))"
    by (simp_all add: eqs)
qed

lemma isa_source_preamble: "fetch_preamble (isa_sequenced tab) = fetch_micro"
  by (simp add: isa_sequenced_def sequence_transformer_def fetch_transformer_def isa_source_def)

lemma isa_fetch_valid: "fetch_validator (fetch_transformer (isa_source tab)) = Inr ()"
  unfolding is_ok_iff_Inr_unit [symmetric]
  by (auto simp: fetch_validator_def fetch_transformer_def isa_source_def fetch_micro_nonempty
    map_variants_def for_each_variant_ok instr_variants_def micro_steps_def fetch_micro_def
    fold_ok_unit_is_ok controls_equal_def o_def split: option.splits)

lemma isa_compiles:
  assumes "table_wf tab" and "set ops = fst ` set tab"
  shows "\<exists>p. compile (cpu_compiler ops) (isa_source tab) = Inr p"
proof -
  let ?c = "cpu_compiler ops"
  let ?s2 = "isa_sequenced tab"
  let ?s3 = "empty_step_optimizer ?s2"
  let ?s4 = "duplicate_step_optimizer ?s3"
  let ?s5 = "step_merging_optimizer ?s4"
  note valid = isa_validates [OF assms]
  have pre: "fetch_preamble ?s3 = remove_empty_steps fetch_micro"
    "fetch_preamble ?s4 = dedup_steps (remove_empty_steps fetch_micro)"
    "fetch_preamble ?s5 = merge_all_steps (dedup_steps (remove_empty_steps fetch_micro))"
    by (simp_all add: empty_step_optimizer_def duplicate_step_optimizer_def
      step_merging_optimizer_def isa_source_preamble)
  have v: "run_all_validators ?c ?s2 = Inr ()" "run_all_validators ?c ?s3 = Inr ()"
    "run_all_validators ?c ?s4 = Inr ()" "run_all_validators ?c ?s5 = Inr ()"
    by (rule valid; simp add: isa_optimized pre isa_source_preamble preambles_ok)+
  have "\<exists>p. encode_program ?c ?s5 = Inr p"
  proof (rule validated_encodes [OF v(4)])
    fix v assume "v \<in> set (all_variants ?s5)"
    then obtain op i b where i: "(op, i) \<in> set tab" "steps v = final_program i b"
      using all_variants_steps [OF isa_optimized(3)] by metis
    show "length (steps v) \<le> 256"
      using instr_length [of i b] by (simp add: i(2) final_program_def program_steps_sels)
    have "instr_ok i" using assms(1) i(1) by (auto simp: table_wf_def)
    then show "set (controls t) \<subseteq> set hdl_controls" if "t \<in> set (steps v)" for t
      using final_step_ok(3) that by (simp add: i(2))
  qed
  then obtain p where p: "encode_program ?c ?s5 = Inr p" by blast
  have c: "increment_control ?c = Ctl Sc Increment" "reset_control ?c = Ctl Sc Reset"
    by (simp_all add: cpu_compiler_def)
  have "compile ?c (isa_source tab) = Inr p"
    unfolding compile_def Let_def c isa_fetch_valid bind_ok_Inr isa_sequenced_def [symmetric] v p ..
  then show ?thesis by blast
qed

lemma isa_table_ok: "table_wf isa_table"
proof -
  have "successively (<) (sort (map fst isa_table))" by code_simp
  then have "sorted_wrt (<) (sort (map fst isa_table))"
    by (subst (asm) successively_conv_sorted_wrt) (auto simp: transp_def)
  then have "distinct (map fst isa_table)" by (simp add: strict_sorted_iff)
  moreover have "list_all (\<lambda>(op, i). case i of I_transfer j k \<Rightarrow> j \<noteq> k | _ \<Rightarrow> True) isa_table" by code_simp
  ultimately show ?thesis by (auto simp: table_wf_def instr_ok_def list_all_iff)
qed

end
