(* ===== verification/Isa_Programs.thy ===== *)
theory Isa_Programs
  imports Isa_Compile
begin

text \<open>
  Programs: a processor that boots a cartridge starts in the initial state of the programmer's
  model, every run of the model is a run of the processor, and the exit code of the simulator
  command is decided by the model.
\<close>

section \<open>Boot\<close>

text \<open>All registers are zero at the entry point, the stack pointer included.\<close>

definition isa_boot :: "u8 list \<Rightarrow> isa" where
  "isa_boot rom =
     \<lparr>isa_a = 0, isa_x = 0, isa_y = 0, isa_sp = 0, isa_st = 0, isa_pc = 0x8000,
      isa_mem = cartridge_memory rom, isa_line = False, isa_halted = False, isa_crashed = False\<rparr>"

definition booted :: "instruction_memory \<Rightarrow> u8 list \<Rightarrow> cpu" where
  "booted im rom =
     set_byte Ir (rom ! 0) (set_byte Sc 0 (set_word Pc 0x8000 (fresh_cpu im (cartridge_memory rom))))"

lemma cartridge_no_input: "\<not> has_input (cartridge_memory rom)"
  by (simp add: has_input_def cartridge_memory_def)

lemma booted_view: "isa_view (booted im rom) = isa_boot rom"
  by (simp add: isa_view_def isa_of_def core_of_def booted_def isa_boot_def fresh_cpu_def
    set_byte_def set_word_def irq_up_def irq_after_no_input cartridge_no_input)

lemma booted_cycles: "cycle_count (booted im rom) = 0"
  by (simp add: booted_def fresh_cpu_def set_byte_def set_word_def)

lemma cartridge_memory_wf:
  assumes "cartridge_size_ok (length rom)"
  shows "memory_wf (cartridge_memory rom)"
proof -
  have "overlap_pairs (cartridge_memory rom) = []"
    using build_cartridge_memory [OF assms] by (auto simp: make_memory_eq_Inr elim!: bind_ok_eq_InrE)
  then show ?thesis
    using cartridge_size_bounds [OF assms] assms
    by (simp add: memory_wf_def cartridge_memory_def region_wf_def region_size_def
      cartridge_size_ok_def is_power_of_two_def)
qed

lemma booted_between:
  assumes "cartridge_size_ok (length rom)" and "rom ! 0 \<in> fst ` set tab"
  shows "between im tab (booted im rom)"
  using assms cartridge_memory_wf
  by (simp add: between_def ready_def idle_def booted_def fresh_cpu_def set_byte_def set_word_def
    ir_value_def)

text \<open>The processor that is built and booted from compiled microcode and a cartridge.\<close>

lemma program_boots:
  assumes "compile (cpu_compiler ops) (isa_source tab) = Inr p" and "cartridge_size_ok (length rom)"
  obtains im where "make_instruction_memory hdl_controls p = Inr im" and "table_loaded im tab"
    and "bind_ok (make_cpu p rom []) (boot 0x8000) = Inr (booted im rom)"
proof -
  obtain im where im: "make_instruction_memory hdl_controls p = Inr im" "table_loaded im tab"
    by (rule compiled_table_loaded [OF assms(1)])
  have "make_cpu p rom [] = Inr (fresh_cpu im (cartridge_memory rom))"
    by (rule make_cpu_ok [OF im(1) build_cartridge_memory [OF assms(2)]])
  then have "bind_ok (make_cpu p rom []) (boot 0x8000) = Inr (booted im rom)"
    using boot_cartridge [OF assms(2)] by (simp add: booted_def fresh_cpu_def)
  with im show ?thesis by (rule that)
qed

lemma booted_running:
  assumes "table_loaded im tab" and "cartridge_size_ok (length rom)" and "rom ! 0 \<in> fst ` set tab"
  shows "running tab (booted im rom)"
  using assms(1) booted_between [OF assms(2,3)] by (auto simp: running_def)

section \<open>Runs to the end\<close>

lemma ticks_run_loop:
  "ticks k s = r \<Longrightarrow> (\<forall>t. r = Inr t \<longrightarrow> halted t) \<Longrightarrow> run_loop s = Some r"
proof (induction k arbitrary: s)
  case 0
  then show ?case by (auto simp: run_loop.simps)
next
  case (Suc k)
  show ?case
  proof (cases "halted s")
    case True
    have "ticks n s = Inr s" for n using True by (induction n) (simp_all add: tick_def)
    then show ?thesis using Suc.prems True by (subst run_loop.simps) simp
  next
    case False
    then show ?thesis using Suc by (subst run_loop.simps) (cases "tick s"; auto)
  qed
qed

lemma isa_view_stopped:
  "isa_view t = u \<Longrightarrow> halted t = isa_halted u \<and> crashed t = isa_crashed u"
  by (auto simp: isa_view_def isa_of_def core_of_def)

text \<open>A run of the model that stops, in a halt or an error, is a run of the processor.\<close>

definition isa_stopped :: "sim_error + isa \<Rightarrow> bool" where
  "isa_stopped r = (case r of Inl e \<Rightarrow> True | Inr u \<Rightarrow> isa_halted u)"

lemma stopped_run:
  assumes "table_loaded im tab" and "between im tab s" and "isa_run tab n (isa_view s) = Some r"
    and "isa_stopped r"
  obtains q where "run_until_halt s = Some q" and "case r of
      Inl e \<Rightarrow> q = Inl e
    | Inr u \<Rightarrow> \<exists>res t. q = Inr (res, t) \<and> isa_view t = u \<and>
        result_reason res = (if isa_crashed u then Reason_crash else Reason_halt) \<and>
        result_cycles res = cycle_count s + of_nat (isa_time tab n (isa_view s))"
proof -
  let ?k = "isa_time tab n (isa_view s)"
  have "running tab s" using assms(1,2) by (auto simp: running_def)
  from processor.iterate_refined [OF this assms(3) [unfolded isa_run_def]]
  have k: "case r of Inl e \<Rightarrow> ticks ?k s = Inl e
    | Inr u \<Rightarrow> \<exists>t. ticks ?k s = Inr t \<and> isa_view t = u \<and> running tab t \<and>
        cycle_count t = cycle_count s + of_nat ?k"
    by (simp only: isa_time_def)
  show ?thesis
  proof (cases r)
    case (Inl e)
    then have "run_loop s = Some (Inl e)" using k ticks_run_loop [of ?k s "Inl e"] by simp
    then show ?thesis by (intro that [of "Inl e"]) (simp_all add: run_until_halt_def Inl)
  next
    case (Inr u)
    then obtain t where t: "ticks ?k s = Inr t" "isa_view t = u"
      "cycle_count t = cycle_count s + of_nat ?k" using k by auto
    have h: "halted t" "crashed t = isa_crashed u"
      using isa_view_stopped [OF t(2)] assms(4) by (simp_all add: isa_stopped_def Inr)
    then have "run_loop s = Some (Inr t)" using ticks_run_loop [OF t(1)] by simp
    then show ?thesis
      by (intro that [of "Inr (\<lparr>result_reason = (if crashed t then Reason_crash else Reason_halt),
          result_cycles = cycle_count t\<rparr>, t)"])
        (simp_all add: run_until_halt_def Inr t h)
  qed
qed

section \<open>The simulator command\<close>

definition isa_exit :: "sim_error + isa \<Rightarrow> int" where
  "isa_exit r = (case r of Inl e \<Rightarrow> 1 | Inr u \<Rightarrow> if isa_crashed u then 2 else 0)"

lemma program_outcome:
  assumes micro: "compile (cpu_compiler ops) (isa_source tab) = Inr p"
    and pass: "first_pass isa options program = Inr pass"
    and enc: "encode pass options file = Inr result" and std: "standard_options options"
    and args: "files path = Some (write_cartridge result)" "plain_argument path"
    and first: "a_rom result ! 0 \<in> fst ` set tab"
    and run: "isa_run tab n (isa_boot (a_rom result)) = Some r" and stop: "isa_stopped r"
  shows "run_main p files texts [path] = Some (Exit (isa_exit r), [])"
proof -
  note m = result_memory [OF pass enc std]
  let ?rom = "a_rom result"
  obtain im where im: "make_instruction_memory hdl_controls p = Inr im" "table_loaded im tab"
    and boot: "bind_ok (make_cpu p ?rom []) (boot 0x8000) = Inr (booted im ?rom)"
    by (rule program_boots [OF micro m(1)])
  have view: "isa_run tab n (isa_view (booted im ?rom)) = Some r" using run by (simp add: booted_view)
  obtain q where q: "run_until_halt (booted im ?rom) = Some q" "case r of
      Inl e \<Rightarrow> q = Inl e
    | Inr u \<Rightarrow> \<exists>res t. q = Inr (res, t) \<and> isa_view t = u \<and>
        result_reason res = (if isa_crashed u then Reason_crash else Reason_halt) \<and>
        result_cycles res = cycle_count (booted im ?rom) + of_nat (isa_time tab n (isa_view (booted im ?rom)))"
    using stopped_run [OF im(2) booted_between [OF m(1) first] view stop] .
  let ?a = "default_run_args\<lparr>cartridge_path := path\<rparr>"
  have origin: "opt_origin options = 0x8000" using std by (simp add: standard_options_def)
  obtain a where a: "run_arguments [path] = Inr a" "cartridge_path a = path"
    "run_symbols a texts = Some (Inr None)" "\<And>s. trace_setup a s = s" "expect_crash a = False"
    "\<And>syms reason t. failure_dump a syms reason t = []"
    "\<And>s. run_bounded (max_cycles_arg a) s = run_until_halt s"
    by (rule that [of ?a])
      (use args(2) in \<open>simp_all add: run_arguments_def plain_argument_def default_run_args_def
        run_symbols_def trace_setup_def failure_dump_def run_bounded_def Let_def\<close>)
  have cart: "run_main p files texts [path] = (case run_until_halt (booted im ?rom) of
      None \<Rightarrow> None | Some (Inl e) \<Rightarrow> Some (Exit 1, [])
    | Some (Inr (res, s')) \<Rightarrow> Some (Exit (exit_code False (result_reason res)), []))"
    using boot
    by (simp add: run_main_def a run_cartridge_def args(1) m(2,3) origin
      split: option.splits sum.splits prod.splits)
  show ?thesis
  proof (cases r)
    case (Inl e)
    with q show ?thesis by (simp add: cart isa_exit_def)
  next
    case (Inr u)
    then obtain res t where "q = Inr (res, t)"
      "result_reason res = (if isa_crashed u then Reason_crash else Reason_halt)"
      using q(2) by auto
    with q(1) Inr show ?thesis by (simp add: cart isa_exit_def exit_code_def)
  qed
qed

end
