(* ===== verification/Isa_Assembler.thy ===== *)
theory Isa_Assembler
  imports Isa_Programs Asm_Assembler
begin

text \<open>
  The assembler's side of the instruction set: mnemonic, addressing mode and operand bytes of
  every opcode of \<open>isa/instructions.yaml\<close>, and that an instruction consumes as many bytes as the
  assembler emits for it.
\<close>

section \<open>Mnemonics and modes\<close>

primrec index_letter :: "index \<Rightarrow> char" where
  "index_letter In_a = CHR ''A''"
| "index_letter In_x = CHR ''X''"
| "index_letter In_y = CHR ''Y''"

primrec mem_addressing :: "mem_mode \<Rightarrow> addressing_mode" where
  "mem_addressing At_zero_page = ZP"
| "mem_addressing At_zero_page_x = ZPX"
| "mem_addressing At_zero_page_y = ZPY"
| "mem_addressing At_absolute = ABS"
| "mem_addressing At_absolute_x = ABX"
| "mem_addressing At_absolute_y = ABY"
| "mem_addressing At_indexed_indirect = IZX"
| "mem_addressing At_indirect_indexed = IZY"

primrec operand_addressing :: "instr_operand \<Rightarrow> addressing_mode" where
  "operand_addressing Immediate = IMM"
| "operand_addressing (In_memory m) = mem_addressing m"

primrec arith_mnemonic :: "arith \<Rightarrow> string" where
  "arith_mnemonic Op_adc = ''ADC''"
| "arith_mnemonic Op_sbc = ''SBC''"
| "arith_mnemonic Op_and = ''AND''"
| "arith_mnemonic Op_ora = ''ORA''"
| "arith_mnemonic Op_eor = ''EOR''"

primrec modify_mnemonic :: "modify \<Rightarrow> string" where
  "modify_mnemonic Op_asl = ''ASL''"
| "modify_mnemonic Op_lsr = ''LSR''"
| "modify_mnemonic Op_rol = ''ROL''"
| "modify_mnemonic Op_ror = ''ROR''"
| "modify_mnemonic Op_inc = ''INC''"
| "modify_mnemonic Op_dec = ''DEC''"

definition register_mnemonic :: "modify \<Rightarrow> index \<Rightarrow> string" where
  "register_mnemonic f i =
     (case (f, i) of
        (Op_inc, In_x) \<Rightarrow> ''INX'' | (Op_inc, In_y) \<Rightarrow> ''INY''
      | (Op_dec, In_x) \<Rightarrow> ''DEX'' | (Op_dec, In_y) \<Rightarrow> ''DEY''
      | _ \<Rightarrow> modify_mnemonic f)"

definition branch_mnemonic :: "flag \<Rightarrow> bool \<Rightarrow> string" where
  "branch_mnemonic f b =
     (case f of
        Zero \<Rightarrow> if b then ''BEQ'' else ''BNE''
      | Carry \<Rightarrow> if b then ''BCS'' else ''BCC''
      | Negative \<Rightarrow> if b then ''BMI'' else ''BPL''
      | Overflow \<Rightarrow> if b then ''BVS'' else ''BVC''
      | _ \<Rightarrow> [])"

primrec instr_info :: "instr \<Rightarrow> string \<times> addressing_mode" where
  "instr_info I_hlt = (''HLT'', IMP)"
| "instr_info I_nop = (''NOP'', IMP)"
| "instr_info I_crs = (''CRS'', IMP)"
| "instr_info (I_load i opnd) = (''LD'' @ [index_letter i], operand_addressing opnd)"
| "instr_info (I_store i m) = (''ST'' @ [index_letter i], mem_addressing m)"
| "instr_info (I_arith f opnd) = (arith_mnemonic f, operand_addressing opnd)"
| "instr_info (I_compare i opnd) =
     (if i = In_a then ''CMP'' else ''CP'' @ [index_letter i], operand_addressing opnd)"
| "instr_info (I_bit m) = (''BIT'', mem_addressing m)"
| "instr_info (I_modify f m) = (modify_mnemonic f, mem_addressing m)"
| "instr_info (I_modify_register f i) = (register_mnemonic f i, IMP)"
| "instr_info (I_transfer i j) = (''T'' @ [index_letter i, index_letter j], IMP)"
| "instr_info I_tsx = (''TSX'', IMP)"
| "instr_info I_txs = (''TXS'', IMP)"
| "instr_info (I_branch f b) = (branch_mnemonic f b, REL)"
| "instr_info I_jeq = (''JEQ'', ABS)"
| "instr_info I_jmp = (''JMP'', ABS)"
| "instr_info I_jmp_indirect = (''JMP'', IND)"
| "instr_info I_jsr = (''JSR'', ABS)"
| "instr_info I_rts = (''RTS'', IMP)"
| "instr_info I_pha = (''PHA'', IMP)"
| "instr_info I_pla = (''PLA'', IMP)"
| "instr_info I_php = (''PHP'', IMP)"
| "instr_info I_plp = (''PLP'', IMP)"
| "instr_info I_brk = (''BRK'', IMP)"
| "instr_info I_irq = (''IRQ'', IMP)"
| "instr_info I_rti = (''RTI'', IMP)"
| "instr_info I_clc = (''CLC'', IMP)"
| "instr_info I_sec = (''SEC'', IMP)"
| "instr_info I_clv = (''CLV'', IMP)"

primrec mode_bytes :: "addressing_mode \<Rightarrow> u8" where
  "mode_bytes IMP = 0"
| "mode_bytes IMM = 1"
| "mode_bytes ZP = 1"
| "mode_bytes ZPX = 1"
| "mode_bytes ZPY = 1"
| "mode_bytes ABS = 2"
| "mode_bytes ABX = 2"
| "mode_bytes ABY = 2"
| "mode_bytes IND = 2"
| "mode_bytes IZX = 1"
| "mode_bytes IZY = 1"
| "mode_bytes REL = 1"

definition table_info :: "isa_table \<Rightarrow> isa_info" where
  "table_info tab =
     \<lparr>isa_instructions = map (\<lambda>(op, i).
        \<lparr>i_mnemonic = fst (instr_info i), i_mode = snd (instr_info i), i_opcode = op\<rparr>) tab,
      isa_operand_bytes = (\<lambda>m. Some (mode_bytes m))\<rparr>"

section \<open>Instruction lengths\<close>

text \<open>An instruction that goes on behind its operands.\<close>

definition sequential :: "isa \<Rightarrow> instr \<Rightarrow> bool" where
  "sequential u i =
     (case i of
        I_branch f b \<Rightarrow> status_value f (isa_st u) \<noteq> b
      | I_jeq \<Rightarrow> \<not> status_value Zero (isa_st u)
      | _ \<Rightarrow> i \<notin> {I_jmp, I_jmp_indirect, I_jsr, I_rts, I_rti, I_brk, I_irq})"

lemma isa_pc_flag [simp]: "isa_pc (isa_flag f b u) = isa_pc u"
  by (simp add: isa_flag_def)

lemma isa_pc_tested [simp]: "isa_pc (isa_tested v u) = isa_pc u"
  by (simp add: isa_tested_def)

lemma isa_pc_load [simp]: "isa_pc (isa_load i v u) = isa_pc u"
  by (cases i) (simp_all add: isa_load_def)

lemma isa_read_pc: "isa_read a u = Inr (v, u') \<Longrightarrow> isa_pc u' = isa_pc u \<and> isa_st u' = isa_st u"
  by (auto simp: isa_read_def elim!: bind_ok_eq_InrE)

lemma isa_write_pc: "isa_write a v u = Inr u' \<Longrightarrow> isa_pc u' = isa_pc u"
  by (auto simp: isa_write_def elim!: bind_ok_eq_InrE)

lemma isa_next_pc: "isa_next u = Inr (v, u') \<Longrightarrow> isa_pc u' = isa_pc u + 1 \<and> isa_st u' = isa_st u"
  by (auto simp: isa_next_def elim!: bind_ok_eq_InrE dest: isa_read_pc)

lemma isa_next_word_pc:
  "isa_next_word u = Inr (v, u') \<Longrightarrow> isa_pc u' = isa_pc u + 2 \<and> isa_st u' = isa_st u"
  by (auto simp: isa_next_word_def elim!: bind_ok_eq_InrE dest!: isa_next_pc)

lemma isa_read_word_pc: "isa_read_word a b u = Inr (v, u') \<Longrightarrow> isa_pc u' = isa_pc u"
  by (auto simp: isa_read_word_def elim!: bind_ok_eq_InrE dest!: isa_read_pc)

lemma isa_push_pc_kept: "isa_push v u = Inr u' \<Longrightarrow> isa_pc u' = isa_pc u"
  by (auto simp: isa_push_def elim!: bind_ok_eq_InrE dest: isa_write_pc)

lemma isa_pull_pc_kept: "isa_pull u = Inr (v, u') \<Longrightarrow> isa_pc u' = isa_pc u"
  by (auto simp: isa_pull_def dest: isa_read_pc)

lemma isa_address_pc:
  "isa_address m u = Inr (a, u') \<Longrightarrow> isa_pc u' = isa_pc u + ucast (mode_bytes (mem_addressing m))"
  by (cases m) (auto elim!: bind_ok_eq_InrE dest!: isa_next_pc isa_next_word_pc isa_read_word_pc)

lemma isa_operand_pc:
  "isa_operand opnd u = Inr (a, u') \<Longrightarrow> isa_pc u' = isa_pc u + ucast (mode_bytes (operand_addressing opnd))"
  by (cases opnd) (auto elim!: bind_ok_eq_InrE dest!: isa_next_pc isa_address_pc isa_read_pc)

lemma isa_exec_length:
  assumes "isa_exec i u = Inr u'" and "sequential u i"
  shows "isa_pc u' = isa_pc u + ucast (mode_bytes (snd (instr_info i)))"
  using assms
  by (cases i) (auto simp: sequential_def Let_def elim!: bind_ok_eq_InrE split: prod.splits if_splits
    dest!: isa_next_pc isa_next_word_pc isa_address_pc isa_operand_pc isa_read_pc isa_write_pc
      isa_push_pc_kept isa_pull_pc_kept)

text \<open>A step of the model is behind the bytes that the assembler counts for the instruction.\<close>

lemma step_length:
  assumes "isa_step tab u = Some (Inr u')" and "\<not> isa_halted u" and "isa_next u = Inr (v, w)"
    and "map_of tab (isa_decoded u v) = Some i" and "sequential u i"
  shows "\<exists>info\<in>set (isa_instructions (table_info tab)). i_opcode info = isa_decoded u v \<and>
    isa_operand_bytes (table_info tab) (i_mode info) = Some (mode_bytes (i_mode info)) \<and>
    isa_pc u' = isa_pc u + 1 + ucast (mode_bytes (i_mode info))"
proof -
  have w: "isa_pc w = isa_pc u + 1" "sequential w i"
    using isa_next_pc [OF assms(3)] assms(5) by (simp_all add: sequential_def split: instr.splits)
  obtain x where x: "isa_exec i w = Inr x" "u' = isa_line_next x"
    using assms(1-4) by (auto simp: isa_step_def split: if_splits elim: bind_ok_eq_InrE)
  have "isa_pc u' = isa_pc w + ucast (mode_bytes (snd (instr_info i)))"
    using isa_exec_length [OF x(1) w(2)] by (simp add: x(2) isa_line_next_def)
  then show ?thesis
    using map_of_SomeD [OF assms(4)] by (force simp: table_info_def w(1))
qed

end
