(* ===== verification/Example_Isa.thy ===== *)
theory Example_Isa
  imports Isa_Assembler Example_Assembly
begin

text \<open>
  A program of two instructions of the repository's instruction set, for the witnesses: its
  assembly, its image and its run in the programmer's model.
\<close>

definition halting_text :: string where
  "halting_text = ''lda #5'' @ [newline] @ ''hlt'' @ [newline]"

definition halting_program :: "statement list" where
  "halting_program =
     [Instruction_Stmt ''lda'' [number_five] (example_span 1 1 3),
      Instruction_Stmt ''hlt'' [] (example_span 2 1 3)]"

definition halting_items :: "emittable list" where
  "halting_items =
     [\<lparr>e_address = 0x8000, e_span = example_span 1 1 3, e_text = ''lda 5'', e_kind = Emit_Instruction,
       e_mode = IMM, e_opcode = 0x10, e_operand_bytes = 1, e_operands = [number_five]\<rparr>,
      \<lparr>e_address = 0x8002, e_span = example_span 2 1 3, e_text = ''hlt'', e_kind = Emit_Instruction,
       e_mode = IMP, e_opcode = 0x01, e_operand_bytes = 0, e_operands = []\<rparr>]"

definition halting_pass :: first_pass_state where
  "halting_pass = \<lparr>fp_items = halting_items, fp_symbols = [], fp_constants = [],
     fp_origin = 0x8000, fp_max_address = 0x8002, fp_cursor = 0x8003\<rparr>"

lemma halting_parses:
  "bind_ok (lex_source (make_lexer halting_text ''f'')) parse = Inr halting_program"
  by code_simp

lemma halting_select:
  "select_instruction (table_info isa_table) ''lda'' [number_five] sp =
     Inr \<lparr>i_mnemonic = ''LDA'', i_mode = IMM, i_opcode = 0x10\<rparr>"
  "select_instruction (table_info isa_table) ''hlt'' [] sp =
     Inr \<lparr>i_mnemonic = ''HLT'', i_mode = IMP, i_opcode = 0x01\<rparr>"
  by code_simp+

lemma halting_texts:
  "format_instruction_text ''lda'' [number_five] = ''lda 5''"
  "format_instruction_text ''hlt'' [] = ''hlt''"
  by code_simp+

lemma halting_pass: "first_pass (table_info isa_table) example_options halting_program = Inr halting_pass"
proof -
  have "isa_operand_bytes (table_info isa_table) m = Some (mode_bytes m)" for m
    by (simp add: table_info_def)
  then show ?thesis
    by (simp add: first_pass_def first_pass_init_def halting_program_def example_options_def
      halting_select halting_texts place_item_def validate_cursor_def
      update_max_address_def emplace_def halting_pass_def halting_items_def Let_def throw_if_def)
qed

lemma halting_resolves: "resolve_byte_operand halting_pass number_five = Inr 5"
  by (simp add: resolve_byte_operand_def number_five_def)

lemma halting_encodes: "is_ok (encode halting_pass example_options ''f'')"
  using halting_resolves
  by (simp add: encode_def Let_def halting_pass_def halting_items_def example_options_def
    encode_item_def encode_instruction_item_def)

definition halting_image :: "u8 list" where
  "halting_image = [0x10, 5, 0x01, 0xFF, 0xFF, 0xFF, 0xFF, 0xFF]"

lemma halting_image_size: "cartridge_size_ok (length halting_image)"
proof -
  have "length halting_image = 8" by (simp add: halting_image_def)
  then show ?thesis using example_standard by (simp add: standard_options_def example_options_def)
qed

lemma halting_rom_image: "rom_image halting_pass example_options = halting_image"
proof -
  obtain i0 i1 where items: "halting_items = [i0, i1]" "e_address i0 = 0x8000" "e_address i1 = 0x8002"
      "the_bytes halting_pass i0 = [0x10, 5]" "the_bytes halting_pass i1 = [0x01]"
    using halting_resolves by (simp add: the_bytes_def item_bytes_def operand_value_def halting_items_def)
  have opts: "unat (opt_origin example_options) = 0x8000" "unat (opt_rom_size example_options) = 8"
    by (simp_all add: example_options_def)
  have pass: "fp_items halting_pass = [i0, i1]" using items(1) by (simp add: halting_pass_def)
  have fill: "replicate 8 (0xFF :: u8) = [0xFF, 0xFF, 0xFF, 0xFF, 0xFF, 0xFF, 0xFF, 0xFF]"
    by (simp add: numeral_eq_Suc)
  show ?thesis
    unfolding rom_image_def opts fill pass
    by (simp add: write_item_def items(2-5) halting_image_def)
qed

section \<open>The run\<close>

lemma halting_opcodes:
  "map_of isa_table 0x10 = Some (I_load In_a Immediate)" "map_of isa_table 0x01 = Some I_hlt"
  by code_simp+

lemma halting_reads:
  "read_at 0x8000 (cartridge_memory halting_image) = Inr (0x10, cartridge_memory halting_image)"
  "read_at 0x8001 (cartridge_memory halting_image) = Inr (5, cartridge_memory halting_image)"
  "read_at 0x8002 (cartridge_memory halting_image) = Inr (0x01, cartridge_memory halting_image)"
  using halting_image_size
  by (simp_all add: read_cartridge_memory halting_image_def)

definition halting_loaded :: isa where
  "halting_loaded = (isa_boot halting_image)\<lparr>isa_a := 5, isa_pc := 0x8002\<rparr>"

lemma halting_irq: "irq_after (cartridge_memory halting_image) False = False"
  by (simp add: irq_after_no_input cartridge_no_input)

lemmas halting_simps =
  isa_step_def isa_next_def isa_read_def isa_decoded_def isa_line_next_def halting_reads
  halting_opcodes halting_irq isa_boot_def halting_loaded_def

lemma halting_step: "isa_step isa_table (isa_boot halting_image) = Some (Inr halting_loaded)"
  by (simp add: halting_simps isa_load_def isa_tested_def isa_flag_def status_set_def)

lemma halting_cycles: "isa_cycles isa_table (isa_boot halting_image) = 5"
  by (simp add: isa_cycles_def halting_simps instr_selects_def)

lemma halting_last:
  "isa_step isa_table halting_loaded = Some (Inr (halting_loaded\<lparr>isa_pc := 0x8003, isa_halted := True\<rparr>))"
  by (simp add: halting_simps)

lemma halting_run:
  "isa_run isa_table 2 (isa_boot halting_image) =
     Some (Inr (halting_loaded\<lparr>isa_pc := 0x8003, isa_halted := True\<rparr>))"
  by (simp add: isa_run_def numeral_2_eq_2 halting_step halting_last)

lemma halting_time: "isa_time isa_table 2 (isa_boot halting_image) = 9"
proof -
  have "isa_cycles isa_table halting_loaded = 4"
    by (simp add: isa_cycles_def halting_simps)
  then show ?thesis
    by (simp add: isa_time_def numeral_2_eq_2 halting_cycles halting_step halting_last)
qed

lemma halting_compiles: "\<exists>p. compile (cpu_compiler (map fst isa_table)) (isa_source isa_table) = Inr p"
  by (rule isa_compiles [OF isa_table_ok]) simp

lemma halting_boots: "between im isa_table (booted im halting_image)"
  by (rule booted_between [OF halting_image_size]) (simp add: halting_image_def isa_table_def)

end
