(* ===== verification/Base_Operators.thy ===== *)
theory Base_Operators
  imports Base_Types
begin

text \<open>
  The operators of \<open>Byte\<close> and \<open>Word\<close> (\<open>base/types.h\<close>) the way C++ evaluates them: the operands
  are promoted to \<open>int\<close>, the result is converted back to the width. The lemmas show that this is
  the arithmetic of words that the rest of the development computes with, and that the
  comparisons are the unsigned order.
\<close>

section \<open>Promotion and conversion\<close>

text \<open>An unsigned operand is its value as an \<open>int\<close>; an \<open>int\<close> is converted modulo the width.\<close>

definition promote :: "'a::len word \<Rightarrow> int" where
  "promote w = uint w"

definition converted :: "int \<Rightarrow> 'a::len word" where
  "converted i = word_of_int (i mod 2 ^ LENGTH('a))"

lemma converted_eq: "converted i = word_of_int i"
  by (rule bit_word_eqI) (simp add: converted_def take_bit_eq_mod [symmetric] bit_simps)

section \<open>Byte\<close>

definition byte_plus :: "u8 \<Rightarrow> u8 \<Rightarrow> u8" where "byte_plus a b = converted (promote a + promote b)"
definition byte_minus :: "u8 \<Rightarrow> u8 \<Rightarrow> u8" where "byte_minus a b = converted (promote a - promote b)"
definition byte_and :: "u8 \<Rightarrow> u8 \<Rightarrow> u8" where "byte_and a b = converted (promote a AND promote b)"
definition byte_or :: "u8 \<Rightarrow> u8 \<Rightarrow> u8" where "byte_or a b = converted (promote a OR promote b)"
definition byte_xor :: "u8 \<Rightarrow> u8 \<Rightarrow> u8" where "byte_xor a b = converted (promote a XOR promote b)"
definition byte_not :: "u8 \<Rightarrow> u8" where "byte_not a = converted (NOT (promote a))"
definition byte_left :: "u8 \<Rightarrow> nat \<Rightarrow> u8" where "byte_left a n = converted (push_bit n (promote a))"
definition byte_right :: "u8 \<Rightarrow> nat \<Rightarrow> u8" where "byte_right a n = converted (drop_bit n (promote a))"
definition byte_eq :: "u8 \<Rightarrow> u8 \<Rightarrow> bool" where "byte_eq a b \<longleftrightarrow> promote a = promote b"
definition byte_ne :: "u8 \<Rightarrow> u8 \<Rightarrow> bool" where "byte_ne a b \<longleftrightarrow> promote a \<noteq> promote b"
definition byte_less :: "u8 \<Rightarrow> u8 \<Rightarrow> bool" where "byte_less a b \<longleftrightarrow> promote a < promote b"
definition byte_le :: "u8 \<Rightarrow> u8 \<Rightarrow> bool" where "byte_le a b \<longleftrightarrow> promote a \<le> promote b"
definition byte_greater :: "u8 \<Rightarrow> u8 \<Rightarrow> bool" where "byte_greater a b \<longleftrightarrow> promote a > promote b"
definition byte_ge :: "u8 \<Rightarrow> u8 \<Rightarrow> bool" where "byte_ge a b \<longleftrightarrow> promote a \<ge> promote b"

section \<open>Word\<close>

definition word_plus :: "u16 \<Rightarrow> u16 \<Rightarrow> u16" where "word_plus a b = converted (promote a + promote b)"
definition word_minus :: "u16 \<Rightarrow> u16 \<Rightarrow> u16" where "word_minus a b = converted (promote a - promote b)"
definition word_band :: "u16 \<Rightarrow> u16 \<Rightarrow> u16" where "word_band a b = converted (promote a AND promote b)"
definition word_bor :: "u16 \<Rightarrow> u16 \<Rightarrow> u16" where "word_bor a b = converted (promote a OR promote b)"
definition word_bxor :: "u16 \<Rightarrow> u16 \<Rightarrow> u16" where "word_bxor a b = converted (promote a XOR promote b)"
definition word_bnot :: "u16 \<Rightarrow> u16" where "word_bnot a = converted (NOT (promote a))"
definition word_left :: "u16 \<Rightarrow> nat \<Rightarrow> u16" where "word_left a n = converted (push_bit n (promote a))"
definition word_right :: "u16 \<Rightarrow> nat \<Rightarrow> u16" where "word_right a n = converted (drop_bit n (promote a))"
definition word_eq :: "u16 \<Rightarrow> u16 \<Rightarrow> bool" where "word_eq a b \<longleftrightarrow> promote a = promote b"
definition word_ne :: "u16 \<Rightarrow> u16 \<Rightarrow> bool" where "word_ne a b \<longleftrightarrow> promote a \<noteq> promote b"
definition word_lt :: "u16 \<Rightarrow> u16 \<Rightarrow> bool" where "word_lt a b \<longleftrightarrow> promote a < promote b"
definition word_leq :: "u16 \<Rightarrow> u16 \<Rightarrow> bool" where "word_leq a b \<longleftrightarrow> promote a \<le> promote b"
definition word_gt :: "u16 \<Rightarrow> u16 \<Rightarrow> bool" where "word_gt a b \<longleftrightarrow> promote a > promote b"
definition word_ge :: "u16 \<Rightarrow> u16 \<Rightarrow> bool" where "word_ge a b \<longleftrightarrow> promote a \<ge> promote b"

text \<open>\<open>Word(high, low)\<close> and its inverse in the same reading.\<close>

definition word_joined :: "u8 \<Rightarrow> u8 \<Rightarrow> u16" where
  "word_joined high low = converted (push_bit 8 (promote (ucast high :: u16)) OR promote low)"

section \<open>Agreement with word arithmetic\<close>

lemma converted_promote:
  fixes a b :: "'a::len word"
  shows "converted (promote a + promote b) = a + b" "converted (promote a - promote b) = a - b"
    and "converted (promote a AND promote b) = a AND b" "converted (promote a OR promote b) = a OR b"
    and "converted (promote a XOR promote b) = a XOR b" "converted (NOT (promote a)) = NOT a"
    and "converted (push_bit n (promote a)) = push_bit n a"
    and "converted (drop_bit n (promote a)) = drop_bit n a"
proof -
  show "converted (promote a + promote b) = a + b" "converted (promote a - promote b) = a - b"
    by (simp_all add: converted_eq promote_def)
  show "converted (promote a AND promote b) = a AND b" "converted (promote a OR promote b) = a OR b"
    "converted (promote a XOR promote b) = a XOR b" "converted (NOT (promote a)) = NOT a"
    "converted (push_bit n (promote a)) = push_bit n a"
    "converted (drop_bit n (promote a)) = drop_bit n a"
    by (rule bit_word_eqI; simp add: converted_eq promote_def bit_simps; fail)+
qed

lemma byte_operators:
  "byte_plus = byte_add" "byte_minus = byte_sub" "byte_left = byte_shl" "byte_right = byte_shr"
  "byte_and = (AND)" "byte_or = (OR)" "byte_xor = (XOR)" "byte_not = NOT"
  by (simp_all add: fun_eq_iff byte_plus_def byte_minus_def byte_left_def byte_right_def byte_and_def
    byte_or_def byte_xor_def byte_not_def converted_promote byte_add_def byte_sub_def byte_shl_def
    byte_shr_def)

lemma word_operators:
  "word_plus = word_add" "word_minus = word_sub" "word_left = (\<lambda>a n. push_bit n a)"
  "word_right = (\<lambda>a n. drop_bit n a)" "word_band = (AND)" "word_bor = (OR)" "word_bxor = (XOR)"
  "word_bnot = NOT"
  by (simp_all add: fun_eq_iff word_plus_def word_minus_def word_left_def word_right_def word_band_def
    word_bor_def word_bxor_def word_bnot_def converted_promote word_add_def word_sub_def)

lemma comparisons:
  "byte_eq = (=)" "byte_ne = (\<noteq>)" "byte_less = (<)" "byte_le = (\<le>)" "byte_greater = (>)" "byte_ge = (\<ge>)"
  "word_eq = (=)" "word_ne = (\<noteq>)" "word_lt = (<)" "word_leq = (\<le>)" "word_gt = (>)" "word_ge = (\<ge>)"
  by (simp_all add: fun_eq_iff byte_eq_def byte_ne_def byte_less_def byte_le_def byte_greater_def
    byte_ge_def word_eq_def word_ne_def word_lt_def word_leq_def word_gt_def word_ge_def promote_def
    word_less_def Word.word_le_def word_uint_eq_iff)

lemma word_joined_eq: "word_joined h l = word_of_bytes h l"
  by (rule bit_word_eqI)
    (auto simp: word_joined_def converted_eq promote_def word_of_bytes_def bit_simps)

end
