(* ===== verification/Bench.thy ===== *)
theory Bench
  imports Tools
begin

text \<open>
  The benchmark (\<open>sim/bench/bench_main.cpp\<close>): two programs in assembly, assembled and run for a
  number of cycles, and a line with the result. What the clock measures is a parameter: the two
  printed numbers, elapsed seconds and cycles per second. An exception ends the program, since
  \<open>main\<close> catches none.
\<close>

record bench_options =
  bench_workload :: string
  bench_cycles :: u64
  bench_warmup :: u64
  bench_format :: string
  bench_output :: string

definition default_bench_options :: bench_options where
  "default_bench_options =
     \<lparr>bench_workload = ''loop'', bench_cycles = 5000000, bench_warmup = 100000,
      bench_format = ''text'', bench_output = []\<rparr>"

text \<open>\<open>std::stoull\<close> of all characters; it wraps a negative number around.\<close>

definition parse_u64 :: "string \<Rightarrow> u64 option" where
  "parse_u64 value =
     (case stoul_rest 10 value of
        None \<Rightarrow> None
      | Some (v, rest) \<Rightarrow> if rest \<noteq> [] then None else Some (word_of_int v))"

section \<open>The programs\<close>

definition loop_program :: string where
  "loop_program =
     [newline] @
     ''    CLC'' @ [newline] @
     ''    LDA #$00'' @ [newline] @
     ''  loop:'' @ [newline] @
     ''    ADC #$01'' @ [newline] @
     ''    CMP #$FF'' @ [newline] @
     ''    BNE loop'' @ [newline] @
     ''    JMP loop'' @ [newline] @ ''  ''"

definition mem_program :: string where
  "mem_program =
     [newline] @
     ''    LDX #$00'' @ [newline] @
     ''  loop:'' @ [newline] @
     ''    LDA $0200,X'' @ [newline] @
     ''    STA $0300,X'' @ [newline] @
     ''    INX'' @ [newline] @
     ''    BNE loop'' @ [newline] @
     ''    JMP loop'' @ [newline] @ ''  ''"

definition bench_program :: "bench_options \<Rightarrow> string" where
  "bench_program o' = (if bench_workload o' = ''mem'' then mem_program else loop_program)"

section \<open>The run\<close>

definition bench_cpu ::
  "nat \<Rightarrow> isa_info \<Rightarrow> file_system \<Rightarrow> string \<Rightarrow> microcode_program \<Rightarrow> string \<Rightarrow> (outcome + cpu) option" where
  "bench_cpu fuel isa fs current_path p asm_source =
     (case assemble fuel isa fs current_path asm_source ''bench.asm'' default_options of
        None \<Rightarrow> None
      | Some (Inl e) \<Rightarrow> Some (Inl Terminated)
      | Some (Inr result) \<Rightarrow>
          (case bind_ok (make_cpu p (a_rom result) []) (boot 0x8000) of
             Inl e \<Rightarrow> Some (Inl Terminated)
           | Inr s \<Rightarrow> Some (Inr s)))"

definition bench_cycles_run ::
  "(outcome + cpu) option \<Rightarrow> u64 \<Rightarrow> (outcome + run_result) option" where
  "bench_cycles_run cpu n =
     run_bind cpu (\<lambda>s.
       case run_until_halt_max n s of
         None \<Rightarrow> None
       | Some (Inl e) \<Rightarrow> Some (Inl Terminated)
       | Some (Inr (res, s')) \<Rightarrow> Some (Inr res))"

fun halt_reason_string :: "halt_reason \<Rightarrow> string" where
  "halt_reason_string Reason_running = ''running''"
| "halt_reason_string Reason_timeout = ''timeout''"
| "halt_reason_string Reason_halt = ''halt''"
| "halt_reason_string Reason_crash = ''crash''"

definition bench_report :: "bench_options \<Rightarrow> run_result \<Rightarrow> string \<times> string \<Rightarrow> string" where
  "bench_report o' res clock =
     (let quoted = (\<lambda>s. [CHR 0x22] @ s @ [CHR 0x22]);
          cycles = decimal (unat (result_cycles res));
          (seconds, rate) = clock;
          reason = halt_reason_string (result_reason res) in
      if bench_format o' = ''json'' then
        ''{'' @ quoted ''workload'' @ '':'' @ quoted (bench_workload o') @ '','' @
        quoted ''cycles'' @ '':'' @ cycles @ '','' @
        quoted ''elapsed_s'' @ '':'' @ seconds @ '','' @
        quoted ''cycles_per_sec'' @ '':'' @ rate @ '','' @
        quoted ''halt_reason'' @ '':'' @ quoted reason @ ''}'' @ [newline]
      else if bench_format o' = ''csv'' then
        ''workload,cycles,elapsed_s,cycles_per_sec,halt_reason'' @ [newline] @
        bench_workload o' @ '','' @ cycles @ '','' @ seconds @ '','' @ rate @ '','' @ reason @ [newline]
      else
        ''workload='' @ bench_workload o' @ '' cycles='' @ cycles @ '' elapsed_s='' @ seconds @
        '' cycles_per_sec='' @ rate @ '' halt_reason='' @ reason @ [newline])"

text \<open>The text goes to the file or to the standard output; a file that does not open gets nothing.\<close>

definition run_benchmark ::
  "(u64 \<Rightarrow> string \<times> string) \<Rightarrow> (string \<Rightarrow> bool) \<Rightarrow> (string \<Rightarrow> (outcome + cpu) option) \<Rightarrow>
   bench_options \<Rightarrow> disk \<Rightarrow> (outcome + (string \<times> disk)) option" where
  "run_benchmark clock writable cpu_of o' disk =
     run_bind (if bench_warmup o' > 0
               then bench_cycles_run (cpu_of (bench_program o')) (bench_warmup o')
               else Some (Inr \<lparr>result_reason = Reason_running, result_cycles = 0\<rparr>)) (\<lambda>_.
     run_bind (bench_cycles_run (cpu_of (bench_program o')) (bench_cycles o')) (\<lambda>res.
       let text = bench_report o' res (clock (result_cycles res)) in
       Some (Inr (if bench_output o' \<noteq> []
                  then ([], if writable (bench_output o')
                            then disk(bench_output o' \<mapsto> file_bytes text) else disk)
                  else (text, disk)))))"

section \<open>The command line\<close>

fun parse_bench_args :: "string list \<Rightarrow> bench_options \<Rightarrow> outcome + bench_options" where
  "parse_bench_args [] a = Inr a"
| "parse_bench_args (arg # args) a =
     (if arg = ''--workload'' then
        (case args of
           [] \<Rightarrow> Inl (Exit 1)
         | v # args' \<Rightarrow>
             if v \<noteq> ''loop'' \<and> v \<noteq> ''mem'' then Inl (Exit 1)
             else parse_bench_args args' (a\<lparr>bench_workload := v\<rparr>))
      else if arg = ''--cycles'' then
        (case args of
           [] \<Rightarrow> Inl (Exit 1)
         | v # args' \<Rightarrow>
             (case parse_u64 v of
                None \<Rightarrow> Inl (Exit 1)
              | Some n \<Rightarrow> parse_bench_args args' (a\<lparr>bench_cycles := n\<rparr>)))
      else if arg = ''--warmup'' then
        (case args of
           [] \<Rightarrow> Inl (Exit 1)
         | v # args' \<Rightarrow>
             (case parse_u64 v of
                None \<Rightarrow> Inl (Exit 1)
              | Some n \<Rightarrow> parse_bench_args args' (a\<lparr>bench_warmup := n\<rparr>)))
      else if arg = ''--format'' then
        (case args of
           [] \<Rightarrow> Inl (Exit 1)
         | v # args' \<Rightarrow>
             if v \<noteq> ''text'' \<and> v \<noteq> ''json'' \<and> v \<noteq> ''csv'' then Inl (Exit 1)
             else parse_bench_args args' (a\<lparr>bench_format := v\<rparr>))
      else if arg = ''--output'' then
        (case args of
           [] \<Rightarrow> Inl (Exit 1)
         | v # args' \<Rightarrow> parse_bench_args args' (a\<lparr>bench_output := v\<rparr>))
      else Inl (Exit 1))"

lemma bench_argument: "parse_u64 ''1000'' = Some 1000"
  by code_simp

definition bench_main ::
  "(u64 \<Rightarrow> string \<times> string) \<Rightarrow> (string \<Rightarrow> bool) \<Rightarrow> (string \<Rightarrow> (outcome + cpu) option) \<Rightarrow>
   string list \<Rightarrow> disk \<Rightarrow> (outcome \<times> string \<times> disk) option" where
  "bench_main clock writable cpu_of args disk =
     (case parse_bench_args args default_bench_options of
        Inl out \<Rightarrow> Some (out, [], disk)
      | Inr o' \<Rightarrow>
          map_option (\<lambda>r. case r of Inl out \<Rightarrow> (out, [], disk) | Inr (text, disk') \<Rightarrow> (Exit 0, text, disk'))
            (run_benchmark clock writable cpu_of o' disk))"

end
