(* ===== verification/Isa_Endless.thy ===== *)
theory Isa_Endless
  imports Isa_Assembler Sim_Run
begin

text \<open>
  Programs that never end: an invariant of the programmer's model under which every instruction
  runs carries over to the ticks of the processor, and a bounded run of such a program uses all
  its cycles. The memory of a cartridge with any contents of the RAM.
\<close>

section \<open>Bounded runs that fail\<close>

lemma run_loop_max_Inl:
  assumes "run_loop_max start n s = Some r"
  shows "\<forall>e. r = Inl e \<longrightarrow> (\<exists>k. ticks k s = Inl e)"
proof (rule run_loop_max.raw_induct [OF _ assms])
  fix loop start n s and r :: "sim_error + cpu"
  assume IH: "\<And>start n s r. loop start n s = Some r \<Longrightarrow> \<forall>e. r = Inl e \<longrightarrow> (\<exists>k. ticks k s = Inl e)"
    and step: "(if \<not> halted s \<and> cycle_count s - start < n
      then case tick s of Inl e \<Rightarrow> Some (Inl e) | Inr s' \<Rightarrow> loop start n s' else Some (Inr s)) = Some r"
  show "\<forall>e. r = Inl e \<longrightarrow> (\<exists>k. ticks k s = Inl e)"
  proof (cases "tick s")
    case (Inl e)
    with step show ?thesis by (auto split: if_splits intro!: exI [of _ 1])
  next
    case (Inr s')
    show ?thesis
    proof (intro allI impI)
      fix e assume "r = Inl e"
      with Inr step have "loop start n s' = Some (Inl e)" by (auto split: if_splits)
      with IH obtain k where "ticks k s' = Inl e" by blast
      then show "\<exists>k. ticks k s = Inl e" by (intro exI [of _ "Suc k"]) (simp add: Inr)
    qed
  qed
qed

lemma unfailing_run:
  assumes "\<And>k. \<exists>t. ticks k s = Inr t \<and> \<not> halted t"
  shows "\<exists>t. run_until_halt_max n s =
      Some (Inr (\<lparr>result_reason = Reason_timeout, result_cycles = n\<rparr>, t)) \<and>
    ticks (unat n) s = Inr t"
proof -
  obtain r where r: "run_until_halt_max n s = Some r"
    "\<And>res t. r = Inr (res, t) \<Longrightarrow> ticks (unat (result_cycles res)) s = Inr t \<and>
        (result_reason res = Reason_timeout \<longleftrightarrow> \<not> halted t) \<and>
        (result_reason res = Reason_timeout \<longrightarrow> result_cycles res = n)"
    using run_until_halt_max_returns [of n s] by blast
  show ?thesis
  proof (cases r)
    case (Inl e)
    with r(1) have "run_loop_max (cycle_count s) n s = Some (Inl e)"
      by (auto simp: run_until_halt_max_def bind_ok_def split: sum.splits) (metis obj_sumE)
    then obtain k where "ticks k s = Inl e" using run_loop_max_Inl by blast
    with assms [of k] show ?thesis by simp
  next
    case (Inr x)
    obtain res t where x: "x = (res, t)" by (cases x)
    have "\<not> halted t" using r(2) [OF Inr [unfolded x]] assms [of "unat (result_cycles res)"] by auto
    with r(2) [OF Inr [unfolded x]] have t: "result_reason res = Reason_timeout"
      "result_cycles res = n" "ticks (unat n) s = Inr t" by auto
    then have "res = \<lparr>result_reason = Reason_timeout, result_cycles = n\<rparr>" by (cases res) simp
    with r(1) t(3) show ?thesis by (simp add: Inr x)
  qed
qed

section \<open>Invariants of the model\<close>

lemma isa_cycles_pos:
  "isa_step tab u = Some (Inr u') \<Longrightarrow> \<not> isa_halted u \<Longrightarrow> 3 \<le> isa_cycles tab u"
  by (auto simp: isa_step_def isa_cycles_def split: sum.splits if_splits)

text \<open>The contract of a program that never ends: its invariant runs into itself.\<close>

locale endless_program =
  fixes tab :: isa_table and inv :: "isa \<Rightarrow> bool"
  assumes inv_running: "inv u \<Longrightarrow> \<not> isa_halted u"
    and inv_step: "inv u \<Longrightarrow> \<exists>u'. isa_step tab u = Some (Inr u') \<and> inv u'"
begin

lemma long_run:
  assumes "running tab s" and "inv (isa_view s)"
  shows "\<exists>k\<ge>m. \<exists>t. ticks k s = Inr t \<and> running tab t \<and> inv (isa_view t)"
proof (induction m)
  case 0
  then show ?case using assms by (intro exI [of _ 0]) simp
next
  case (Suc m)
  then obtain k t where t: "m \<le> k" "ticks k s = Inr t" "running tab t" "inv (isa_view t)" by blast
  obtain u where u: "isa_step tab (isa_view t) = Some (Inr u)" "inv u"
    using inv_step [OF t(4)] by blast
  have nh: "\<not> halted t" using inv_running [OF t(4)] by (simp add: isa_view_halted)
  then obtain im where im: "table_loaded im tab" "between im tab t"
    using t(3) by (auto simp: running_def)
  let ?n = "isa_cycles tab (isa_view t)"
  obtain w where w: "ticks ?n t = Inr w" "isa_view w = u" "\<not> halted w \<longrightarrow> between im tab w"
    using instruction_ticks [OF im u(1)] by auto
  have "running tab w" using w(3) im(1) by (auto simp: running_def)
  moreover have "ticks (k + ?n) s = Inr w" by (simp add: ticks_add t(2) w(1))
  moreover have "Suc m \<le> k + ?n"
    using isa_cycles_pos [OF u(1)] inv_running [OF t(4)] t(1) by simp
  ultimately show ?case using w(2) u(2) by blast
qed

lemma ticks_on:
  assumes "running tab s" and "inv (isa_view s)"
  shows "\<exists>t. ticks k s = Inr t \<and> \<not> halted t"
proof -
  obtain n t where t: "k \<le> n" "ticks n s = Inr t" "inv (isa_view t)"
    using long_run [OF assms] by blast
  have "ticks (k + (n - k)) s = Inr t" using t(1,2) by simp
  then obtain w where w: "ticks k s = Inr w" "ticks (n - k) w = Inr t"
    unfolding ticks_add by (rule bind_ok_eq_InrE)
  have "ticks j w = Inr w" if "halted w" for j
    using that by (induction j) (simp_all add: tick_def)
  then have "\<not> halted w"
    using w(2) inv_running [OF t(3)] by (auto simp: isa_view_halted)
  with w(1) show ?thesis by blast
qed

lemma times_out:
  assumes "running tab s" and "inv (isa_view s)"
  shows "\<exists>t. run_until_halt_max n s =
      Some (Inr (\<lparr>result_reason = Reason_timeout, result_cycles = n\<rparr>, t)) \<and>
    ticks (unat n) s = Inr t"
  by (rule unfailing_run) (rule ticks_on [OF assms])

end

section \<open>A cartridge and its RAM\<close>

definition ram_memory :: "u8 list \<Rightarrow> u8 list \<Rightarrow> memory" where
  "ram_memory ram rom =
     [\<lparr>region_offset = 0, region_module = Ram ram\<rparr>, \<lparr>region_offset = 0x8000, region_module = Rom rom\<rparr>]"

lemma cartridge_ram_memory: "cartridge_memory rom = ram_memory (replicate 0x2000 0) rom"
  by (simp add: cartridge_memory_def ram_memory_def)

lemma ram_memory_inject [simp]: "ram_memory ram rom = ram_memory ram' rom \<longleftrightarrow> ram = ram'"
  by (simp add: ram_memory_def)

lemma irq_after_ram_memory [simp]: "irq_after (ram_memory ram rom) b = b"
  by (rule irq_after_no_input) (simp add: has_input_def ram_memory_def)

lemma ram_memory_contains:
  "length ram = 0x2000 \<Longrightarrow>
   region_contains \<lparr>region_offset = 0, region_module = Ram ram\<rparr> a \<longleftrightarrow> unat a < 0x2000"
  "length rom \<le> 0x8000 \<Longrightarrow>
   region_contains \<lparr>region_offset = 0x8000, region_module = Rom rom\<rparr> a \<longleftrightarrow>
     0x8000 \<le> unat a \<and> unat a < 0x8000 + length rom"
  by (subst region_contains_iff; simp add: region_size_def)+

lemma read_rom:
  assumes "length ram = 0x2000" and "length rom \<le> 0x8000"
    and "0x8000 \<le> unat a" and "unat a < 0x8000 + length rom"
  shows "read_at a (ram_memory ram rom) = Inr (rom ! (unat a - 0x8000), ram_memory ram rom)"
proof -
  have "unat (a - 0x8000) = unat a - 0x8000"
    using unat_sub [of "0x8000" a] assms(3) by (simp add: word_le_nat_alt)
  then show ?thesis
    using assms
    by (simp add: read_at_def ram_memory_def region_read_def region_translate_def rom_storage_read_def
      ram_memory_contains) linarith?
qed

lemma read_ram:
  assumes "length ram = 0x2000" and "unat a < 0x2000"
  shows "read_at a (ram_memory ram rom) = Inr (ram ! unat a, ram_memory ram rom)"
  using assms
  by (simp add: read_at_def ram_memory_def ram_memory_contains region_read_def region_translate_def ram_read_def)

lemma write_ram:
  assumes "length ram = 0x2000" and "unat a < 0x2000"
  shows "write_at a v (ram_memory ram rom) = Inr (ram_memory (ram[unat a := v]) rom)"
  using assms
  by (simp add: write_at_def ram_memory_def ram_memory_contains region_write_def region_translate_def ram_write_def)

section \<open>What results leave alone\<close>

lemma isa_flag_keeps [simp]:
  "isa_mem (isa_flag f b u) = isa_mem u" "isa_line (isa_flag f b u) = isa_line u"
  "isa_halted (isa_flag f b u) = isa_halted u"
  by (simp_all add: isa_flag_def)

lemma isa_tested_keeps [simp]:
  "isa_mem (isa_tested v u) = isa_mem u" "isa_line (isa_tested v u) = isa_line u"
  "isa_halted (isa_tested v u) = isa_halted u"
  by (simp_all add: isa_tested_def)

lemma isa_load_keeps [simp]:
  "isa_mem (isa_load i v u) = isa_mem u" "isa_line (isa_load i v u) = isa_line u"
  "isa_halted (isa_load i v u) = isa_halted u"
  by (cases i; simp add: isa_load_def)+

end
