(* ===== verification/Isa_Lookup.thy ===== *)
theory Isa_Lookup
  imports Isa_Assembler
begin

text \<open>
  The lookup of mnemonics in the instruction set of the repository: the assembler compares in
  lower case, first match first, which is a lookup in an association list.
\<close>

lemma lower_letters:
  "to_lower_char (CHR ''A'') = CHR ''a''"
  "to_lower_char (CHR ''B'') = CHR ''b''"
  "to_lower_char (CHR ''C'') = CHR ''c''"
  "to_lower_char (CHR ''D'') = CHR ''d''"
  "to_lower_char (CHR ''E'') = CHR ''e''"
  "to_lower_char (CHR ''H'') = CHR ''h''"
  "to_lower_char (CHR ''I'') = CHR ''i''"
  "to_lower_char (CHR ''J'') = CHR ''j''"
  "to_lower_char (CHR ''K'') = CHR ''k''"
  "to_lower_char (CHR ''L'') = CHR ''l''"
  "to_lower_char (CHR ''M'') = CHR ''m''"
  "to_lower_char (CHR ''N'') = CHR ''n''"
  "to_lower_char (CHR ''O'') = CHR ''o''"
  "to_lower_char (CHR ''P'') = CHR ''p''"
  "to_lower_char (CHR ''Q'') = CHR ''q''"
  "to_lower_char (CHR ''R'') = CHR ''r''"
  "to_lower_char (CHR ''S'') = CHR ''s''"
  "to_lower_char (CHR ''T'') = CHR ''t''"
  "to_lower_char (CHR ''V'') = CHR ''v''"
  "to_lower_char (CHR ''X'') = CHR ''x''"
  "to_lower_char (CHR ''Y'') = CHR ''y''"
  "to_lower_char (CHR ''a'') = CHR ''a''"
  "to_lower_char (CHR ''b'') = CHR ''b''"
  "to_lower_char (CHR ''c'') = CHR ''c''"
  "to_lower_char (CHR ''d'') = CHR ''d''"
  "to_lower_char (CHR ''e'') = CHR ''e''"
  "to_lower_char (CHR ''h'') = CHR ''h''"
  "to_lower_char (CHR ''i'') = CHR ''i''"
  "to_lower_char (CHR ''j'') = CHR ''j''"
  "to_lower_char (CHR ''k'') = CHR ''k''"
  "to_lower_char (CHR ''l'') = CHR ''l''"
  "to_lower_char (CHR ''m'') = CHR ''m''"
  "to_lower_char (CHR ''n'') = CHR ''n''"
  "to_lower_char (CHR ''o'') = CHR ''o''"
  "to_lower_char (CHR ''p'') = CHR ''p''"
  "to_lower_char (CHR ''q'') = CHR ''q''"
  "to_lower_char (CHR ''r'') = CHR ''r''"
  "to_lower_char (CHR ''s'') = CHR ''s''"
  "to_lower_char (CHR ''t'') = CHR ''t''"
  "to_lower_char (CHR ''v'') = CHR ''v''"
  "to_lower_char (CHR ''x'') = CHR ''x''"
  "to_lower_char (CHR ''y'') = CHR ''y''"
  by code_simp+

definition isa_names :: "((string \<times> addressing_mode) \<times> (string \<times> u8)) list" where
  "isa_names =
     [((''hlt'', IMP), (''HLT'', 1)), ((''nop'', IMP), (''NOP'', 2)),
      ((''lda'', IMM), (''LDA'', 0x10)), ((''cmp'', IMM), (''CMP'', 0x11)),
      ((''jeq'', ABS), (''JEQ'', 0x12)), ((''adc'', IMM), (''ADC'', 0x20)),
      ((''sbc'', IMM), (''SBC'', 0x21)), ((''and'', IMM), (''AND'', 0x22)),
      ((''ora'', IMM), (''ORA'', 0x23)), ((''eor'', IMM), (''EOR'', 0x24)),
      ((''asl'', IMP), (''ASL'', 0x25)), ((''lsr'', IMP), (''LSR'', 0x26)),
      ((''rol'', IMP), (''ROL'', 0x27)), ((''ror'', IMP), (''ROR'', 0x28)),
      ((''tax'', IMP), (''TAX'', 0x30)), ((''txa'', IMP), (''TXA'', 0x31)),
      ((''ldx'', IMM), (''LDX'', 0x32)), ((''tay'', IMP), (''TAY'', 0x33)),
      ((''tya'', IMP), (''TYA'', 0x34)), ((''ldy'', IMM), (''LDY'', 0x35)),
      ((''lda'', ZP), (''LDA'', 0x40)), ((''sta'', ZP), (''STA'', 0x41)),
      ((''ldx'', ZP), (''LDX'', 0x42)), ((''stx'', ZP), (''STX'', 0x43)),
      ((''ldy'', ZP), (''LDY'', 0x4E)), ((''sty'', ZP), (''STY'', 0x4F)),
      ((''adc'', ZP), (''ADC'', 0x44)), ((''sbc'', ZP), (''SBC'', 0x45)),
      ((''and'', ZP), (''AND'', 0x46)), ((''ora'', ZP), (''ORA'', 0x47)),
      ((''eor'', ZP), (''EOR'', 0x48)), ((''cmp'', ZP), (''CMP'', 0x49)),
      ((''asl'', ZP), (''ASL'', 0x4A)), ((''lsr'', ZP), (''LSR'', 0x4B)),
      ((''rol'', ZP), (''ROL'', 0x4C)), ((''ror'', ZP), (''ROR'', 0x4D)),
      ((''lda'', ABS), (''LDA'', 0x50)), ((''sta'', ABS), (''STA'', 0x51)),
      ((''ldx'', ABS), (''LDX'', 0x52)), ((''stx'', ABS), (''STX'', 0x53)),
      ((''ldy'', ABS), (''LDY'', 0x5E)), ((''sty'', ABS), (''STY'', 0x5F)),
      ((''adc'', ABS), (''ADC'', 0x54)), ((''sbc'', ABS), (''SBC'', 0x55)),
      ((''and'', ABS), (''AND'', 0x56)), ((''ora'', ABS), (''ORA'', 0x57)),
      ((''eor'', ABS), (''EOR'', 0x58)), ((''cmp'', ABS), (''CMP'', 0x59)),
      ((''asl'', ABS), (''ASL'', 0x5A)), ((''lsr'', ABS), (''LSR'', 0x5B)),
      ((''rol'', ABS), (''ROL'', 0x5C)), ((''ror'', ABS), (''ROR'', 0x5D)),
      ((''inx'', IMP), (''INX'', 0x60)), ((''dex'', IMP), (''DEX'', 0x61)),
      ((''iny'', IMP), (''INY'', 0x66)), ((''dey'', IMP), (''DEY'', 0x67)),
      ((''inc'', ZP), (''INC'', 0x62)), ((''dec'', ZP), (''DEC'', 0x63)),
      ((''inc'', ABS), (''INC'', 0x64)), ((''dec'', ABS), (''DEC'', 0x65)),
      ((''beq'', REL), (''BEQ'', 0x70)), ((''bne'', REL), (''BNE'', 0x71)),
      ((''bcs'', REL), (''BCS'', 0x72)), ((''bcc'', REL), (''BCC'', 0x73)),
      ((''bmi'', REL), (''BMI'', 0x74)), ((''bpl'', REL), (''BPL'', 0x75)),
      ((''bvs'', REL), (''BVS'', 0x76)), ((''bvc'', REL), (''BVC'', 0x77)),
      ((''lda'', ZPX), (''LDA'', 0x80)), ((''sta'', ZPX), (''STA'', 0x81)),
      ((''ldy'', ZPX), (''LDY'', 0x82)), ((''sty'', ZPX), (''STY'', 0x83)),
      ((''adc'', ZPX), (''ADC'', 0x84)), ((''sbc'', ZPX), (''SBC'', 0x85)),
      ((''and'', ZPX), (''AND'', 0x86)), ((''ora'', ZPX), (''ORA'', 0x87)),
      ((''eor'', ZPX), (''EOR'', 0x88)), ((''cmp'', ZPX), (''CMP'', 0x89)),
      ((''asl'', ZPX), (''ASL'', 0x8A)), ((''lsr'', ZPX), (''LSR'', 0x8B)),
      ((''rol'', ZPX), (''ROL'', 0x8C)), ((''ror'', ZPX), (''ROR'', 0x8D)),
      ((''inc'', ZPX), (''INC'', 0x8E)), ((''dec'', ZPX), (''DEC'', 0x8F)),
      ((''ldx'', ZPY), (''LDX'', 0x90)), ((''stx'', ZPY), (''STX'', 0x91)),
      ((''lda'', ABX), (''LDA'', 0xA0)), ((''sta'', ABX), (''STA'', 0xA1)),
      ((''ldy'', ABX), (''LDY'', 0xA2)), ((''sty'', ABX), (''STY'', 0xA3)),
      ((''adc'', ABX), (''ADC'', 0xA4)), ((''sbc'', ABX), (''SBC'', 0xA5)),
      ((''and'', ABX), (''AND'', 0xA6)), ((''ora'', ABX), (''ORA'', 0xA7)),
      ((''eor'', ABX), (''EOR'', 0xA8)), ((''cmp'', ABX), (''CMP'', 0xA9)),
      ((''asl'', ABX), (''ASL'', 0xAA)), ((''lsr'', ABX), (''LSR'', 0xAB)),
      ((''rol'', ABX), (''ROL'', 0xAC)), ((''ror'', ABX), (''ROR'', 0xAD)),
      ((''inc'', ABX), (''INC'', 0xAE)), ((''dec'', ABX), (''DEC'', 0xAF)),
      ((''lda'', ABY), (''LDA'', 0xB0)), ((''sta'', ABY), (''STA'', 0xB1)),
      ((''ldx'', ABY), (''LDX'', 0xB2)), ((''stx'', ABY), (''STX'', 0xB3)),
      ((''adc'', ABY), (''ADC'', 0xB4)), ((''sbc'', ABY), (''SBC'', 0xB5)),
      ((''and'', ABY), (''AND'', 0xB6)), ((''ora'', ABY), (''ORA'', 0xB7)),
      ((''eor'', ABY), (''EOR'', 0xB8)), ((''cmp'', ABY), (''CMP'', 0xB9)),
      ((''pha'', IMP), (''PHA'', 0xC0)), ((''pla'', IMP), (''PLA'', 0xC1)),
      ((''php'', IMP), (''PHP'', 0xC2)), ((''plp'', IMP), (''PLP'', 0xC3)),
      ((''tsx'', IMP), (''TSX'', 0xC4)), ((''txs'', IMP), (''TXS'', 0xC5)),
      ((''jsr'', ABS), (''JSR'', 0xC6)), ((''rts'', IMP), (''RTS'', 0xC7)),
      ((''clc'', IMP), (''CLC'', 0xC8)), ((''sec'', IMP), (''SEC'', 0xC9)),
      ((''clv'', IMP), (''CLV'', 0xCA)), ((''cpx'', IMM), (''CPX'', 0xCB)),
      ((''cpx'', ZP), (''CPX'', 0xCC)), ((''cpx'', ABS), (''CPX'', 0xCD)),
      ((''cpy'', IMM), (''CPY'', 0xCE)), ((''cpy'', ZP), (''CPY'', 0xCF)),
      ((''cpy'', ABS), (''CPY'', 0xD0)), ((''bit'', ZP), (''BIT'', 0xD1)),
      ((''bit'', ABS), (''BIT'', 0xD2)), ((''jmp'', ABS), (''JMP'', 0xD3)),
      ((''jmp'', IND), (''JMP'', 0xD4)), ((''lda'', IZX), (''LDA'', 0xD5)),
      ((''sta'', IZX), (''STA'', 0xD6)), ((''adc'', IZX), (''ADC'', 0xD7)),
      ((''sbc'', IZX), (''SBC'', 0xD8)), ((''and'', IZX), (''AND'', 0xD9)),
      ((''ora'', IZX), (''ORA'', 0xDA)), ((''eor'', IZX), (''EOR'', 0xDB)),
      ((''cmp'', IZX), (''CMP'', 0xDC)), ((''lda'', IZY), (''LDA'', 0xDD)),
      ((''sta'', IZY), (''STA'', 0xDE)), ((''adc'', IZY), (''ADC'', 0xDF)),
      ((''sbc'', IZY), (''SBC'', 0xE0)), ((''and'', IZY), (''AND'', 0xE1)),
      ((''ora'', IZY), (''ORA'', 0xE2)), ((''eor'', IZY), (''EOR'', 0xE3)),
      ((''cmp'', IZY), (''CMP'', 0xE4)), ((''brk'', IMP), (''BRK'', 0xE5)),
      ((''irq'', IMP), (''IRQ'', 0)), ((''rti'', IMP), (''RTI'', 0xE6)),
      ((''crs'', IMP), (''CRS'', 0xFF))]"

definition named_info :: "(string \<times> addressing_mode) \<times> (string \<times> u8) \<Rightarrow> instruction_info" where
  "named_info n = \<lparr>i_mnemonic = fst (snd n), i_mode = snd (fst n), i_opcode = snd (snd n)\<rparr>"

lemma isa_names_table: "isa_instructions (table_info isa_table) = map named_info isa_names"
  by (simp add: table_info_def isa_table_def isa_names_def named_info_def register_mnemonic_def
    branch_mnemonic_def)

lemma isa_names_lower: "list_all (\<lambda>n. to_lower (fst (snd n)) = fst (fst n)) isa_names"
  by (simp add: isa_names_def to_lower_def lower_letters)

lemma find_named:
  "list_all (\<lambda>n. to_lower (fst (snd n)) = fst (fst n)) ns \<Longrightarrow>
   List.find (\<lambda>i. to_lower (i_mnemonic i) = m \<and> i_mode i = mode) (map named_info ns) =
     map_option (\<lambda>v. named_info ((m, mode), v)) (map_of ns (m, mode))"
  by (induction ns) (auto simp: named_info_def)

text \<open>The lookup of the assembler.\<close>

lemma isa_lookup:
  "find_by_mnemonic_and_mode (table_info isa_table) m mode =
     map_option (\<lambda>(name, op). \<lparr>i_mnemonic = name, i_mode = mode, i_opcode = op\<rparr>)
       (map_of isa_names (to_lower m, mode))"
  by (simp add: find_by_mnemonic_and_mode_def isa_names_table find_named [OF isa_names_lower]
    named_info_def split_def)

lemma table_info_bytes: "isa_operand_bytes (table_info isa_table) m = Some (mode_bytes m)"
  by (simp add: table_info_def)

lemmas select_simps =
  select_instruction_def candidate_modes_def isa_lookup isa_names_def to_lower_def lower_letters
  is_relative_mnemonic_def small_number_def

end
