(* ===== verification/Bench_Programs.thy ===== *)
theory Bench_Programs
  imports Bench Isa_Endless Isa_Lookup
begin

text \<open>
  The two programs of the benchmark through the assembler, with the instruction set of the
  repository: their statements, the first pass, and the images in the ROM.
\<close>

definition bench_span :: "nat \<Rightarrow> nat \<Rightarrow> nat \<Rightarrow> span" where
  "bench_span l c n = \<lparr>span_file = ''bench.asm'', span_line = l, span_column = c, span_length = n\<rparr>"

definition bench_number :: "u32 \<Rightarrow> bool \<Rightarrow> index_register \<Rightarrow> span \<Rightarrow> operand" where
  "bench_number n imm i sp = \<lparr>o_kind = Op_Number, o_number = n, o_label = [], o_immediate = imm,
     o_indirect = False, o_index = i, o_span = sp\<rparr>"

definition bench_label :: "string \<Rightarrow> span \<Rightarrow> operand" where
  "bench_label l sp = \<lparr>o_kind = Op_Label, o_number = 0, o_label = l, o_immediate = False,
     o_indirect = False, o_index = No_Index, o_span = sp\<rparr>"

lemmas bench_operand_defs = bench_number_def bench_label_def

lemmas bench_resolve_defs =
  bench_operand_defs resolve_byte_operand_def resolve_word_operand_def resolve_relative_operand_def
  branch_target_def lookup_name_def

lemma fill_after: "n \<le> 0x8000 \<Longrightarrow> replicate 0x8000 x = replicate n x @ replicate (0x8000 - n) x"
  by (simp add: replicate_add [symmetric])

section \<open>The arithmetic loop\<close>

definition loop_statements :: "statement list" where
  "loop_statements =
     [Instruction_Stmt ''clc'' [] (bench_span 2 5 3),
      Instruction_Stmt ''lda'' [bench_number 0 True No_Index (bench_span 3 9 4)] (bench_span 3 5 3),
      Label_Decl ''loop'' (bench_span 4 3 4),
      Instruction_Stmt ''adc'' [bench_number 1 True No_Index (bench_span 5 9 4)] (bench_span 5 5 3),
      Instruction_Stmt ''cmp'' [bench_number 0xFF True No_Index (bench_span 6 9 4)] (bench_span 6 5 3),
      Instruction_Stmt ''bne'' [bench_label ''loop'' (bench_span 7 9 4)] (bench_span 7 5 3),
      Instruction_Stmt ''jmp'' [bench_label ''loop'' (bench_span 8 9 4)] (bench_span 8 5 3)]"

lemma loop_parses:
  "bind_ok (lex_source (make_lexer loop_program ''bench.asm'')) parse = Inr loop_statements"
  by code_simp

definition loop_items :: "emittable list" where
  "loop_items =
     [\<lparr>e_address = 0x8000, e_span = bench_span 2 5 3, e_text = ''clc'', e_kind = Emit_Instruction,
       e_mode = IMP, e_opcode = 0xC8, e_operand_bytes = 0, e_operands = []\<rparr>,
      \<lparr>e_address = 0x8001, e_span = bench_span 3 5 3, e_text = ''lda 0'', e_kind = Emit_Instruction,
       e_mode = IMM, e_opcode = 0x10, e_operand_bytes = 1, e_operands = [bench_number 0 True No_Index (bench_span 3 9 4)]\<rparr>,
      \<lparr>e_address = 0x8003, e_span = bench_span 5 5 3, e_text = ''adc 1'', e_kind = Emit_Instruction,
       e_mode = IMM, e_opcode = 0x20, e_operand_bytes = 1, e_operands = [bench_number 1 True No_Index (bench_span 5 9 4)]\<rparr>,
      \<lparr>e_address = 0x8005, e_span = bench_span 6 5 3, e_text = ''cmp 255'', e_kind = Emit_Instruction,
       e_mode = IMM, e_opcode = 0x11, e_operand_bytes = 1, e_operands = [bench_number 0xFF True No_Index (bench_span 6 9 4)]\<rparr>,
      \<lparr>e_address = 0x8007, e_span = bench_span 7 5 3, e_text = ''bne loop'', e_kind = Emit_Instruction,
       e_mode = REL, e_opcode = 0x71, e_operand_bytes = 1, e_operands = [bench_label ''loop'' (bench_span 7 9 4)]\<rparr>,
      \<lparr>e_address = 0x8009, e_span = bench_span 8 5 3, e_text = ''jmp loop'', e_kind = Emit_Instruction,
       e_mode = ABS, e_opcode = 0xD3, e_operand_bytes = 2, e_operands = [bench_label ''loop'' (bench_span 8 9 4)]\<rparr>]"

definition loop_pass :: first_pass_state where
  "loop_pass = \<lparr>fp_items = loop_items, fp_symbols = [(''loop'', 0x8003)], fp_constants = [],
     fp_origin = 0x8000, fp_max_address = 0x800B, fp_cursor = 0x800C\<rparr>"

lemma loop_select:
  "select_instruction (table_info isa_table) ''clc'' [] sp' =
     Inr \<lparr>i_mnemonic = ''CLC'', i_mode = IMP, i_opcode = 0xC8\<rparr>"
  "select_instruction (table_info isa_table) ''lda'' [bench_number 0 True No_Index sp] sp' =
     Inr \<lparr>i_mnemonic = ''LDA'', i_mode = IMM, i_opcode = 0x10\<rparr>"
  "select_instruction (table_info isa_table) ''adc'' [bench_number 1 True No_Index sp] sp' =
     Inr \<lparr>i_mnemonic = ''ADC'', i_mode = IMM, i_opcode = 0x20\<rparr>"
  "select_instruction (table_info isa_table) ''cmp'' [bench_number 0xFF True No_Index sp] sp' =
     Inr \<lparr>i_mnemonic = ''CMP'', i_mode = IMM, i_opcode = 0x11\<rparr>"
  "select_instruction (table_info isa_table) ''bne'' [bench_label ''loop'' sp] sp' =
     Inr \<lparr>i_mnemonic = ''BNE'', i_mode = REL, i_opcode = 0x71\<rparr>"
  "select_instruction (table_info isa_table) ''jmp'' [bench_label ''loop'' sp] sp' =
     Inr \<lparr>i_mnemonic = ''JMP'', i_mode = ABS, i_opcode = 0xD3\<rparr>"
  by (simp_all add: select_simps bench_operand_defs)

lemma loop_texts:
  "format_instruction_text ''clc'' [] = ''clc''"
  "format_instruction_text ''lda'' [bench_number 0 True No_Index sp] = ''lda 0''"
  "format_instruction_text ''adc'' [bench_number 1 True No_Index sp] = ''adc 1''"
  "format_instruction_text ''cmp'' [bench_number 0xFF True No_Index sp] = ''cmp 255''"
  "format_instruction_text ''bne'' [bench_label ''loop'' sp] = ''bne loop''"
  "format_instruction_text ''jmp'' [bench_label ''loop'' sp] = ''jmp loop''"
  by code_simp+

lemma loop_first_pass: "first_pass (table_info isa_table) default_options loop_statements = Inr loop_pass"
  by (simp add: first_pass_def first_pass_init_def loop_statements_def default_options_def
    loop_select loop_texts table_info_bytes place_item_def validate_cursor_def
    update_max_address_def emplace_def loop_pass_def loop_items_def Let_def throw_if_def)

lemma loop_resolves:
  "resolve_byte_operand loop_pass (bench_number 0 True No_Index (bench_span 3 9 4)) = Inr 0"
  "resolve_byte_operand loop_pass (bench_number 1 True No_Index (bench_span 5 9 4)) = Inr 1"
  "resolve_byte_operand loop_pass (bench_number 0xFF True No_Index (bench_span 6 9 4)) = Inr 0xFF"
  "resolve_relative_operand loop_pass (bench_label ''loop'' (bench_span 7 9 4)) 0x8007 = Inr 0xFA"
  "resolve_word_operand loop_pass (bench_label ''loop'' (bench_span 8 9 4)) = Inr 0x8003"
  by (simp_all add: bench_resolve_defs loop_pass_def)

lemma loop_encodes: "is_ok (encode loop_pass default_options ''bench.asm'')"
  using loop_resolves
  by (simp add: encode_def Let_def loop_pass_def loop_items_def default_options_def
    encode_item_def encode_instruction_item_def)

definition loop_image :: "u8 list" where
  "loop_image = [0xC8, 0x10, 0, 0x20, 1, 0x11, 0xFF, 0x71, 0xFA, 0xD3, 3, 0x80] @ replicate (0x8000 - 12) 0xFF"

lemma loop_rom_image: "rom_image loop_pass default_options = loop_image"
proof -
  obtain i0 i1 i2 i3 i4 i5 where items: "loop_items = [i0, i1, i2, i3, i4, i5]"
    "e_address i0 = 0x8000" "the_bytes loop_pass i0 = [0xC8]"
    "e_address i1 = 0x8001" "the_bytes loop_pass i1 = [0x10, 0]"
    "e_address i2 = 0x8003" "the_bytes loop_pass i2 = [0x20, 1]"
    "e_address i3 = 0x8005" "the_bytes loop_pass i3 = [0x11, 0xFF]"
    "e_address i4 = 0x8007" "the_bytes loop_pass i4 = [0x71, 0xFA]"
    "e_address i5 = 0x8009" "the_bytes loop_pass i5 = [0xD3, 3, 0x80]"
    using loop_resolves by (simp add: the_bytes_def item_bytes_def operand_value_def loop_items_def word_low_def word_high_def)
  have opts: "unat (opt_origin default_options) = 0x8000" "unat (opt_rom_size default_options) = 0x8000"
    by (simp_all add: default_options_def)
  have pass: "fp_items loop_pass = [i0, i1, i2, i3, i4, i5]" using items(1) by (simp add: loop_pass_def)
  have fill: "replicate 0x8000 (0xFF :: u8) = replicate 12 0xFF @ replicate (0x8000 - 12) 0xFF"
    by (rule fill_after) simp
  have start: "replicate 12 (0xFF :: u8) = [0xFF, 0xFF, 0xFF, 0xFF, 0xFF, 0xFF, 0xFF, 0xFF, 0xFF, 0xFF, 0xFF, 0xFF]" by (simp add: numeral_eq_Suc)
  show ?thesis
    unfolding rom_image_def opts fill start pass
    by (simp add: write_item_def items(2-) loop_image_def)
qed

lemma loop_assembles:
  "\<exists>result. assemble fuel (table_info isa_table) fs dir loop_program ''bench.asm'' default_options =
     Some (Inr result) \<and> a_rom result = loop_image"
proof -
  obtain result where r: "encode loop_pass default_options ''bench.asm'' = Inr result"
    using loop_encodes by (rule is_okE)
  have "list_all (\<lambda>s. include_path s = None) loop_statements"
    by (simp add: loop_statements_def)
  note p = process_program_id [OF this]
  have "a_rom result = loop_image"
    using encode_result(1) [OF r first_pass_items_size [OF loop_first_pass]] loop_rom_image by simp
  then show ?thesis
    by (simp add: assemble_def loop_parses process_includes_def p loop_first_pass r Let_def del: bind_ok_def)
qed

section \<open>The copying loop\<close>

definition mem_statements :: "statement list" where
  "mem_statements =
     [Instruction_Stmt ''ldx'' [bench_number 0 True No_Index (bench_span 2 9 4)] (bench_span 2 5 3),
      Label_Decl ''loop'' (bench_span 3 3 4),
      Instruction_Stmt ''lda'' [bench_number 0x200 False Index_X (bench_span 4 9 5)] (bench_span 4 5 3),
      Instruction_Stmt ''sta'' [bench_number 0x300 False Index_X (bench_span 5 9 5)] (bench_span 5 5 3),
      Instruction_Stmt ''inx'' [] (bench_span 6 5 3),
      Instruction_Stmt ''bne'' [bench_label ''loop'' (bench_span 7 9 4)] (bench_span 7 5 3),
      Instruction_Stmt ''jmp'' [bench_label ''loop'' (bench_span 8 9 4)] (bench_span 8 5 3)]"

lemma mem_parses:
  "bind_ok (lex_source (make_lexer mem_program ''bench.asm'')) parse = Inr mem_statements"
  by code_simp

definition mem_items :: "emittable list" where
  "mem_items =
     [\<lparr>e_address = 0x8000, e_span = bench_span 2 5 3, e_text = ''ldx 0'', e_kind = Emit_Instruction,
       e_mode = IMM, e_opcode = 0x32, e_operand_bytes = 1, e_operands = [bench_number 0 True No_Index (bench_span 2 9 4)]\<rparr>,
      \<lparr>e_address = 0x8002, e_span = bench_span 4 5 3, e_text = ''lda 512'', e_kind = Emit_Instruction,
       e_mode = ABX, e_opcode = 0xA0, e_operand_bytes = 2, e_operands = [bench_number 0x200 False Index_X (bench_span 4 9 5)]\<rparr>,
      \<lparr>e_address = 0x8005, e_span = bench_span 5 5 3, e_text = ''sta 768'', e_kind = Emit_Instruction,
       e_mode = ABX, e_opcode = 0xA1, e_operand_bytes = 2, e_operands = [bench_number 0x300 False Index_X (bench_span 5 9 5)]\<rparr>,
      \<lparr>e_address = 0x8008, e_span = bench_span 6 5 3, e_text = ''inx'', e_kind = Emit_Instruction,
       e_mode = IMP, e_opcode = 0x60, e_operand_bytes = 0, e_operands = []\<rparr>,
      \<lparr>e_address = 0x8009, e_span = bench_span 7 5 3, e_text = ''bne loop'', e_kind = Emit_Instruction,
       e_mode = REL, e_opcode = 0x71, e_operand_bytes = 1, e_operands = [bench_label ''loop'' (bench_span 7 9 4)]\<rparr>,
      \<lparr>e_address = 0x800B, e_span = bench_span 8 5 3, e_text = ''jmp loop'', e_kind = Emit_Instruction,
       e_mode = ABS, e_opcode = 0xD3, e_operand_bytes = 2, e_operands = [bench_label ''loop'' (bench_span 8 9 4)]\<rparr>]"

definition mem_pass :: first_pass_state where
  "mem_pass = \<lparr>fp_items = mem_items, fp_symbols = [(''loop'', 0x8002)], fp_constants = [],
     fp_origin = 0x8000, fp_max_address = 0x800D, fp_cursor = 0x800E\<rparr>"

lemma mem_select:
  "select_instruction (table_info isa_table) ''ldx'' [bench_number 0 True No_Index sp] sp' =
     Inr \<lparr>i_mnemonic = ''LDX'', i_mode = IMM, i_opcode = 0x32\<rparr>"
  "select_instruction (table_info isa_table) ''lda'' [bench_number 0x200 False Index_X sp] sp' =
     Inr \<lparr>i_mnemonic = ''LDA'', i_mode = ABX, i_opcode = 0xA0\<rparr>"
  "select_instruction (table_info isa_table) ''sta'' [bench_number 0x300 False Index_X sp] sp' =
     Inr \<lparr>i_mnemonic = ''STA'', i_mode = ABX, i_opcode = 0xA1\<rparr>"
  "select_instruction (table_info isa_table) ''inx'' [] sp' =
     Inr \<lparr>i_mnemonic = ''INX'', i_mode = IMP, i_opcode = 0x60\<rparr>"
  "select_instruction (table_info isa_table) ''bne'' [bench_label ''loop'' sp] sp' =
     Inr \<lparr>i_mnemonic = ''BNE'', i_mode = REL, i_opcode = 0x71\<rparr>"
  "select_instruction (table_info isa_table) ''jmp'' [bench_label ''loop'' sp] sp' =
     Inr \<lparr>i_mnemonic = ''JMP'', i_mode = ABS, i_opcode = 0xD3\<rparr>"
  by (simp_all add: select_simps bench_operand_defs)

lemma mem_texts:
  "format_instruction_text ''ldx'' [bench_number 0 True No_Index sp] = ''ldx 0''"
  "format_instruction_text ''lda'' [bench_number 0x200 False Index_X sp] = ''lda 512''"
  "format_instruction_text ''sta'' [bench_number 0x300 False Index_X sp] = ''sta 768''"
  "format_instruction_text ''inx'' [] = ''inx''"
  "format_instruction_text ''bne'' [bench_label ''loop'' sp] = ''bne loop''"
  "format_instruction_text ''jmp'' [bench_label ''loop'' sp] = ''jmp loop''"
  by code_simp+

lemma mem_first_pass: "first_pass (table_info isa_table) default_options mem_statements = Inr mem_pass"
  by (simp add: first_pass_def first_pass_init_def mem_statements_def default_options_def
    mem_select mem_texts table_info_bytes place_item_def validate_cursor_def
    update_max_address_def emplace_def mem_pass_def mem_items_def Let_def throw_if_def)

lemma mem_resolves:
  "resolve_byte_operand mem_pass (bench_number 0 True No_Index (bench_span 2 9 4)) = Inr 0"
  "resolve_word_operand mem_pass (bench_number 0x200 False Index_X (bench_span 4 9 5)) = Inr 0x200"
  "resolve_word_operand mem_pass (bench_number 0x300 False Index_X (bench_span 5 9 5)) = Inr 0x300"
  "resolve_relative_operand mem_pass (bench_label ''loop'' (bench_span 7 9 4)) 0x8009 = Inr 0xF7"
  "resolve_word_operand mem_pass (bench_label ''loop'' (bench_span 8 9 4)) = Inr 0x8002"
  by (simp_all add: bench_resolve_defs mem_pass_def)

lemma mem_encodes: "is_ok (encode mem_pass default_options ''bench.asm'')"
  using mem_resolves
  by (simp add: encode_def Let_def mem_pass_def mem_items_def default_options_def
    encode_item_def encode_instruction_item_def)

definition mem_image :: "u8 list" where
  "mem_image = [0x32, 0, 0xA0, 0, 2, 0xA1, 0, 3, 0x60, 0x71, 0xF7, 0xD3, 2, 0x80] @ replicate (0x8000 - 14) 0xFF"

lemma mem_rom_image: "rom_image mem_pass default_options = mem_image"
proof -
  obtain i0 i1 i2 i3 i4 i5 where items: "mem_items = [i0, i1, i2, i3, i4, i5]"
    "e_address i0 = 0x8000" "the_bytes mem_pass i0 = [0x32, 0]"
    "e_address i1 = 0x8002" "the_bytes mem_pass i1 = [0xA0, 0, 2]"
    "e_address i2 = 0x8005" "the_bytes mem_pass i2 = [0xA1, 0, 3]"
    "e_address i3 = 0x8008" "the_bytes mem_pass i3 = [0x60]"
    "e_address i4 = 0x8009" "the_bytes mem_pass i4 = [0x71, 0xF7]"
    "e_address i5 = 0x800B" "the_bytes mem_pass i5 = [0xD3, 2, 0x80]"
    using mem_resolves by (simp add: the_bytes_def item_bytes_def operand_value_def mem_items_def word_low_def word_high_def)
  have opts: "unat (opt_origin default_options) = 0x8000" "unat (opt_rom_size default_options) = 0x8000"
    by (simp_all add: default_options_def)
  have pass: "fp_items mem_pass = [i0, i1, i2, i3, i4, i5]" using items(1) by (simp add: mem_pass_def)
  have fill: "replicate 0x8000 (0xFF :: u8) = replicate 14 0xFF @ replicate (0x8000 - 14) 0xFF"
    by (rule fill_after) simp
  have start: "replicate 14 (0xFF :: u8) = [0xFF, 0xFF, 0xFF, 0xFF, 0xFF, 0xFF, 0xFF, 0xFF, 0xFF, 0xFF, 0xFF, 0xFF, 0xFF, 0xFF]" by (simp add: numeral_eq_Suc)
  show ?thesis
    unfolding rom_image_def opts fill start pass
    by (simp add: write_item_def items(2-) mem_image_def)
qed

lemma mem_assembles:
  "\<exists>result. assemble fuel (table_info isa_table) fs dir mem_program ''bench.asm'' default_options =
     Some (Inr result) \<and> a_rom result = mem_image"
proof -
  obtain result where r: "encode mem_pass default_options ''bench.asm'' = Inr result"
    using mem_encodes by (rule is_okE)
  have "list_all (\<lambda>s. include_path s = None) mem_statements"
    by (simp add: mem_statements_def)
  note p = process_program_id [OF this]
  have "a_rom result = mem_image"
    using encode_result(1) [OF r first_pass_items_size [OF mem_first_pass]] mem_rom_image by simp
  then show ?thesis
    by (simp add: assemble_def mem_parses process_includes_def p mem_first_pass r Let_def del: bind_ok_def)
qed

end
