(* ===== verification/Bench_Runs.thy ===== *)
theory Bench_Runs
  imports Bench_Programs
begin

text \<open>
  The programs of the benchmark never end: their invariants, and what the benchmark then reports.
\<close>

section \<open>Fetching\<close>

lemma image_lengths [simp]: "length loop_image = 0x8000" "length mem_image = 0x8000"
  by (simp_all add: loop_image_def mem_image_def)

lemma rom_byte:
  assumes "length ram = 0x2000" and "length rom = 0x8000" and "isa_mem u = ram_memory ram rom"
    and "0x8000 \<le> unat (isa_pc u)"
  shows "isa_next u = Inr (rom ! (unat (isa_pc u) - 0x8000), u\<lparr>isa_pc := isa_pc u + 1\<rparr>)"
proof -
  have "unat (isa_pc u) < 65536" by (rule unat_u16_less)
  then have "read_at (isa_pc u) (isa_mem u) = Inr (rom ! (unat (isa_pc u) - 0x8000), isa_mem u)"
    unfolding assms(3) using assms(1,2,4) by (intro read_rom) simp_all
  then show ?thesis by (simp add: isa_next_def isa_read_def)
qed

text \<open>The state of a program in the ROM: nothing interrupts it, and its RAM has the size of RAM.\<close>

definition at_home :: "u8 list \<Rightarrow> u16 list \<Rightarrow> isa \<Rightarrow> bool" where
  "at_home rom pcs u \<longleftrightarrow> \<not> isa_halted u \<and> \<not> isa_line u \<and> isa_pc u \<in> set pcs \<and>
     (\<exists>ram. length ram = 0x2000 \<and> isa_mem u = ram_memory ram rom)"

lemma at_home_step:
  assumes home: "at_home rom pcs u" and rom: "length rom = 0x8000" "\<forall>pc\<in>set pcs. 0x8000 \<le> unat pc"
    and instr: "map_of isa_table (rom ! (unat (isa_pc u) - 0x8000)) = Some i"
    and exec: "\<And>ram. length ram = 0x2000 \<Longrightarrow> isa_mem u = ram_memory ram rom \<Longrightarrow>
      (\<And>w. isa_mem w = ram_memory ram rom \<Longrightarrow> 0x8000 \<le> unat (isa_pc w) \<Longrightarrow>
        isa_next w = Inr (rom ! (unat (isa_pc w) - 0x8000), w\<lparr>isa_pc := isa_pc w + 1\<rparr>)) \<Longrightarrow>
      \<exists>w. isa_exec i (u\<lparr>isa_pc := isa_pc u + 1\<rparr>) = Inr w \<and> at_home rom pcs w"
  shows "\<exists>u'. isa_step isa_table u = Some (Inr u') \<and> at_home rom pcs u'"
proof -
  obtain ram where ram: "length ram = 0x2000" "isa_mem u = ram_memory ram rom"
    and u: "\<not> isa_halted u" "\<not> isa_line u" "isa_pc u \<in> set pcs"
    using home by (auto simp: at_home_def)
  have "0x8000 \<le> unat (isa_pc u)" using rom(2) u(3) by blast
  note next_ = rom_byte [OF ram(1) rom(1) ram(2) this]
  obtain w where w: "isa_exec i (u\<lparr>isa_pc := isa_pc u + 1\<rparr>) = Inr w" "at_home rom pcs w"
    using exec [OF ram rom_byte [OF ram(1) rom(1)]] by blast
  have "isa_line_next w = w"
    using w(2) by (cases w) (auto simp: at_home_def isa_line_next_def)
  then show ?thesis
    using u w by (simp add: isa_step_def next_ isa_decoded_def instr)
qed

lemmas exec_simps =
  isa_next_word_def isa_read_def isa_write_def word_of_bytes_def
  at_home_def Let_def split_beta

lemma ram_address:
  "b \<le> 0x1F00 \<Longrightarrow> unat ((b :: u16) + ucast (x :: u8)) = unat b + unat x"
  "b \<le> 0x1F00 \<Longrightarrow> unat (b + ucast x) < 0x2000"
proof -
  assume b: "b \<le> 0x1F00"
  have "unat b \<le> 0x1F00" using b by (simp add: word_le_nat_alt)
  moreover have "unat x < 256" by (rule unat_u8_less)
  moreover have "unat (ucast x :: u16) = unat x"
    using calculation(2) by (simp add: unsigned_ucast_eq take_bit_eq_mod)
  moreover have "unat b + unat x < 0x2000" using calculation(1,2) by linarith
  ultimately show "unat (b + ucast x) = unat b + unat x" "unat (b + ucast x) < 0x2000"
    by (simp_all add: unat_word_ariths)
qed

section \<open>The arithmetic loop\<close>

definition loop_home :: "isa \<Rightarrow> bool" where
  "loop_home = at_home loop_image [0x8000, 0x8001, 0x8003, 0x8005, 0x8007, 0x8009]"

lemma loop_bytes:
  "loop_image ! 0 = 0xC8" "loop_image ! Suc 0 = 0x10" "loop_image ! 2 = 0" "loop_image ! 3 = 0x20"
  "loop_image ! 4 = 1" "loop_image ! 5 = 0x11" "loop_image ! 6 = 0xFF" "loop_image ! 7 = 0x71"
  "loop_image ! 8 = 0xFA" "loop_image ! 9 = 0xD3" "loop_image ! 10 = 3" "loop_image ! 11 = 0x80"
  by (simp_all add: loop_image_def)

lemma bench_opcodes:
  "map_of isa_table 0xC8 = Some I_clc" "map_of isa_table 0x10 = Some (I_load In_a Immediate)"
  "map_of isa_table 0x20 = Some (I_arith Op_adc Immediate)"
  "map_of isa_table 0x11 = Some (I_compare In_a Immediate)"
  "map_of isa_table 0x71 = Some (I_branch Zero False)" "map_of isa_table 0xD3 = Some I_jmp"
  "map_of isa_table 0x32 = Some (I_load In_x Immediate)"
  "map_of isa_table 0xA0 = Some (I_load In_a (In_memory At_absolute_x))"
  "map_of isa_table 0xA1 = Some (I_store In_a At_absolute_x)"
  "map_of isa_table 0x60 = Some (I_modify_register Op_inc In_x)"
  by (simp_all add: isa_table_def)

lemma branch_offsets: "(of_int (sint (0xFA :: u8)) :: u16) = 0xFFFA" "(of_int (sint (0xF7 :: u8)) :: u16) = 0xFFF7"
  by simp_all

interpretation arithmetic_loop: endless_program isa_table loop_home
proof
  fix u assume u: "loop_home u"
  then show "\<not> isa_halted u" by (simp add: loop_home_def at_home_def)
  have pc: "isa_pc u \<in> {0x8000, 0x8001, 0x8003, 0x8005, 0x8007, 0x8009}"
    and home: "\<not> isa_halted u" "\<not> isa_line u"
    using u by (simp_all add: loop_home_def at_home_def)
  show "\<exists>u'. isa_step isa_table u = Some (Inr u') \<and> loop_home u'"
    unfolding loop_home_def
  proof (rule at_home_step [OF u [unfolded loop_home_def]])
    show "map_of isa_table (loop_image ! (unat (isa_pc u) - 0x8000)) = Some
      (the (map_of isa_table (loop_image ! (unat (isa_pc u) - 0x8000))))"
      using pc by (auto simp: loop_bytes bench_opcodes)
  next
    fix ram assume ram: "length ram = 0x2000" "isa_mem u = ram_memory ram loop_image"
      and next_: "\<And>w. isa_mem w = ram_memory ram loop_image \<Longrightarrow> 0x8000 \<le> unat (isa_pc w) \<Longrightarrow>
        isa_next w = Inr (loop_image ! (unat (isa_pc w) - 0x8000), w\<lparr>isa_pc := isa_pc w + 1\<rparr>)"
    show "\<exists>w. isa_exec (the (map_of isa_table (loop_image ! (unat (isa_pc u) - 0x8000))))
        (u\<lparr>isa_pc := isa_pc u + 1\<rparr>) = Inr w \<and>
      at_home loop_image [0x8000, 0x8001, 0x8003, 0x8005, 0x8007, 0x8009] w"
      using pc home ram
      by (auto simp: next_ exec_simps loop_bytes bench_opcodes branch_offsets simp del: isa_arith.simps)
  qed simp_all
qed

section \<open>The copying loop\<close>

definition mem_home :: "isa \<Rightarrow> bool" where
  "mem_home = at_home mem_image [0x8000, 0x8002, 0x8005, 0x8008, 0x8009, 0x800B]"

lemma mem_bytes:
  "mem_image ! 0 = 0x32" "mem_image ! Suc 0 = 0" "mem_image ! 2 = 0xA0" "mem_image ! 3 = 0"
  "mem_image ! 4 = 2" "mem_image ! 5 = 0xA1" "mem_image ! 6 = 0" "mem_image ! 7 = 3"
  "mem_image ! 8 = 0x60" "mem_image ! 9 = 0x71" "mem_image ! 10 = 0xF7" "mem_image ! 11 = 0xD3"
  "mem_image ! 12 = 2" "mem_image ! 13 = 0x80"
  by (simp_all add: mem_image_def)

interpretation copying_loop: endless_program isa_table mem_home
proof
  fix u assume u: "mem_home u"
  then show "\<not> isa_halted u" by (simp add: mem_home_def at_home_def)
  have pc: "isa_pc u \<in> {0x8000, 0x8002, 0x8005, 0x8008, 0x8009, 0x800B}"
    and home: "\<not> isa_halted u" "\<not> isa_line u"
    using u by (simp_all add: mem_home_def at_home_def)
  show "\<exists>u'. isa_step isa_table u = Some (Inr u') \<and> mem_home u'"
    unfolding mem_home_def
  proof (rule at_home_step [OF u [unfolded mem_home_def]])
    show "map_of isa_table (mem_image ! (unat (isa_pc u) - 0x8000)) = Some
      (the (map_of isa_table (mem_image ! (unat (isa_pc u) - 0x8000))))"
      using pc by (auto simp: mem_bytes bench_opcodes)
  next
    fix ram assume ram: "length ram = 0x2000" "isa_mem u = ram_memory ram mem_image"
      and next_: "\<And>w. isa_mem w = ram_memory ram mem_image \<Longrightarrow> 0x8000 \<le> unat (isa_pc w) \<Longrightarrow>
        isa_next w = Inr (mem_image ! (unat (isa_pc w) - 0x8000), w\<lparr>isa_pc := isa_pc w + 1\<rparr>)"
    show "\<exists>w. isa_exec (the (map_of isa_table (mem_image ! (unat (isa_pc u) - 0x8000))))
        (u\<lparr>isa_pc := isa_pc u + 1\<rparr>) = Inr w \<and>
      at_home mem_image [0x8000, 0x8002, 0x8005, 0x8008, 0x8009, 0x800B] w"
      using pc home ram
      by (auto simp: next_ exec_simps mem_bytes bench_opcodes branch_offsets
        read_ram [OF ram(1) ram_address(2)] write_ram [OF ram(1) ram_address(2)] simp del: isa_modify.simps)
  qed simp_all
qed

section \<open>The run of the benchmark\<close>

lemma bench_booted:
  assumes micro: "compile (cpu_compiler ops) (isa_source isa_table) = Inr p"
    and asm: "\<exists>result. assemble fuel (table_info isa_table) fs dir src ''bench.asm'' default_options =
      Some (Inr result) \<and> a_rom result = rom"
    and rom: "length rom = 0x8000" "rom ! 0 \<in> fst ` set isa_table" and pc: "0x8000 \<in> set pcs"
  shows "\<exists>s. bench_cpu fuel (table_info isa_table) fs dir p src = Some (Inr s) \<and>
    running isa_table s \<and> at_home rom pcs (isa_view s)"
proof -
  have size: "cartridge_size_ok (length rom)"
    using default_options_standard rom(1) by (simp add: standard_options_def default_options_def)
  obtain im where im: "table_loaded im isa_table"
    "bind_ok (make_cpu p rom []) (boot 0x8000) = Inr (booted im rom)"
    by (rule program_boots [OF micro size])
  have "at_home rom pcs (isa_view (booted im rom))"
    using pc by (auto simp: booted_view isa_boot_def at_home_def cartridge_ram_memory)
  moreover have "running isa_table (booted im rom)" by (rule booted_running [OF im(1) size rom(2)])
  moreover have "bench_cpu fuel (table_info isa_table) fs dir p src = Some (Inr (booted im rom))"
    using asm im(2) by (auto simp: bench_cpu_def)
  ultimately show ?thesis by blast
qed

lemma bench_times_out:
  assumes "compile (cpu_compiler ops) (isa_source isa_table) = Inr p"
  shows "bench_cycles_run (bench_cpu fuel (table_info isa_table) fs dir p (bench_program opts)) n =
    Some (Inr \<lparr>result_reason = Reason_timeout, result_cycles = n\<rparr>)"
proof -
  have opcodes: "loop_image ! 0 \<in> fst ` set isa_table" "mem_image ! 0 \<in> fst ` set isa_table"
    by (simp_all add: loop_bytes mem_bytes isa_table_def)
  have loop_start: "0x8000 \<in> set [0x8000, 0x8001, 0x8003, 0x8005, 0x8007, 0x8009 :: u16]"
    and mem_start: "0x8000 \<in> set [0x8000, 0x8002, 0x8005, 0x8008, 0x8009, 0x800B :: u16]"
    by simp_all
  obtain s t where s: "bench_cpu fuel (table_info isa_table) fs dir p (bench_program opts) = Some (Inr s)"
    "run_until_halt_max n s = Some (Inr (\<lparr>result_reason = Reason_timeout, result_cycles = n\<rparr>, t))"
  proof (cases "bench_workload opts = ''mem''")
    case True
    obtain s where s: "bench_cpu fuel (table_info isa_table) fs dir p mem_program = Some (Inr s)"
      "running isa_table s" "mem_home (isa_view s)"
      using bench_booted [OF assms mem_assembles _ opcodes(2) mem_start]
      unfolding mem_home_def by (metis image_lengths(2))
    with copying_loop.times_out [OF s(2,3)] True that show ?thesis
      by (auto simp: bench_program_def)
  next
    case False
    obtain s where s: "bench_cpu fuel (table_info isa_table) fs dir p loop_program = Some (Inr s)"
      "running isa_table s" "loop_home (isa_view s)"
      using bench_booted [OF assms loop_assembles _ opcodes(1) loop_start]
      unfolding loop_home_def by (metis image_lengths(1))
    with arithmetic_loop.times_out [OF s(2,3)] False that show ?thesis
      by (auto simp: bench_program_def)
  qed
  then show ?thesis by (simp add: bench_cycles_run_def)
qed

text \<open>Whatever the command line says, the report is that of a run over all the cycles.\<close>

lemma benchmark_reports:
  assumes "compile (cpu_compiler ops) (isa_source isa_table) = Inr p"
    and "parse_bench_args args default_bench_options = Inr opts"
  shows "bench_main clock writable (bench_cpu fuel (table_info isa_table) fs dir p) args disk =
    (let report = bench_report opts
           \<lparr>result_reason = Reason_timeout, result_cycles = bench_cycles opts\<rparr> (clock (bench_cycles opts))
     in Some (Exit 0,
       if bench_output opts = [] then (report, disk)
       else ([], if writable (bench_output opts)
                 then disk(bench_output opts \<mapsto> file_bytes report) else disk)))"
  by (simp add: bench_main_def assms(2) run_benchmark_def bench_times_out [OF assms(1)] Let_def)

end
