(* ===== verification/Isa_Default.thy ===== *)
theory Isa_Default
  imports Isa_Endless
begin

text \<open>
  The default processor (\<open>Cpu::Cpu()\<close>): the microcode of the repository, compiled once, and no
  cartridge. Its run from the reset state.
\<close>

definition default_microcode :: "micro_error + microcode_program" where
  "default_microcode = compile (cpu_compiler (map fst isa_table)) (isa_source isa_table)"

text \<open>The constructor delegates with no ROM; either part may throw.\<close>

definition default_cpu :: "(micro_error + sim_error) + cpu" where
  "default_cpu =
     (case default_microcode of
        Inl e \<Rightarrow> Inl (Inl e)
      | Inr p \<Rightarrow> (case make_cpu p [] [] of Inl e \<Rightarrow> Inl (Inr e) | Inr s \<Rightarrow> Inr s))"

definition empty_rom :: "u8 list" where
  "empty_rom = replicate 0x8000 0xFF"

lemma empty_rom_size: "cartridge_size_ok (length empty_rom)"
  using default_options_standard
  by (simp add: empty_rom_def standard_options_def default_options_def)

lemma empty_regions: "bind_ok (build_regions [] []) make_memory = Inr (cartridge_memory empty_rom)"
proof -
  have "build_regions [] [] = build_regions empty_rom []"
    by (simp add: build_regions_def make_rom_fill_def make_rom_def empty_rom_def)
  then show ?thesis using build_cartridge_memory [OF empty_rom_size] by simp
qed

text \<open>The state at the start: all registers zero, the program counter too.\<close>

definition isa_reset :: isa where
  "isa_reset = (isa_boot empty_rom)\<lparr>isa_pc := 0\<rparr>"

lemma fresh_view: "isa_view (fresh_cpu im (cartridge_memory empty_rom)) = isa_reset"
  by (simp add: isa_view_def isa_of_def core_of_def isa_reset_def isa_boot_def fresh_cpu_def
    irq_up_def irq_after_no_input cartridge_no_input)

lemma fresh_cycles: "cycle_count (fresh_cpu im m) = 0"
  by (simp add: fresh_cpu_def)

lemma fresh_between: "between im isa_table (fresh_cpu im (cartridge_memory empty_rom))"
  using cartridge_memory_wf [OF empty_rom_size]
  by (simp add: between_def ready_def idle_def fresh_cpu_def ir_value_def isa_table_def)

section \<open>The run\<close>

text \<open>
  The RAM is zero, and the opcode 0 is the entry of an interrupt: it pushes the program counter
  and the status, with the stack pointer wrapping from 0, and jumps to the vector of the empty
  ROM, 0xFFFF, where the opcode of a crash stands.
\<close>

definition crash_ram :: "u8 list" where
  "crash_ram = (replicate 0x2000 0)[0x100 := 0, 0x1FF := 1, 0x1FE := 4]"

lemma empty_rom_reads:
  "length ram = 0x2000 \<Longrightarrow> 0x8000 \<le> unat a \<Longrightarrow>
   read_at a (ram_memory ram empty_rom) = Inr (0xFF, ram_memory ram empty_rom)"
proof -
  assume a: "length ram = 0x2000" "0x8000 \<le> unat a"
  have "unat a - 0x8000 < 0x8000" using unat_u16_less [of a] a(2) by linarith
  then have "empty_rom ! (unat a - 0x8000) = 0xFF" unfolding empty_rom_def by (rule nth_replicate)
  then show ?thesis using a read_rom [of ram empty_rom a] unat_u16_less [of a]
    by (simp add: empty_rom_def)
qed

lemma reset_opcodes: "map_of isa_table 0 = Some I_irq" "map_of isa_table 0xFF = Some I_crs"
  by (simp_all add: isa_table_def)

lemma wrapped_stack:
  "(ucast (- 1 :: u8) :: u16) = 0xFF" "(ucast (- 2 :: u8) :: u16) = 0xFE" "(ucast (- 3 :: u8) :: u16) = 0xFD"
  by code_simp+

lemmas reset_simps =
  isa_step_def isa_next_def isa_read_def isa_write_def isa_push_def isa_push_pc_def isa_read_word_def
  isa_interrupt_def isa_flag_def isa_decoded_def isa_line_next_def isa_reset_def isa_boot_def
  cartridge_ram_memory reset_opcodes read_ram write_ram empty_rom_reads word_of_bytes_def
  word_high_def word_low_def status_set_def wrapped_stack

definition isa_vector :: isa where
  "isa_vector = isa_reset\<lparr>isa_pc := 0xFFFF, isa_sp := 0xFD, isa_st := 4,
     isa_mem := ram_memory crash_ram empty_rom\<rparr>"

lemma reset_pushes:
  "isa_push_pc (isa_reset\<lparr>isa_pc := 1, isa_st := 4\<rparr>) =
     Inr (isa_reset\<lparr>isa_pc := 1, isa_st := 4, isa_sp := 0xFE,
       isa_mem := ram_memory ((replicate 0x2000 0)[0x100 := 0, 0x1FF := 1]) empty_rom\<rparr>)"
  by (simp add: reset_simps)

lemma reset_next: "isa_next isa_reset = Inr (0, isa_reset\<lparr>isa_pc := 1\<rparr>)"
  by (simp add: reset_simps)

lemma reset_step: "isa_step isa_table isa_reset = Some (Inr isa_vector)"
proof -
  note reset_next
  moreover have "isa_interrupt False (isa_reset\<lparr>isa_pc := 1\<rparr>) = Inr isa_vector"
    using reset_pushes
    by (simp add: isa_interrupt_def isa_flag_def isa_push_def isa_read_word_def isa_read_def isa_write_def
      word_of_bytes_def write_ram read_ram empty_rom_reads isa_vector_def crash_ram_def isa_reset_def
      isa_boot_def status_set_def)
  moreover have "\<not> isa_halted isa_reset" "isa_decoded isa_reset 0 = 0"
    by (simp_all add: isa_reset_def isa_boot_def isa_decoded_def)
  moreover have "isa_line_next isa_vector = isa_vector"
    by (simp add: isa_line_next_def isa_vector_def isa_reset_def isa_boot_def)
  ultimately show ?thesis by (simp add: isa_step_def reset_opcodes)
qed

lemma vector_next: "isa_next isa_vector = Inr (0xFF, isa_vector\<lparr>isa_pc := 0\<rparr>)"
proof -
  have "length crash_ram = 0x2000" by (simp add: crash_ram_def)
  then show ?thesis
    by (simp add: isa_next_def isa_read_def isa_vector_def isa_reset_def isa_boot_def empty_rom_reads)
qed

lemma vector_crashes:
  "isa_step isa_table isa_vector =
     Some (Inr (isa_vector\<lparr>isa_pc := 0, isa_halted := True, isa_crashed := True\<rparr>))"
proof -
  note vector_next
  moreover have "\<not> isa_halted isa_vector" "isa_decoded isa_vector 0xFF = 0xFF"
    by (simp_all add: isa_vector_def isa_reset_def isa_boot_def isa_decoded_def)
  ultimately show ?thesis
    by (simp add: isa_step_def reset_opcodes isa_line_next_def isa_vector_def isa_reset_def isa_boot_def)
qed

lemma reset_crashes:
  "\<exists>u. isa_run isa_table 2 isa_reset = Some (Inr u) \<and> isa_halted u \<and> isa_crashed u \<and>
     isa_mem u = ram_memory crash_ram empty_rom \<and> isa_sp u = 0xFD"
proof -
  have "isa_run isa_table 2 isa_reset =
      Some (Inr (isa_vector\<lparr>isa_pc := 0, isa_halted := True, isa_crashed := True\<rparr>))"
    by (simp add: isa_run_def numeral_2_eq_2 reset_step vector_crashes)
  then show ?thesis by (simp add: isa_vector_def)
qed

lemma reset_time: "isa_time isa_table 2 isa_reset = 19"
proof -
  have "isa_cycles isa_table isa_reset = 15"
    using reset_next
    by (simp add: isa_cycles_def reset_opcodes isa_decoded_def isa_reset_def isa_boot_def push_pc_micro_def
      vector_micro_def)
  moreover have "isa_cycles isa_table isa_vector = 4"
    using vector_next
    by (simp add: isa_cycles_def reset_opcodes isa_decoded_def isa_vector_def isa_reset_def isa_boot_def)
  ultimately show ?thesis
    by (simp add: isa_time_def numeral_2_eq_2 reset_step vector_crashes)
qed

lemma default_crashes:
  "\<exists>s t res. default_cpu = Inr s \<and> run_until_halt s = Some (Inr (res, t)) \<and>
     result_reason res = Reason_crash \<and> result_cycles res = 19 \<and> byte_regs t Reg_sp = 0xFD \<and>
     mem t = ram_memory crash_ram empty_rom"
proof -
  obtain p where p: "default_microcode = Inr p"
    using isa_compiles [OF isa_table_ok, of "map fst isa_table"] by (auto simp: default_microcode_def)
  obtain im where im: "make_instruction_memory hdl_controls p = Inr im" "table_loaded im isa_table"
    by (rule compiled_table_loaded [OF p [unfolded default_microcode_def]])
  let ?s = "fresh_cpu im (cartridge_memory empty_rom)"
  have s: "default_cpu = Inr ?s"
    by (simp add: default_cpu_def p make_cpu_ok [OF im(1) empty_regions])
  obtain u where u: "isa_run isa_table 2 isa_reset = Some (Inr u)" "isa_halted u" "isa_crashed u"
    "isa_mem u = ram_memory crash_ram empty_rom" "isa_sp u = 0xFD"
    using reset_crashes by blast
  obtain q where q: "run_until_halt ?s = Some q" "\<exists>res t. q = Inr (res, t) \<and> isa_view t = u \<and>
      result_reason res = (if isa_crashed u then Reason_crash else Reason_halt) \<and>
      result_cycles res = 0 + of_nat (isa_time isa_table 2 isa_reset)"
    using stopped_run [OF im(2) fresh_between, of 2 "Inr u"] u(1,2)
    by (auto simp: fresh_view fresh_cycles isa_stopped_def)
  then obtain res t where "q = Inr (res, t)" "isa_view t = u" "result_reason res = Reason_crash"
    "result_cycles res = 19"
    using u(3) by (auto simp: reset_time)
  with s q(1) u(4,5) show ?thesis
    by (auto simp: isa_view_def isa_of_def core_of_def)
qed

end
