(* ===== verification/Spec2Isabelle.thy ===== *)
theory Spec2Isabelle
  imports Example_Files Example_Isa Base_Operators Bench_Runs Isa_Default
begin

text \<open>
  A verification development of the IRATA2 project: an 8-bit computer with its schematic
  (\<open>hdl\<close>), a compiler of its microcode (\<open>microcode\<close>), an assembler (\<open>assembler\<close>), a
  simulator with its devices and tools (\<open>sim\<close>) and a window around it (\<open>frontend\<close>).

  \<^bold>\<open>How the parts interact.\<close> The schematic fixes the components and the order of their
  control signals. The microcode compiler turns an instruction set (opcodes, status variants,
  steps of controls) into a table from opcode, step and status to a 128-bit control word over
  that order. The assembler turns a source text into a cartridge file and a debug document. The
  simulator registers the same controls, loads the table and the cartridge, and runs ticks of
  five phases; its memory has RAM, the cartridge, and in the demo a keyboard and a vector
  graphics device. The disassembler, the inspector and the dump read what the others write.

  \<^bold>\<open>Base.\<close> \<open>Prelude\<close>: words of the C++ widths, results that may be an exception (a sum whose
  left side is the error; \<open>bind_ok\<close>, \<open>fold_ok\<close>, \<open>map_ok\<close>), runs that may not end (an option
  around it; \<open>run_bind\<close>). \<open>Base_Types\<close>: \<open>base/types.h\<close> and \<open>tick_phase.h\<close>.
  \<open>Base_Operators\<close>: every operator of \<open>types.h\<close> with C++'s promotion to \<open>int\<close> and conversion
  back, and that it is the arithmetic of words.
  \<open>Text_Formats\<close>: character classes and number formats of the C++ library.

  \<^bold>\<open>Schematic.\<close> \<open>Hdl\<close> has the components and controls of \<open>hdl/cpu.h\<close> as datatypes, their
  paths and phases, and the visitor that lists the controls (\<open>hdl_controls\<close>).

  \<^bold>\<open>Microcode compiler.\<close> \<open>Micro_Ir\<close> (records of the intermediate representation, path
  resolver, builder), \<open>Micro_Encoders\<close> (control words, table keys, status patterns),
  \<open>Micro_Passes\<close> (the transformers, optimizers and validators of \<open>microcode/src/compiler\<close>),
  \<open>Micro_Compiler\<close> (the driver and the encoding of the table), \<open>Micro_Decoder\<close> and
  \<open>Micro_Dump\<close> (the dumps of \<open>debug/decoder.cpp\<close> and what they contain). The lemmas show what
  each validator guarantees, that the optimizers keep it, that encoding never fails on a
  validated set, and that words decode to the controls they were made from. The locale
  \<open>control_codec\<close> is the contract of an encoding of control sets; the compiler's 128-bit word
  and the simulator's byte vector are its two interpretations.

  \<^bold>\<open>Simulator.\<close> \<open>Sim_Signals\<close> (controls with their phase checks, buses, status bits),
  \<open>Sim_Alu\<close>, \<open>Sim_Input_Device\<close> (interpretation of the queue locale \<open>byte_fifo\<close>),
  \<open>Sim_Vgc\<close> (device and line drawing; interpretation of the locale \<open>raster\<close>),
  \<open>Sim_Memory\<close> (modules, regions and dispatch; two interpretations of the locale
  \<open>byte_store\<close>), \<open>Sim_Controller\<close> (encoders and instruction memory), \<open>Sim_Trace\<close>,
  \<open>Sim_Cpu\<close> (one record \<open>cpu\<close> for the state of all components, the five phases over the tree
  of components in registration order, the run loops and the constructor). \<open>Sim_Tick\<close>,
  \<open>Sim_Exec\<close>, \<open>Sim_Fetch\<close> and \<open>Sim_Run\<close> reduce a tick to the components whose controls are
  asserted, compute concrete microcode steps and show that bounded runs end. \<open>Sim_Cartridge\<close>
  and \<open>Sim_Debug_Symbols\<close> are the readers of the two files of the assembler,
  \<open>Sim_Debug_Dump\<close> the dump, \<open>Sim_Runner\<close> the command \<open>run.cpp\<close>, \<open>Sim_Boot\<close> its start and
  exactly which controls the constructor accepts.

  \<^bold>\<open>Assembler.\<close> \<open>Asm_Lexer\<close>, \<open>Asm_Parser\<close>, \<open>Asm_Include\<close>, \<open>Asm_Cartridge\<close> (header and
  debug document), \<open>Asm_Assembler\<close> (the two passes and \<open>Assemble\<close>). \<open>Asm_Passes\<close> has the
  invariant of the first pass, the addresses of statements and the image of the second pass;
  \<open>Debug_Roundtrip\<close> and \<open>Asm_Debug\<close> the way of the debug document through the JSON reader.

  \<^bold>\<open>Instruction set.\<close> \<open>Isa_Spec\<close> is the specification: a record of registers, flags and memory
  and what every instruction does to it (\<open>isa_exec\<close>, \<open>isa_step\<close>). \<open>Tick_Refinement\<close> is the
  contract between a model that steps at a cost and a machine that ticks (locale
  \<open>tick_refinement\<close>). \<open>Isa_Microcode\<close> has the
  153 entries of \<open>isa/instructions.yaml\<close> (\<open>isa_table\<close>) and the programs of
  \<open>microcode/microcode.yaml\<close>: every entry is composed of the steps of its addressing mode and of
  its operation, control by control those of the file. \<open>Isa_Steps\<close> computes what a tick with the
  controls of each step does, \<open>Isa_Execution\<close> runs the steps of an instruction and compares the
  result with the specification, \<open>Isa_Refinement\<close> finds the steps in the compiled table and
  interprets the locale on the processor, \<open>Isa_Compile\<close> proves that the compiler accepts the
  source, \<open>Isa_Programs\<close> goes from boot to the exit code of the command, \<open>Isa_Assembler\<close> has the
  mnemonics and lengths that the assembler uses (\<open>Isa_Lookup\<close> its lookups in the repository's
  table). All of it holds for any table of these instructions (\<open>table_wf\<close>), in any order.
  \<open>Isa_Endless\<close> is the contract of a program that never ends (locale \<open>endless_program\<close>) and what a
  bounded run of it returns; \<open>Isa_Default\<close> runs the default processor, without a cartridge.

  \<^bold>\<open>Tools and window.\<close> \<open>Sim_Disassembler\<close> is the listing. \<open>Lexer_Text\<close> describes the lexer by
  the text that is left, \<open>Asm_Disassembly\<close> and \<open>Disassembly_Roundtrip\<close> take a listing through
  lexer, parser and both passes. \<open>Tools\<close> has the command lines of assembler, disassembler,
  inspector and dump over a map of files, \<open>Tools_Roundtrip\<close> runs them one after the other.
  \<open>Demo\<close> is the window: keys, events, frames, command line. \<open>Bench\<close> is the benchmark,
  \<open>Bench_Programs\<close> takes its two programs through the assembler, \<open>Bench_Runs\<close> interprets
  \<open>endless_program\<close> on both. \<open>Example_Machine\<close>, \<open>Example_Assembly\<close>, \<open>Example_Tools\<close>,
  \<open>Example_Files\<close> and \<open>Example_Isa\<close> hold the concrete microprogram, programs and files that the theorems of this theory are evaluated on.

  \<^bold>\<open>Bounds and fuel.\<close> Machine integers are words of their width; cursors of the assembler,
  line numbers and sizes of containers are natural numbers, whose C++ types (32 bits and more)
  are not exhausted before memory is. Nested includes have one unit of fuel per open file: no
  result means a deeper recursion, \<open>includes_terminate\<close> gives a sufficient amount and
  \<open>circular_includes_never_return\<close> a case where none suffices. The JSON reader gets one unit per
  character and one more, which is always enough (\<open>debug_reader_returns\<close>). The run loops, the
  line loop and the frames of the demo are \<open>partial_function\<close>s without fuel; no result means
  that they do not end, and their ends are theorems.

  \<^bold>\<open>Parameters.\<close> Code that is generated at build time or comes from elsewhere is an argument:
  the instruction set \<open>isa_info\<close> of the assembler and disassembler (the lookup by opcode
  follows \<open>isa/generate_isa.py\<close>; the repository's is \<open>table_info isa_table\<close>), the microcode
  instruction set (the repository's is \<open>isa_source isa_table\<close>), the file system and the
  contents of files, the key codes, events and start of SDL, the parsed flags of the dump,
  the two numbers that the clock of the benchmark gives.
  Hash maps whose iteration order the program can observe are association lists, and the order
  of the list stands for the unspecified one.

  \<^bold>\<open>Not modelled.\<close> Logging and usage texts, which no state depends on; the accessors for tests;
  the clock of the benchmark; the text that the generator scripts emit; windows, delays and other effects of SDL.
\<close>

section \<open>Properties\<close>

text \<open>C1 (instruction_refinement). The ticking processor implements the instruction set: with the compiled microcode of the repository, between two instructions, the ticks of the next instruction (three of the fetch, then one per step of the variant that the status selects) take the registers, flags, memory, interrupt line and halt state exactly where the specification of the instruction takes them, or fail with its error; and the processor is between two instructions again.\<close>

theorem instruction_refinement:
  assumes "compile (cpu_compiler ops) (isa_source tab) = Inr p"
    and "make_instruction_memory hdl_controls p = Inr im"
    and "between im tab s" and "isa_step tab (isa_view s) = Some r"
  shows "case r of
      Inl e \<Rightarrow> ticks (isa_cycles tab (isa_view s)) s = Inl e
    | Inr u \<Rightarrow> \<exists>t. ticks (isa_cycles tab (isa_view s)) s = Inr t \<and> isa_view t = u \<and>
        (\<not> halted t \<longrightarrow> between im tab t) \<and>
        cycle_count t = cycle_count s + of_nat (isa_cycles tab (isa_view s))"
proof -
  obtain im' where "make_instruction_memory hdl_controls p = Inr im'" and tab: "table_loaded im' tab"
    by (rule compiled_table_loaded [OF assms(1)])
  then have "table_loaded im tab" using assms(2) by simp
  from instruction_ticks [OF this assms(3,4)] show ?thesis .
qed

theorem instruction_refinement_witness:
  "\<exists>p im t. compile (cpu_compiler (map fst isa_table)) (isa_source isa_table) = Inr p \<and>
     make_instruction_memory hdl_controls p = Inr im \<and>
     ticks 5 (booted im halting_image) = Inr t \<and> isa_view t = halting_loaded"
proof -
  obtain p where p: "compile (cpu_compiler (map fst isa_table)) (isa_source isa_table) = Inr p"
    using halting_compiles ..
  obtain im where im: "make_instruction_memory hdl_controls p = Inr im"
    by (rule compiled_table_loaded [OF p])
  have "isa_step isa_table (isa_view (booted im halting_image)) = Some (Inr halting_loaded)"
    by (simp add: booted_view halting_step)
  from instruction_refinement [OF p im halting_boots this]
  show ?thesis using p im by (auto simp: booted_view halting_cycles)
qed

text \<open>C2 (program_refinement). A program on a cartridge runs as the instruction set says: a processor that is built from the compiled microcode and booted on a cartridge follows every run of the specification from its initial state (registers and flags zero, the stack pointer included), in a number of ticks that is computed from the specification and that the cycle counter shows, up to the same registers, flags and memory, or to the same error.\<close>

theorem program_refinement:
  assumes "compile (cpu_compiler ops) (isa_source tab) = Inr p"
    and "cartridge_size_ok (length rom)" and "rom ! 0 \<in> fst ` set tab"
    and "isa_run tab n (isa_boot rom) = Some r" and "k = isa_time tab n (isa_boot rom)"
  shows "\<exists>s. bind_ok (make_cpu p rom []) (boot 0x8000) = Inr s \<and>
    (case r of
       Inl e \<Rightarrow> ticks k s = Inl e
     | Inr u \<Rightarrow> \<exists>t. ticks k s = Inr t \<and> isa_view t = u \<and> cycle_count t = of_nat k)"
proof -
  obtain im where im: "table_loaded im tab"
    and boot: "bind_ok (make_cpu p rom []) (boot 0x8000) = Inr (booted im rom)"
    by (rule program_boots [OF assms(1,2)])
  have "iterate (isa_step tab) n (isa_view (booted im rom)) = Some r"
    using assms(4) by (simp add: isa_run_def booted_view)
  from processor.iterate_refined [OF booted_running [OF im assms(2,3)] this]
  have "case r of Inl e \<Rightarrow> ticks k (booted im rom) = Inl e
    | Inr u \<Rightarrow> \<exists>t. ticks k (booted im rom) = Inr t \<and> isa_view t = u \<and> running tab t \<and>
        cycle_count t = cycle_count (booted im rom) + of_nat k"
    by (simp only: assms(5) isa_time_def booted_view)
  with boot show ?thesis by (auto simp: booted_cycles split: sum.splits)
qed

theorem program_refinement_witness:
  "\<exists>p s t. compile (cpu_compiler (map fst isa_table)) (isa_source isa_table) = Inr p \<and>
     bind_ok (make_cpu p halting_image []) (boot 0x8000) = Inr s \<and>
     ticks 9 s = Inr t \<and> byte_regs t Reg_a = 5 \<and> word_regs t Pc = 0x8003 \<and> halted t \<and>
     cycle_count t = 9"
proof -
  obtain p where p: "compile (cpu_compiler (map fst isa_table)) (isa_source isa_table) = Inr p"
    using halting_compiles ..
  have "halting_image ! 0 \<in> fst ` set isa_table" by (simp add: halting_image_def isa_table_def)
  from program_refinement [OF p halting_image_size this halting_run halting_time [symmetric]]
  obtain s t where "bind_ok (make_cpu p halting_image []) (boot 0x8000) = Inr s"
    "ticks 9 s = Inr t" "isa_view t = halting_loaded\<lparr>isa_pc := 0x8003, isa_halted := True\<rparr>"
    "cycle_count t = 9"
    by (auto simp del: bind_ok_def)
  then show ?thesis using p
    by (intro exI conjI) (auto simp: isa_view_def isa_of_def core_of_def halting_loaded_def isa_boot_def)
qed

text \<open>C3 (program_exit_code). From source text to exit code: when the assembler has written a cartridge and the specification of the instruction set runs its image to a halt, a crash or an error of the memory, the simulator command on that file returns, with exit code 0, 2 or 1.\<close>

theorem program_exit_code:
  assumes "compile (cpu_compiler ops) (isa_source tab) = Inr p"
    and "first_pass isa options program = Inr pass"
    and "encode pass options file = Inr result" and "standard_options options"
    and "files path = Some (write_cartridge result)" and "plain_argument path"
    and "a_rom result ! 0 \<in> fst ` set tab"
    and "isa_run tab n (isa_boot (a_rom result)) = Some r" and "isa_stopped r"
  shows "run_main p files texts [path] =
    Some (Exit (case r of Inl e \<Rightarrow> 1 | Inr u \<Rightarrow> if isa_crashed u then 2 else 0), [])"
  using program_outcome [where files = files and path = path, OF assms] by (simp add: isa_exit_def)

theorem program_exit_code_witness:
  "\<exists>p result. compile (cpu_compiler (map fst isa_table)) (isa_source isa_table) = Inr p \<and>
     encode halting_pass example_options ''f'' = Inr result \<and>
     run_main p (\<lambda>f. if f = ''c'' then Some (write_cartridge result) else None) (\<lambda>_. None) [''c''] =
       Some (Exit 0, [])"
proof -
  obtain p where p: "compile (cpu_compiler (map fst isa_table)) (isa_source isa_table) = Inr p"
    using halting_compiles ..
  obtain result where r: "encode halting_pass example_options ''f'' = Inr result"
    using halting_encodes by (rule is_okE)
  have rom: "a_rom result = halting_image"
    using encode_result(1) [OF r first_pass_items_size [OF halting_pass]] halting_rom_image by simp
  have first: "a_rom result ! 0 \<in> fst ` set isa_table" by (simp add: rom halting_image_def isa_table_def)
  have "plain_argument ''c''" by code_simp
  moreover have "isa_run isa_table 2 (isa_boot (a_rom result)) =
      Some (Inr (halting_loaded\<lparr>isa_pc := 0x8003, isa_halted := True\<rparr>))"
    using halting_run by (simp add: rom)
  ultimately show ?thesis
    using p r program_exit_code [OF p halting_pass r example_standard _ _ first,
      of "\<lambda>f. if f = ''c'' then Some (write_cartridge result) else None" "''c''"]
    by (fastforce simp: isa_stopped_def halting_loaded_def isa_boot_def)
qed

text \<open>C4 (microcode_compiles). The microcode of the repository compiles: for every table of distinct opcodes with instructions of its instruction set, the source that microcode.yaml gives for it passes all transformers, optimizers and validators of the compiler, and the simulator accepts the table that is made.\<close>

theorem microcode_compiles:
  assumes "table_wf tab" and "set ops = fst ` set tab"
  shows "\<exists>p im. compile (cpu_compiler ops) (isa_source tab) = Inr p \<and>
    make_instruction_memory hdl_controls p = Inr im"
proof -
  obtain p where p: "compile (cpu_compiler ops) (isa_source tab) = Inr p"
    using isa_compiles [OF assms] ..
  then show ?thesis by (rule compiled_table_loaded) (use p in blast)
qed

theorem microcode_compiles_witness:
  "length isa_table = 153 \<and> table_wf isa_table \<and>
   (\<exists>p im. compile (cpu_compiler (map fst isa_table)) (isa_source isa_table) = Inr p \<and>
     make_instruction_memory hdl_controls p = Inr im)"
  using isa_table_ok microcode_compiles [OF isa_table_ok, of "map fst isa_table"]
  by (simp add: isa_table_def)

text \<open>C5 (benchmark_reports_all_cycles). The programs of the benchmark never end, so a measurement is one over all its cycles: with the instruction set and the microcode of the repository, whatever options the command line gives, both workloads assemble, the warm-up and the measured run time out after exactly the cycles asked for, and the report, printed or written to the output file, says so; the exit code is 0 even when the file cannot be opened.\<close>

theorem benchmark_reports_all_cycles:
  assumes "compile (cpu_compiler ops) (isa_source isa_table) = Inr p"
    and "parse_bench_args args default_bench_options = Inr opts"
  shows "bench_main clock writable (bench_cpu fuel (table_info isa_table) fs dir p) args disk =
    (let report = bench_report opts
           \<lparr>result_reason = Reason_timeout, result_cycles = bench_cycles opts\<rparr> (clock (bench_cycles opts))
     in Some (Exit 0,
       if bench_output opts = [] then (report, disk)
       else ([], if writable (bench_output opts)
                 then disk(bench_output opts \<mapsto> file_bytes report) else disk)))"
  by (rule benchmark_reports [OF assms])

theorem benchmark_reports_all_cycles_witness:
  "\<exists>p. compile (cpu_compiler (map fst isa_table)) (isa_source isa_table) = Inr p \<and>
     bench_main (\<lambda>n. (''1'', ''1000'')) (\<lambda>_. True)
       (bench_cpu 0 (table_info isa_table) one_include [] p)
       [''--workload'', ''mem'', ''--cycles'', ''1000''] (\<lambda>_. None) =
     Some (Exit 0, ''workload=mem cycles=1000 elapsed_s=1 cycles_per_sec=1000 halt_reason=timeout'' @ [newline],
       \<lambda>_. None)"
proof -
  obtain p where p: "compile (cpu_compiler (map fst isa_table)) (isa_source isa_table) = Inr p"
    using halting_compiles ..
  have args: "parse_bench_args [''--workload'', ''mem'', ''--cycles'', ''1000''] default_bench_options =
      Inr (default_bench_options\<lparr>bench_workload := ''mem'', bench_cycles := 1000\<rparr>)"
    by (simp add: bench_argument)
  have "decimal 1000 = ''1000''" by code_simp
  then show ?thesis
    using p benchmark_reports_all_cycles [OF p args, of "\<lambda>n. (''1'', ''1000'')" "\<lambda>_. True" 0 one_include "[]" "\<lambda>_. None"]
    by (intro exI [of _ p]) (simp add: Let_def bench_report_def default_bench_options_def)
qed

text \<open>C6 (default_processor_crashes). The default constructor of the processor succeeds, with the microcode of the repository and no cartridge, and a run from there ends after 19 cycles in a crash: the zero bytes of the RAM are the opcode of an interrupt entry, which pushes the program counter and the status with the stack pointer wrapping below 0, and the vector of the empty ROM leads to the crash opcode at 0xFFFF.\<close>

theorem default_processor_crashes:
  "\<exists>s t res. default_cpu = Inr s \<and> run_until_halt s = Some (Inr (res, t)) \<and>
     result_reason res = Reason_crash \<and> result_cycles res = 19 \<and> byte_regs t Reg_sp = 0xFD \<and>
     mem t = ram_memory ((replicate 0x2000 0)[0x100 := 0, 0x1FF := 1, 0x1FE := 4]) (replicate 0x8000 0xFF)"
  using default_crashes by (simp add: crash_ram_def empty_rom_def)

text \<open>C7 (tick_of_disciplined_step). A tick of an idle, running processor whose looked-up controls respect the buses, and which stores only to a writable address when they store to memory (a store to ROM or to an unmapped address throws, memory_access_errors), does not throw: it leaves the buses idle, counts one cycle, moves the step counter as the sc controls say, and halts exactly on halt or crash.\<close>

theorem tick_of_disciplined_step:
  assumes "idle s" and "\<not> halted s" and "instruction_mem s = Some im"
    and "lookup im (ir_value s) (byte_regs s Sc) (status_encode (im_status im) (status_reg s)) = Inr ks"
    and "set ks \<subseteq> set hdl_controls" and "bus_disciplined ks"
    and "Ctl Memory Read \<in> set ks \<Longrightarrow> writable_addr (mem s) (word_regs s Mar)"
  shows "\<exists>t. tick s = Inr t \<and> idle t \<and> instruction_mem t = Some im \<and>
    cycle_count t = cycle_count s + 1 \<and>
    byte_regs t Sc = sc_next (\<lambda>k. k \<in> set ks) (byte_regs s Sc) \<and>
    (halted t \<longleftrightarrow> Ctl Cpu_root Halt \<in> set ks \<or> Ctl Cpu_root Crash \<in> set ks) \<and>
    (crashed t \<longleftrightarrow> crashed s \<or> Ctl Cpu_root Crash \<in> set ks)"
  using tick_disciplined [OF assms] by metis

theorem tick_of_disciplined_step_witness:
  "\<exists>t. tick (example_cpu True) = Inr t \<and> idle t \<and> cycle_count t = 1 \<and> byte_regs t Sc = 1 \<and> \<not> halted t"
proof -
  let ?s = "example_cpu True"
  have r: "ready example_im 0 0 ?s" by (rule example_ready)
  have l: "lookup example_im (ir_value ?s) (byte_regs ?s Sc)
      (status_encode (im_status example_im) (status_reg ?s)) = Inr st_fetch_1"
    by (rule ready_lookup [OF example_microcoded r]) (simp_all add: irq_steps_def fetch_steps_def)
  have k: "set st_fetch_1 \<subseteq> set hdl_controls" "bus_disciplined st_fetch_1" "Ctl Memory Read \<notin> set st_fetch_1"
    using st_ok(1) fetch_1_disciplined by (auto simp: step_controls_ok_def list_all_iff st_fetch_1_def)
  show ?thesis
    using tick_of_disciplined_step [OF _ _ _ l k(1,2)] r k(3)
    by (auto simp: ready_def sc_next_def st_fetch_1_def example_cpu_def)
qed

text \<open>C8 (compiled_lookup_yields_step). A program the microcode compiler accepted loads into the instruction memory, and looking up step j of a variant at any status it covers yields exactly the controls of that step.\<close>

theorem compiled_lookup_yields_step:
  assumes "compile (cpu_compiler isa) s = Inr p"
  shows "\<exists>im. make_instruction_memory hdl_controls p = Inr im \<and> im_status im = all_flags \<and>
    (\<forall>i\<in>set (instructions s). \<forall>v\<in>set (variants i). \<forall>st j.
       variant_matches cpu_status_encoder v st \<longrightarrow>
       j < length (final_steps (cpu_compiler isa) s v) \<longrightarrow>
       lookup im (opcode i) (of_nat j) st =
         Inr (filter (\<lambda>k. k \<in> set (controls (final_steps (cpu_compiler isa) s v ! j))) hdl_controls))"
  using compiled_lookup [OF assms] by metis

theorem compiled_lookup_yields_step_witness:
  "\<exists>im. make_instruction_memory hdl_controls example_program = Inr im \<and> im_status im = all_flags"
  using compiled_lookup_yields_step [OF example_program] by blast

text \<open>C9 (compiled_table_entries). Every step of an accepted program has its table entry, within the byte range of the step index; its controls are known, respect the buses, and end with sc.reset on the last step and sc.increment before.\<close>

theorem compiled_table_entries:
  assumes "compile (cpu_compiler isa) s = Inr p"
    and "i \<in> set (instructions s)" and "v \<in> set (variants i)"
    and "variant_matches cpu_status_encoder v st"
    and "j < length (final_steps (cpu_compiler isa) s v)"
  shows "\<exists>w ks. ks = controls (final_steps (cpu_compiler isa) s v ! j) \<and>
    map_of (table p) (encode_key (make_key (opcode i) (of_nat j) st)) = Some w \<and>
    control_encode hdl_encoder ks = Inr w \<and> j \<le> 0xFF \<and>
    set ks \<subseteq> set hdl_controls \<and> bus_disciplined ks \<and>
    (if Suc j = length (final_steps (cpu_compiler isa) s v)
     then Ctl Sc Reset else Ctl Sc Increment) \<in> set ks"
  using compile_table [OF assms] by metis

theorem compiled_table_entries_witness:
  "\<exists>w. map_of (table example_program) (encode_key (make_key 0 0 0)) = Some w"
proof -
  let ?i = "instructions example_source ! 0"
  let ?v = "variants ?i ! 0"
  have v: "?i \<in> set (instructions example_source)" "?v \<in> set (variants ?i)" "opcode ?i = 0"
      "status_conditions ?v = []"
    by (simp_all add: example_source_def)
  have m: "variant_matches cpu_status_encoder ?v 0"
    by (simp add: variant_matches_def v(4) cpu_status_encoder_def matches_unconditional)
  have l: "0 < length (final_steps (cpu_compiler [0]) example_source ?v)" by code_simp
  show ?thesis using compiled_table_entries [OF example_program v(1,2) m l] v(3) by auto
qed

text \<open>C10 (assembled_program_in_memory). The assembler, the cartridge file, the loader and the memory of the processor compose: for a program without .org, the default origin 0x8000 (the only place where the processor maps the ROM) and a ROM size that it accepts, the written cartridge loads back with its entry point, and a read of the memory built from it at the address of any statement gives the bytes that the statement means (opcode and resolved operand, little-endian, or data bytes).\<close>

theorem assembled_program_in_memory:
  assumes "first_pass isa options program = Inr pass"
    and "list_all (\<lambda>s. \<not> is_org s) program"
    and "encode pass options file = Inr result" and "standard_options options"
  shows "load_cartridge path (Some (write_cartridge result)) =
      Inr \<lparr>l_header = a_header result, l_rom = a_rom result\<rparr> \<and>
    h_entry (a_header result) = opt_origin options \<and>
    bind_ok (build_regions (a_rom result) []) make_memory = Inr (cartridge_memory (a_rom result)) \<and>
    (\<forall>item\<in>set (fp_items pass). \<forall>j<item_size item. \<exists>bs. item_bytes pass item = Inr bs \<and>
       length bs = item_size item \<and>
       read_at (e_address item + of_nat j) (cartridge_memory (a_rom result)) =
         Inr (bs ! j, cartridge_memory (a_rom result)))"
  using result_memory [OF assms(1,3,4)] build_cartridge_memory
    program_in_memory [OF assms(1-4)] by blast

theorem assembled_program_in_memory_witness:
  "\<exists>result. encode example_pass example_options ''f'' = Inr result \<and>
     load_cartridge ''c'' (Some (write_cartridge result)) =
       Inr \<lparr>l_header = a_header result, l_rom = a_rom result\<rparr> \<and>
     read_at 0x8003 (cartridge_memory (a_rom result)) = Inr (0xFE, cartridge_memory (a_rom result))"
proof -
  obtain result where r: "encode example_pass example_options ''f'' = Inr result"
    using example_encodes by (rule is_okE)
  note a = assembled_program_in_memory [OF example_pass example_no_org r example_standard, of "''c''"]
  have "example_items ! 1 \<in> set (fp_items example_pass)" by (simp add: example_pass_def example_items_def)
  moreover have "1 < item_size (example_items ! 1)" by (simp add: example_items_def item_size_def)
  ultimately have "\<exists>bs. item_bytes example_pass (example_items ! 1) = Inr bs \<and>
      length bs = item_size (example_items ! 1) \<and>
      read_at (e_address (example_items ! 1) + of_nat 1) (cartridge_memory (a_rom result)) =
        Inr (bs ! 1, cartridge_memory (a_rom result))" using a by blast
  moreover have "item_bytes example_pass (example_items ! 1) = Inr [0x40, 0xFE]"
    using example_resolves by (simp add: item_bytes_def operand_value_def example_items_def)
  ultimately show ?thesis using r a by (auto simp: example_items_def)
qed

text \<open>C11 (instruction_lengths). The assembler and the processor agree on the length of an instruction: the operand bytes the assembler counts for the addressing mode of an opcode are the bytes the instruction consumes, so an instruction that does not jump leaves the program counter on the statement the assembler placed next.\<close>

theorem instruction_lengths:
  assumes "isa_step tab u = Some (Inr u')" and "\<not> isa_halted u" and "isa_next u = Inr (v, w)"
    and "map_of tab (isa_decoded u v) = Some i" and "sequential u i"
  shows "\<exists>info\<in>set (isa_instructions (table_info tab)). i_opcode info = isa_decoded u v \<and>
    isa_operand_bytes (table_info tab) (i_mode info) = Some (mode_bytes (i_mode info)) \<and>
    isa_pc u' = isa_pc u + 1 + ucast (mode_bytes (i_mode info))"
  by (rule step_length [OF assms])

theorem instruction_lengths_witness:
  "\<exists>info\<in>set (isa_instructions (table_info isa_table)). i_opcode info = 0x10 \<and>
     isa_pc halting_loaded = 0x8001 + ucast (mode_bytes (i_mode info))"
proof -
  let ?u = "isa_boot halting_image"
  have n: "isa_next ?u = Inr (0x10, ?u\<lparr>isa_pc := 0x8001\<rparr>)" "\<not> isa_halted ?u" "isa_decoded ?u 0x10 = 0x10"
    "isa_pc ?u = 0x8000"
    by (simp_all add: halting_simps)
  have "map_of isa_table (isa_decoded ?u 0x10) = Some (I_load In_a Immediate)"
    by (simp add: n halting_opcodes)
  moreover have "sequential ?u (I_load In_a Immediate)" by (simp add: sequential_def)
  ultimately show ?thesis
    using instruction_lengths [OF halting_step n(2,1)] by (simp add: n) blast
qed

text \<open>C12 (assembled_program_runs). The simulator command on the cartridge of an assembled program without .org, with a compiled microprogram and a bound on the cycles: the processor is built, starts at the entry point with the first byte of the program in the instruction register and step 0, and the command returns with exit code 1 for an exception, 4 when it is not halted at the bound, 2 for a crash and 0 for a halt.\<close>

theorem assembled_program_runs:
  assumes "compile (cpu_compiler ops) iset = Inr p"
    and "first_pass isa options program = Inr pass"
    and "encode pass options file = Inr result" and "standard_options options"
    and "files path = Some (write_cartridge result)" and "plain_argument path"
    and "stoll_arg v = Some n" and "0 \<le> n"
  shows "\<exists>s r. bind_ok (make_cpu p (a_rom result) []) (boot (opt_origin options)) = Inr s \<and>
    word_regs s Pc = opt_origin options \<and> ir_value s = a_rom result ! 0 \<and> byte_regs s Sc = 0 \<and>
    mem s = cartridge_memory (a_rom result) \<and> \<not> halted s \<and>
    run_until_halt_max (word_of_int n) s = Some r \<and>
    run_main p files texts [''--max-cycles'', v, path] =
      Some (Exit (case r of Inl e \<Rightarrow> 1
        | Inr (res, t) \<Rightarrow> if \<not> halted t then 4 else if crashed t then 2 else 0), [])"
  by (rule program_runs [where files = files and path = path, OF assms])

theorem assembled_program_runs_witness:
  "\<exists>result code. encode example_pass example_options ''f'' = Inr result \<and>
     run_main example_program (\<lambda>f. if f = ''c'' then Some (write_cartridge result) else None) (\<lambda>_. None)
       [''--max-cycles'', ''3'', ''c''] = Some (Exit code, [])"
proof -
  obtain result where r: "encode example_pass example_options ''f'' = Inr result"
    using example_encodes by (rule is_okE)
  have "plain_argument ''c''" "stoll_arg ''3'' = Some 3" by code_simp+
  with assembled_program_runs [OF example_program example_pass r example_standard,
      of "\<lambda>f. if f = ''c'' then Some (write_cartridge result) else None" "''c''" "''3''" 3 "\<lambda>_. None"] r
  show ?thesis by auto
qed

text \<open>C13 (tools_roundtrip). When the assembler command has written a cartridge, the inspector prints its header, the disassembler prints a listing, and the assembler command run on that listing writes the same file again, byte for byte, if every instruction the ROM decodes to can be read back.\<close>

theorem tools_roundtrip:
  assumes "asm_main fuel isa canonical current_path writable [input, out] disk = Some (Exit 0, disk1)"
    and "load_cartridge out (disk1 out) = Inr c" and "listing_reassembles isa (l_rom c) 0x8000"
    and "out \<noteq> []" and "writable out2"
  shows "\<exists>listing. disasm_main isa [''--rom'', out] disk1 = Some (Exit 0, listing) \<and>
    inspect_main [''--rom'', out] disk1 = Some (Exit 0, inspect_header c) \<and>
    asm_main fuel2 isa canonical2 current_path2 writable [path, out2] (disk1(path \<mapsto> file_bytes listing)) =
      Some (Exit 0, disk1(path \<mapsto> file_bytes listing, out2 \<mapsto> the (disk1 out)))"
  by (rule tools_agree [OF assms])

theorem tools_roundtrip_witness:
  "\<exists>disk1 listing. asm_main 0 example_isa (\<lambda>_. None) [] (\<lambda>_. True) [''f'', ''o''] example_disk = Some (Exit 0, disk1) \<and>
    disasm_main example_isa [''--rom'', ''o''] disk1 = Some (Exit 0, listing) \<and>
    asm_main 0 example_isa (\<lambda>_. None) [] (\<lambda>_. True) [''l'', ''p''] (disk1(''l'' \<mapsto> file_bytes listing)) =
      Some (Exit 0, disk1(''l'' \<mapsto> file_bytes listing, ''p'' \<mapsto> the (disk1 ''o'')))"
proof -
  obtain result where r: "assemble_file 0 example_isa (disk_system (\<lambda>_. None) example_disk) [] ''f'' default_options =
      Some (Inr result)" "a_rom result = example_image"
    using example_assembles by blast
  define disk1 where "disk1 = example_disk(''o'' \<mapsto> write_cartridge result)"
  have run: "asm_main 0 example_isa (\<lambda>_. None) [] (\<lambda>_. True) [''f'', ''o''] example_disk = Some (Exit 0, disk1)"
    unfolding disk1_def by (rule asm_main_returns [OF r(1)]) simp
  have load: "load_cartridge ''o'' (disk1 ''o'') = Inr \<lparr>l_header = a_header result, l_rom = a_rom result\<rparr>"
    using assembled_file_loads [OF r(1)] by (simp add: disk1_def)
  have listing: "listing_reassembles example_isa (l_rom \<lparr>l_header = a_header result, l_rom = a_rom result\<rparr>) 0x8000"
    using example_image_listing by (simp add: r(2))
  have "''o'' \<noteq> []" by simp
  from tools_roundtrip [where ?out2.0 = "''p''" and ?fuel2.0 = 0 and ?canonical2.0 = "\<lambda>_. None" and
      ?current_path2.0 = "[]" and path = "''l''", OF run load listing this TrueI] run
  show ?thesis by blast
qed

text \<open>C14 (validated_set_encodes). Once all validators accept an instruction set of known controls and at most 256 steps per variant, encoding succeeds: two entries of the table never conflict.\<close>

theorem validated_set_encodes:
  assumes "run_all_validators (cpu_compiler isa) s = Inr u"
    and "\<forall>v\<in>set (all_variants s). length (steps v) \<le> 256 \<and>
           (\<forall>t\<in>set (steps v). set (controls t) \<subseteq> set hdl_controls)"
  shows "\<exists>p. encode_program (cpu_compiler isa) s = Inr p"
  by (rule validated_encodes [OF assms(1)]) (use assms(2) in auto)

theorem validated_set_encodes_witness:
  "\<exists>p. encode_program (cpu_compiler [0]) example_final = Inr p"
  by (rule validated_set_encodes [OF example_run_validators(2)])
    (rule example_final_steps)

text \<open>C15 (interrupt_entry). With the line up and interrupts enabled, fifteen ticks from the start of an instruction push the program counter past the skipped opcode and the status with break clear and interrupts disabled, load the vector at 0xFFFE, and leave the opcode 0 in its first step.\<close>

theorem interrupt_entry:
  assumes "ready im op 0 s" and "irq_up s" and "\<not> status_value Interrupt_disable (status_reg s)"
    and "microcoded im op fetch_steps" and "microcoded im 0 irq_steps"
    and "sp = byte_regs s Reg_sp" and "ret = word_regs s Pc + 1"
    and "read_at (word_regs s Pc) (mem s) = Inr (v, m0)"
    and "write_bytes [(word_of_bytes 1 sp, word_high ret), (word_of_bytes 1 (sp - 1), word_low ret),
           (word_of_bytes 1 (sp - 2), irq_status (status_reg s))] m0 = Inr m1"
    and "read_at 0xFFFE m1 = Inr (lo, m2)" and "read_at 0xFFFF m2 = Inr (hi, m3)"
  shows "\<exists>t. ticks 15 s = Inr t \<and> ready im 0 0 t \<and>
    byte_regs t = (byte_regs s)(Ir := v, Status := irq_status (status_reg s), Reg_sp := sp - 3) \<and>
    word_regs t = (word_regs s)(Ipc := word_regs s Pc, Mar := 0xFFFF, Pc := word_of_bytes hi lo) \<and>
    mem t = m3"
  by (rule irq_entry_ticks [OF assms])

theorem interrupt_entry_witness:
  "\<exists>t. ticks 15 (example_cpu True) = Inr t \<and> word_regs t Pc = 0xFFFF \<and> byte_regs t Reg_sp = 0xFC \<and>
     mem_peek (mem t) 0x01FF = 0x80 \<and> mem_peek (mem t) 0x01FE = 0x01 \<and> mem_peek (mem t) 0x01FD = 0x04"
proof -
  let ?s = "example_cpu True"
  let ?d = "((replicate 0x2000 0)[0x1FF := 0x80, 0x1FE := 0x01, 0x1FD := 0x04]) :: u8 list"
  have f: "microcoded example_im 0 fetch_steps"
    using example_microcoded microcoded_prefix unfolding irq_steps_def by blast
  have st: "irq_status 0 = 0x04" by code_simp
  have w: "write_bytes [(word_of_bytes 1 0xFF, word_high 0x8001), (word_of_bytes 1 (0xFF - 1), word_low 0x8001),
      (word_of_bytes 1 (0xFF - 2), irq_status 0)] example_memory = Inr (memory_of ?d)"
    by (simp add: example_memory_def memory_of_write st word_of_bytes_def word_high_def word_low_def)
  have rd: "read_at a (memory_of ?d) = Inr (0xFF, memory_of ?d)" if "0x8000 \<le> a" for a
    by (rule memory_of_read_rom [OF _ that]) simp
  have v: "read_at 0x8000 example_memory = Inr (0xFF, example_memory)"
    unfolding example_memory_def by (rule memory_of_read_rom) simp_all
  obtain t where t: "ticks 15 ?s = Inr t" "byte_regs t = (byte_regs ?s)(Ir := 0xFF, Status := irq_status 0, Reg_sp := 0xFC)"
      "word_regs t = (word_regs ?s)(Ipc := 0x8000, Mar := 0xFFFF, Pc := word_of_bytes 0xFF 0xFF)"
      "mem t = memory_of ?d"
    using interrupt_entry [where s = ?s and im = example_im and op = 0 and sp = "0xFF" and ret = "0x8001" and
        v = "0xFF" and ?m0.0 = example_memory and ?m1.0 = "memory_of ?d" and lo = "0xFF" and
        ?m2.0 = "memory_of ?d" and hi = "0xFF" and ?m3.0 = "memory_of ?d",
        OF example_ready _ example_irq(2) f example_microcoded]
      v w rd by (auto simp: example_irq) (auto simp: example_cpu_def)
  have peek: "mem_peek (memory_of ?d) a = ?d ! unat a" if "a < 0x2000" for a
    using that by (simp add: memory_of_peek)
  show ?thesis using t by (simp add: peek word_of_bytes_def)
qed

text \<open>C16 (bounded_run_terminates). RunUntilHalt with a bound always returns: without an exception it stops after exactly the reported number of ticks, at most the bound, and reports a timeout exactly when the processor is not halted.\<close>

theorem bounded_run_terminates:
  "\<exists>r. run_until_halt_max n s = Some r \<and>
     (\<forall>res t. r = Inr (res, t) \<longrightarrow>
        result_cycles res \<le> n \<and> ticks (unat (result_cycles res)) s = Inr t \<and>
        (result_reason res = Reason_timeout \<longleftrightarrow> \<not> halted t) \<and>
        (result_reason res = Reason_timeout \<longrightarrow> result_cycles res = n))"
  by (rule run_until_halt_max_returns)

theorem bounded_run_terminates_witness:
  "\<exists>r. run_until_halt_max 3 ((example_cpu True)\<lparr>halted := True\<rparr>) = Some r"
  using bounded_run_terminates [of 3 "(example_cpu True)\<lparr>halted := True\<rparr>"] by blast

text \<open>C17 (statement_addresses). Until the first .org, a label has the address of the entry point plus the sizes of the statements before it, and a statement that emits bytes is placed at the address computed in the same way.\<close>

theorem statement_addresses:
  assumes "first_pass isa options (pre @ stmt # post) = Inr st"
    and "list_all (\<lambda>s. \<not> is_org s) pre"
  shows "(\<forall>name sp. stmt = Label_Decl name sp \<longrightarrow>
      (\<exists>a. map_of (fp_symbols st) name = Some a \<and>
        unat a = unat (opt_origin options) + (\<Sum>s\<leftarrow>pre. statement_size isa s))) \<and>
    (0 < statement_size isa stmt \<longrightarrow>
      (\<exists>item\<in>set (fp_items st). item_size item = statement_size isa stmt \<and>
        unat (e_address item) = unat (opt_origin options) + (\<Sum>s\<leftarrow>pre. statement_size isa s)))"
  using assms label_address item_address by blast

theorem statement_addresses_witness:
  "\<exists>a. map_of (fp_symbols example_pass) ''go'' = Some a \<and> unat a = 0x8002"
proof -
  have pass: "first_pass example_isa example_options
      ([Instruction_Stmt ''lda'' [number_five] (example_span 1 1 3)] @
       Label_Decl ''go'' (example_span 2 1 2) # [Instruction_Stmt ''beq'' [label_go] (example_span 2 5 3)]) =
      Inr example_pass"
    using example_pass unfolding example_program_asm_def append.simps .
  have "list_all (\<lambda>s. \<not> is_org s) [Instruction_Stmt ''lda'' [number_five] (example_span 1 1 3)]" by simp
  from statement_addresses [OF pass this]
  show ?thesis by (simp add: example_select example_operand_bytes example_options_def)
qed

text \<open>C18 (debug_symbols_of_program). The debug document that the assembler writes for a program without .org is loaded by the simulator, whatever characters its names and texts have: the entry point and the labels are those of the assembler, and the address of every byte leads to the line, column and text of the statement that placed it.\<close>

theorem debug_symbols_of_program:
  assumes "first_pass isa options program = Inr pass"
    and "list_all (\<lambda>s. \<not> is_org s) program"
    and "encode pass options file = Inr result" and "0 < opt_rom_size options"
    and "list_all (\<lambda>item. span_ok (e_span item)) (fp_items pass)"
  shows "\<exists>syms. load_debug_symbols path (Some (a_debug_json result)) = Some (Inr syms) \<and>
    ds_entry syms = opt_origin options \<and> map_of (ds_symbols syms) = map_of (fp_symbols pass) \<and>
    (\<forall>item\<in>set (fp_items pass). \<forall>j<item_size item. \<exists>loc.
       symbols_lookup syms (e_address item + of_nat j) = Some loc \<and>
       loc_line loc = int (span_line (e_span item)) \<and> loc_column loc = int (span_column (e_span item)) \<and>
       loc_text loc = e_text item)"
  by (rule program_debug_symbols [OF assms])

theorem debug_symbols_of_program_witness:
  "\<exists>result syms. encode example_pass example_options ''f'' = Inr result \<and>
     load_debug_symbols ''d'' (Some (a_debug_json result)) = Some (Inr syms) \<and>
     map_of (ds_symbols syms) ''go'' = Some 0x8002"
proof -
  obtain result where r: "encode example_pass example_options ''f'' = Inr result"
    using example_encodes by (rule is_okE)
  have "0 < opt_rom_size example_options" by (simp add: example_options_def)
  moreover have "list_all (\<lambda>item. span_ok (e_span item)) (fp_items example_pass)"
    by (simp add: example_pass_def example_items_def example_span_def span_ok_def)
  ultimately obtain syms where "load_debug_symbols ''d'' (Some (a_debug_json result)) = Some (Inr syms)"
      "map_of (ds_symbols syms) = map_of (fp_symbols example_pass)"
    using debug_symbols_of_program [OF example_pass example_no_org r, of "''d''"] by blast
  then show ?thesis using r by (intro exI conjI) (auto simp: example_pass_def)
qed

text \<open>C19 (branch_reaches_its_target). When the assembler accepts a relative branch, the processor that adds the sign-extended operand to the address after the branch instruction arrives exactly at the operand: a number, a constant or a label.\<close>

theorem branch_reaches_its_target:
  assumes "resolve_relative_operand st opnd address = Inr b"
  shows "\<exists>target. branch_target st opnd = Inr target \<and> target \<le> 0xFFFF \<and>
    add_signed_offset b (address + 2) = ucast target"
proof -
  from assms obtain target where t: "branch_target st opnd = Inr target"
    by (auto simp: resolve_relative_operand_def elim!: bind_ok_eq_InrE)
  from branch_reaches_target [OF assms t] branch_target_range [OF t] t show ?thesis by blast
qed

theorem branch_reaches_its_target_witness: "add_signed_offset 0xFE 0x8004 = 0x8002"
  using branch_reaches_its_target [OF example_resolves(2)] example_resolves(3) by simp

text \<open>C20 (token_spans). Every identifier, directive, number and string token of a source text carries the line, column and length of the text it was read from: an identifier is that text in lower case, a number has the value of the literal, and a string is its value with quotes and backslashes escaped.\<close>

theorem token_spans:
  assumes "lex_source (make_lexer src file) = Inr ts"
  shows "(\<exists>us e. ts = us @ [e] \<and> t_kind e = End_Of_File \<and> (\<forall>u\<in>set us. t_kind u \<noteq> End_Of_File)) \<and>
    (\<forall>t\<in>set ts. t_kind t \<in> text_kinds \<longrightarrow> token_at src t)"
  using lex_shape [OF assms] lex_tokens_at [OF assms placed_make_lexer] by (simp add: make_lexer_def)

theorem token_spans_witness:
  "\<exists>ts. lex_source (make_lexer example_text ''f'') = Inr ts \<and>
     (\<forall>t\<in>set ts. t_kind t \<in> text_kinds \<longrightarrow> token_at example_text t)"
  using example_lexes token_spans by (metis is_okE)

text \<open>C21 (parser_roundtrip). Every well-formed program (labels, constants, directives and instructions with any operand form and index register) printed as tokens is parsed back to exactly that program.\<close>

theorem parser_roundtrip:
  assumes "list_all statement_wf ss"
  shows "parse (program_tokens ss) = Inr ss"
  by (rule parse_program_tokens [OF assms])

theorem parser_roundtrip_witness: "parse (program_tokens example_program_asm) = Inr example_program_asm"
  by (rule parser_roundtrip)
    (simp add: example_program_asm_def operand_wf_def number_five_def label_go_def)

text \<open>C22 (disassembly_reassembles). The disassembler prints a listing (with or without origin line, addresses and bytes) that the assembler accepts again and that yields the ROM it was printed from, when every instruction of the ROM is named by its mnemonic and mode alone, no zero-page form is preferred for a small absolute operand, and no branch leaves the address space.\<close>

theorem disassembly_reassembles:
  assumes "listing_reassembles isa rom (dis_origin opts)"
    and "opt_origin options = dis_origin opts" and "unat (opt_rom_size options) = length rom"
  shows "\<exists>src result. disassemble isa rom None opts = Inr src \<and>
    assemble fuel isa fs current_path src file options = Some (Inr result) \<and>
    a_rom result = rom \<and> h_entry (a_header result) = dis_origin opts"
proof -
  have "widths_ok isa" using assms(1) by (simp add: listing_reassembles_def)
  from disassemble_returns [OF this] obtain src where "disassemble isa rom None opts = Inr src" by blast
  then show ?thesis
    using assemble_listing [OF _ _ _ assms(2,3), of isa src fuel fs current_path "file"] assms(1)
    by (auto simp: listing_reassembles_def)
qed

theorem disassembly_reassembles_witness:
  "\<exists>src result. disassemble example_isa example_rom None default_disassemble_options = Inr src \<and>
    assemble 0 example_isa self_include [] src ''f'' \<lparr>opt_origin = 0x8000, opt_rom_size = 8\<rparr> = Some (Inr result) \<and>
    a_rom result = example_rom"
proof -
  have "dis_origin default_disassemble_options = 0x8000" "length example_rom = 8"
    by (simp_all add: default_disassemble_options_def example_rom_def)
  with disassembly_reassembles [of example_isa example_rom default_disassemble_options
      "\<lparr>opt_origin = 0x8000, opt_rom_size = 8\<rparr>" 0 self_include "[]" "''f''"] example_listing
  show ?thesis by auto
qed

text \<open>C23 (cartridge_roundtrip). A header and ROM written in the cartridge format are read back unchanged (the reserved bytes as zeros), and the same file cut short anywhere in its ROM is rejected as truncated.\<close>

theorem cartridge_roundtrip:
  assumes "header_ok h rom"
  shows "load_cartridge path (Some (encode_header h @ rom)) =
      Inr \<lparr>l_header = h\<lparr>h_reserved := replicate 18 0\<rparr>, l_rom = rom\<rparr> \<and>
    (\<forall>n<length rom. load_cartridge path (Some (encode_header h @ take n rom)) = Inl File_Truncated)"
  using load_after_encode [OF assms] load_truncated [OF assms] by blast

theorem cartridge_roundtrip_witness:
  "load_cartridge ''c'' (Some (encode_header (default_header\<lparr>h_rom_size := 2\<rparr>) @ [7, 9])) =
     Inr \<lparr>l_header = default_header\<lparr>h_rom_size := 2\<rparr>, l_rom = [7, 9]\<rparr>"
proof -
  have "header_ok (default_header\<lparr>h_rom_size := 2\<rparr>) [7, 9]"
    by (simp add: header_ok_def default_header_def)
  from cartridge_roundtrip [OF this, of "''c''"] show ?thesis by (simp add: default_header_def)
qed

text \<open>C24 (microcode_dump_lists_table). For a source with a fetch preamble that compiles, the dumps, written by one loop that prints a header when the opcode or the status changes, are the nested listing of the table, whatever the order of the hash table: its opcodes are those of the instructions that have a variant; the text dump of the program is the dumps of its instructions in increasing order, separated by empty lines, each with its statuses and steps in order, except that when 255 is the only opcode its header is lost; the dump of one instruction always has its header; and for every instruction, 255 included, the line of each step of each status names exactly the controls of the step that was compiled, in the order of the schematic.\<close>

theorem microcode_dump_lists_table:
  assumes "compile (cpu_compiler isa) s = Inr p" and "fetch_preamble s \<noteq> []"
  shows "dump_program p = Inr (if table_opcodes p = [255]
      then statuses_text (text_layout p) p 255 (opcode_statuses p 255)
      else join [newline] (map (opcode_text (text_layout p) p) (table_opcodes p))) \<and>
    (\<forall>op. dump_instruction p op =
       Inr (if op \<in> set (table_opcodes p) then opcode_text (text_layout p) p op
            else ''opcode '' @ decimal (unat op) @ '': (no microcode)'' @ [newline])) \<and>
    set (table_opcodes p) = opcode ` {i \<in> set (instructions s). variants i \<noteq> []} \<and>
    (\<forall>i\<in>set (instructions s). \<forall>v st j. v \<in> set (variants i) \<and> variant_matches cpu_status_encoder v st \<and>
       j < length (final_steps (cpu_compiler isa) s v) \<longrightarrow>
       of_nat j \<in> set (status_steps p (opcode i) st) \<and>
       controls_at p (opcode i) st (of_nat j) =
         map ctl_path (filter (\<lambda>k. k \<in> set (controls (final_steps (cpu_compiler isa) s v ! j))) hdl_controls))"
  by (intro conjI allI ballI impI compiled_program_dump [OF assms] compiled_instruction_dump [OF assms]
    compiled_opcodes [OF assms]; elim conjE) (erule (3) compiled_controls_at [OF assms(1)])+

theorem microcode_dump_lists_table_witness:
  "\<exists>text. dump_program example_program = Inr text \<and>
     dump_instruction example_program 7 = Inr (''opcode 7: (no microcode)'' @ [newline])"
proof -
  note d = microcode_dump_lists_table [OF example_program example_preamble]
  have "\<forall>op. dump_instruction example_program op =
       Inr (if op \<in> set (table_opcodes example_program) then opcode_text (text_layout example_program) example_program op
            else ''opcode '' @ decimal (unat op) @ '': (no microcode)'' @ [newline])"
    "\<exists>text. dump_program example_program = Inr text"
    using d [THEN conjunct2, THEN conjunct1] d [THEN conjunct1] by simp_all
  moreover have "7 \<notin> set (table_opcodes example_program)" by (rule example_no_opcode_7)
  moreover have "decimal (unat (7 :: u8)) = ''7''" by code_simp
  ultimately show ?thesis by simp
qed

text \<open>C25 (debug_reader_returns). The reader of debug symbols returns on every file, well-formed or not: its recursive descent never needs more than one unit of fuel per character and one more.\<close>

theorem debug_reader_returns: "\<exists>r. load_debug_symbols path contents = Some r"
  using load_debug_symbols_returns [of path contents] by blast

text \<open>C26 (includes_terminate). When the includes of every file lead to files of a smaller rank, processing returns within the fuel of that rank, and a program that it returns contains no include directive any more.\<close>

theorem includes_terminate:
  assumes "ranked fs rank" and "includes_below fs rank dir program n" and "n \<le> fuel"
  shows "\<exists>r. process_includes fuel fs program dir = Some r \<and>
    (\<forall>result. r = Inr result \<longrightarrow> list_all (\<lambda>s. include_path s = None) result)"
proof -
  obtain r where r: "process_program fuel fs dir program {} = Some r"
    using ranked_includes_return [OF assms] by blast
  show ?thesis
  proof (cases r)
    case (Inl e)
    with r show ?thesis by (simp add: process_includes_def)
  next
    case (Inr p)
    obtain result stack where p: "p = (result, stack)" by fastforce
    with r Inr have run: "process_program fuel fs dir program {} = Some (Inr (result, stack))" by simp
    from process_program_no_include [OF run] show ?thesis by (simp add: process_includes_def run)
  qed
qed

theorem includes_terminate_witness:
  "\<exists>r. process_includes 1 one_include [Directive_Stmt Include [] ''b'' no_span] ''/'' = Some r"
  using includes_terminate [OF one_include_ranked, of "''/''" "[Directive_Stmt Include [] ''b'' no_span]" 1 1]
  by (auto simp: includes_below_def)

text \<open>C27 (circular_includes_never_return). The check for circular includes never fires: when each file of a set starts with an include of a file of the set, processing an include of one of them has no result at any recursion depth, although the code means to report an error.\<close>

theorem circular_includes_never_return:
  assumes "include_cycle fs files" and "include_path s = Some (path, sp)"
    and "fs_canonical fs (path_append dir path) = Some p" and "p \<in> files"
  shows "process_includes fuel fs (s # ss) dir = None"
  unfolding process_includes_def include_cycle_diverges [OF assms] by simp

theorem circular_includes_never_return_witness:
  "process_includes 1000 self_include [Directive_Stmt Include [] ''a'' no_span] ''/'' = None"
  by (rule circular_includes_never_return [OF self_include_cycle])
    (simp_all add: self_include_def)

text \<open>C28 (first_pass_layout). The result of the first pass is well formed: every item is non-empty, starts at or above the entry point and ends at or below the recorded highest address, every label is at or above the entry point, and no label or constant is defined twice.\<close>

theorem first_pass_layout:
  assumes "first_pass isa options program = Inr st"
  shows "first_pass_ok options st"
  by (rule first_pass_result_ok [OF assms])

theorem first_pass_layout_witness: "first_pass_ok example_options example_pass"
  by (rule first_pass_layout [OF example_pass])

text \<open>C29 (main_memory_read_after_write). On a well-formed memory, a write to a RAM address succeeds, the next read of it returns the byte without side effect, and every other RAM address keeps its byte.\<close>

theorem main_memory_read_after_write:
  assumes "memory_wf m" and "mem_ram_addr m a" and "mem_ram_addr m b"
  shows "\<exists>m'. write_at a v m = Inr m' \<and> memory_wf m' \<and>
    read_at b m' = Inr (if b = a then v else mem_peek m b, m')"
proof -
  obtain m' where w: "write_at a v m = Inr m'" "memory_wf m'"
    using main_memory.wr_plain [OF assms(1,2)] by blast
  have "mem_ram_addr m' b" using main_memory.plain_wr [OF assms(1,2) w(1)] assms(3) by simp
  from main_memory.rd_plain [OF w(2) this] w main_memory.peek_wr [OF assms w(1)]
  show ?thesis by simp
qed

theorem main_memory_read_after_write_witness:
  "\<exists>m'. write_at 0x10 7 example_memory = Inr m' \<and> read_at 0x10 m' = Inr (7, m')"
proof -
  have "mem_ram_addr example_memory 0x10" by (simp add: example_memory_def memory_of_ram)
  from main_memory_read_after_write [where v = 7, OF example_memory_wf this this]
  show ?thesis by auto
qed

text \<open>C30 (memory_access_errors). Reads of a well-formed memory never throw; a write throws exactly at an unmapped address or inside a ROM.\<close>

theorem memory_access_errors:
  assumes "memory_wf m"
  shows "is_ok (read_at a m) \<and>
    (is_ok (write_at a v m) \<longleftrightarrow>
      (case find_region m a of None \<Rightarrow> False | Some i \<Rightarrow> \<not> is_rom (region_module (m ! i))))"
  using read_at_ok [OF assms] write_at_writable [OF assms] by (simp add: writable_addr_def)

theorem memory_access_errors_witness:
  "is_ok (write_at 0x10 7 example_memory) \<and> \<not> is_ok (write_at 0x9000 7 example_memory)"
  using memory_access_errors [where a = "0x10" and v = 7, OF example_memory_wf]
    memory_access_errors [where a = "0x9000" and v = 7, OF example_memory_wf]
  by (simp add: example_memory_def memory_of_def contains_ram contains_rom is_rom_def)

text \<open>C31 (line_drawing). Bresenham drawing between any two points terminates, sets both end points to the intensity, changes no pixel off the line (within half a step of it), and leaves every pixel either drawn or as it was.\<close>

theorem line_drawing:
  assumes "framebuffer_wf fb"
  shows "\<exists>fb'. draw_line x0 y0 x1 y1 i fb = Some fb' \<and> framebuffer_wf fb' \<and>
    pixel fb' x0 y0 = i \<and> pixel fb' x1 y1 = i \<and>
    (\<forall>x y. \<not> on_line x0 y0 x1 y1 (x, y) \<longrightarrow> pixel fb' x y = pixel fb x y) \<and>
    (\<forall>x y. pixel fb' x y = i \<or> pixel fb' x y = pixel fb x y)"
  using draw_line_pixels [OF assms] by metis

theorem line_drawing_witness:
  "\<exists>fb'. draw_line 3 4 9 7 2 image_init = Some fb' \<and> pixel fb' 3 4 = 2 \<and> pixel fb' 9 7 = 2"
  using line_drawing [of image_init 3 4 9 7 2] by (auto simp: framebuffer_wf_def image_init_def)

text \<open>C32 (vgc_draws_line). Writing command, coordinates, colour and execute to the registers of the coprocessor issues exactly one line call to the backend, after the calls made before and with the two low bits of the colour; and from every well-formed framebuffer the image backend completes all these calls (whatever the earlier ones were), the last of them the Bresenham loop with these end points, which both have the colour in the image.\<close>

theorem vgc_draws_line:
  "backend_calls (fold (\<lambda>(r, b). vgc_write r b)
      [(0, 3), (1, x0), (2, y0), (3, x1), (4, y1), (5, c), (6, 1)] v) =
     backend_calls v @ [Call_line x0 y0 x1 y1 (c AND 3)] \<and>
   (framebuffer_wf fb \<longrightarrow>
     (\<exists>fb0 fb'. image_calls (backend_calls v) fb = Some fb0 \<and> framebuffer_wf fb0 \<and>
        draw_line x0 y0 x1 y1 (c AND 3) fb0 = Some fb' \<and> framebuffer_wf fb' \<and>
        image_calls (backend_calls (fold (\<lambda>(r, b). vgc_write r b)
          [(0, 3), (1, x0), (2, y0), (3, x1), (4, y1), (5, c), (6, 1)] v)) fb = Some fb' \<and>
        pixel fb' x0 y0 = c AND 3 \<and> pixel fb' x1 y1 = c AND 3))"
  using vgc_exec_line [of x0 y0 x1 y1 c v] image_calls_line [of fb "backend_calls v" x0 y0 x1 y1 "c AND 3"]
  by (simp only: simp_thms) blast

theorem vgc_draws_line_witness:
  "\<exists>fb'. image_calls (backend_calls (fold (\<lambda>(r, b). vgc_write r b)
      [(0, 3), (1, 10), (2, 20), (3, 200), (4, 90), (5, 7), (6, 1)] vgc_init)) image_init = Some fb' \<and>
    pixel fb' 10 20 = 3 \<and> pixel fb' 200 90 = 3"
  using vgc_draws_line [of 10 20 200 90 7 vgc_init image_init] image_init_wf by auto

text \<open>C33 (keyboard_is_fifo). The ring buffer of the input device is a bounded FIFO: up to sixteen injected keys are read back in order, a full queue drops the key.\<close>

theorem keyboard_is_fifo:
  assumes "input_wf d"
  shows "(input_content d = [] \<and> length ks \<le> queue_size \<longrightarrow>
      fst (keyboard.drain (length ks) (fold inject_key ks d)) = ks) \<and>
    (length (input_content d) = queue_size \<longrightarrow> input_content (inject_key k d) = input_content d) \<and>
    input_wf (inject_key k d)"
  using keyboard.fifo_order [OF assms] keyboard.content_enq [OF assms] keyboard.good_enq [OF assms] by auto

theorem keyboard_is_fifo_witness:
  "fst (keyboard.drain (length [0x41, 0x42, 0x43 :: u8]) (fold inject_key [0x41, 0x42, 0x43] input_device_init)) =
     [0x41, 0x42, 0x43]"
proof -
  have d: "input_wf input_device_init" "input_content input_device_init = []"
    by (code_simp, code_simp)
  have len: "length [0x41, 0x42, 0x43 :: u8] \<le> queue_size" by (simp add: queue_size_def)
  show ?thesis by (rule keyboard_is_fifo [THEN conjunct1, THEN mp, OF d(1) conjI [OF d(2) len]])
qed



text \<open>C35 (demo_ends_when_closed). The demo command ends whenever the window is closed in some frame, whatever the program on the cartridge does: with exit code 0, 1 or 2, unless the reader of the cartridge copies past the end of the file, which is undefined in C++ and happens only when the two sizes in its header add up to more than the file has and their sum in 32 bits does not.\<close>

theorem demo_ends_when_closed:
  assumes "Quit_event \<in> set (events m)"
  shows "\<exists>out log. demo_main p files sdl_starts ks events args = Some (out, log) \<and>
    (out \<in> {Exit 0, Exit 1, Exit 2} \<or>
     out = Undefined_Behaviour \<and> (\<exists>a. parse_demo_args args default_demo_options = Inr a \<and>
       cartridge_overruns (files (demo_rom a))))"
  by (rule demo_main_returns [of events m]) (rule assms)

theorem demo_ends_when_closed_witness:
  "\<exists>result out log. encode example_pass example_options ''f'' = Inr result \<and>
    demo_main example_program (\<lambda>f. if f = ''c'' then Some (write_cartridge result) else None) True example_keys
      (\<lambda>n. if n = 3 then [Other_event, Quit_event] else []) [''--fps'', ''60'', ''--rom'', ''c''] = Some (out, log)"
proof -
  obtain result where r: "encode example_pass example_options ''f'' = Inr result"
    using example_encodes by (rule is_okE)
  let ?events = "\<lambda>n. if n = (3 :: nat) then [Other_event, Quit_event] else []"
  have "Quit_event \<in> set (?events 3)" by simp
  from demo_ends_when_closed [of ?events 3, OF this] r show ?thesis by blast
qed

text \<open>C36 (alu_addition). ADC adds both operands and the carry modulo 256; the carry flag is the unsigned overflow and the overflow flag the signed overflow of the three-operand sum.\<close>

theorem alu_addition:
  "unat (fst (alu_exec 1 l r (x, st))) = (unat l + unat r + carry_nat st) mod 256 \<and>
   (status_value Carry (snd (alu_exec 1 l r (x, st))) \<longleftrightarrow> 256 \<le> unat l + unat r + carry_nat st) \<and>
   (status_value Overflow (snd (alu_exec 1 l r (x, st))) \<longleftrightarrow>
      sint l + sint r + int (carry_nat st) < -128 \<or> 127 < sint l + sint r + int (carry_nat st))"
  by (simp only: alu_add_result alu_add_carry alu_add_overflow simp_thms)

text \<open>C37 (alu_subtraction). SBC subtracts with borrow modulo 256 and its carry is the absence of a borrow; the overflow flag keeps its old value, unlike addition.\<close>

theorem alu_subtraction:
  "int (unat (fst (alu_exec 2 l r (x, st)))) =
     (int (unat l) - int (unat r) - (1 - int (carry_nat st))) mod 256 \<and>
   (status_value Carry (snd (alu_exec 2 l r (x, st))) \<longleftrightarrow> unat r + (1 - carry_nat st) \<le> unat l) \<and>
   status_value Overflow (snd (alu_exec 2 l r (x, st))) = status_value Overflow st"
  by (simp only: alu_sub_result alu_sub_carry alu_sub_overflow_kept simp_thms)

text \<open>C38 (simulator_matches_schematic). The simulator registers its 95 controls in exactly the order in which the visitor of the schematic meets them. The index of controls accepts a list exactly when no two of its paths are equal, so it accepts these; the validation of the constructor against the schematic then succeeds on the registered paths, it would accept only lists that start with the 95 paths of the schematic in their order, and every path resolves to its control.\<close>

theorem simulator_matches_schematic:
  "node_controls sim_children = hdl_controls \<and> length hdl_controls = 95 \<and>
   distinct (map ctl_path hdl_controls) \<and>
   (\<forall>ks. is_ok (index_controls ks []) \<longleftrightarrow> distinct (map ctl_path ks)) \<and>
   (\<exists>idx. index_controls (node_controls sim_children) [] = Inr idx \<and>
     validate_against_hdl idx (map ctl_path (node_controls sim_children)) (map ctl_path hdl_controls) = Inr () \<and>
     (\<forall>paths. validate_against_hdl idx paths (map ctl_path hdl_controls) = Inr () \<longleftrightarrow>
        take 95 paths = map ctl_path hdl_controls) \<and>
     list_all (\<lambda>k. resolve_control idx (ctl_path k) = Inr k) hdl_controls)"
  using index_hdl_controls resolve_indexed [OF distinct_hdl_control_paths]
  by (auto simp: sim_control_order distinct_hdl_control_paths length_hdl_controls validate_against_hdl_iff
    index_controls_ok_iff image_image list_all_iff)

text \<open>C39 (sequencing_validates). Whatever the instruction set, the sequence transformer produces one the sequence validator accepts; and on every set that the validator accepts, whether the transformer made it or not, the empty-step and step-merging optimizers change no instruction.\<close>

theorem sequencing_validates:
  "sequence_validator (Ctl Sc Increment) (Ctl Sc Reset)
     (sequence_transformer (Ctl Sc Increment) (Ctl Sc Reset) s) = Inr () \<and>
   (\<forall>t. sequence_validator (Ctl Sc Increment) (Ctl Sc Reset) t = Inr () \<longrightarrow>
     instructions (empty_step_optimizer t) = instructions t \<and>
     instructions (step_merging_optimizer t) = instructions t)"
  using sequence_transformer_validates empty_step_optimizer_sequenced step_merging_optimizer_sequenced
  by simp

theorem sequencing_validates_witness:
  "instructions (empty_step_optimizer example_final) = instructions example_final \<and>
   instructions (step_merging_optimizer example_final) = instructions example_final"
  using sequencing_validates [of example_source] example_validators(12) by blast

text \<open>C40 (address_arithmetic). The byte-wise add_offset of the memory address register is 16-bit addition, and a branch adds the sign-extended offset to the program counter modulo 2^16.\<close>

theorem address_arithmetic:
  "mar_add_offset off w = w + ucast off \<and>
   uint (add_signed_offset off pc) = (uint pc + sint off) mod 65536"
  by (simp add: mar_add_offset_eq add_signed_offset_eq)

end
